(* ===== verification/Prelude.thy ===== *)
theory Prelude
  imports Main "HOL-Library.Word"
begin

text \<open>
  Shared vocabulary of the development: the machine integers of the Rust sources as words,
  the three-way outcome of a Rust call (a value, an error value, a panic), big-endian byte
  encodings, and the generic list and word lemmas the component theories rely on.

  The collections declared here carry the component proofs:
  \<^item> \<open>wire_simps\<close>: round trips and lengths of the byte encodings;
  \<^item> \<open>outcome_simps\<close>: the algebra of \<open>outcome_bind\<close>.
\<close>

unbundle bit_operations_syntax

named_theorems wire_simps
named_theorems outcome_simps

section \<open>Machine integers\<close>

type_synonym u8 = "8 word"
type_synonym u16 = "16 word"
type_synonym u32 = "32 word"
type_synonym u64 = "64 word"
type_synonym byte = u8
type_synonym bytes = "byte list"

text \<open>
  A Rust \<open>String\<close> is a sequence of bytes that is valid UTF-8; \<open>len()\<close> counts bytes.
  It is modelled by its bytes, and a literal is written \<open>str ''abc''\<close>.
\<close>

type_synonym rust_string = bytes

definition str :: "string \<Rightarrow> rust_string" where
  "str s = map of_char s"

lemma str_simps [simp]:
  "str [] = []" "str (c # cs) = of_char c # str cs" "str (a @ b) = str a @ str b"
  by (simp_all add: str_def)

lemma length_str [simp]: "length (str s) = length s"
  by (simp add: str_def)

lemma unat_u8_less [simp]: "unat (b :: u8) < 256"
  using unsigned_less [of b, where 'a = nat] by simp

lemma unat_u16_less [simp]: "unat (w :: u16) < 65536"
  using unsigned_less [of w, where 'a = nat] by simp

lemma unat_of_nat_u8: "n < 256 \<Longrightarrow> unat (of_nat n :: u8) = n"
  by (simp add: unat_of_nat)

lemma unat_of_nat_u16: "n < 65536 \<Longrightarrow> unat (of_nat n :: u16) = n"
  by (simp add: unat_of_nat)

section \<open>Outcomes of Rust calls\<close>

text \<open>
  A call returns \<open>Ok v\<close>, returns \<open>Err e\<close>, or panics (an index out of range, a slice
  length mismatch, an \<open>unwrap\<close> of \<open>None\<close>). The \<open>?\<close> operator is \<open>outcome_bind\<close>.
\<close>

datatype ('e, 'a) outcome = Ok 'a | Err 'e | Panic

definition outcome_bind :: "('e, 'a) outcome \<Rightarrow> ('a \<Rightarrow> ('e, 'b) outcome) \<Rightarrow> ('e, 'b) outcome" where
  "outcome_bind m f = (case m of Ok v \<Rightarrow> f v | Err e \<Rightarrow> Err e | Panic \<Rightarrow> Panic)"

definition ok_or :: "'e \<Rightarrow> 'a option \<Rightarrow> ('e, 'a) outcome" where
  "ok_or e m = (case m of Some v \<Rightarrow> Ok v | None \<Rightarrow> Err e)"

definition is_ok :: "('e, 'a) outcome \<Rightarrow> bool" where
  "is_ok m = (case m of Ok _ \<Rightarrow> True | _ \<Rightarrow> False)"

lemma outcome_bind_simps [simp, outcome_simps]:
  "outcome_bind (Ok v) f = f v"
  "outcome_bind (Err e) f = Err e"
  "outcome_bind Panic f = Panic"
  by (simp_all add: outcome_bind_def)

lemma ok_or_simps [simp, outcome_simps]:
  "ok_or e (Some v) = Ok v" "ok_or e None = Err e"
  by (simp_all add: ok_or_def)

lemma is_ok_simps [simp, outcome_simps]:
  "is_ok (Ok v)" "\<not> is_ok (Err e)" "\<not> is_ok Panic"
  by (simp_all add: is_ok_def)

lemma outcome_bind_Ok_iff [outcome_simps]:
  "outcome_bind m f = Ok y \<longleftrightarrow> (\<exists>x. m = Ok x \<and> f x = Ok y)"
  by (cases m) auto

lemma outcome_bind_Panic_iff [outcome_simps]:
  "outcome_bind m f = Panic \<longleftrightarrow> m = Panic \<or> (\<exists>x. m = Ok x \<and> f x = Panic)"
  by (cases m) auto

lemma ok_or_Ok_iff [outcome_simps]: "ok_or e m = Ok y \<longleftrightarrow> m = Some y"
  by (cases m) auto

lemma ok_or_not_Panic [simp, outcome_simps]: "ok_or e m \<noteq> Panic"
  by (cases m) auto

lemma is_ok_iff: "is_ok m \<longleftrightarrow> (\<exists>v. m = Ok v)"
  by (cases m) auto

section \<open>Slices\<close>

text \<open>
  \<open>xs[a..b]\<close>. The source indexes and slices only under explicit length checks in most
  places; where it does not, the model tests the range first and answers \<open>Panic\<close>.
\<close>

definition slice :: "nat \<Rightarrow> nat \<Rightarrow> 'a list \<Rightarrow> 'a list" where
  "slice a b xs = take (b - a) (drop a xs)"

lemma length_slice: "length (slice a b xs) = min (b - a) (length xs - a)"
  by (simp add: slice_def min.commute)

lemma length_slice_le [simp]: "a \<le> b \<Longrightarrow> b \<le> length xs \<Longrightarrow> length (slice a b xs) = b - a"
  by (simp add: slice_def)

lemma four_le_length:
  "4 \<le> length xs \<Longrightarrow> \<exists>a b c d r. xs = a # b # c # d # r"
  by (auto simp: numeral_eq_Suc Suc_le_length_iff)

lemma take_four: "take (4 + n) (a # b # c # d # r) = a # b # c # d # take n r"
  by (simp add: eval_nat_numeral)

text \<open>Checked indexing: \<open>xs[i]\<close> and \<open>xs[a..b]\<close>, which panic out of range.\<close>

definition at :: "'a list \<Rightarrow> nat \<Rightarrow> ('e, 'a) outcome" where
  "at xs i = (if i < length xs then Ok (xs ! i) else Panic)"

definition sub :: "'a list \<Rightarrow> nat \<Rightarrow> nat \<Rightarrow> ('e, 'a list) outcome" where
  "sub xs a b = (if a \<le> b \<and> b \<le> length xs then Ok (slice a b xs) else Panic)"

lemma at_Ok [simp]: "i < length xs \<Longrightarrow> at xs i = Ok (xs ! i)"
  by (simp add: at_def)

lemma sub_Ok [simp]: "a \<le> b \<Longrightarrow> b \<le> length xs \<Longrightarrow> sub xs a b = Ok (slice a b xs)"
  by (simp add: sub_def)

section \<open>Big-endian encodings\<close>

text \<open>\<open>uN::to_be_bytes\<close> and \<open>uN::from_be_bytes\<close> of the Rust standard library.\<close>

definition be16 :: "u16 \<Rightarrow> bytes" where
  "be16 w = [ucast (drop_bit 8 w), ucast w]"

definition be32 :: "u32 \<Rightarrow> bytes" where
  "be32 w = [ucast (drop_bit 24 w), ucast (drop_bit 16 w), ucast (drop_bit 8 w), ucast w]"

definition be64 :: "u64 \<Rightarrow> bytes" where
  "be64 w = be32 (ucast (drop_bit 32 w)) @ be32 (ucast w)"

definition from_be16 :: "byte \<Rightarrow> byte \<Rightarrow> u16" where
  "from_be16 a b = push_bit 8 (ucast a) OR ucast b"

definition from_be24 :: "byte \<Rightarrow> byte \<Rightarrow> byte \<Rightarrow> nat" where
  "from_be24 a b c = unat a * 65536 + unat b * 256 + unat c"

definition from_be32 :: "byte \<Rightarrow> byte \<Rightarrow> byte \<Rightarrow> byte \<Rightarrow> u32" where
  "from_be32 a b c d =
     push_bit 24 (ucast a) OR push_bit 16 (ucast b) OR push_bit 8 (ucast c) OR ucast d"

definition from_be64 :: "bytes \<Rightarrow> u64" where
  "from_be64 bs =
     push_bit 32 (ucast (from_be32 (bs ! 0) (bs ! 1) (bs ! 2) (bs ! 3)))
     OR ucast (from_be32 (bs ! 4) (bs ! 5) (bs ! 6) (bs ! 7))"

text \<open>\<open>u16::from_be_bytes([xs[i], xs[i + 1]])\<close>.\<close>

definition be16_at :: "bytes \<Rightarrow> nat \<Rightarrow> ('e, u16) outcome" where
  "be16_at xs i = outcome_bind (at xs i) (\<lambda>a. outcome_bind (at xs (i + 1)) (\<lambda>b. Ok (from_be16 a b)))"

lemma be16_at_Ok [simp]: "i + 1 < length xs \<Longrightarrow> be16_at xs i = Ok (from_be16 (xs ! i) (xs ! (i + 1)))"
  by (simp add: be16_at_def)

lemma length_be [simp, wire_simps]:
  "length (be16 w) = 2" "length (be32 v) = 4" "length (be64 x) = 8"
  by (simp_all add: be16_def be32_def be64_def)

lemma from_be16_be16 [simp, wire_simps]: "from_be16 (be16 w ! 0) (be16 w ! Suc 0) = w"
  unfolding from_be16_def be16_def
  by (rule bit_word_eqI) (auto simp: bit_simps)

lemma from_be32_be32 [simp, wire_simps]:
  "from_be32 (be32 w ! 0) (be32 w ! Suc 0) (be32 w ! 2) (be32 w ! 3) = w"
proof (rule bit_word_eqI)
  fix n assume "n < LENGTH(32)"
  then consider "n < 8" | "8 \<le> n" "n < 16" | "16 \<le> n" "n < 24" | "24 \<le> n" "n < 32"
    by fastforce
  then show "bit (from_be32 (be32 w ! 0) (be32 w ! Suc 0) (be32 w ! 2) (be32 w ! 3)) n = bit w n"
    by cases (auto simp: from_be32_def be32_def bit_simps)
qed

lemma be16_from_be16 [simp, wire_simps]: "be16 (from_be16 a b) = [a, b]"
proof -
  have "ucast (drop_bit 8 (from_be16 a b)) = a"
    unfolding from_be16_def by (rule bit_word_eqI) (auto simp: bit_simps dest: bit_imp_le_length)
  moreover have "ucast (from_be16 a b) = b"
    unfolding from_be16_def by (rule bit_word_eqI) (auto simp: bit_simps)
  ultimately show ?thesis by (simp add: be16_def)
qed

lemma from_be64_be64 [simp, wire_simps]: "from_be64 (be64 w) = w"
proof -
  have "from_be64 (be64 w) =
      push_bit 32 (ucast (ucast (drop_bit 32 w) :: u32)) OR ucast (ucast w :: u32)"
    unfolding from_be64_def be64_def
    using from_be32_be32 [of "ucast (drop_bit 32 w)"] from_be32_be32 [of "ucast w"]
    by (simp add: nth_append)
  also have "\<dots> = w"
    by (rule bit_word_eqI) (auto simp: bit_simps)
  finally show ?thesis .
qed

lemma be32_from_be32 [simp, wire_simps]: "be32 (from_be32 a b c d) = [a, b, c, d]"
proof -
  have "ucast (drop_bit 24 (from_be32 a b c d)) = a" "ucast (drop_bit 16 (from_be32 a b c d)) = b"
    "ucast (drop_bit 8 (from_be32 a b c d)) = c" "ucast (from_be32 a b c d) = d"
    unfolding from_be32_def by (rule bit_word_eqI; auto simp: bit_simps dest: bit_imp_le_length)+
  then show ?thesis by (simp add: be32_def)
qed

lemma be64_from_be64 [wire_simps]:
  assumes "length bs = 8"
  shows "be64 (from_be64 bs) = bs"
proof -
  obtain a b c d e f g h where bs: "bs = [a, b, c, d, e, f, g, h]"
    using assms by (auto simp: length_Suc_conv numeral_eq_Suc)
  have "ucast (drop_bit 32 (push_bit 32 (ucast x) OR ucast y :: u64)) = x" "ucast (push_bit 32 (ucast x) OR ucast y :: u64) = y"
    for x y :: u32
    by (rule bit_word_eqI; auto simp: bit_simps dest: bit_imp_le_length)+
  then show ?thesis by (simp add: bs be64_def from_be64_def)
qed

section \<open>Reading at a position\<close>

text \<open>Checked accesses into a buffer that is known up to the position.\<close>

lemma at_append: "length a = i \<Longrightarrow> at (a @ x # r) i = Ok x"
  by (auto simp: at_def nth_append)

lemma sub_append: "length a = i \<Longrightarrow> i + length m = j \<Longrightarrow> sub (a @ m @ r) i j = Ok m"
  by (auto simp: sub_def slice_def)

lemma be16_at_append: "length a = i \<Longrightarrow> be16_at (a @ be16 w @ r) i = Ok w"
  using from_be16_be16 [of w] by (auto simp: be16_at_def at_def nth_append)

end
