(* ===== verification/Rust_Text.thy ===== *)
theory Rust_Text
  imports Prelude
begin

text \<open>
  The parts of the Rust standard library's text handling that the sources call:
  \<open>str::from_utf8\<close> validation, ASCII case folding, decimal and hexadecimal display of
  unsigned integers, and the textual form of IPv4 addresses (\<open>Display\<close> and
  \<open>FromStr\<close>). Strings are the byte sequences of \<open>Prelude\<close>.
\<close>

section \<open>UTF-8 validation\<close>

definition utf8_cont :: "byte \<Rightarrow> bool" where
  "utf8_cont c \<longleftrightarrow> 0x80 \<le> c \<and> c \<le> 0xBF"

text \<open>The second byte of a three-byte and of a four-byte sequence is restricted by the first.\<close>

definition utf8_second3 :: "byte \<Rightarrow> byte \<Rightarrow> bool" where
  "utf8_second3 b c \<longleftrightarrow>
     (if b = 0xE0 then 0xA0 \<le> c \<and> c \<le> 0xBF
      else if b = 0xED then 0x80 \<le> c \<and> c \<le> 0x9F
      else utf8_cont c)"

definition utf8_second4 :: "byte \<Rightarrow> byte \<Rightarrow> bool" where
  "utf8_second4 b c \<longleftrightarrow>
     (if b = 0xF0 then 0x90 \<le> c \<and> c \<le> 0xBF
      else if b = 0xF4 then 0x80 \<le> c \<and> c \<le> 0x8F
      else utf8_cont c)"

fun utf8_valid :: "bytes \<Rightarrow> bool" where
  "utf8_valid [] = True"
| "utf8_valid (b # bs) =
     (if b < 0x80 then utf8_valid bs
      else if 0xC2 \<le> b \<and> b \<le> 0xDF then
        (case bs of c # r \<Rightarrow> utf8_cont c \<and> utf8_valid r | _ \<Rightarrow> False)
      else if 0xE0 \<le> b \<and> b \<le> 0xEF then
        (case bs of c # d # r \<Rightarrow> utf8_second3 b c \<and> utf8_cont d \<and> utf8_valid r | _ \<Rightarrow> False)
      else if 0xF0 \<le> b \<and> b \<le> 0xF4 then
        (case bs of c # d # e # r \<Rightarrow>
           utf8_second4 b c \<and> utf8_cont d \<and> utf8_cont e \<and> utf8_valid r | _ \<Rightarrow> False)
      else False)"

text \<open>\<open>String::from_utf8\<close> and \<open>str::from_utf8\<close>: the bytes themselves, when valid.\<close>

definition from_utf8 :: "bytes \<Rightarrow> rust_string option" where
  "from_utf8 bs = (if utf8_valid bs then Some bs else None)"

declare utf8_valid.simps(2) [simp del]

lemma utf8_valid_ascii_Cons [simp]: "b < 0x80 \<Longrightarrow> utf8_valid (b # bs) = utf8_valid bs"
  by (simp add: utf8_valid.simps(2))

lemma utf8_valid_ascii: "list_all (\<lambda>b. b < 0x80) bs \<Longrightarrow> utf8_valid bs"
  by (induction bs) auto

lemma utf8_valid_append: "utf8_valid a \<Longrightarrow> utf8_valid b \<Longrightarrow> utf8_valid (a @ b)"
proof (induction a rule: utf8_valid.induct)
  case (2 x bs)
  note step = utf8_valid.simps(2) [of x bs] utf8_valid.simps(2) [of x "bs @ b"]
  show ?case
  proof (cases bs)
    case Nil
    with 2 step show ?thesis by (simp split: if_splits)
  next
    case b1: (Cons y bs1)
    show ?thesis
    proof (cases bs1)
      case Nil
      with 2 b1 step show ?thesis by (simp split: if_splits)
    next
      case b2: (Cons z bs2)
      then show ?thesis using 2 b1 step by (cases bs2) (auto split: if_splits)
    qed
  qed
qed simp

lemma from_utf8_Some [simp]: "from_utf8 bs = Some s \<longleftrightarrow> utf8_valid bs \<and> s = bs"
  by (auto simp: from_utf8_def)

section \<open>ASCII case folding\<close>

definition to_ascii_lowercase1 :: "byte \<Rightarrow> byte" where
  "to_ascii_lowercase1 b = (if 0x41 \<le> b \<and> b \<le> 0x5A then b + 0x20 else b)"

definition to_ascii_lowercase :: "rust_string \<Rightarrow> rust_string" where
  "to_ascii_lowercase s = map to_ascii_lowercase1 s"

lemma to_ascii_lowercase1_idem [simp]:
  "to_ascii_lowercase1 (to_ascii_lowercase1 b) = to_ascii_lowercase1 b"
proof (cases "0x41 \<le> b \<and> b \<le> 0x5A")
  case True
  then have "unat (b + 0x20) = unat b + 32"
    by (simp add: unat_word_ariths word_le_nat_alt)
  with True show ?thesis
    by (simp add: to_ascii_lowercase1_def word_le_nat_alt)
qed (auto simp: to_ascii_lowercase1_def)

lemma to_ascii_lowercase_idem [simp]:
  "to_ascii_lowercase (to_ascii_lowercase s) = to_ascii_lowercase s"
  by (simp add: to_ascii_lowercase_def)

lemma to_ascii_lowercase_append [simp]:
  "to_ascii_lowercase (a @ b) = to_ascii_lowercase a @ to_ascii_lowercase b"
  by (simp add: to_ascii_lowercase_def)

lemma length_to_ascii_lowercase [simp]: "length (to_ascii_lowercase s) = length s"
  by (simp add: to_ascii_lowercase_def)

section \<open>Decimal and hexadecimal display\<close>

fun show_nat :: "nat \<Rightarrow> rust_string" where
  "show_nat n = (if n < 10 then [of_nat (48 + n)] else show_nat (n div 10) @ [of_nat (48 + n mod 10)])"

declare show_nat.simps [simp del]

definition hex_digit :: "nat \<Rightarrow> byte" where
  "hex_digit n = (if n < 10 then of_nat (48 + n) else of_nat (87 + n))"

text \<open>\<open>hex::encode\<close>: two lower-case digits per byte.\<close>

definition hex_encode :: "bytes \<Rightarrow> rust_string" where
  "hex_encode bs = concat (map (\<lambda>b. [hex_digit (unat b div 16), hex_digit (unat b mod 16)]) bs)"

definition hex_value :: "byte \<Rightarrow> nat option" where
  "hex_value c =
     (if 48 \<le> c \<and> c \<le> 57 then Some (unat c - 48)
      else if 97 \<le> c \<and> c \<le> 102 then Some (unat c - 87)
      else if 65 \<le> c \<and> c \<le> 70 then Some (unat c - 55)
      else None)"

text \<open>\<open>hex::decode\<close>: an even number of hexadecimal digits of either case.\<close>

fun hex_decode :: "rust_string \<Rightarrow> bytes option" where
  "hex_decode [] = Some []"
| "hex_decode [c] = None"
| "hex_decode (c # d # cs) =
     (case (hex_value c, hex_value d) of
        (Some h, Some l) \<Rightarrow> map_option (\<lambda>r. of_nat (16 * h + l) # r) (hex_decode cs)
      | _ \<Rightarrow> None)"

lemma hex_value_digit: "n < 16 \<Longrightarrow> hex_value (hex_digit n) = Some n"
  by (auto simp: hex_value_def hex_digit_def word_le_nat_alt unat_of_nat_u8 simp del: of_nat_add)

lemma length_hex_encode [simp]: "length (hex_encode bs) = 2 * length bs"
  by (induction bs) (auto simp: hex_encode_def)

lemma hex_decode_encode [simp]: "hex_decode (hex_encode bs) = Some bs"
proof (induction bs)
  case Nil
  then show ?case by (simp add: hex_encode_def)
next
  case (Cons b bs)
  have "unat b div 16 < 16" "unat b mod 16 < 16"
    using unat_u8_less [of b] by linarith+
  then have "hex_value (hex_digit (unat b div 16)) = Some (unat b div 16)"
    and "hex_value (hex_digit (unat b mod 16)) = Some (unat b mod 16)"
    by (simp_all add: hex_value_digit)
  moreover have "hex_decode (hex_encode bs) = Some bs" by (rule Cons.IH)
  ultimately show ?case by (simp add: hex_encode_def)
qed

lemma hex_encode_inj: "hex_encode a = hex_encode b \<Longrightarrow> a = b"
  by (metis hex_decode_encode option.inject)

section \<open>IPv4 addresses\<close>

datatype ipv4_addr = Ipv4Addr byte byte byte byte

fun ipv4_octets :: "ipv4_addr \<Rightarrow> bytes" where
  "ipv4_octets (Ipv4Addr a b c d) = [a, b, c, d]"

abbreviation dot :: byte where "dot \<equiv> 0x2E"

fun show_ipv4 :: "ipv4_addr \<Rightarrow> rust_string" where
  "show_ipv4 (Ipv4Addr a b c d) =
     show_nat (unat a) @ [dot] @ show_nat (unat b) @ [dot] @ show_nat (unat c) @ [dot] @ show_nat (unat d)"

definition is_digit :: "byte \<Rightarrow> bool" where
  "is_digit c \<longleftrightarrow> 48 \<le> c \<and> c \<le> 57"

text \<open>
  \<open>Parser::read_number(10, Some(3), false)\<close> at type \<open>u8\<close>: one to three digits, no leading
  zero on a longer number, a value below 256.
\<close>

definition read_octet :: "rust_string \<Rightarrow> (byte \<times> rust_string) option" where
  "read_octet s =
     (let ds = takeWhile is_digit s;
          v = foldl (\<lambda>v c. 10 * v + (unat c - 48)) 0 ds
      in if ds = [] \<or> length ds > 3 \<or> (hd ds = 48 \<and> length ds > 1) \<or> v > 255 then None
         else Some (of_nat v, dropWhile is_digit s))"

definition read_dot :: "rust_string \<Rightarrow> rust_string option" where
  "read_dot s = (case s of [] \<Rightarrow> None | c # r \<Rightarrow> if c = dot then Some r else None)"

text \<open>\<open>Parser::read_ipv4_addr\<close>: the address and the rest of the input.\<close>

definition read_ipv4 :: "rust_string \<Rightarrow> (ipv4_addr \<times> rust_string) option" where
  "read_ipv4 s =
     Option.bind (read_octet s) (\<lambda>(a, s). Option.bind (read_dot s) (\<lambda>s.
     Option.bind (read_octet s) (\<lambda>(b, s). Option.bind (read_dot s) (\<lambda>s.
     Option.bind (read_octet s) (\<lambda>(c, s). Option.bind (read_dot s) (\<lambda>s.
     Option.bind (read_octet s) (\<lambda>(d, s). Some (Ipv4Addr a b c d, s))))))))"

text \<open>\<open>str::parse::<Ipv4Addr>\<close>: the whole input is one address.\<close>

definition parse_ipv4 :: "rust_string \<Rightarrow> ipv4_addr option" where
  "parse_ipv4 s = (case read_ipv4 s of Some (ip, []) \<Rightarrow> Some ip | _ \<Rightarrow> None)"

lemma show_nat_small:
  assumes "n < 1000"
  shows "show_nat n =
     (if n < 10 then [of_nat (48 + n)]
      else if n < 100 then [of_nat (48 + n div 10), of_nat (48 + n mod 10)]
      else [of_nat (48 + n div 100), of_nat (48 + n div 10 mod 10), of_nat (48 + n mod 10)])"
proof -
  have 1: "m < 10 \<Longrightarrow> show_nat m = [of_nat (48 + m)]" for m
    by (subst show_nat.simps) simp
  have 2: "\<not> m < 10 \<Longrightarrow> show_nat m = show_nat (m div 10) @ [of_nat (48 + m mod 10)]" for m
    by (subst show_nat.simps) simp
  have "n div 10 div 10 = n div 100" by (simp add: div_mult2_eq [symmetric])
  moreover have "n div 100 < 10" using assms by auto
  ultimately show ?thesis using 1 2 [of n] 2 [of "n div 10"]
    by (cases "n < 10"; cases "n < 100") (auto simp del: of_nat_add)
qed

lemma digit_char [simp]:
  "d < 10 \<Longrightarrow> is_digit (of_nat (48 + d))" "d < 10 \<Longrightarrow> unat (of_nat (48 + d) :: byte) = 48 + d"
  by (simp_all add: is_digit_def word_le_nat_alt unat_of_nat_u8 del: of_nat_add)

lemma digit_char_nonzero:
  assumes "0 < d" "d < 10"
  shows "of_nat (48 + d) \<noteq> (48 :: byte)"
proof
  assume "of_nat (48 + d) = (48 :: byte)"
  then have "unat (of_nat (48 + d) :: byte) = unat (48 :: byte)" by (rule arg_cong)
  with assms show False by (simp del: of_nat_add)
qed

abbreviation digit_chars :: "nat list \<Rightarrow> rust_string" where
  "digit_chars ds \<equiv> map (\<lambda>d. of_nat (48 + d)) ds"

lemma digit_chars_foldl:
  "list_all (\<lambda>d. d < 10) ds \<Longrightarrow>
     foldl (\<lambda>v c. 10 * v + (unat c - 48)) v (digit_chars ds) = foldl (\<lambda>v d. 10 * v + d) v ds"
  by (induction ds arbitrary: v) (simp_all del: of_nat_add)

lemma digit_chars_all: "list_all (\<lambda>d. d < 10) ds \<Longrightarrow> list_all is_digit (digit_chars ds)"
  by (induction ds) (simp_all del: of_nat_add)

lemma read_octet_digits:
  assumes ds: "ds \<noteq> []" "length ds \<le> 3" "list_all (\<lambda>d. d < 10) ds"
    and lead: "length ds > 1 \<Longrightarrow> 0 < hd ds"
    and val: "foldl (\<lambda>v d. 10 * v + d) 0 ds \<le> 255"
    and rest: "r = [] \<or> \<not> is_digit (hd r)"
  shows "read_octet (digit_chars ds @ r) = Some (of_nat (foldl (\<lambda>v d. 10 * v + d) 0 ds), r)"
proof -
  have all: "\<forall>c \<in> set (digit_chars ds). is_digit c"
    using digit_chars_all [OF ds(3)] by (simp only: list_all_iff)
  have tw: "takeWhile is_digit r = []" "dropWhile is_digit r = r"
    using rest by (cases r; simp)+
  have take: "takeWhile is_digit (digit_chars ds @ r) = digit_chars ds"
    using takeWhile_append2 [of "digit_chars ds" is_digit r] all tw by simp
  have drop: "dropWhile is_digit (digit_chars ds @ r) = r"
    using dropWhile_append2 [of "digit_chars ds" is_digit r] all tw by simp
  have "\<not> (hd (digit_chars ds) = 48 \<and> length (digit_chars ds) > 1)"
  proof
    assume h: "hd (digit_chars ds) = 48 \<and> length (digit_chars ds) > 1"
    then have "0 < hd ds" using lead by simp
    moreover have "hd ds < 10" using ds(1,3) by (cases ds) auto
    ultimately show False using h ds(1) digit_char_nonzero [of "hd ds"] by (simp add: hd_map)
  qed
  then show ?thesis
    using ds val unfolding read_octet_def Let_def take drop digit_chars_foldl [OF ds(3)]
    by (simp only: length_map map_is_Nil_conv not_less simp_thms if_False) auto
qed

lemma read_octet_show:
  assumes "r = [] \<or> \<not> is_digit (hd r)"
  shows "read_octet (show_nat (unat b) @ r) = Some (b, r)"
proof -
  define n where "n = unat b"
  have lt: "n < 256" and b: "b = of_nat n" by (simp_all add: n_def)
  define ds where "ds = (if n < 10 then [n] else if n < 100 then [n div 10, n mod 10]
      else [n div 100, n div 10 mod 10, n mod 10])"
  have "n div 10 div 10 = n div 100" by (simp add: div_mult2_eq [symmetric])
  then have val: "foldl (\<lambda>v d. 10 * v + d) 0 ds = n"
    using mult_div_mod_eq [of 10 n] mult_div_mod_eq [of 10 "n div 10"] by (simp add: ds_def)
  have "show_nat n = digit_chars ds"
    using lt by (simp add: show_nat_small ds_def)
  moreover have "list_all (\<lambda>d. d < 10) ds" "length ds > 1 \<Longrightarrow> 0 < hd ds"
    using lt by (auto simp: ds_def less_mult_imp_div_less)
  moreover have "ds \<noteq> []" "length ds \<le> 3" by (simp_all add: ds_def)
  ultimately have "read_octet (show_nat n @ r) = Some (of_nat n, r)"
    using read_octet_digits [of ds r] assms val lt by simp
  then show ?thesis by (simp add: n_def)
qed

lemma parse_show_ipv4 [simp]: "parse_ipv4 (show_ipv4 ip) = Some ip"
proof (cases ip)
  case (Ipv4Addr a b c d)
  have "\<not> is_digit dot" by (simp add: is_digit_def)
  then show ?thesis
    using read_octet_show [of "[]" d]
    by (simp add: Ipv4Addr parse_ipv4_def read_ipv4_def read_octet_show read_dot_def)
qed

end
