(* ===== verification/Rust_Net.thy ===== *)
theory Rust_Net
  imports Rust_Text
begin

text \<open>
  \<open>std::net\<close>: IPv6 addresses by their sixteen octets, with the \<open>Display\<close> form of the
  standard library (the longest run of at least two zero groups written \<open>::\<close>, IPv4-mapped
  addresses in dotted form), and socket addresses.
\<close>

section \<open>IPv6 addresses\<close>

datatype ipv6_addr = Ipv6Addr (ipv6_octets: bytes)

fun ipv6_wf :: "ipv6_addr \<Rightarrow> bool" where
  "ipv6_wf (Ipv6Addr os) = (length os = 16)"

fun segments_of :: "bytes \<Rightarrow> u16 list" where
  "segments_of (a # b # r) = from_be16 a b # segments_of r"
| "segments_of _ = []"

definition ipv6_segments :: "ipv6_addr \<Rightarrow> u16 list" where
  "ipv6_segments ip = segments_of (ipv6_octets ip)"

fun show_hex_nat :: "nat \<Rightarrow> rust_string" where
  "show_hex_nat n = (if n < 16 then [hex_digit n] else show_hex_nat (n div 16) @ [hex_digit (n mod 16)])"

declare show_hex_nat.simps [simp del]

abbreviation colon :: byte where "colon \<equiv> 0x3A"

text \<open>
  The longest run of zero groups: the start and length of the best run so far and of the
  current run, in one pass over the groups from index \<open>i\<close>.
\<close>

fun zero_span :: "nat \<Rightarrow> nat \<times> nat \<Rightarrow> nat \<times> nat \<Rightarrow> u16 list \<Rightarrow> nat \<times> nat" where
  "zero_span i longest current [] = longest"
| "zero_span i longest current (s # ss) =
     (if s = 0 then
        let cur = (if snd current = 0 then (i, 1) else (fst current, snd current + 1))
        in zero_span (Suc i) (if snd cur > snd longest then cur else longest) cur ss
      else zero_span (Suc i) longest (0, 0) ss)"

fun fmt_subslice :: "u16 list \<Rightarrow> rust_string" where
  "fmt_subslice [] = []"
| "fmt_subslice [s] = show_hex_nat (unat s)"
| "fmt_subslice (s # t # ss) = show_hex_nat (unat s) @ [colon] @ fmt_subslice (t # ss)"

definition show_ipv6 :: "ipv6_addr \<Rightarrow> rust_string" where
  "show_ipv6 ip =
     (let ss = ipv6_segments ip; os = ipv6_octets ip in
      if take 5 ss = [0, 0, 0, 0, 0] \<and> ss ! 5 = 0xFFFF then
        str ''::ffff:'' @ show_ipv4 (Ipv4Addr (os ! 12) (os ! 13) (os ! 14) (os ! 15))
      else case zero_span 0 (0, 0) (0, 0) ss of (start, len) \<Rightarrow>
        if len > 1 then
          fmt_subslice (take start ss) @ [colon, colon] @ fmt_subslice (drop (start + len) ss)
        else fmt_subslice ss)"

datatype ip_addr = V4 ipv4_addr | V6 ipv6_addr

text \<open>\<open>SocketAddr\<close>; the flow and scope fields of an IPv6 socket address are kept.\<close>

datatype socket_addr = SocketAddrV4 ipv4_addr u16 | SocketAddrV6 ipv6_addr u16 u32 u32

end
