(* ===== verification/Io.thy ===== *)
theory Io
  imports Prelude
begin

text \<open>
  Byte sources and wire formats.

  The parsers of \<open>orcax/protocol\<close> and \<open>orcax/transport\<close> are generic in
  \<open>R: AsyncRead + Unpin\<close>. A source is modelled by what the parsers call: \<open>read_exact\<close>
  (loop until the buffer is full, an error at end of file) and \<open>read\<close> (one read, at
  most one network segment). A socket is the list of segments the peer's bytes
  arrive in, which makes the segmentation of the byte stream visible.

  Two interfaces are stated as locales: \<open>exact_reader\<close> (what a parser may rely on of
  \<open>read_exact\<close>) and \<open>wire_format\<close> (an encoder and a decoder that returns the rest).
\<close>

section \<open>Segmented streams\<close>

type_synonym segs = "bytes list"

text \<open>\<open>read(&mut buf)\<close> with a buffer of \<open>n\<close> bytes; an empty result is end of file.\<close>

fun read_some :: "nat \<Rightarrow> segs \<Rightarrow> bytes \<times> segs" where
  "read_some n [] = ([], [])"
| "read_some n (c # cs) = (if c = [] then read_some n cs else (take n c, drop n c # cs))"

text \<open>\<open>read_exact(&mut buf)\<close>: read until the \<open>n\<close> bytes are there, fail at end of file.\<close>

function read_exact :: "nat \<Rightarrow> segs \<Rightarrow> (bytes \<times> segs) option" where
  "read_exact n s =
     (if n = 0 then Some ([], s)
      else case read_some n s of (b, s') \<Rightarrow>
        if b = [] then None
        else map_option (\<lambda>(r, s''). (b @ r, s'')) (read_exact (n - length b) s'))"
  by pat_completeness auto
termination
  by (relation "measure fst") auto

declare read_exact.simps [simp del]

lemma read_exact_0 [simp]: "read_exact 0 s = Some ([], s)"
  by (subst read_exact.simps) simp

text \<open>A byte slice as a reader: \<open>impl AsyncRead for &[u8]\<close>.\<close>

definition slice_read :: "nat \<Rightarrow> bytes \<Rightarrow> (bytes \<times> bytes) option" where
  "slice_read n bs = (if n \<le> length bs then Some (take n bs, drop n bs) else None)"

lemma read_some_concat:
  "read_some n s = (b, s') \<Longrightarrow> b @ concat s' = concat s \<and> length b \<le> n"
  by (induction n s rule: read_some.induct) (auto split: if_splits)

lemma read_some_empty:
  "read_some n s = ([], s') \<Longrightarrow> 0 < n \<Longrightarrow> concat s = []"
  by (induction n s rule: read_some.induct) (auto split: if_splits)

lemma read_exact_enough:
  "n \<le> length (concat s) \<Longrightarrow>
     \<exists>s'. read_exact n s = Some (take n (concat s), s') \<and> concat s' = drop n (concat s)"
proof (induction n s rule: read_exact.induct)
  case (1 n s)
  show ?case
  proof (cases "n = 0")
    case True
    then show ?thesis by simp
  next
    case False
    obtain b s' where rs: "read_some n s = (b, s')" by fastforce
    from read_some_concat [OF rs] have cat: "concat s = b @ concat s'" and le: "length b \<le> n"
      by simp_all
    have ne: "b \<noteq> []"
    proof
      assume "b = []"
      with rs False have "concat s = []" by (simp add: read_some_empty)
      with "1.prems" False show False by simp
    qed
    have "n - length b \<le> length (concat s')"
      using "1.prems" cat by simp
    from "1.IH" [OF False rs [symmetric] ne this] obtain s'' where
      r: "read_exact (n - length b) s' = Some (take (n - length b) (concat s'), s'')"
      and c: "concat s'' = drop (n - length b) (concat s')"
      by blast
    have "read_exact n s = Some (b @ take (n - length b) (concat s'), s'')"
      by (subst read_exact.simps) (simp add: False rs ne r)
    then show ?thesis using cat c le by simp
  qed
qed

lemma read_exact_short:
  "length (concat s) < n \<Longrightarrow> read_exact n s = None"
proof (induction n s rule: read_exact.induct)
  case (1 n s)
  obtain b s' where rs: "read_some n s = (b, s')" by fastforce
  show ?case
  proof (cases "b = []")
    case True
    with rs "1.prems" show ?thesis by (simp add: read_exact.simps [of n s])
  next
    case False
    from "1.prems" have "n \<noteq> 0" by auto
    have "length (concat s') < n - length b"
      using "1.prems" read_some_concat [OF rs] by (metis length_append less_diff_conv add.commute)
    with "1.IH" [OF \<open>n \<noteq> 0\<close> rs [symmetric] False] False rs show ?thesis
      by (simp add: read_exact.simps [of n s])
  qed
qed

text \<open>Reading within the first segment, and across it.\<close>

lemma read_exact_within: "read_exact (length a) ((a @ b) # s) = Some (a, b # s)"
proof (cases "a = []")
  case False
  then show ?thesis by (subst read_exact.simps) simp
qed simp

lemma read_exact_skip: "0 < n \<Longrightarrow> read_exact n ([] # s) = read_exact n s"
  by (subst (1 2) read_exact.simps) simp

lemma read_exact_across:
  assumes "0 < n"
  shows "read_exact (length h + n) (h # s) = map_option (\<lambda>(r, s'). (h @ r, s')) (read_exact n s)"
proof (cases "h = []")
  case True
  then show ?thesis using assms by (cases "read_exact n s") (auto simp: read_exact_skip)
next
  case False
  then show ?thesis using assms by (subst read_exact.simps) (simp add: read_exact_skip)
qed

text \<open>
  Reading a prefix that ends inside or at the end of a known segment: whatever the
  segmentation before it, the reader stops at that point of the segment.
\<close>

lemma read_exact_upto:
  "concat hs @ hb = a @ b \<Longrightarrow>
     \<exists>hs' hb'. read_exact (length a) (hs @ (hb @ c) # tail) = Some (a, hs' @ (hb' @ c) # tail)
       \<and> concat hs' @ hb' = b"
proof (induction hs arbitrary: a)
  case Nil
  then have "hb @ c = a @ (b @ c)" by simp
  then have "read_exact (length a) ([] @ (hb @ c) # tail) = Some (a, [] @ (b @ c) # tail)"
    by (simp only: append_Nil read_exact_within)
  then show ?case by (metis append_Nil concat.simps(1))
next
  case (Cons h hs)
  show ?case
  proof (cases "length a \<le> length h")
    case True
    then obtain h' where h: "h = a @ h'" "h' @ concat hs @ hb = b"
      using Cons.prems by (auto simp: append_eq_append_conv2)
    then have "read_exact (length a) ((h # hs) @ (hb @ c) # tail) = Some (a, (h' # hs) @ (hb @ c) # tail)"
      by (simp add: read_exact_within)
    with h(2) show ?thesis by (metis append.assoc concat.simps(2))
  next
    case False
    have "h @ (concat hs @ hb) = a @ b" using Cons.prems by simp
    then obtain a' where a: "a = h @ a'" "concat hs @ hb = a' @ b"
      using False by (subst (asm) append_eq_append_conv2) auto
    with False have "0 < length a'" by simp
    from Cons.IH [OF a(2)] a(1) \<open>0 < length a'\<close> show ?thesis by (auto simp: read_exact_across)
  qed
qed

lemma read_some_skip:
  "concat hs = [] \<Longrightarrow> c \<noteq> [] \<Longrightarrow> read_some n (hs @ c # tail) = (take n c, drop n c # tail)"
  by (induction hs) auto

section \<open>The contract of \<open>read_exact\<close>\<close>

locale exact_reader =
  fixes rd :: "nat \<Rightarrow> 's \<Rightarrow> (bytes \<times> 's) option"
    and content :: "'s \<Rightarrow> bytes"
  assumes rd_enough: "n \<le> length (content s) \<Longrightarrow>
      \<exists>s'. rd n s = Some (take n (content s), s') \<and> content s' = drop n (content s)"
    and rd_short: "length (content s) < n \<Longrightarrow> rd n s = None"
begin

lemma rd_prefix:
  assumes "content s = a @ r" and "length a = n"
  shows "\<exists>s'. rd n s = Some (a, s') \<and> content s' = r"
  using rd_enough [of n s] assms by auto

lemma rd_Some:
  assumes "rd n s = Some (b, s')"
  shows "content s = b @ content s' \<and> length b = n"
proof (cases "n \<le> length (content s)")
  case True
  then show ?thesis using rd_enough [OF True] assms by auto
next
  case False
  then show ?thesis using rd_short [of s n] assms by simp
qed

lemma rd_None_iff: "rd n s = None \<longleftrightarrow> length (content s) < n"
  using rd_enough [of n s] rd_short [of s n] by (cases "n \<le> length (content s)") auto

end

interpretation seg: exact_reader read_exact concat
  by unfold_locales (erule read_exact_enough, erule read_exact_short)

interpretation slc: exact_reader slice_read "\<lambda>bs. bs"
  by unfold_locales (auto simp: slice_read_def)

section \<open>Wire formats\<close>

text \<open>Decode \<open>n\<close> values that follow each other on the wire.\<close>

fun dec_many :: "(bytes \<Rightarrow> ('a \<times> bytes) option) \<Rightarrow> nat \<Rightarrow> bytes \<Rightarrow> ('a list \<times> bytes) option" where
  "dec_many dec 0 bs = Some ([], bs)"
| "dec_many dec (Suc n) bs =
     (case dec bs of
        None \<Rightarrow> None
      | Some (x, r) \<Rightarrow> map_option (\<lambda>(xs, r'). (x # xs, r')) (dec_many dec n r))"

locale wire_format =
  fixes enc :: "'a \<Rightarrow> bytes"
    and dec :: "bytes \<Rightarrow> ('a \<times> bytes) option"
    and wf :: "'a \<Rightarrow> bool"
  assumes dec_enc: "wf x \<Longrightarrow> dec (enc x @ r) = Some (x, r)"
begin

lemma enc_prefix_free:
  assumes "wf x" "wf y" "enc x @ r = enc y @ r'"
  shows "x = y \<and> r = r'"
proof -
  have "Some (x, r) = Some (y, r')"
    by (simp only: dec_enc [OF assms(1), of r, symmetric] dec_enc [OF assms(2), of r', symmetric]
        assms(3))
  then show ?thesis by simp
qed

lemma enc_inj: "wf x \<Longrightarrow> wf y \<Longrightarrow> enc x = enc y \<Longrightarrow> x = y"
  using enc_prefix_free [of x y "[]" "[]"] by simp

lemma dec_many_enc:
  "list_all wf xs \<Longrightarrow> dec_many dec (length xs) (concat (map enc xs) @ r) = Some (xs, r)"
  by (induction xs) (simp_all add: dec_enc)

end

section \<open>Chunk-fed state machines\<close>

text \<open>
  A state machine that is fed byte chunks, where \<open>None\<close> is a call that does not return. The
  contract: feeding the empty chunk changes nothing, and feeding two chunks one after the
  other is feeding their concatenation. Then the chunk boundaries never matter.
\<close>

fun feed_all :: "('s \<Rightarrow> bytes \<Rightarrow> (('e, unit) outcome \<times> 's) option) \<Rightarrow> 's \<Rightarrow> bytes list
    \<Rightarrow> (('e, unit) outcome \<times> 's) option" where
  "feed_all fd s [] = Some (Ok (), s)"
| "feed_all fd s (c # cs) =
     (case fd s c of
        None \<Rightarrow> None
      | Some (Ok _, s') \<Rightarrow> feed_all fd s' cs
      | Some r \<Rightarrow> Some r)"

locale chunk_machine =
  fixes fd :: "'s \<Rightarrow> bytes \<Rightarrow> (('e, unit) outcome \<times> 's) option"
    and ok :: "'s \<Rightarrow> bool"
  assumes fd_nil: "ok s \<Longrightarrow> fd s [] = Some (Ok (), s)"
    and fd_append: "ok s \<Longrightarrow> fd s (a @ b) =
      (case fd s a of None \<Rightarrow> None | Some (Ok _, s') \<Rightarrow> fd s' b | Some r \<Rightarrow> Some r)"
    and fd_ok: "ok s \<Longrightarrow> fd s a = Some (Ok (), s') \<Longrightarrow> ok s'"
begin

lemma feed_all_concat: "ok s \<Longrightarrow> feed_all fd s cs = fd s (concat cs)"
proof (induction cs arbitrary: s)
  case (Cons c cs)
  then show ?case
    by (auto simp: fd_append split: option.splits prod.splits outcome.splits dest: fd_ok)
qed (simp add: fd_nil)

lemma rechunk: "ok s \<Longrightarrow> concat cs = concat cs' \<Longrightarrow> feed_all fd s cs = feed_all fd s cs'"
  by (simp add: feed_all_concat)

end

end
