(* ===== verification/Address.thy ===== *)
theory Address
  imports Rust_Net Io
begin

text \<open>
  \<open>orcax/protocol/src/address.rs\<close>: the VLESS target address. \<open>parse\<close> reads
  port, type byte and address from the front of a buffer and returns how many bytes it used.
  The matching encoder is the address part of \<open>Frame::stream_open\<close> and
  \<open>Frame::udp_datagram\<close> in \<open>orca.rs\<close>; the two are proved inverse to each other.
\<close>

section \<open>Data\<close>

datatype address = IPv4 ipv4_addr | Domain rust_string | IPv6 ipv6_addr

record target_addr =
  addr :: address
  port :: u16

datatype addr_error =
    AddrTooShort nat
  | TruncatedIPv4
  | TruncatedDomainLength
  | TruncatedDomain
  | InvalidUtf8
  | TruncatedIPv6
  | UnknownAddrType byte

section \<open>Operations\<close>

definition parse :: "bytes \<Rightarrow> (addr_error, target_addr \<times> nat) outcome" where
  "parse data =
     (if length data < 4 then Err (AddrTooShort (length data))
      else
        let port = from_be16 (data ! 0) (data ! 1); addr_type = data ! 2 in
        outcome_bind
          (if addr_type = 1 then
             (if length data < 7 then Err TruncatedIPv4
              else Ok (IPv4 (Ipv4Addr (data ! 3) (data ! 4) (data ! 5) (data ! 6)), 7))
           else if addr_type = 2 then
             (if length data < 4 then Err TruncatedDomainLength
              else let domain_len = unat (data ! 3) in
                if length data < 4 + domain_len then Err TruncatedDomain
                else outcome_bind (ok_or InvalidUtf8 (from_utf8 (slice 4 (4 + domain_len) data)))
                       (\<lambda>domain. Ok (Domain domain, 4 + domain_len)))
           else if addr_type = 3 then
             (if length data < 19 then Err TruncatedIPv6
              else Ok (IPv6 (Ipv6Addr (slice 3 19 data)), 19))
           else Err (UnknownAddrType addr_type))
          (\<lambda>(a, consumed). Ok (\<lparr>addr = a, port = port\<rparr>, consumed)))"

definition to_socket_string :: "target_addr \<Rightarrow> rust_string" where
  "to_socket_string t =
     (case addr t of
        IPv4 ip \<Rightarrow> show_ipv4 ip @ [colon] @ show_nat (unat (port t))
      | Domain d \<Rightarrow> d @ [colon] @ show_nat (unat (port t))
      | IPv6 ip \<Rightarrow> str ''['' @ show_ipv6 ip @ str '']:'' @ show_nat (unat (port t)))"

definition to_socket_addr :: "target_addr \<Rightarrow> socket_addr option" where
  "to_socket_addr t =
     (case addr t of
        IPv4 ip \<Rightarrow> Some (SocketAddrV4 ip (port t))
      | IPv6 ip \<Rightarrow> Some (SocketAddrV6 ip (port t) 0 0)
      | Domain _ \<Rightarrow> None)"

text \<open>The address bytes written by \<open>stream_open\<close> and \<open>udp_datagram\<close>; \<open>d.len() as u8\<close> wraps.\<close>

definition addr_payload :: "target_addr \<Rightarrow> bytes" where
  "addr_payload t =
     be16 (port t) @
     (case addr t of
        IPv4 ip \<Rightarrow> 1 # ipv4_octets ip
      | Domain d \<Rightarrow> 2 # of_nat (length d) # d
      | IPv6 ip \<Rightarrow> 3 # ipv6_octets ip)"

section \<open>Well-formed addresses\<close>

text \<open>
  What the Rust types guarantee (a \<open>String\<close> is UTF-8, an \<open>Ipv6Addr\<close> has sixteen octets)
  and the one condition they do not: a domain name of at most 255 bytes.
\<close>

definition wf_target :: "target_addr \<Rightarrow> bool" where
  "wf_target t =
     (case addr t of
        IPv4 _ \<Rightarrow> True
      | Domain d \<Rightarrow> utf8_valid d \<and> length d < 256
      | IPv6 ip \<Rightarrow> ipv6_wf ip)"

lemma addr_payload_length:
  "wf_target t \<Longrightarrow> length (addr_payload t) =
     (case addr t of IPv4 _ \<Rightarrow> 7 | Domain d \<Rightarrow> 4 + length d | IPv6 _ \<Rightarrow> 19)"
  by (cases "addr t"; cases "case addr t of IPv4 ip \<Rightarrow> ip"; cases "case addr t of IPv6 ip \<Rightarrow> ip")
     (auto simp: addr_payload_def wf_target_def)

lemma parse_addr_payload:
  assumes "wf_target t"
  shows "parse (addr_payload t @ r) = Ok (t, length (addr_payload t))"
proof -
  obtain p0 p1 where p: "be16 (port t) = [p0, p1]" and pv: "from_be16 p0 p1 = port t"
    using from_be16_be16 [of "port t"] by (simp add: be16_def)
  show ?thesis
  proof (cases "addr t")
    case (IPv4 ip)
    then show ?thesis by (cases ip) (simp add: parse_def addr_payload_def p pv)
  next
    case (Domain d)
    with assms have d: "utf8_valid d" "length d < 256" by (simp_all add: wf_target_def)
    have "target_addr.addr t = Domain d" by (rule Domain)
    with d show ?thesis
      by (simp add: parse_def addr_payload_def p pv slice_def unat_of_nat_u8 from_utf8_def)
  next
    case (IPv6 ip)
    with assms have "length (ipv6_octets ip) = 16" by (cases ip) (simp add: wf_target_def)
    with IPv6 show ?thesis
      by (simp add: parse_def addr_payload_def p pv slice_def)
  qed
qed

lemma parse_Ok:
  assumes "parse data = Ok (t, n)"
  shows "wf_target t \<and> n \<le> length data \<and> take n data = addr_payload t"
proof -
  have "4 \<le> length data"
    using assms by (simp add: parse_def split: if_splits)
  then obtain p0 p1 ty d3 r where data: "data = p0 # p1 # ty # d3 # r"
    using four_le_length by blast
  from assms data consider
      (v4) "ty = 1" "3 \<le> length r" "n = 7"
        "t = \<lparr>addr = IPv4 (Ipv4Addr d3 (r ! 0) (r ! 1) (r ! 2)), port = from_be16 p0 p1\<rparr>"
    | (dom) "ty = 2" "unat d3 \<le> length r" "n = 4 + unat d3" "utf8_valid (take (unat d3) r)"
        "t = \<lparr>addr = Domain (take (unat d3) r), port = from_be16 p0 p1\<rparr>"
    | (v6) "ty = 3" "15 \<le> length r" "n = 19"
        "t = \<lparr>addr = IPv6 (Ipv6Addr (d3 # take 15 r)), port = from_be16 p0 p1\<rparr>"
    by (auto simp: parse_def Let_def slice_def outcome_simps eval_nat_numeral split: if_splits)
  then show ?thesis
  proof cases
    case v4
    then obtain r0 r1 r2 r' where "r = r0 # r1 # r2 # r'"
      by (auto simp: numeral_eq_Suc Suc_le_length_iff)
    with v4 data show ?thesis by (simp add: wf_target_def addr_payload_def)
  next
    case dom
    with data show ?thesis by (simp add: wf_target_def addr_payload_def min_def take_four)
  next
    case v6
    with data show ?thesis by (simp add: wf_target_def addr_payload_def)
  qed
qed

lemma parse_no_panic: "parse data \<noteq> Panic"
  by (auto simp: parse_def outcome_simps Let_def split: if_splits)

text \<open>The rest-returning view of \<open>parse\<close>, as its callers use it.\<close>

definition dec_target :: "bytes \<Rightarrow> (target_addr \<times> bytes) option" where
  "dec_target bs = (case parse bs of Ok (t, n) \<Rightarrow> Some (t, drop n bs) | _ \<Rightarrow> None)"

interpretation target: wire_format addr_payload dec_target wf_target
  by unfold_locales (simp add: dec_target_def parse_addr_payload)

section \<open>Properties\<close>

text \<open>
  C18: the address parser accepts exactly the encodings of well-formed target addresses: it
  returns \<open>(t, n)\<close> if and only if \<open>t\<close> is well formed, its encoding has \<open>n\<close> bytes and the
  buffer starts with it.
\<close>

theorem parse_Ok_iff:
  "parse data = Ok (t, n) \<longleftrightarrow>
     wf_target t \<and> n = length (addr_payload t) \<and> n \<le> length data \<and> take n data = addr_payload t"
proof
  assume "parse data = Ok (t, n)"
  from parse_Ok [OF this] show
    "wf_target t \<and> n = length (addr_payload t) \<and> n \<le> length data \<and> take n data = addr_payload t"
    by (metis length_take min.absorb2)
next
  assume r: "wf_target t \<and> n = length (addr_payload t) \<and> n \<le> length data \<and> take n data = addr_payload t"
  then have "data = addr_payload t @ drop n data" by (metis append_take_drop_id)
  with r show "parse data = Ok (t, n)" by (metis parse_addr_payload)
qed

end
