(* ===== verification/Orca.thy ===== *)
theory Orca
  imports Address
begin

text \<open>
  \<open>orcax/protocol/src/orca.rs\<close>: the OrcaX native protocol. Frames with an 8-byte
  header, random padding, the fixed-size authentication messages and the detection of an
  inner TLS 1.3 stream. \<open>Frame::decode\<close> and the \<open>read\<close> functions are generic in the
  reader, as in the source, and are proved against the contract \<open>exact_reader\<close>.
\<close>

section \<open>Constants and data\<close>

definition MAX_FRAME_SIZE :: nat where "MAX_FRAME_SIZE = 65535"

definition MAX_PADDING :: nat where "MAX_PADDING = 256"

datatype frame_type =
    Data | StreamOpen | StreamClose | Ping | Pong | GoAway | WindowUpdate | UdpDatagram | Passthrough

datatype frame_error =
    UnknownFrameType byte
  | ShortFrameHeader
  | FrameTooLarge nat
  | ShortFramePayload

definition frame_type_byte :: "frame_type \<Rightarrow> byte" where
  "frame_type_byte t =
     (case t of Data \<Rightarrow> 0x00 | StreamOpen \<Rightarrow> 0x01 | StreamClose \<Rightarrow> 0x02 | Ping \<Rightarrow> 0x03
      | Pong \<Rightarrow> 0x04 | GoAway \<Rightarrow> 0x05 | WindowUpdate \<Rightarrow> 0x06 | UdpDatagram \<Rightarrow> 0x07
      | Passthrough \<Rightarrow> 0x08)"

definition from_byte :: "byte \<Rightarrow> (frame_error, frame_type) outcome" where
  "from_byte b =
     (if b = 0x00 then Ok Data else if b = 0x01 then Ok StreamOpen
      else if b = 0x02 then Ok StreamClose else if b = 0x03 then Ok Ping
      else if b = 0x04 then Ok Pong else if b = 0x05 then Ok GoAway
      else if b = 0x06 then Ok WindowUpdate else if b = 0x07 then Ok UdpDatagram
      else if b = 0x08 then Ok Passthrough
      else Err (UnknownFrameType b))"

definition FIN :: byte where "FIN = 0x01"
definition RST :: byte where "RST = 0x02"
definition PADDED :: byte where "PADDED = 0x04"
definition UDP :: byte where "UDP = 0x08"

record frame =
  frame_type :: frame_type
  flags :: byte
  stream_id :: u32
  payload :: bytes

section \<open>Building frames\<close>

definition data_frame :: "u32 \<Rightarrow> bytes \<Rightarrow> frame" where
  "data_frame sid p = \<lparr>frame_type = Data, flags = 0, stream_id = sid, payload = p\<rparr>"

definition stream_open :: "u32 \<Rightarrow> target_addr \<Rightarrow> frame" where
  "stream_open sid target =
     \<lparr>frame_type = StreamOpen, flags = 0, stream_id = sid, payload = 1 # addr_payload target\<rparr>"

definition stream_close :: "u32 \<Rightarrow> frame" where
  "stream_close sid = \<lparr>frame_type = StreamClose, flags = FIN, stream_id = sid, payload = []\<rparr>"

definition udp_datagram :: "target_addr \<Rightarrow> bytes \<Rightarrow> frame" where
  "udp_datagram target data =
     \<lparr>frame_type = UdpDatagram, flags = UDP, stream_id = 0,
      payload = addr_payload target @ be16 (of_nat (length data)) @ data\<rparr>"


definition pong :: frame where
  "pong = \<lparr>frame_type = Pong, flags = 0, stream_id = 0, payload = []\<rparr>"

definition passthrough :: "u16 \<Rightarrow> u16 \<Rightarrow> frame" where
  "passthrough tls_version cipher_suite =
     \<lparr>frame_type = Passthrough, flags = 0, stream_id = 0,
      payload = be16 tls_version @ be16 cipher_suite\<rparr>"

text \<open>\<open>self.payload.len() as u16\<close> keeps the low sixteen bits.\<close>

definition encode :: "frame \<Rightarrow> bytes" where
  "encode f =
     frame_type_byte (frame_type f) # flags f # be32 (stream_id f)
       @ be16 (of_nat (length (payload f))) @ payload f"

text \<open>
  \<open>with_padding\<close> draws a length and that many random bytes from \<open>rand\<close>; the two draws
  are arguments of the model. \<open>gen_range\<close> panics on an empty range.
\<close>

definition with_padding :: "frame \<Rightarrow> nat \<Rightarrow> nat \<Rightarrow> nat \<Rightarrow> bytes \<Rightarrow> (frame_error, frame) outcome" where
  "with_padding f lo hi pad_len rnd =
     (if lo > min hi MAX_PADDING then Panic
      else let padding = (if rnd = [] then [] else rnd[length rnd - 1 := of_nat pad_len]) in
        Ok (f\<lparr>payload := payload f @ padding, flags := flags f OR PADDED\<rparr>))"

text \<open>What \<open>rand\<close> promises of the two draws.\<close>

definition pad_draw :: "nat \<Rightarrow> nat \<Rightarrow> nat \<Rightarrow> bytes \<Rightarrow> bool" where
  "pad_draw lo hi pad_len rnd \<longleftrightarrow> lo \<le> pad_len \<and> pad_len \<le> min hi MAX_PADDING \<and> length rnd = pad_len"

section \<open>Reading frames\<close>

definition strip_padding :: "byte \<Rightarrow> bytes \<Rightarrow> bytes" where
  "strip_padding fl p =
     (if fl AND PADDED \<noteq> 0 \<and> p \<noteq> [] then
        let pad_len = unat (last p) in
        if pad_len < length p then take (length p - pad_len - 1) p else p
      else p)"

definition decode :: "(nat \<Rightarrow> 's \<Rightarrow> (bytes \<times> 's) option) \<Rightarrow> 's \<Rightarrow> (frame_error, frame \<times> 's) outcome" where
  "decode rd s =
     outcome_bind (ok_or ShortFrameHeader (rd 8 s)) (\<lambda>(hdr, s1).
     outcome_bind (from_byte (hdr ! 0)) (\<lambda>ft.
       let fl = hdr ! 1;
           sid = from_be32 (hdr ! 2) (hdr ! 3) (hdr ! 4) (hdr ! 5);
           len = unat (from_be16 (hdr ! 6) (hdr ! 7)) in
       if len > MAX_FRAME_SIZE then Err (FrameTooLarge len)
       else
         outcome_bind (if len > 0 then ok_or ShortFramePayload (rd len s1) else Ok ([], s1))
           (\<lambda>(p, s2). Ok (\<lparr>frame_type = ft, flags = fl, stream_id = sid, payload = strip_padding fl p\<rparr>, s2))))"

section \<open>Authentication messages\<close>

record client_auth =
  ephemeral_pub :: bytes
  encrypted_uuid :: bytes

record server_auth =
  server_ephemeral_pub :: bytes
  status :: byte

datatype auth_error = ShortClientAuth | ShortServerAuth

definition client_auth_read ::
    "(nat \<Rightarrow> 's \<Rightarrow> (bytes \<times> 's) option) \<Rightarrow> 's \<Rightarrow> (auth_error, client_auth \<times> 's) outcome" where
  "client_auth_read rd s =
     outcome_bind (ok_or ShortClientAuth (rd 48 s)) (\<lambda>(buf, s').
       Ok (\<lparr>ephemeral_pub = slice 0 32 buf, encrypted_uuid = slice 32 48 buf\<rparr>, s'))"

definition client_auth_write :: "client_auth \<Rightarrow> bytes" where
  "client_auth_write a = ephemeral_pub a @ encrypted_uuid a"

definition server_auth_read ::
    "(nat \<Rightarrow> 's \<Rightarrow> (bytes \<times> 's) option) \<Rightarrow> 's \<Rightarrow> (auth_error, server_auth \<times> 's) outcome" where
  "server_auth_read rd s =
     outcome_bind (ok_or ShortServerAuth (rd 33 s)) (\<lambda>(buf, s').
       Ok (\<lparr>server_ephemeral_pub = slice 0 32 buf, status = buf ! 32\<rparr>, s'))"

definition server_auth_write :: "server_auth \<Rightarrow> bytes" where
  "server_auth_write a = server_ephemeral_pub a @ [status a]"

definition client_auth_wf :: "client_auth \<Rightarrow> bool" where
  "client_auth_wf a \<longleftrightarrow> length (ephemeral_pub a) = 32 \<and> length (encrypted_uuid a) = 16"

definition server_auth_wf :: "server_auth \<Rightarrow> bool" where
  "server_auth_wf a \<longleftrightarrow> length (server_ephemeral_pub a) = 32"

section \<open>Inner TLS 1.3 detection\<close>



section \<open>Frame lemmas\<close>

lemma from_byte_frame_type_byte [simp]: "from_byte (frame_type_byte t) = Ok t"
  by (cases t) (simp_all add: from_byte_def frame_type_byte_def)

lemma from_byte_Ok_iff: "from_byte b = Ok t \<longleftrightarrow> b = frame_type_byte t"
  by (cases t) (auto simp: from_byte_def frame_type_byte_def split: if_splits)

lemma from_byte_no_panic [simp]: "from_byte b \<noteq> Panic"
  by (simp add: from_byte_def)

definition header :: "frame \<Rightarrow> bytes" where
  "header f = frame_type_byte (frame_type f) # flags f # be32 (stream_id f)
     @ be16 (of_nat (length (payload f)))"

lemma encode_split: "encode f = header f @ payload f"
  by (simp add: encode_def header_def)

lemma length_header [simp]: "length (header f) = 8"
  by (simp add: header_def)

lemma header_fields:
  assumes "length (payload f) \<le> MAX_FRAME_SIZE"
  shows "header f ! 0 = frame_type_byte (frame_type f)" "header f ! Suc 0 = flags f"
    and "from_be32 (header f ! 2) (header f ! 3) (header f ! 4) (header f ! 5) = stream_id f"
    and "unat (from_be16 (header f ! 6) (header f ! 7)) = length (payload f)"
proof -
  obtain a b c d where s: "be32 (stream_id f) = [a, b, c, d]" "from_be32 a b c d = stream_id f"
    using from_be32_be32 [of "stream_id f"] by (simp add: be32_def)
  obtain e g where l: "be16 (of_nat (length (payload f))) = [e, g]"
      "from_be16 e g = of_nat (length (payload f))"
    using from_be16_be16 [of "of_nat (length (payload f))"] by (simp add: be16_def)
  show "header f ! 0 = frame_type_byte (frame_type f)" "header f ! Suc 0 = flags f"
    "from_be32 (header f ! 2) (header f ! 3) (header f ! 4) (header f ! 5) = stream_id f"
    "unat (from_be16 (header f ! 6) (header f ! 7)) = length (payload f)"
    using assms s l by (simp_all add: header_def MAX_FRAME_SIZE_def unat_of_nat_u16)
qed

lemma strip_padding_unpadded [simp]: "fl AND PADDED = 0 \<Longrightarrow> strip_padding fl p = p"
  by (simp add: strip_padding_def)

context exact_reader
begin

lemma decode_encode_strip:
  assumes c: "content s = encode f @ r" and len: "length (payload f) \<le> MAX_FRAME_SIZE"
  shows "\<exists>s'. decode rd s = Ok (f\<lparr>payload := strip_padding (flags f) (payload f)\<rparr>, s') \<and> content s' = r"
proof -
  from c have "content s = header f @ (payload f @ r)" by (simp add: encode_split)
  from rd_prefix [OF this] obtain s1 where
    s1: "rd 8 s = Some (header f, s1)" "content s1 = payload f @ r" by auto
  from rd_prefix [OF s1(2) refl] obtain s2 where
    s2: "rd (length (payload f)) s1 = Some (payload f, s2)" "content s2 = r" by auto
  show ?thesis
  proof (cases "payload f = []")
    case True
    with s1 header_fields [OF len] show ?thesis
      by (simp add: decode_def Let_def MAX_FRAME_SIZE_def strip_padding_def)
  next
    case False
    with s1 s2 header_fields [OF len] len show ?thesis
      by (simp add: decode_def Let_def MAX_FRAME_SIZE_def)
  qed
qed

end

text \<open>A receiver that reads \<open>n\<close> frames one after the other from the same reader.\<close>

fun decode_frames ::
    "(nat \<Rightarrow> 's \<Rightarrow> (bytes \<times> 's) option) \<Rightarrow> nat \<Rightarrow> 's \<Rightarrow> (frame_error, frame list \<times> 's) outcome" where
  "decode_frames rd 0 s = Ok ([], s)"
| "decode_frames rd (Suc n) s =
     outcome_bind (decode rd s) (\<lambda>(f, s1).
     outcome_bind (decode_frames rd n s1) (\<lambda>(fs, s2). Ok (f # fs, s2)))"

definition frame_wf :: "frame \<Rightarrow> bool" where
  "frame_wf f \<longleftrightarrow> flags f AND PADDED = 0 \<and> length (payload f) \<le> MAX_FRAME_SIZE"

context exact_reader
begin

lemma decode_encode:
  "frame_wf f \<Longrightarrow> content s = encode f @ r \<Longrightarrow> \<exists>s'. decode rd s = Ok (f, s') \<and> content s' = r"
  using decode_encode_strip [of s f r] by (simp add: frame_wf_def)

lemma decode_frames_encode:
  "list_all frame_wf fs \<Longrightarrow> content s = concat (map encode fs) @ r \<Longrightarrow>
     \<exists>s'. decode_frames rd (length fs) s = Ok (fs, s') \<and> content s' = r"
proof (induction fs arbitrary: s)
  case Nil
  then show ?case by simp
next
  case (Cons f fs)
  then obtain s1 where s1: "decode rd s = Ok (f, s1)" "content s1 = concat (map encode fs) @ r"
    using decode_encode [of f s "concat (map encode fs) @ r"] by auto
  with Cons obtain s2 where "decode_frames rd (length fs) s1 = Ok (fs, s2)" "content s2 = r"
    by fastforce
  with s1 show ?case by simp
qed

lemma client_auth_roundtrip:
  assumes "client_auth_wf a" "content s = client_auth_write a @ r"
  shows "\<exists>s'. client_auth_read rd s = Ok (a, s') \<and> content s' = r"
proof -
  have "length (client_auth_write a) = 48"
    using assms(1) by (simp add: client_auth_write_def client_auth_wf_def)
  from rd_prefix [OF assms(2) this] assms(1) show ?thesis
    by (auto simp: client_auth_read_def client_auth_write_def client_auth_wf_def slice_def)
qed

lemma server_auth_roundtrip:
  assumes "server_auth_wf a" "content s = server_auth_write a @ r"
  shows "\<exists>s'. server_auth_read rd s = Ok (a, s') \<and> content s' = r"
proof -
  have "length (server_auth_write a) = 33"
    using assms(1) by (simp add: server_auth_write_def server_auth_wf_def)
  from rd_prefix [OF assms(2) this] assms(1) show ?thesis
    by (auto simp: server_auth_read_def server_auth_write_def server_auth_wf_def slice_def nth_append)
qed

end

section \<open>Padding\<close>

lemma with_padding_shape:
  assumes "pad_draw lo hi n rnd" "0 < n" "with_padding f lo hi n rnd = Ok g"
  shows "g = f\<lparr>payload := payload f @ butlast rnd @ [of_nat n], flags := flags f OR PADDED\<rparr>"
    and "length rnd = n"
proof -
  show len: "length rnd = n" using assms(1) by (simp add: pad_draw_def)
  with assms(2) obtain xs x where "rnd = xs @ [x]" by (cases rnd rule: rev_cases) auto
  with assms len show "g = f\<lparr>payload := payload f @ butlast rnd @ [of_nat n], flags := flags f OR PADDED\<rparr>"
    by (auto simp: with_padding_def list_update_append split: if_splits)
qed

lemma padded_flag [simp]: "(fl OR PADDED) AND PADDED = PADDED" "PADDED \<noteq> 0"
proof -
  show "(fl OR PADDED) AND PADDED = PADDED"
    by (rule bit_word_eqI) (auto simp: bit_simps)
  show "PADDED \<noteq> 0" by (simp add: PADDED_def)
qed

text \<open>
  The receiver takes the last byte as the number of padding bytes \<^emph>\<open>before\<close> it, the sender
  writes the number of padding bytes \<^emph>\<open>including\<close> it.
\<close>

lemma strip_padding_padded:
  assumes "pad_draw lo hi n rnd" "0 < n" "n < 256" "with_padding f lo hi n rnd = Ok g"
  shows "strip_padding (flags g) (payload g) =
    (if payload f = [] then payload g else butlast (payload f))"
proof -
  note g = with_padding_shape [OF assms(1,2,4)]
  have len: "length (payload g) = length (payload f) + n" using g assms(2) by simp
  show ?thesis
  proof (cases "payload f = []")
    case True
    with g assms len show ?thesis by (simp add: strip_padding_def unat_of_nat_u8)
  next
    case False
    then have "length (payload g) - n - 1 = length (payload f) - 1" "n < length (payload g)"
      using len by simp_all
    with False g assms(3) show ?thesis
      by (simp add: strip_padding_def unat_of_nat_u8 butlast_conv_take)
  qed
qed

section \<open>Server hello records\<close>



section \<open>Properties\<close>



text \<open>
  C22: \<open>Frame::decode\<close> does not undo \<open>Frame::with_padding\<close>: on a padded frame with a
  non-empty payload and 1 to 255 bytes of padding it removes one byte too many, so the last
  byte of the real payload is lost on every such frame.
\<close>

theorem decode_padded_loses_a_byte:
  assumes "pad_draw lo hi n rnd" "0 < n" "n < 256" "with_padding f lo hi n rnd = Ok g"
    and "payload f \<noteq> []" "length (payload f) + n \<le> MAX_FRAME_SIZE"
    and "concat segs = encode g @ r"
  shows "\<exists>segs'. decode read_exact segs = Ok (g\<lparr>payload := butlast (payload f)\<rparr>, segs')
    \<and> concat segs' = r"
proof -
  have "length (payload g) \<le> MAX_FRAME_SIZE"
    using with_padding_shape [OF assms(1,2,4)] assms(2,6) by simp
  from seg.decode_encode_strip [OF assms(7) this] show ?thesis
    using strip_padding_padded [OF assms(1-4)] assms(5) by simp
qed

theorem decode_padded_loses_a_byte_witness:
  "\<exists>segs'. decode read_exact [[0x00, 0x04, 0, 0, 0, 1, 0, 5, 10, 11, 0xAA, 0xBB, 3]]
     = Ok (\<lparr>frame_type = Data, flags = PADDED, stream_id = 1, payload = [10]\<rparr>, segs')
     \<and> concat segs' = []"
proof -
  let ?f = "data_frame 1 [10, 11]" and ?rnd = "[0xAA, 0xBB, 0xCC] :: bytes"
  let ?g = "?f\<lparr>payload := [10, 11, 0xAA, 0xBB, 3], flags := PADDED\<rparr>"
  have "with_padding ?f 2 4 3 ?rnd = Ok ?g"
    by (simp add: with_padding_def data_frame_def MAX_PADDING_def PADDED_def)
  moreover have "pad_draw 2 4 3 ?rnd" by (simp add: pad_draw_def MAX_PADDING_def)
  moreover have "concat [[0x00, 0x04, 0, 0, 0, 1, 0, 5, 10, 11, 0xAA, 0xBB, 3]] = encode ?g @ []"
    by (simp add: encode_def data_frame_def frame_type_byte_def be32_def be16_def PADDED_def)
  ultimately show ?thesis
    using decode_padded_loses_a_byte [of 2 4 3 ?rnd ?f ?g
        "[[0x00, 0x04, 0, 0, 0, 1, 0, 5, 10, 11, 0xAA, 0xBB, 3]]" "[]"]
    by (simp add: data_frame_def MAX_FRAME_SIZE_def)
qed



end
