(* ===== verification/Hash_Map.thy ===== *)
theory Hash_Map
  imports Prelude "HOL-Library.AList"
begin

text \<open>
  \<open>std::collections::HashMap\<close> as the components use it. The interface is a locale over a
  lookup function; the model is an association list with distinct keys, on which the locale is
  interpreted. The iteration order of a \<open>HashMap\<close> is unspecified, and no lemma depends on
  the order of the list.
\<close>

section \<open>The interface\<close>

locale hash_map =
  fixes get :: "'m \<Rightarrow> 'k \<Rightarrow> 'v option"
    and ins :: "'k \<Rightarrow> 'v \<Rightarrow> 'm \<Rightarrow> 'm"
    and rem :: "'k \<Rightarrow> 'm \<Rightarrow> 'm"
    and size :: "'m \<Rightarrow> nat"
    and invar :: "'m \<Rightarrow> bool"
  assumes get_ins: "invar m \<Longrightarrow> get (ins k v m) = (get m)(k \<mapsto> v)"
    and get_rem: "invar m \<Longrightarrow> get (rem k m) = (get m)(k := None)"
    and invar_ins: "invar m \<Longrightarrow> invar (ins k v m)"
    and invar_rem: "invar m \<Longrightarrow> invar (rem k m)"
    and size_card: "invar m \<Longrightarrow> size m = card (dom (get m))"
    and dom_finite: "invar m \<Longrightarrow> finite (dom (get m))"
begin

lemma size_ins:
  "invar m \<Longrightarrow> size (ins k v m) = (if get m k = None then Suc (size m) else size m)"
  by (auto simp: size_card invar_ins get_ins dom_finite card_insert_if domIff)

lemma size_rem:
  "invar m \<Longrightarrow> size (rem k m) = (if get m k = None then size m else size m - 1)"
  by (auto simp: size_card invar_rem get_rem dom_finite card_Diff_singleton domIff)

lemma size_rem_le: "invar m \<Longrightarrow> size (rem k m) \<le> size m"
  by (simp add: size_rem)

lemma get_ins_other: "invar m \<Longrightarrow> k' \<noteq> k \<Longrightarrow> get (ins k v m) k' = get m k'"
  by (simp add: get_ins)

end

section \<open>The association list model\<close>

type_synonym ('k, 'v) hmap = "('k \<times> 'v) list"

abbreviation hm_get :: "('k, 'v) hmap \<Rightarrow> 'k \<Rightarrow> 'v option" where
  "hm_get \<equiv> map_of"

abbreviation hm_insert :: "'k \<Rightarrow> 'v \<Rightarrow> ('k, 'v) hmap \<Rightarrow> ('k, 'v) hmap" where
  "hm_insert \<equiv> AList.update"

abbreviation hm_remove :: "'k \<Rightarrow> ('k, 'v) hmap \<Rightarrow> ('k, 'v) hmap" where
  "hm_remove \<equiv> AList.delete"

abbreviation hm_inv :: "('k, 'v) hmap \<Rightarrow> bool" where
  "hm_inv m \<equiv> distinct (map fst m)"

lemma hm_size_card: "hm_inv m \<Longrightarrow> length m = card (dom (map_of m))"
  by (metis dom_map_of_conv_image_fst distinct_card length_map set_map)

interpretation hm: hash_map hm_get hm_insert hm_remove length hm_inv
proof unfold_locales
  fix m :: "('k, 'v) hmap" and k v
  assume inv: "hm_inv m"
  show "map_of (AList.update k v m) = (map_of m)(k \<mapsto> v)" by (rule update_conv')
  show "map_of (AList.delete k m) = (map_of m)(k := None)" by (rule delete_conv')
  show "hm_inv (AList.update k v m)" using inv by (rule distinct_update)
  show "hm_inv (AList.delete k m)" using inv by (rule distinct_delete)
  show "length m = card (dom (map_of m))" using inv by (rule hm_size_card)
  show "finite (dom (map_of m))" by (rule finite_dom_map_of)
qed

text \<open>\<open>get_mut\<close> followed by a field assignment.\<close>

definition hm_modify :: "'k \<Rightarrow> ('v \<Rightarrow> 'v) \<Rightarrow> ('k, 'v) hmap \<Rightarrow> ('k, 'v) hmap" where
  "hm_modify k f m = (case hm_get m k of None \<Rightarrow> m | Some v \<Rightarrow> hm_insert k (f v) m)"

lemma hm_modify_get:
  "hm_get (hm_modify k f m) = (hm_get m)(k := map_option f (hm_get m k))"
  by (auto simp: hm_modify_def update_conv' split: option.splits)

lemma hm_modify_inv: "hm_inv m \<Longrightarrow> hm_inv (hm_modify k f m)"
  by (simp add: hm_modify_def distinct_update split: option.splits)

lemma hm_modify_keys: "map fst (hm_modify k f m) = map fst m"
proof (cases "hm_get m k")
  case None
  then show ?thesis by (simp add: hm_modify_def)
next
  case (Some v)
  then have "k \<in> set (map fst m)" by (metis map_of_eq_None_iff option.distinct(1) set_map)
  with Some show ?thesis by (simp add: hm_modify_def update_keys)
qed

lemma hm_modify_length: "length (hm_modify k f m) = length m"
  using hm_modify_keys [of k f m] by (metis length_map)

text \<open>The sum of a measure over the values, and how it changes when one value changes.\<close>

definition hm_sum :: "('v \<Rightarrow> 'a :: comm_monoid_add) \<Rightarrow> ('k, 'v) hmap \<Rightarrow> 'a" where
  "hm_sum g m = sum_list (map (\<lambda>(_, v). g v) m)"

lemma hm_sum_update:
  fixes g :: "'v \<Rightarrow> 'a :: ab_group_add"
  assumes "hm_get m k = Some v"
  shows "hm_sum g (hm_insert k v' m) = hm_sum g m - g v + g v'"
  using assms by (induction m) (auto simp: hm_sum_def algebra_simps split: if_splits)

lemma hm_sum_insert_new:
  "hm_get m k = None \<Longrightarrow> hm_sum g (hm_insert k v m) = hm_sum g m + g v"
  by (induction m) (auto simp: hm_sum_def algebra_simps split: if_splits)

end
