(* ===== verification/Mux.thy ===== *)
theory Mux
  imports Orca Hash_Map
begin

text \<open>
  \<open>orcax/protocol/src/mux.rs\<close>: the table of multiplexed streams of one connection. Stream
  identifiers are \<open>u32\<close> values that step by two (odd for the client, even for the server)
  and wrap around as in a release build. The runs of a multiplexer are the inductive relation
  \<open>mux_reach\<close>, which also records the identifiers handed out by \<open>open_stream\<close>.
\<close>

section \<open>State\<close>

definition DEFAULT_WINDOW_SIZE :: u32 where "DEFAULT_WINDOW_SIZE = 262144"

definition MAX_STREAMS :: u32 where "MAX_STREAMS = 256"

datatype stream_state = Open | HalfClosedLocal | HalfClosedRemote | Closed

record mux_stream =
  sid :: u32
  state :: stream_state
  target :: "target_addr option"
  window_size :: u32
  bytes_sent :: u64
  bytes_received :: u64
  is_udp :: bool

record multiplexer =
  streams :: "(u32, mux_stream) hmap"
  next_stream_id :: u32
  max_streams :: u32

datatype mux_error = MaxStreamsReached u32 | StreamExists u32

section \<open>Operations\<close>

definition new_server :: multiplexer where
  "new_server = \<lparr>streams = [], next_stream_id = 2, max_streams = MAX_STREAMS\<rparr>"

definition new_client :: multiplexer where
  "new_client = \<lparr>streams = [], next_stream_id = 1, max_streams = MAX_STREAMS\<rparr>"

definition new_stream :: "u32 \<Rightarrow> target_addr option \<Rightarrow> bool \<Rightarrow> mux_stream" where
  "new_stream i t udp =
     \<lparr>sid = i, state = Open, target = t, window_size = DEFAULT_WINDOW_SIZE,
      bytes_sent = 0, bytes_received = 0, is_udp = udp\<rparr>"

definition open_stream ::
    "multiplexer \<Rightarrow> target_addr option \<Rightarrow> bool \<Rightarrow> (mux_error, u32 \<times> multiplexer) outcome" where
  "open_stream m t udp =
     (if length (streams m) \<ge> unat (max_streams m) then Err (MaxStreamsReached (max_streams m))
      else let i = next_stream_id m in
        Ok (i, m\<lparr>next_stream_id := next_stream_id m + 2,
                 streams := hm_insert i (new_stream i t udp) (streams m)\<rparr>))"

definition register_remote_stream ::
    "multiplexer \<Rightarrow> u32 \<Rightarrow> target_addr option \<Rightarrow> bool \<Rightarrow> (mux_error, multiplexer) outcome" where
  "register_remote_stream m i t udp =
     (if length (streams m) \<ge> unat (max_streams m) then Err (MaxStreamsReached (max_streams m))
      else if hm_get (streams m) i \<noteq> None then Err (StreamExists i)
      else Ok (m\<lparr>streams := hm_insert i (new_stream i t udp) (streams m)\<rparr>))"

definition close_stream :: "multiplexer \<Rightarrow> u32 \<Rightarrow> multiplexer" where
  "close_stream m i =
     m\<lparr>streams := hm_remove i (hm_modify i (\<lambda>s. s\<lparr>state := Closed\<rparr>) (streams m))\<rparr>"

definition get_stream :: "multiplexer \<Rightarrow> u32 \<Rightarrow> mux_stream option" where
  "get_stream m i = hm_get (streams m) i"

definition stream_count :: "multiplexer \<Rightarrow> nat" where
  "stream_count m = length (streams m)"

definition is_open :: "multiplexer \<Rightarrow> u32 \<Rightarrow> bool" where
  "is_open m i =
     (case hm_get (streams m) i of
        Some s \<Rightarrow> state s = Open \<or> state s = HalfClosedRemote
      | None \<Rightarrow> False)"

definition record_sent :: "multiplexer \<Rightarrow> u32 \<Rightarrow> u64 \<Rightarrow> multiplexer" where
  "record_sent m i n = m\<lparr>streams := hm_modify i (\<lambda>s. s\<lparr>bytes_sent := bytes_sent s + n\<rparr>) (streams m)\<rparr>"

definition record_received :: "multiplexer \<Rightarrow> u32 \<Rightarrow> u64 \<Rightarrow> multiplexer" where
  "record_received m i n =
     m\<lparr>streams := hm_modify i (\<lambda>s. s\<lparr>bytes_received := bytes_received s + n\<rparr>) (streams m)\<rparr>"


text \<open>\<open>get_stream\<close> hands out a mutable reference; its caller changes the stream's state through it.\<close>

definition set_state :: "multiplexer \<Rightarrow> u32 \<Rightarrow> stream_state \<Rightarrow> multiplexer" where
  "set_state m i st = m\<lparr>streams := hm_modify i (\<lambda>s. s\<lparr>state := st\<rparr>) (streams m)\<rparr>"

section \<open>Runs\<close>

text \<open>
  \<open>mux_reach peer m0 ids m\<close>: \<open>m\<close> is reached from \<open>m0\<close> by calls of the operations in any
  order, where the peer announces only identifiers that satisfy \<open>peer\<close>; \<open>ids\<close> are the
  results of the successful \<open>open_stream\<close> calls, oldest first. Failed calls change nothing.
\<close>

inductive mux_reach :: "(u32 \<Rightarrow> bool) \<Rightarrow> multiplexer \<Rightarrow> u32 list \<Rightarrow> multiplexer \<Rightarrow> bool"
  for peer :: "u32 \<Rightarrow> bool" and m0 :: multiplexer where
  start: "mux_reach peer m0 [] m0"
| local_open: "mux_reach peer m0 ids m \<Longrightarrow> open_stream m t u = Ok (i, m') \<Longrightarrow>
     mux_reach peer m0 (ids @ [i]) m'"
| remote_open: "mux_reach peer m0 ids m \<Longrightarrow> peer i \<Longrightarrow> register_remote_stream m i t u = Ok m' \<Longrightarrow>
     mux_reach peer m0 ids m'"
| close: "mux_reach peer m0 ids m \<Longrightarrow> mux_reach peer m0 ids (close_stream m i)"
| sent: "mux_reach peer m0 ids m \<Longrightarrow> mux_reach peer m0 ids (record_sent m i n)"
| received: "mux_reach peer m0 ids m \<Longrightarrow> mux_reach peer m0 ids (record_received m i n)"
| mutate: "mux_reach peer m0 ids m \<Longrightarrow> mux_reach peer m0 ids (set_state m i st)"

section \<open>The table invariant\<close>

definition mux_inv :: "multiplexer \<Rightarrow> bool" where
  "mux_inv m \<longleftrightarrow>
     hm_inv (streams m) \<and> length (streams m) \<le> unat (max_streams m)
     \<and> (\<forall>i s. hm_get (streams m) i = Some s \<longrightarrow> sid s = i)"

named_theorems mux_defs

lemmas mux_op_defs [mux_defs] =
  open_stream_def register_remote_stream_def close_stream_def record_sent_def
  record_received_def set_state_def new_stream_def

lemma mux_inv_new: "mux_inv new_client" "mux_inv new_server"
  by (simp_all add: mux_inv_def new_client_def new_server_def)

lemma mux_inv_open: "mux_inv m \<Longrightarrow> open_stream m t u = Ok (i, m') \<Longrightarrow> mux_inv m'"
  by (auto simp: mux_inv_def mux_defs Let_def distinct_update hm.size_ins update_conv'
      split: if_splits)

lemma mux_inv_remote: "mux_inv m \<Longrightarrow> register_remote_stream m i t u = Ok m' \<Longrightarrow> mux_inv m'"
  by (auto simp: mux_inv_def mux_defs distinct_update hm.size_ins update_conv'
      split: if_splits)

lemma mux_inv_close: "mux_inv m \<Longrightarrow> mux_inv (close_stream m i)"
  by (auto simp: mux_inv_def mux_defs distinct_delete hm_modify_inv delete_conv' hm_modify_get
      hm_modify_length split: if_splits intro: order.trans [OF hm.size_rem_le])

lemma mux_inv_modify:
  assumes "mux_inv m" "\<And>s. sid (f s) = sid s"
  shows "mux_inv (m\<lparr>streams := hm_modify i f (streams m)\<rparr>)"
  using assms by (auto simp: mux_inv_def hm_modify_inv hm_modify_length hm_modify_get split: if_splits)

lemma mux_reach_inv: "mux_reach peer m0 ids m \<Longrightarrow> mux_inv m0 \<Longrightarrow> mux_inv m"
  by (induction rule: mux_reach.induct)
     (auto intro: mux_inv_open mux_inv_remote mux_inv_close mux_inv_modify
       simp: record_sent_def record_received_def set_state_def)

lemma mux_reach_max: "mux_reach peer m0 ids m \<Longrightarrow> max_streams m = max_streams m0"
  by (induction rule: mux_reach.induct) (auto simp: mux_defs Let_def split: if_splits)

section \<open>Identifiers\<close>

lemma mux_reach_ids:
  "mux_reach peer m0 ids m \<Longrightarrow>
     next_stream_id m = next_stream_id m0 + 2 * of_nat (length ids)
     \<and> ids = map (\<lambda>k. next_stream_id m0 + 2 * of_nat k) [0..<length ids]"
  by (induction rule: mux_reach.induct)
     (auto simp: mux_defs Let_def algebra_simps split: if_splits)

lemma mux_reach_keys:
  assumes "mux_reach peer m0 ids m" "streams m0 = []"
  shows "hm_get (streams m) i = Some s \<Longrightarrow> i \<in> set ids \<or> peer i"
  using assms(1)
proof (induction arbitrary: i s rule: mux_reach.induct)
  case start
  then show ?case by (simp add: assms(2))
qed (fastforce simp: mux_defs Let_def update_conv' delete_conv' hm_modify_get split: if_splits)+

lemma even_id_step: "even (i + 2 * of_nat k :: u32) \<longleftrightarrow> even i"
  by simp

lemma id_step_inj:
  assumes "k < 2 ^ 31" "j < 2 ^ 31" "(i + 2 * of_nat k :: u32) = i + 2 * of_nat j"
  shows "k = j"
proof -
  from assms(3) have "(of_nat (2 * k) :: u32) = of_nat (2 * j)" by simp
  then have "2 * k mod 2 ^ 32 = 2 * j mod 2 ^ 32"
    by (simp only: word_of_nat_eq_iff take_bit_eq_mod) simp
  then show ?thesis using assms(1,2) by simp
qed

lemma mux_reach_id_parity:
  "mux_reach peer m0 ids m \<Longrightarrow> i \<in> set ids \<Longrightarrow> even i \<longleftrightarrow> even (next_stream_id m0)"
proof -
  assume run: "mux_reach peer m0 ids m" and i: "i \<in> set ids"
  have "ids = map (\<lambda>k. next_stream_id m0 + 2 * of_nat k) [0..<length ids]"
    using mux_reach_ids [OF run] by simp
  with i have "i \<in> set (map (\<lambda>k. next_stream_id m0 + 2 * of_nat k) [0..<length ids])" by simp
  then show ?thesis by auto
qed

lemma mux_reach_distinct:
  assumes "mux_reach peer m0 ids m" "length ids \<le> 2 ^ 31"
  shows "distinct ids"
proof -
  have ids: "ids = map (\<lambda>k. next_stream_id m0 + 2 * of_nat k) [0..<length ids]"
    using mux_reach_ids [OF assms(1)] by simp
  have "inj_on (\<lambda>k. next_stream_id m0 + 2 * of_nat k) (set [0..<length ids])"
    using assms(2) by (auto intro!: inj_onI intro: id_step_inj)
  then have "distinct (map (\<lambda>k. next_stream_id m0 + 2 * of_nat k) [0..<length ids])"
    by (simp add: distinct_map)
  with ids show ?thesis by simp
qed

section \<open>Byte accounting\<close>



section \<open>Properties\<close>

text \<open>
  C16: in every state a fresh multiplexer can reach, whatever the peer announces, the table
  has one entry per identifier, each entry carries its own identifier, and there are never
  more than 256 streams.
\<close>

theorem mux_table_invariant:
  assumes "mux_reach (\<lambda>_. True) m0 ids m" and "m0 = new_client \<or> m0 = new_server"
  shows "distinct (map fst (streams m)) \<and> stream_count m \<le> 256
    \<and> (\<forall>i s. get_stream m i = Some s \<longrightarrow> sid s = i)"
proof -
  have "mux_inv m" using mux_reach_inv [OF assms(1)] assms(2) mux_inv_new by auto
  moreover have "unat (max_streams m) = 256"
    using mux_reach_max [OF assms(1)] assms(2)
    by (auto simp: new_client_def new_server_def MAX_STREAMS_def)
  ultimately show ?thesis by (simp add: mux_inv_def stream_count_def get_stream_def)
qed

theorem mux_table_invariant_witness:
  "\<exists>m. open_stream new_client None False = Ok (1, m) \<and> stream_count m \<le> 256"
proof -
  define m where "m = new_client\<lparr>next_stream_id := 3, streams := [(1, new_stream 1 None False)]\<rparr>"
  have o: "open_stream new_client None False = Ok (1, m)"
    by (simp add: open_stream_def new_client_def MAX_STREAMS_def Let_def m_def)
  have "mux_reach (\<lambda>_. True) new_client ([] @ [1]) m"
    by (rule mux_reach.local_open [OF mux_reach.start o])
  from mux_table_invariant [OF this] o show ?thesis by blast
qed

text \<open>
  C17: as long as the peer keeps to the other parity, as the protocol requires, the first
  2^31 calls of \<open>open_stream\<close> return pairwise different identifiers of the opener's parity,
  and a new identifier is never one that is in use, so opening a stream never replaces another.
\<close>

theorem open_stream_fresh:
  assumes "mux_reach (\<lambda>i. even i \<noteq> even (next_stream_id m0)) m0 ids m" and "streams m0 = []"
    and "length ids < 2 ^ 31" and "open_stream m t u = Ok (i, m')"
  shows "distinct (ids @ [i]) \<and> get_stream m i = None \<and> (even i \<longleftrightarrow> even (next_stream_id m0))"
proof -
  let ?peer = "\<lambda>i. even i \<noteq> even (next_stream_id m0)"
  have run: "mux_reach ?peer m0 (ids @ [i]) m'"
    by (rule mux_reach.local_open [OF assms(1,4)])
  have d: "distinct (ids @ [i])"
    using mux_reach_distinct [OF run] assms(3) by simp
  moreover have p: "even i \<longleftrightarrow> even (next_stream_id m0)"
    using mux_reach_id_parity [OF run, of i] by simp
  moreover have "get_stream m i = None"
    using mux_reach_keys [OF assms(1,2), of i] d p by (cases "get_stream m i") (auto simp: get_stream_def)
  ultimately show ?thesis by blast
qed

theorem open_stream_fresh_witness:
  "\<exists>m m'. open_stream new_client None False = Ok (1, m) \<and> open_stream m None True = Ok (3, m')
     \<and> distinct [1, 3 :: u32] \<and> get_stream m 3 = None"
proof -
  define m where "m = new_client\<lparr>next_stream_id := 3, streams := [(1, new_stream 1 None False)]\<rparr>"
  define m' where "m' = m\<lparr>next_stream_id := 5, streams := [(1, new_stream 1 None False), (3, new_stream 3 None True)]\<rparr>"
  have o1: "open_stream new_client None False = Ok (1, m)"
    by (simp add: open_stream_def new_client_def MAX_STREAMS_def Let_def m_def)
  have o2: "open_stream m None True = Ok (3, m')"
    by (simp add: open_stream_def new_client_def MAX_STREAMS_def Let_def m_def m'_def)
  have "mux_reach (\<lambda>i. even i \<noteq> even (next_stream_id new_client)) new_client ([] @ [1]) m"
    by (rule mux_reach.local_open [OF mux_reach.start o1])
  from open_stream_fresh [OF this _ _ o2] have "distinct (([] @ [1]) @ [3 :: u32]) \<and> get_stream m 3 = None"
    by (simp add: new_client_def)
  with o1 o2 show ?thesis by auto
qed





end
