(* ===== verification/Addons.thy ===== *)
theory Addons
  imports Rust_Text
begin

text \<open>
  \<open>orcax/protocol/src/addons.rs\<close>: the minimal protobuf reader that finds the \<open>Flow\<close>
  field of a VLESS addons blob. The loop over the index \<open>i\<close> becomes a recursion on
  \<open>data[i..]\<close>. The test \<open>end > data.len()\<close>, with \<open>end\<close> computed by a saturating
  addition, is the test that the length exceeds what is left.
\<close>

section \<open>Operations\<close>

record addons =
  flow :: rust_string

definition default_addons :: addons where
  "default_addons = \<lparr>flow = []\<rparr>"


fun read_varint_go :: "nat \<Rightarrow> u64 \<Rightarrow> nat \<Rightarrow> bytes \<Rightarrow> (u64 \<times> nat) option" where
  "read_varint_go i val shift [] = None"
| "read_varint_go i val shift (b # bs) =
     (let val' = val OR push_bit shift (ucast (b AND 0x7F)) in
      if b AND 0x80 = 0 then Some (val', i + 1)
      else read_varint_go (i + 1) val' (shift + 7) bs)"

definition read_varint :: "bytes \<Rightarrow> (u64 \<times> nat) option" where
  "read_varint data = read_varint_go 0 0 0 (take 10 data)"

text \<open>One round of the loop after the tag byte; \<open>None\<close> is the \<open>break\<close>.\<close>

definition parse_field :: "byte \<Rightarrow> bytes \<Rightarrow> addons \<Rightarrow> (addons \<times> bytes) option" where
  "parse_field tag rest out =
     (let field = drop_bit 3 tag; wire = tag AND 0x07 in
      if (field = 1 \<or> field = 2) \<and> wire = 2 then
        (case read_varint rest of
           None \<Rightarrow> None
         | Some (len, consumed) \<Rightarrow>
             let rest = drop consumed rest in
             if unat len > length rest then None
             else Some (if field = 1 then
                          (case from_utf8 (take (unat len) rest) of
                             Some s \<Rightarrow> out\<lparr>flow := s\<rparr>
                           | None \<Rightarrow> out)
                        else out, drop (unat len) rest))
      else if wire = 0 then
        (case read_varint rest of
           None \<Rightarrow> None
         | Some (_, consumed) \<Rightarrow> Some (out, drop consumed rest))
      else if wire = 2 then
        (case read_varint rest of
           None \<Rightarrow> None
         | Some (len, consumed) \<Rightarrow>
             let rest = drop consumed rest in
             if unat len > length rest then None else Some (out, drop (unat len) rest))
      else None)"

lemma parse_field_shrinks:
  "parse_field tag rest out = Some (out', rest') \<Longrightarrow> length rest' \<le> length rest"
  by (auto simp: parse_field_def Let_def split: if_splits option.splits)

function addons_loop :: "bytes \<Rightarrow> addons \<Rightarrow> addons" where
  "addons_loop [] out = out"
| "addons_loop (tag # rest) out =
     (case parse_field tag rest out of
        None \<Rightarrow> out
      | Some (out', rest') \<Rightarrow> addons_loop rest' out')"
  by pat_completeness auto
termination
  by (relation "measure (length \<circ> fst)") (auto dest!: parse_field_shrinks)

definition addons_parse :: "bytes \<Rightarrow> addons" where
  "addons_parse data = addons_loop data default_addons"

section \<open>Varints\<close>

text \<open>The base-128 encoding of the protobuf specification, as the reference for \<open>read_varint\<close>.\<close>

function write_varint :: "u64 \<Rightarrow> bytes" where
  "write_varint w =
     (if w < 128 then [ucast w] else (ucast w OR 0x80) # write_varint (drop_bit 7 w))"
  by pat_completeness auto
termination
proof (relation "measure unat")
  fix w :: u64
  assume "\<not> w < 128"
  then have "128 \<le> unat w" by (simp add: word_less_nat_alt)
  then show "(drop_bit 7 w, w) \<in> measure unat" by (simp add: drop_bit_eq_div unat_div)
qed simp

declare write_varint.simps [simp del]

lemma write_varint_small: "w < 128 \<Longrightarrow> write_varint w = [ucast w]"
  by (simp add: write_varint.simps [of w])

lemma length_write_varint: "unat w < 128 ^ n \<Longrightarrow> 0 < n \<Longrightarrow> length (write_varint w) \<le> n"
proof (induction n arbitrary: w)
  case (Suc n)
  show ?case
  proof (cases "w < 128")
    case True
    then show ?thesis by (simp add: write_varint_small)
  next
    case False
    then have "128 \<le> unat w" by (simp add: word_less_nat_alt)
    with Suc.prems have "0 < n" by (cases n) auto
    moreover have "unat (drop_bit 7 w) < 128 ^ n"
      using Suc.prems by (simp add: drop_bit_eq_div unat_div less_mult_imp_div_less mult.commute)
    ultimately show ?thesis using Suc.IH False by (subst write_varint.simps) simp
  qed
qed simp

lemma length_write_varint_10: "length (write_varint w) \<le> 10"
proof (rule length_write_varint)
  show "unat w < 128 ^ 10" using unsigned_less [of w, where 'a = nat] by simp
qed simp

lemma masks_7: "(0x7F :: u8) = mask 7" "(0x80 :: u8) = 2 ^ 7"
  by (simp_all add: mask_eq_exp_minus_1)

lemma varint_byte_bits:
  fixes w :: u64
  shows "(ucast (((ucast w :: u8) OR 0x80) AND 0x7F) :: u64) = take_bit 7 w"
    and "(ucast ((ucast w :: u8) AND 0x7F) :: u64) = take_bit 7 w"
    and "((ucast w :: u8) OR 0x80) AND 0x80 \<noteq> 0"
    and "(ucast w :: u8) AND 0x80 = 0 \<longleftrightarrow> \<not> bit w 7"
proof -
  have h: "bit (0x80 :: int) n \<longleftrightarrow> n = 7" for n
    using bit_exp_iff [of 7 n, where 'a = int] by auto
  have m: "(b OR 0x80) AND 0x7F = b AND 0x7F" for b :: u8
    unfolding masks_7(1) by (rule bit_word_eqI) (auto simp: bit_simps h)
  show "(ucast ((ucast w :: u8) AND 0x7F) :: u64) = take_bit 7 w"
    unfolding masks_7(1) by (rule bit_word_eqI) (auto simp: bit_simps)
  then show "(ucast (((ucast w :: u8) OR 0x80) AND 0x7F) :: u64) = take_bit 7 w"
    by (simp only: m)
  show "((ucast w :: u8) OR 0x80) AND 0x80 \<noteq> 0" "(ucast w :: u8) AND 0x80 = 0 \<longleftrightarrow> \<not> bit w 7"
    unfolding masks_7(2) and_exp_eq_0_iff_not_bit by (simp_all add: bit_simps)
qed

lemma varint_join:
  fixes w :: u64
  shows "push_bit sh (take_bit 7 w) OR push_bit (sh + 7) (drop_bit 7 w) = push_bit sh w"
proof (rule bit_word_eqI)
  fix n
  consider "n < sh" | "sh \<le> n" "n < sh + 7" | "sh + 7 \<le> n" by linarith
  then show "bit (push_bit sh (take_bit 7 w) OR push_bit (sh + 7) (drop_bit 7 w)) n = bit (push_bit sh w) n"
    by cases (auto simp: bit_simps add.commute)
qed

lemma small_u64_take_bit:
  fixes w :: u64
  assumes "w < 128"
  shows "take_bit 7 w = w" and "\<not> bit w 7"
proof -
  show t: "take_bit 7 w = w" using assms by (simp add: take_bit_eq_mod mod_word_less)
  show "\<not> bit w 7" by (subst t [symmetric]) (simp add: bit_take_bit_iff)
qed

lemma read_varint_go_write:
  "read_varint_go i val sh (write_varint w @ r)
     = Some (val OR push_bit sh w, i + length (write_varint w))"
proof (induction w arbitrary: i val sh rule: write_varint.induct)
  case (1 w)
  show ?case
  proof (cases "w < 128")
    case True
    then show ?thesis by (simp add: write_varint_small varint_byte_bits small_u64_take_bit)
  next
    case False
    with 1 [OF False] show ?thesis
      by (simp add: write_varint.simps [of w] varint_byte_bits or.assoc varint_join)
  qed
qed

lemma read_varint_write [simp, wire_simps]:
  "read_varint (write_varint w @ r) = Some (w, length (write_varint w))"
proof -
  have "take 10 (write_varint w @ r) = write_varint w @ take (10 - length (write_varint w)) r"
    using length_write_varint_10 [of w] by simp
  then show ?thesis by (simp add: read_varint_def read_varint_go_write del: take_append)
qed

section \<open>Messages\<close>

text \<open>
  A protobuf message with the wire types the reader knows. A tag is itself a varint; for the
  field numbers 1 to 15 it is one byte.
\<close>

datatype pb_field = Varint u8 u64 | Bytes u8 bytes


fun pb_enc :: "pb_field \<Rightarrow> bytes" where
  "pb_enc (Varint n v) = push_bit 3 n # write_varint v"
| "pb_enc (Bytes n bs) = (push_bit 3 n OR 2) # write_varint (of_nat (length bs)) @ bs"





section \<open>Properties\<close>

text \<open>
  C40: \<open>read_varint\<close> decodes the base-128 encoding of every 64-bit value, whatever follows it,
  and reports how many bytes the encoding has, which is at most ten.
\<close>

theorem read_varint_roundtrip:
  "read_varint (write_varint w @ r) = Some (w, length (write_varint w))
     \<and> length (write_varint w) \<le> 10"
  by (simp add: length_write_varint_10)



text \<open>
  A field number above 15 needs a two-byte tag, which the reader takes for a tag and a length:
  the bytes of the unknown field are read as fields, and a \<open>Flow\<close> behind it can be lost.
\<close>

theorem addons_wide_tag_loses_flow:
  assumes "x AND 7 \<noteq> 0" "x AND 7 \<noteq> 2"
  shows "addons_parse (0x82 # 0x01 # 0x01 # x # pb_enc (Bytes 1 f)) = default_addons"
  using assms by (simp add: addons_parse_def parse_field_def Let_def read_varint_def)

end
