(* ===== verification/Vless.thy ===== *)
theory Vless
  imports Address Addons
begin

text \<open>
  \<open>orcax/protocol/src/vless.rs\<close>: the VLESS v0 request header. The fixed parts are read with
  \<open>read_exact\<close>, the address with a single \<open>read\<close>, so the parser runs on a segmented
  stream and returns what is left of it. \<open>hex::encode\<close> is the parameter \<open>hexenc\<close>; the
  lemmas use of it the documented output, two lowercase digits per byte (\<open>hex_crate\<close>).
\<close>

section \<open>Data\<close>

definition MAX_ADDONS_LEN :: nat where "MAX_ADDONS_LEN = 256"

datatype command = Tcp | Udp | Mux

record vless_request =
  uuid :: rust_string
  uuid_bytes :: bytes
  cmd :: command
  vtarget :: "target_addr option"
  addons_blob :: bytes
  initial_payload :: bytes

datatype vless_error =
    ShortHeaderRead
  | UnsupportedVersion byte
  | AddonsTooLarge nat
  | ShortAddonsRead
  | MissingCommand
  | UnsupportedCommand byte
  | TruncatedAddress
  | BadAddress addr_error

section \<open>Operations\<close>

definition command_from_byte :: "byte \<Rightarrow> (vless_error, command) outcome" where
  "command_from_byte b =
     (if b = 1 then Ok Tcp else if b = 2 then Ok Udp else if b = 3 then Ok Mux
      else Err (UnsupportedCommand b))"

text \<open>The slices of \<open>uuid_hex\<close> panic when the string is shorter than 32 bytes.\<close>

definition format_uuid :: "rust_string \<Rightarrow> ('e, rust_string) outcome" where
  "format_uuid h =
     (if length h < 32 then Panic
      else Ok (slice 0 8 h @ str ''-'' @ slice 8 12 h @ str ''-'' @ slice 12 16 h @ str ''-''
               @ slice 16 20 h @ str ''-'' @ slice 20 32 h))"

definition read_addons :: "byte \<Rightarrow> segs \<Rightarrow> (vless_error, bytes \<times> segs) outcome" where
  "read_addons len_byte s =
     (let addons_len = unat len_byte in
      if addons_len > MAX_ADDONS_LEN then Err (AddonsTooLarge addons_len)
      else if addons_len > 0 then ok_or ShortAddonsRead (read_exact addons_len s)
      else Ok ([], s))"

definition read_target ::
    "command \<Rightarrow> segs \<Rightarrow> (vless_error, target_addr option \<times> bytes \<times> segs) outcome" where
  "read_target c s =
     (case read_some 16384 s of (rest, s') \<Rightarrow>
        if length rest < 3 \<and> c \<noteq> Mux then Err TruncatedAddress
        else if c = Mux then Ok (None, rest, s')
        else (case parse rest of
                Ok (t, consumed) \<Rightarrow>
                  if consumed \<le> length rest then Ok (Some t, drop consumed rest, s') else Panic
              | Err e \<Rightarrow> Err (BadAddress e)
              | Panic \<Rightarrow> Panic))"

definition parse_request ::
    "(bytes \<Rightarrow> rust_string) \<Rightarrow> segs \<Rightarrow> (vless_error, vless_request \<times> segs) outcome" where
  "parse_request hexenc s =
     outcome_bind (ok_or ShortHeaderRead (read_exact 18 s)) (\<lambda>(hdr, s).
     if hdr ! 0 \<noteq> 0 then Err (UnsupportedVersion (hdr ! 0))
     else let ub = slice 1 17 hdr in
     outcome_bind (format_uuid (hexenc ub)) (\<lambda>u.
     outcome_bind (read_addons (hdr ! 17) s) (\<lambda>(addons, s).
     outcome_bind (ok_or MissingCommand (read_exact 1 s)) (\<lambda>(cb, s).
     outcome_bind (command_from_byte (cb ! 0)) (\<lambda>c.
     outcome_bind (read_target c s) (\<lambda>(t, payload, s).
     Ok (\<lparr>uuid = u, uuid_bytes = ub, cmd = c, vtarget = t, addons_blob = addons,
          initial_payload = payload\<rparr>, s)))))))"

definition create_response :: bytes where "create_response = [0, 0]"

definition is_fpv1 :: "bytes \<Rightarrow> bool" where
  "is_fpv1 addons \<longleftrightarrow> length addons \<ge> 2 \<and> addons ! 0 = 0xF0 \<and> addons ! 1 = 0x99"

text \<open>The request builder of the test module.\<close>

definition build_vless_packet :: "bytes \<Rightarrow> byte \<Rightarrow> bytes \<Rightarrow> byte \<Rightarrow> bytes \<Rightarrow> bytes" where
  "build_vless_packet ub addons_len addons c rest = 0 # ub @ addons_len # addons @ c # rest"

section \<open>The UUID string\<close>

definition hex_crate :: "(bytes \<Rightarrow> rust_string) \<Rightarrow> bool" where
  "hex_crate hexenc \<longleftrightarrow> (\<forall>bs. hexenc bs = hex_encode bs)"

text \<open>The canonical form: the digits of the bytes, with dashes after 4, 6, 8 and 10 bytes.\<close>

definition canonical_uuid :: "bytes \<Rightarrow> rust_string" where
  "canonical_uuid ub =
     hex_encode (slice 0 4 ub) @ str ''-'' @ hex_encode (slice 4 6 ub) @ str ''-''
     @ hex_encode (slice 6 8 ub) @ str ''-'' @ hex_encode (slice 8 10 ub) @ str ''-''
     @ hex_encode (slice 10 16 ub)"

lemma take_hex_encode: "take (2 * n) (hex_encode bs) = hex_encode (take n bs)"
proof (induction bs arbitrary: n)
  case (Cons b bs)
  then show ?case by (cases n) (simp_all add: hex_encode_def)
qed (simp add: hex_encode_def)

lemma drop_hex_encode: "drop (2 * n) (hex_encode bs) = hex_encode (drop n bs)"
proof (induction bs arbitrary: n)
  case (Cons b bs)
  then show ?case by (cases n) (simp_all add: hex_encode_def)
qed (simp add: hex_encode_def)

lemma slice_hex_encode: "slice (2 * a) (2 * b) (hex_encode bs) = hex_encode (slice a b bs)"
  using take_hex_encode [of "b - a"] by (simp add: slice_def drop_hex_encode right_diff_distrib')

lemma format_uuid_hex:
  assumes "length ub = 16"
  shows "format_uuid (hex_encode ub) = Ok (canonical_uuid ub)"
  using assms slice_hex_encode [of 0 4 ub] slice_hex_encode [of 4 6 ub] slice_hex_encode [of 6 8 ub]
    slice_hex_encode [of 8 10 ub] slice_hex_encode [of 10 16 ub]
  by (simp add: format_uuid_def canonical_uuid_def)

lemma canonical_uuid_inj:
  assumes "length a = 16" "length b = 16" "canonical_uuid a = canonical_uuid b"
  shows "a = b"
proof -
  have split: "c = slice 0 4 c @ slice 4 6 c @ slice 6 8 c @ slice 8 10 c @ slice 10 16 c"
    if "length c = 16" for c :: bytes
    using that by (auto simp: slice_def length_Suc_conv numeral_eq_Suc)
  have "slice 0 4 a = slice 0 4 b \<and> slice 4 6 a = slice 4 6 b \<and> slice 6 8 a = slice 6 8 b
      \<and> slice 8 10 a = slice 8 10 b \<and> slice 10 16 a = slice 10 16 b"
    using assms by (auto simp: canonical_uuid_def dest!: hex_encode_inj)
  then show ?thesis using split [OF assms(1)] split [OF assms(2)] by metis
qed

section \<open>Reading a request\<close>

definition cmd_byte :: "command \<Rightarrow> byte" where
  "cmd_byte c = (case c of Tcp \<Rightarrow> 1 | Udp \<Rightarrow> 2 | Mux \<Rightarrow> 3)"

lemma command_roundtrip: "command_from_byte (cmd_byte c) = Ok c"
  by (cases c) (simp_all add: command_from_byte_def cmd_byte_def)

text \<open>The header of a request, up to the command byte.\<close>

definition vless_header :: "bytes \<Rightarrow> bytes \<Rightarrow> command \<Rightarrow> bytes" where
  "vless_header ub addons c = build_vless_packet ub (of_nat (length addons)) addons (cmd_byte c) []"

lemma read_target_chunk:
  assumes "concat hs @ hb = []" "chunk \<noteq> []" "length chunk \<le> 16384"
  shows "read_some 16384 (hs @ (hb @ chunk) # tail) = (chunk, [] # tail)"
  using assms read_some_skip [of hs chunk 16384 tail] by simp

lemma read_addons_upto:
  assumes "length addons < 256" "concat hs @ hb = addons @ r"
  shows "\<exists>hs' hb'. read_addons (of_nat (length addons)) (hs @ (hb @ c) # tail)
      = Ok (addons, hs' @ (hb' @ c) # tail) \<and> concat hs' @ hb' = r"
  using assms read_exact_upto [OF assms(2), of c tail]
  by (cases "addons = []") (auto simp: read_addons_def MAX_ADDONS_LEN_def unat_of_nat_u8 Let_def)

text \<open>
  However the header is cut into segments, the parser gets to the address with exactly the
  bytes \<open>chunk\<close> that arrived in the same segment as the last header byte or in the next one.
\<close>

lemma parse_request_header:
  assumes "hex_crate hexenc" "length ub = 16" "length addons < 256"
    and "concat hs @ hb = vless_header ub addons c" "chunk \<noteq> []" "length chunk \<le> 16384"
  shows "parse_request hexenc (hs @ (hb @ chunk) # tail) =
    outcome_bind (read_target c (chunk # tail)) (\<lambda>(t, payload, s).
      Ok (\<lparr>uuid = canonical_uuid ub, uuid_bytes = ub, cmd = c, vtarget = t, addons_blob = addons,
           initial_payload = payload\<rparr>, s))"
proof -
  let ?fix = "0 # ub @ [of_nat (length addons)]"
  have "concat hs @ hb = ?fix @ (addons @ [cmd_byte c])"
    using assms(4) by (simp add: vless_header_def build_vless_packet_def)
  from read_exact_upto [OF this, of chunk tail] assms(2) obtain hs1 hb1 where
    r1: "read_exact 18 (hs @ (hb @ chunk) # tail) = Some (?fix, hs1 @ (hb1 @ chunk) # tail)"
    and s1: "concat hs1 @ hb1 = addons @ [cmd_byte c]" by auto
  from read_addons_upto [OF assms(3) s1, of chunk tail] obtain hs2 hb2 where
    r2: "read_addons (of_nat (length addons)) (hs1 @ (hb1 @ chunk) # tail)
      = Ok (addons, hs2 @ (hb2 @ chunk) # tail)"
    and s2: "concat hs2 @ hb2 = [cmd_byte c] @ []" by auto
  from read_exact_upto [OF s2, of chunk tail] obtain hs3 hb3 where
    r3: "read_exact 1 (hs2 @ (hb2 @ chunk) # tail) = Some ([cmd_byte c], hs3 @ (hb3 @ chunk) # tail)"
    and s3: "concat hs3 @ hb3 = []" by auto
  have rt: "read_target c (hs3 @ (hb3 @ chunk) # tail) = read_target c (chunk # tail)"
    using read_target_chunk [OF s3 assms(5,6)] read_target_chunk [of "[]" "[]", OF _ assms(5,6)]
    by (simp add: read_target_def)
  have f: "slice 1 17 ?fix = ub" "?fix ! 0 = 0" "?fix ! 17 = of_nat (length addons)"
    using assms(2) by (auto simp: slice_def nth_append)
  have "format_uuid (hexenc ub) = (Ok (canonical_uuid ub) :: (vless_error, rust_string) outcome)"
    using assms(1,2) by (simp add: hex_crate_def format_uuid_hex)
  then show ?thesis
    unfolding parse_request_def r1
    by (simp only: ok_or_simps outcome_bind_simps prod.case f r2 r3 Let_def rt nth_Cons_0 command_roundtrip)
       simp
qed

lemma read_target_ok:
  assumes "c \<noteq> Mux" "wf_target t" "length (addr_payload t @ payload) \<le> 16384"
  shows "read_target c ((addr_payload t @ payload) # tail) = Ok (Some t, payload, [] # tail)"
proof -
  have "3 \<le> length (addr_payload t)" by (simp add: addr_payload_def split: address.splits)
  then show ?thesis
    using assms parse_addr_payload [OF assms(2), of payload]
      read_target_chunk [of "[]" "[]" "addr_payload t @ payload" tail]
    by (auto simp: read_target_def)
qed

lemma parse_proper_prefix:
  assumes "wf_target t" "addr_payload t = chunk @ missing" "missing \<noteq> []"
  shows "\<exists>e. parse chunk = Err e"
proof (cases "parse chunk")
  case (Ok r)
  obtain t' n where r: "r = (t', n)" by fastforce
  from parse_Ok Ok r have p: "wf_target t'" "n \<le> length chunk" "take n chunk = addr_payload t'"
    by auto
  have "addr_payload t @ [] = addr_payload t' @ (drop n chunk @ missing)"
    using assms(2) p(3) by (metis append.assoc append.right_neutral append_take_drop_id)
  from target.enc_prefix_free [OF assms(1) p(1) this] assms(3) show ?thesis by simp
qed (simp_all add: parse_no_panic)

lemma read_target_split:
  assumes "c \<noteq> Mux" "wf_target t" "addr_payload t = chunk @ missing" "missing \<noteq> []"
    and "chunk \<noteq> []"
  shows "\<exists>e. read_target c (chunk # tail) = Err e"
proof -
  have "length chunk \<le> length (addr_payload t)" using assms(3) by simp
  also have "\<dots> \<le> 16384"
    using addr_payload_length [OF assms(2)] assms(2) by (auto simp: wf_target_def split: address.splits)
  finally have "read_some 16384 (chunk # tail) = (chunk, [] # tail)"
    using read_target_chunk [of "[]" "[]" chunk tail] assms(5) by simp
  with parse_proper_prefix [OF assms(2-4)] assms(1) show ?thesis
    by (auto simp: read_target_def)
qed

lemma parse_request_no_panic:
  assumes "hex_crate hexenc"
  shows "parse_request hexenc s \<noteq> Panic"
proof -
  have "read_target c s' \<noteq> Panic" for c s'
    by (auto simp: read_target_def parse_no_panic split: prod.splits outcome.splits if_splits
        dest!: parse_Ok)
  moreover have "read_addons b s' \<noteq> Panic" for b s'
    by (simp add: read_addons_def Let_def)
  moreover have "command_from_byte b \<noteq> Panic" for b
    by (simp add: command_from_byte_def)
  moreover have "format_uuid (hexenc (slice 1 17 hdr)) \<noteq> Panic"
    if "read_exact 18 s = Some (hdr, s')" for hdr s'
    using seg.rd_Some [OF that] assms
    by (simp add: format_uuid_def hex_crate_def length_slice)
  ultimately show ?thesis
    by (auto simp: parse_request_def outcome_simps Let_def split: prod.splits if_splits)
qed

lemma parse_request_uuid:
  assumes "hex_crate hexenc" "parse_request hexenc s = Ok (q, s')"
  shows "length (uuid_bytes q) = 16 \<and> uuid q = canonical_uuid (uuid_bytes q)"
proof -
  obtain hdr s1 where r: "read_exact 18 s = Some (hdr, s1)"
    using assms(2) by (auto simp: parse_request_def outcome_simps)
  then have len: "length (slice 1 17 hdr) = 16"
    using seg.rd_Some [OF r] by (simp add: length_slice)
  have "uuid_bytes q = slice 1 17 hdr
      \<and> format_uuid (hexenc (slice 1 17 hdr)) = (Ok (uuid q) :: (vless_error, rust_string) outcome)"
    using assms(2) r by (auto simp: parse_request_def outcome_simps Let_def split: if_splits)
  with len assms(1) show ?thesis by (simp add: hex_crate_def format_uuid_hex)
qed

section \<open>Properties\<close>

text \<open>
  C6: a TCP or UDP request is parsed back exactly (UUID bytes and canonical string, command,
  target, addons, payload), however the network cuts the header, provided the address and the
  payload arrive in one segment, and the stream is left at the end of that segment.
\<close>

theorem parse_request_roundtrip:
  assumes "hex_crate hexenc" "length ub = 16" "length addons < 256" "c \<noteq> Mux" "wf_target t"
    and "concat hs @ hb = vless_header ub addons c"
    and "length (addr_payload t @ payload) \<le> 16384"
  shows "parse_request hexenc (hs @ (hb @ addr_payload t @ payload) # tail) =
    Ok (\<lparr>uuid = canonical_uuid ub, uuid_bytes = ub, cmd = c, vtarget = Some t,
         addons_blob = addons, initial_payload = payload\<rparr>, [] # tail)"
proof -
  have "addr_payload t @ payload \<noteq> []" by (simp add: addr_payload_def be16_def)
  from parse_request_header [OF assms(1-3,6) this assms(7), of tail]
  show ?thesis by (simp add: read_target_ok [OF assms(4,5,7)])
qed

theorem parse_request_roundtrip_witness:
  "parse_request hex_encode
     ([0 # replicate 9 0x55, replicate 7 0x55]
      @ [[0, 1] @ addr_payload \<lparr>addr = IPv4 (Ipv4Addr 127 0 0 1), port = 80\<rparr> @ [0x47]] @ [[0x45]])
   = Ok (\<lparr>uuid = canonical_uuid (replicate 16 0x55), uuid_bytes = replicate 16 0x55, cmd = Tcp,
          vtarget = Some \<lparr>addr = IPv4 (Ipv4Addr 127 0 0 1), port = 80\<rparr>, addons_blob = [],
          initial_payload = [0x47]\<rparr>, [[], [0x45]])"
  using parse_request_roundtrip [of hex_encode "replicate 16 0x55" "[]" Tcp
      "\<lparr>addr = IPv4 (Ipv4Addr 127 0 0 1), port = 80\<rparr>" "[0 # replicate 9 0x55, replicate 7 0x55]"
      "[0, 1]" "[0x47]" "[[0x45]]"]
  by (simp add: hex_crate_def wf_target_def vless_header_def build_vless_packet_def cmd_byte_def
      addr_payload_def numeral_eq_Suc)

text \<open>
  C31: the address has to arrive in one piece. When its bytes are split over two segments the
  request is refused, although every byte of it is on the stream.
\<close>

theorem parse_request_split_address:
  assumes "hex_crate hexenc" "length ub = 16" "length addons < 256" "c \<noteq> Mux" "wf_target t"
    and "concat hs @ hb = vless_header ub addons c"
    and "addr_payload t = chunk @ missing" "chunk \<noteq> []" "missing \<noteq> []"
  shows "\<exists>e. parse_request hexenc (hs @ (hb @ chunk) # missing # tail) = Err e"
proof -
  have "length chunk \<le> length (addr_payload t)" using assms(7) by simp
  also have "\<dots> \<le> 16384"
    using addr_payload_length [OF assms(5)] assms(5) by (auto simp: wf_target_def split: address.splits)
  finally have len: "length chunk \<le> 16384" .
  obtain e where "read_target c (chunk # missing # tail) = Err e"
    using read_target_split [OF assms(4,5,7,9,8)] by blast
  then show ?thesis using parse_request_header [OF assms(1-3,6,8) len] by simp
qed

theorem parse_request_split_address_witness:
  "\<exists>e. parse_request hex_encode
     ([] @ ((0 # replicate 16 0x55 @ [0, 1]) @ [0, 80, 1, 127, 0]) # [0, 1] # []) = Err e"
  by (rule parse_request_split_address [of hex_encode "replicate 16 0x55" "[]" Tcp
        "\<lparr>addr = IPv4 (Ipv4Addr 127 0 0 1), port = 80\<rparr>"])
     (simp_all add: hex_crate_def wf_target_def vless_header_def build_vless_packet_def cmd_byte_def
       addr_payload_def be16_def)

text \<open>
  C19: no input makes the parser panic, and the UUID string it reports determines the UUID:
  two accepted requests have the same string only if they have the same sixteen bytes.
\<close>

theorem parse_request_total:
  assumes "hex_crate hexenc"
  shows "parse_request hexenc s \<noteq> Panic
    \<and> (parse_request hexenc s = Ok (q, s1) \<longrightarrow> parse_request hexenc s' = Ok (q', s2) \<longrightarrow>
         (uuid q = uuid q' \<longleftrightarrow> uuid_bytes q = uuid_bytes q'))"
  using parse_request_no_panic [OF assms] parse_request_uuid [OF assms, of s q s1]
    parse_request_uuid [OF assms, of s' q' s2] canonical_uuid_inj by metis

theorem parse_request_total_witness: "parse_request hex_encode [[0, 1], [2]] \<noteq> Panic"
  using parse_request_total [of hex_encode "[[0, 1], [2]]"] by (simp add: hex_crate_def)

end
