(* ===== verification/Vision.thy ===== *)
theory Vision
  imports Io
begin

text \<open>
  \<open>orcax/transport/src/vision.rs\<close>: the XTLS Vision padding protocol. \<open>feed\<close> is the reader's
  state machine as the code has it: it works on whole chunks, with counters of type \<open>i32\<close>, and
  its loop is a \<open>partial_function\<close>, so that not returning would be the value \<open>None\<close>. The byte
  machine \<open>ustep\<close> is its specification: \<open>feed\<close> refines it on every state that can occur,
  which gives termination and independence of the chunk boundaries. \<open>encode_frame\<close> and
  \<open>wrap\<close> are the writer; the random draws of \<open>rand::thread_rng\<close> are arguments.
\<close>

section \<open>Constants and data\<close>

datatype vision_command = PaddingContinue | PaddingEnd | PaddingDirect

definition vision_command_byte :: "vision_command \<Rightarrow> byte" where
  "vision_command_byte c = (case c of PaddingContinue \<Rightarrow> 0 | PaddingEnd \<Rightarrow> 1 | PaddingDirect \<Rightarrow> 2)"

definition vision_from_byte :: "byte \<Rightarrow> vision_command option" where
  "vision_from_byte b =
     (if b = 0x00 then Some PaddingContinue
      else if b = 0x01 then Some PaddingEnd
      else if b = 0x02 then Some PaddingDirect
      else None)"

definition FRAME_MAX :: nat where "FRAME_MAX = 2048"

definition HEADER_OVERHEAD :: nat where "HEADER_OVERHEAD = 21"

definition NUMBER_OF_PACKETS_TO_FILTER :: u32 where "NUMBER_OF_PACKETS_TO_FILTER = 8"

record padding_seed =
  long_threshold :: u32
  long_rand_mod :: u32
  long_base :: u32
  short_rand_mod :: u32

definition default_seed :: padding_seed where
  "default_seed =
     \<lparr>long_threshold = 900, long_rand_mod = 500, long_base = 900, short_rand_mod = 256\<rparr>"

datatype unpad_error = UuidMismatch | BadCommand byte

record unpad_state =
  user_uuid :: bytes
  remaining_command :: int
  remaining_content :: int
  remaining_padding :: int
  current_command :: byte
  udone :: bool
  direct :: bool
  uuid_buf :: bytes
  uuid_done :: bool

definition new_unpad :: "bytes \<Rightarrow> unpad_state" where
  "new_unpad u =
     \<lparr>user_uuid = u, remaining_command = -1, remaining_content = -1, remaining_padding = -1,
      current_command = 0, udone = False, direct = False, uuid_buf = [], uuid_done = False\<rparr>"

definition unpad_is_done :: "unpad_state \<Rightarrow> bool" where "unpad_is_done st = udone st"

definition is_direct :: "unpad_state \<Rightarrow> bool" where "is_direct st = direct st"

section \<open>The reader\<close>

type_synonym feed_result = "(unpad_error, unit) outcome \<times> unpad_state \<times> bytes"

datatype round = Next unpad_state bytes bytes | Stop feed_result

definition command_byte :: "unpad_state \<Rightarrow> byte \<Rightarrow> unpad_state" where
  "command_byte st b =
     (let st = (if remaining_command st = 5 then st\<lparr>current_command := b\<rparr>
                else if remaining_command st = 4 then st\<lparr>remaining_content := push_bit 8 (uint b)\<rparr>
                else if remaining_command st = 3 then st\<lparr>remaining_content := remaining_content st OR uint b\<rparr>
                else if remaining_command st = 2 then st\<lparr>remaining_padding := push_bit 8 (uint b)\<rparr>
                else st\<lparr>remaining_padding := remaining_padding st OR uint b\<rparr>)
      in st\<lparr>remaining_command := remaining_command st - 1\<rparr>)"

text \<open>The check at the end of a round, with the bytes of the chunk that are left.\<close>

definition frame_complete :: "unpad_state \<Rightarrow> bool" where
  "frame_complete st \<longleftrightarrow>
     remaining_command st = 0 \<and> remaining_content st = 0 \<and> remaining_padding st = 0"

definition end_round :: "unpad_state \<Rightarrow> bytes \<Rightarrow> bytes \<Rightarrow> round" where
  "end_round st rest out =
     (if frame_complete st then
        (case vision_from_byte (current_command st) of
           Some PaddingContinue \<Rightarrow>
             Next (st\<lparr>remaining_command := 5, remaining_content := -1, remaining_padding := -1\<rparr>) rest out
         | Some PaddingEnd \<Rightarrow> Stop (Ok (), st\<lparr>udone := True\<rparr>, out @ rest)
         | Some PaddingDirect \<Rightarrow> Stop (Ok (), st\<lparr>udone := True, direct := True\<rparr>, out @ rest)
         | None \<Rightarrow> Stop (Err (BadCommand (current_command st)), st, out))
      else Next st rest out)"

text \<open>One round of the \<open>while\<close> loop on the unread bytes \<open>rest\<close>, which are not empty.\<close>

definition feed_round :: "unpad_state \<Rightarrow> bytes \<Rightarrow> bytes \<Rightarrow> round" where
  "feed_round st rest out =
     (if udone st then Stop (Ok (), st, out @ rest)
      else if remaining_command st > 5 then Stop (Panic, st, out)
      else if remaining_command st > 0 then
        end_round (command_byte st (hd rest)) (tl rest) out
      else if remaining_content st > 0 then
        let n = min (nat (remaining_content st)) (length rest) in
        end_round (st\<lparr>remaining_content := remaining_content st - int n\<rparr>) (drop n rest) (out @ take n rest)
      else if remaining_padding st > 0 then
        let n = min (nat (remaining_padding st)) (length rest) in
        end_round (st\<lparr>remaining_padding := remaining_padding st - int n\<rparr>) (drop n rest) out
      else end_round st rest out)"

partial_function (option) feed_loop :: "unpad_state \<Rightarrow> bytes \<Rightarrow> bytes \<Rightarrow> feed_result option" where
  "feed_loop st rest out =
     (if rest = [] then Some (Ok (), st, out)
      else case feed_round st rest out of
             Next st' rest' out' \<Rightarrow> feed_loop st' rest' out'
           | Stop r \<Rightarrow> Some r)"

definition feed :: "unpad_state \<Rightarrow> bytes \<Rightarrow> bytes \<Rightarrow> feed_result option" where
  "feed st wire out =
     (if \<not> uuid_done st then
        let n = min (16 - length (uuid_buf st)) (length wire);
            st = st\<lparr>uuid_buf := uuid_buf st @ take n wire\<rparr>
        in if length (uuid_buf st) < 16 then Some (Ok (), st, out)
           else if uuid_buf st \<noteq> user_uuid st then Some (Err UuidMismatch, st, out)
           else feed_loop (st\<lparr>uuid_done := True, remaining_command := 5\<rparr>) (drop n wire) out
      else feed_loop st wire out)"

section \<open>The writer\<close>

text \<open>\<open>i32\<close> arithmetic of a release build.\<close>

definition as_i32 :: "int \<Rightarrow> int" where
  "as_i32 x = signed_take_bit 31 x"

definition frame_padding_len :: "int \<Rightarrow> bool \<Rightarrow> padding_seed \<Rightarrow> u32 \<Rightarrow> (unit, int) outcome" where
  "frame_padding_len content_len long_padding seed r =
     outcome_bind
       (if (of_int content_len :: u32) < long_threshold seed \<and> long_padding then
          (if long_rand_mod seed = 0 then Panic
           else Ok (as_i32 (as_i32 (as_i32 (uint (r mod long_rand_mod seed)) + as_i32 (uint (long_base seed)))
                    - content_len)))
        else if short_rand_mod seed = 0 then Panic
        else Ok (as_i32 (uint (r mod short_rand_mod seed))))
       (\<lambda>padding_len.
          let padding_len = (if padding_len < 0 then 0 else padding_len);
              cap = as_i32 (int FRAME_MAX - int HEADER_OVERHEAD - content_len)
          in Ok (if padding_len > cap then max cap 0 else padding_len))"

text \<open>
  \<open>r\<close> is the value of \<open>next_u32\<close> and \<open>fill n\<close> what \<open>fill_bytes\<close> writes into a slice of
  \<open>n\<close> bytes. \<open>Vec::with_capacity\<close> panics above \<open>isize::MAX\<close>.
\<close>

definition encode_frame ::
    "bytes \<Rightarrow> vision_command \<Rightarrow> bool \<Rightarrow> bytes \<Rightarrow> bool \<Rightarrow> padding_seed \<Rightarrow> u32 \<Rightarrow> (nat \<Rightarrow> bytes)
     \<Rightarrow> (unit, bytes) outcome" where
  "encode_frame payload c include_uuid_prefix u long_padding seed r fill =
     (let content_len = as_i32 (int (length payload)) in
      outcome_bind (frame_padding_len content_len long_padding seed r) (\<lambda>padding_len.
      let capacity = (if include_uuid_prefix then 16 else 0) + 5 + of_int content_len + of_int padding_len :: u64
      in if capacity > 0x7FFFFFFFFFFFFFFF then Panic
         else Ok ((if include_uuid_prefix then u else [])
           @ [vision_command_byte c, of_int (drop_bit 8 content_len), of_int content_len,
              of_int (drop_bit 8 padding_len), of_int padding_len]
           @ payload @ fill (nat padding_len))))"

record pad_state =
  pad_uuid :: bytes
  pdone :: bool
  seed :: padding_seed

definition new_pad :: "bytes \<Rightarrow> pad_state" where
  "new_pad u = \<lparr>pad_uuid = u, pdone = False, seed = default_seed\<rparr>"

definition pad_is_done :: "pad_state \<Rightarrow> bool" where "pad_is_done p = pdone p"

definition pad_with ::
    "vision_command \<Rightarrow> pad_state \<Rightarrow> bytes \<Rightarrow> u32 \<Rightarrow> (nat \<Rightarrow> bytes) \<Rightarrow> (unit, bytes \<times> pad_state) outcome" where
  "pad_with c p payload r fill =
     (if pdone p then Ok (payload, p)
      else outcome_bind (encode_frame payload c True (pad_uuid p) True (seed p) r fill)
             (\<lambda>w. Ok (w, p\<lparr>pdone := True\<rparr>)))"

definition wrap where "wrap = pad_with PaddingEnd"

definition into_direct where "into_direct = pad_with PaddingDirect"

section \<open>The byte machine\<close>

definition end_byte :: "unpad_state \<Rightarrow> bytes \<Rightarrow> feed_result" where
  "end_byte st out =
     (if frame_complete st then
        (case vision_from_byte (current_command st) of
           Some PaddingContinue \<Rightarrow>
             (Ok (), st\<lparr>remaining_command := 5, remaining_content := -1, remaining_padding := -1\<rparr>, out)
         | Some PaddingEnd \<Rightarrow> (Ok (), st\<lparr>udone := True\<rparr>, out)
         | Some PaddingDirect \<Rightarrow> (Ok (), st\<lparr>udone := True, direct := True\<rparr>, out)
         | None \<Rightarrow> (Err (BadCommand (current_command st)), st, out))
      else (Ok (), st, out))"

definition ustep :: "unpad_state \<Rightarrow> byte \<Rightarrow> bytes \<Rightarrow> feed_result" where
  "ustep st b out =
     (if \<not> uuid_done st then
        let st = st\<lparr>uuid_buf := uuid_buf st @ [b]\<rparr> in
        if length (uuid_buf st) < 16 then (Ok (), st, out)
        else if uuid_buf st \<noteq> user_uuid st then (Err UuidMismatch, st, out)
        else (Ok (), st\<lparr>uuid_done := True, remaining_command := 5\<rparr>, out)
      else if udone st then (Ok (), st, out @ [b])
      else if remaining_command st > 0 then end_byte (command_byte st b) out
      else if remaining_content st > 0 then
        end_byte (st\<lparr>remaining_content := remaining_content st - 1\<rparr>) (out @ [b])
      else end_byte (st\<lparr>remaining_padding := remaining_padding st - 1\<rparr>) out)"

fun urun :: "unpad_state \<Rightarrow> bytes \<Rightarrow> bytes \<Rightarrow> feed_result" where
  "urun st [] out = (Ok (), st, out)"
| "urun st (b # bs) out =
     (case ustep st b out of
        (Ok _, st', out') \<Rightarrow> urun st' bs out'
      | r \<Rightarrow> r)"

section \<open>States that can occur\<close>

definition unpad_inv :: "unpad_state \<Rightarrow> bool" where
  "unpad_inv st \<longleftrightarrow>
     length (user_uuid st) = 16
     \<and> (\<not> uuid_done st \<longrightarrow> length (uuid_buf st) < 16 \<and> \<not> udone st)
     \<and> (uuid_done st \<and> \<not> udone st \<longrightarrow>
          0 \<le> remaining_command st \<and> remaining_command st \<le> 5
          \<and> (remaining_command st < 4 \<longrightarrow> 0 \<le> remaining_content st)
          \<and> (remaining_command st < 2 \<longrightarrow> 0 \<le> remaining_padding st)
          \<and> (remaining_command st = 0 \<longrightarrow> 0 < remaining_content st \<or> 0 < remaining_padding st))"

lemma unpad_inv_new: "length u = 16 \<Longrightarrow> unpad_inv (new_unpad u)"
  by (simp add: unpad_inv_def new_unpad_def)

named_theorems vision_state

lemma command_byte_fields [vision_state]:
  "user_uuid (command_byte st b) = user_uuid st" "udone (command_byte st b) = udone st"
  "direct (command_byte st b) = direct st"
  "uuid_buf (command_byte st b) = uuid_buf st" "uuid_done (command_byte st b) = uuid_done st"
  "remaining_command (command_byte st b) = remaining_command st - 1"
  by (simp_all add: command_byte_def Let_def)

lemma command_byte_content [vision_state]:
  "remaining_command st \<le> 5 \<Longrightarrow> 0 < remaining_command st \<Longrightarrow>
   (remaining_command st < 4 \<longrightarrow> 0 \<le> remaining_content st) \<Longrightarrow>
   remaining_command st < 5 \<longrightarrow> 0 \<le> remaining_content (command_byte st b)"
  by (auto simp: command_byte_def Let_def)

lemma command_byte_padding [vision_state]:
  "0 < remaining_command st \<Longrightarrow>
   (remaining_command st < 2 \<longrightarrow> 0 \<le> remaining_padding st) \<Longrightarrow>
   remaining_command st < 3 \<longrightarrow> 0 \<le> remaining_padding (command_byte st b)"
  by (auto simp: command_byte_def Let_def)

lemma end_byte_inv:
  assumes "end_byte st out = (Ok (), st', out')" "length (user_uuid st) = 16" "uuid_done st" "\<not> udone st"
    and "0 \<le> remaining_command st" "remaining_command st \<le> 5"
    and "remaining_command st < 4 \<longrightarrow> 0 \<le> remaining_content st"
    and "remaining_command st < 2 \<longrightarrow> 0 \<le> remaining_padding st"
  shows "unpad_inv st'"
  using assms
  by (auto simp: end_byte_def unpad_inv_def frame_complete_def split: if_splits option.splits vision_command.splits)

lemma ustep_inv:
  assumes inv: "unpad_inv st" and step: "ustep st b out = (Ok (), st', out')"
  shows "unpad_inv st'"
proof (cases "uuid_done st \<and> \<not> udone st")
  case False
  then show ?thesis using assms by (auto simp: ustep_def unpad_inv_def Let_def split: if_splits)
next
  case True
  note inv' = inv [unfolded unpad_inv_def]
  consider (head) "remaining_command st > 0"
    | (content) "remaining_command st = 0" "remaining_content st > 0"
    | (padding) "remaining_command st = 0" "remaining_content st = 0" "remaining_padding st > 0"
    using inv' True by linarith
  then show ?thesis
  proof cases
    case head
    then have "end_byte (command_byte st b) out = (Ok (), st', out')"
      using step True by (simp add: ustep_def)
    then show ?thesis
      using inv' True head command_byte_content [of st b] command_byte_padding [of st b]
      by (elim end_byte_inv) (simp_all add: vision_state)
  next
    case content
    then have "end_byte (st\<lparr>remaining_content := remaining_content st - 1\<rparr>) (out @ [b]) = (Ok (), st', out')"
      using step True by (simp add: ustep_def)
    then show ?thesis using inv' True content by (elim end_byte_inv) simp_all
  next
    case padding
    then have "end_byte (st\<lparr>remaining_padding := remaining_padding st - 1\<rparr>) out = (Ok (), st', out')"
      using step True by (simp add: ustep_def)
    then show ?thesis using inv' True padding by (elim end_byte_inv) simp_all
  qed
qed

section \<open>The reader refines the byte machine\<close>

definition run_round :: "round \<Rightarrow> feed_result option" where
  "run_round r = (case r of Next st rest out \<Rightarrow> feed_loop st rest out | Stop res \<Rightarrow> Some res)"

lemma feed_loop_Nil [simp]: "feed_loop st [] out = Some (Ok (), st, out)"
  by (subst feed_loop.simps) simp

lemma feed_loop_Cons: "feed_loop st (b # bs) out = run_round (feed_round st (b # bs) out)"
  by (subst feed_loop.simps) (simp add: run_round_def split: round.splits)

lemma feed_loop_done: "udone st \<Longrightarrow> feed_loop st rest out = Some (Ok (), st, out @ rest)"
  by (cases rest) (simp_all add: feed_loop_Cons feed_round_def run_round_def)

text \<open>What a byte result means when more bytes follow.\<close>

definition continue :: "bytes \<Rightarrow> feed_result \<Rightarrow> feed_result option" where
  "continue rest r =
     (case r of (Ok _, st, out) \<Rightarrow> feed_loop st rest out | _ \<Rightarrow> Some r)"

lemma end_round_byte: "run_round (end_round st rest out) = continue rest (end_byte st out)"
proof (cases "frame_complete st")
  case True
  then show ?thesis
    by (cases "vision_from_byte (current_command st)"; cases "the (vision_from_byte (current_command st))")
       (simp_all add: end_round_def end_byte_def run_round_def continue_def feed_loop_done)
qed (simp add: end_round_def end_byte_def run_round_def continue_def)

lemma take_chunk: "0 < c \<Longrightarrow> min (nat c) (length (b # rest)) = Suc (min (nat (c - 1)) (length rest))"
  by (simp only: min_Suc_Suc [symmetric] Suc_nat_eq_nat_zadd1 list.size)

lemma end_byte_busy: "0 < remaining_content st \<or> 0 < remaining_padding st \<Longrightarrow> end_byte st out = (Ok (), st, out)"
  by (auto simp: end_byte_def frame_complete_def)

lemma feed_loop_content:
  assumes "\<not> udone st" "remaining_command st = 0" "0 < remaining_content st"
  shows "feed_loop st (b # rest) out
    = continue rest (end_byte (st\<lparr>remaining_content := remaining_content st - 1\<rparr>) (out @ [b]))"
proof -
  define n where "n = min (nat (remaining_content st - 1)) (length rest)"
  have step: "feed_loop st (b # rest) out =
      run_round (end_round (st\<lparr>remaining_content := remaining_content st - 1 - int n\<rparr>)
        (drop n rest) (out @ b # take n rest))"
    using assms take_chunk [of "remaining_content st" b rest]
    by (simp add: feed_loop_Cons feed_round_def Let_def n_def algebra_simps del: list.size)
  show ?thesis
  proof (cases "remaining_content st = 1 \<or> rest = []")
    case True
    then have "n = 0" by (auto simp: n_def)
    with step show ?thesis by (simp add: end_round_byte)
  next
    case False
    then have busy: "0 < remaining_content st - 1" using assms(3) by simp
    obtain b' rest' where rest: "rest = b' # rest'" using False by (cases rest) auto
    with busy assms step show ?thesis
      by (simp add: end_byte_busy continue_def feed_loop_Cons feed_round_def Let_def n_def del: list.size)
  qed
qed

lemma feed_loop_padding:
  assumes "\<not> udone st" "remaining_command st = 0" "remaining_content st = 0" "0 < remaining_padding st"
  shows "feed_loop st (b # rest) out
    = continue rest (end_byte (st\<lparr>remaining_padding := remaining_padding st - 1\<rparr>) out)"
proof -
  define n where "n = min (nat (remaining_padding st - 1)) (length rest)"
  have step: "feed_loop st (b # rest) out =
      run_round (end_round (st\<lparr>remaining_padding := remaining_padding st - 1 - int n\<rparr>) (drop n rest) out)"
    using assms take_chunk [of "remaining_padding st" b rest]
    by (simp add: feed_loop_Cons feed_round_def Let_def n_def algebra_simps del: list.size)
  show ?thesis
  proof (cases "remaining_padding st = 1 \<or> rest = []")
    case True
    then have "n = 0" by (auto simp: n_def)
    with step show ?thesis by (simp add: end_round_byte)
  next
    case False
    then have busy: "0 < remaining_padding st - 1" using assms(4) by simp
    obtain b' rest' where rest: "rest = b' # rest'" using False by (cases rest) auto
    with busy assms step show ?thesis
      by (simp add: end_byte_busy continue_def feed_loop_Cons feed_round_def Let_def n_def del: list.size)
  qed
qed

lemma feed_loop_step:
  assumes inv: "unpad_inv st" and u: "uuid_done st"
  shows "feed_loop st (b # rest) out = continue rest (ustep st b out)"
proof (cases "udone st")
  case True
  then show ?thesis using u by (simp add: feed_loop_done ustep_def continue_def)
next
  case False
  note inv' = inv [unfolded unpad_inv_def]
  consider (head) "remaining_command st > 0" "remaining_command st \<le> 5"
    | (content) "remaining_command st = 0" "remaining_content st > 0"
    | (padding) "remaining_command st = 0" "remaining_content st = 0" "remaining_padding st > 0"
    using inv' u False by linarith
  then show ?thesis
  proof cases
    case head
    then show ?thesis
      using u False by (simp add: feed_loop_Cons feed_round_def end_round_byte ustep_def)
  qed (use u False in \<open>simp_all add: feed_loop_content feed_loop_padding ustep_def\<close>)
qed

lemma feed_loop_urun: "unpad_inv st \<Longrightarrow> uuid_done st \<Longrightarrow> feed_loop st wire out = Some (urun st wire out)"
proof (induction wire arbitrary: st out)
  case (Cons b wire)
  obtain r st' out' where s: "ustep st b out = (r, st', out')" by (cases "ustep st b out") auto
  show ?case
  proof (cases r)
    case (Ok u)
    with s have s': "ustep st b out = (Ok (), st', out')" by simp
    have "unpad_inv st'" using ustep_inv [OF Cons.prems(1) s'] .
    moreover have "uuid_done st'"
      using s' Cons.prems(2) by (auto simp: ustep_def end_byte_def vision_state split: if_splits option.splits vision_command.splits)
    ultimately show ?thesis using Cons.IH feed_loop_step [OF Cons.prems] s' by (simp add: continue_def)
  qed (simp_all add: feed_loop_step [OF Cons.prems] s continue_def)
qed simp

lemma feed_urun: "unpad_inv st \<Longrightarrow> feed st wire out = Some (urun st wire out)"
proof (induction wire arbitrary: st)
  case Nil
  then show ?case by (auto simp: feed_def unpad_inv_def)
next
  case (Cons b wire)
  show ?case
  proof (cases "uuid_done st")
    case True
    then show ?thesis using Cons.prems by (simp add: feed_def feed_loop_urun)
  next
    case False
    define st1 where "st1 = st\<lparr>uuid_buf := uuid_buf st @ [b]\<rparr>"
    have len: "length (uuid_buf st) < 16" and u: "length (user_uuid st) = 16"
      using Cons.prems False by (simp_all add: unpad_inv_def)
    show ?thesis
    proof (cases "length (uuid_buf st) = 15")
      case True
      have "unpad_inv (st\<lparr>uuid_buf := x, uuid_done := True, remaining_command := 5\<rparr>)" for x
        using u by (simp add: unpad_inv_def)
      then show ?thesis
        using False True by (simp add: feed_def Let_def ustep_def feed_loop_urun)
    next
      case short: False
      then have "unpad_inv st1" using Cons.prems False len by (simp add: unpad_inv_def st1_def)
      from Cons.IH [OF this] have "feed st1 wire out = Some (urun st1 wire out)" .
      moreover have "feed st (b # wire) out = feed st1 wire out"
      proof -
        have "min (16 - length (uuid_buf st)) (Suc (length wire))
            = Suc (min (16 - length (uuid_buf st1)) (length wire))"
          using len by (simp add: st1_def min_def) linarith
        then show ?thesis using False by (simp add: feed_def st1_def Let_def)
      qed
      ultimately show ?thesis using False short len by (simp add: ustep_def st1_def Let_def)
    qed
  qed
qed

lemma urun_append:
  "urun st (xs @ ys) out = (case urun st xs out of (Ok _, st', out') \<Rightarrow> urun st' ys out' | r \<Rightarrow> r)"
  by (induction xs arbitrary: st out) (auto split: prod.splits outcome.splits)

lemma urun_inv: "unpad_inv st \<Longrightarrow> urun st xs out = (Ok (), st', out') \<Longrightarrow> unpad_inv st'"
  by (induction xs arbitrary: st out) (auto split: prod.splits outcome.splits dest: ustep_inv)

text \<open>The reader together with the output buffer, as a chunk-fed machine.\<close>

definition vision_fd :: "unpad_state \<times> bytes \<Rightarrow> bytes \<Rightarrow>
    ((unpad_error, unit) outcome \<times> unpad_state \<times> bytes) option" where
  "vision_fd s wire = feed (fst s) wire (snd s)"

interpretation vision: chunk_machine vision_fd "\<lambda>s. unpad_inv (fst s)"
proof unfold_locales
  fix s :: "unpad_state \<times> bytes" and s' a b
  assume inv: "unpad_inv (fst s)"
  then show "vision_fd s [] = Some (Ok (), s)" by (simp add: vision_fd_def feed_urun)
  show "vision_fd s (a @ b) = (case vision_fd s a of None \<Rightarrow> None
      | Some (Ok _, s') \<Rightarrow> vision_fd s' b | Some r \<Rightarrow> Some r)"
    using inv urun_inv [OF inv, of a "snd s"]
    by (auto simp: vision_fd_def feed_urun urun_append split: prod.splits outcome.splits)
  assume "vision_fd s a = Some (Ok (), s')"
  with inv show "unpad_inv (fst s')" by (cases s') (auto simp: vision_fd_def feed_urun dest: urun_inv)
qed

section \<open>Frames\<close>

lemma vision_command_roundtrip [simp]: "vision_from_byte (vision_command_byte c) = Some c"
  by (cases c) (simp_all add: vision_from_byte_def vision_command_byte_def)

lemma content_run:
  "\<not> udone st \<Longrightarrow> uuid_done st \<Longrightarrow> remaining_command st = 0 \<Longrightarrow> remaining_content st = int (length xs) \<Longrightarrow>
   0 \<le> remaining_padding st \<Longrightarrow> xs \<noteq> [] \<Longrightarrow>
     urun st xs out = end_byte (st\<lparr>remaining_content := 0\<rparr>) (out @ xs)"
proof (induction xs arbitrary: st out)
  case (Cons b xs)
  show ?case
  proof (cases "xs = []")
    case True
    with Cons.prems show ?thesis by (simp add: ustep_def split: prod.splits outcome.splits)
  next
    case False
    let ?st = "st\<lparr>remaining_content := int (length xs)\<rparr>"
    have "ustep st b out = (Ok (), ?st, out @ [b])"
      using Cons.prems False by (simp add: ustep_def end_byte_busy)
    moreover have "urun ?st xs (out @ [b]) = end_byte (?st\<lparr>remaining_content := 0\<rparr>) ((out @ [b]) @ xs)"
      by (rule Cons.IH) (use Cons.prems False in simp_all)
    ultimately show ?thesis by simp
  qed
qed simp

lemma padding_run:
  "\<not> udone st \<Longrightarrow> uuid_done st \<Longrightarrow> remaining_command st = 0 \<Longrightarrow> remaining_content st = 0 \<Longrightarrow>
   remaining_padding st = int (length xs) \<Longrightarrow> xs \<noteq> [] \<Longrightarrow>
     urun st xs out = end_byte (st\<lparr>remaining_padding := 0\<rparr>) out"
proof (induction xs arbitrary: st out)
  case (Cons b xs)
  show ?case
  proof (cases "xs = []")
    case True
    with Cons.prems show ?thesis by (simp add: ustep_def split: prod.splits outcome.splits)
  next
    case False
    let ?st = "st\<lparr>remaining_padding := int (length xs)\<rparr>"
    have "ustep st b out = (Ok (), ?st, out)"
      using Cons.prems False by (simp add: ustep_def end_byte_busy)
    moreover have "urun ?st xs out = end_byte (?st\<lparr>remaining_padding := 0\<rparr>) out"
      by (rule Cons.IH) (use Cons.prems False in simp_all)
    ultimately show ?thesis by simp
  qed
qed simp

definition bind_feed :: "feed_result \<Rightarrow> (unpad_state \<Rightarrow> bytes \<Rightarrow> feed_result) \<Rightarrow> feed_result" where
  "bind_feed r f = (case r of (Ok _, st, out) \<Rightarrow> f st out | _ \<Rightarrow> r)"

lemma bind_feed_Ok [simp]: "bind_feed (Ok u, st, out) f = f st out"
  by (simp add: bind_feed_def)

lemma urun_bind: "urun st (xs @ ys) out = bind_feed (urun st xs out) (\<lambda>st out. urun st ys out)"
  by (auto simp: urun_append bind_feed_def split: prod.splits outcome.splits)

lemma urun_Cons_bind: "urun st (b # bs) out = bind_feed (ustep st b out) (\<lambda>st out. urun st bs out)"
  by (auto simp: bind_feed_def split: prod.splits outcome.splits)

lemma bind_feed_return: "bind_feed r (\<lambda>st out. (Ok (), st, out)) = r"
  by (auto simp: bind_feed_def split: prod.splits outcome.splits)

lemma body_run:
  assumes "\<not> udone st" "uuid_done st" "remaining_command st = 0"
    and "remaining_content st = int (length payload)" "remaining_padding st = int (length pad)"
  shows "bind_feed (end_byte st out) (\<lambda>st out. urun st (payload @ pad) out)
    = end_byte (st\<lparr>remaining_content := 0, remaining_padding := 0\<rparr>) (out @ payload)"
proof -
  consider (none) "payload = []" "pad = []" | (pad) "payload = []" "pad \<noteq> []"
    | (content) "payload \<noteq> []" "pad = []" | (both) "payload \<noteq> []" "pad \<noteq> []" by blast
  then show ?thesis
  proof cases
    case none
    then have eq: "st\<lparr>remaining_content := 0, remaining_padding := 0\<rparr> = st"
      using assms(4,5) by simp
    show ?thesis unfolding eq using none by (simp add: bind_feed_return)
  next
    case pad
    then have eq: "st\<lparr>remaining_content := 0, remaining_padding := 0\<rparr> = st\<lparr>remaining_padding := 0\<rparr>"
      using assms(4) by simp
    show ?thesis unfolding eq using pad assms by (simp add: end_byte_busy padding_run)
  next
    case content
    then have eq: "st\<lparr>remaining_content := 0, remaining_padding := 0\<rparr> = st\<lparr>remaining_content := 0\<rparr>"
      using assms(5) by simp
    show ?thesis unfolding eq using content assms by (simp add: end_byte_busy content_run)
  next
    case both
    then show ?thesis
      using assms by (simp add: end_byte_busy content_run urun_bind padding_run)
  qed
qed

lemma end_byte_head: "remaining_command st \<noteq> 0 \<Longrightarrow> end_byte st out = (Ok (), st, out)"
  by (simp add: end_byte_def frame_complete_def)

lemma two_byte_length:
  fixes n :: int
  assumes "0 \<le> n" "n < 65536"
  shows "push_bit 8 (uint (of_int (drop_bit 8 n) :: u8)) OR uint (of_int n :: u8) = n"
proof -
  have "push_bit 8 (take_bit 8 (drop_bit 8 n)) OR take_bit 8 n = take_bit 16 n"
    by (rule bit_eqI) (auto simp: bit_simps)
  also have "\<dots> = n" using assms by (simp add: take_bit_int_eq_self_iff)
  finally show ?thesis by (simp add: unsigned_of_int)
qed

text \<open>A whole frame, read in the state that expects one.\<close>

lemma frame_run:
  assumes "\<not> udone st" "uuid_done st" "remaining_command st = 5"
    and "length payload < 65536" "length pad < 65536"
    and "c = int (length payload)" "p = int (length pad)"
  shows "urun st (cb # of_int (drop_bit 8 c) # of_int c # of_int (drop_bit 8 p) # of_int p # payload @ pad) out
    = end_byte (st\<lparr>current_command := cb, remaining_command := 0, remaining_content := 0,
        remaining_padding := 0\<rparr>) (out @ payload)"
proof -
  let ?h = "st\<lparr>current_command := cb, remaining_content := c, remaining_padding := p, remaining_command := 0\<rparr>"
  have head: "urun st (cb # of_int (drop_bit 8 c) # of_int c # of_int (drop_bit 8 p) # of_int p # bs) out
      = bind_feed (end_byte ?h out) (\<lambda>st out. urun st bs out)" for bs
    using assms two_byte_length [of c] two_byte_length [of p]
    by (simp add: urun_Cons_bind ustep_def command_byte_def end_byte_head
        del: urun.simps)
  show ?thesis
    unfolding head using body_run [of ?h payload pad out] assms by simp
qed

definition fills :: "(nat \<Rightarrow> bytes) \<Rightarrow> bool" where
  "fills fill \<longleftrightarrow> (\<forall>n. length (fill n) = n)"

lemma as_i32_id: "- 2147483648 \<le> x \<Longrightarrow> x < 2147483648 \<Longrightarrow> as_i32 x = x"
  by (simp add: as_i32_def signed_take_bit_int_eq_self)

lemma frame_padding_len_bounds:
  assumes "frame_padding_len c lp sd r = Ok p" "0 \<le> c" "c < 65536"
  shows "0 \<le> p \<and> p \<le> max 0 (2027 - c)"
proof -
  have "as_i32 (int FRAME_MAX - int HEADER_OVERHEAD - c) = 2027 - c"
    using assms(2,3) by (simp add: FRAME_MAX_def HEADER_OVERHEAD_def as_i32_id)
  with assms(1) show ?thesis
    by (auto simp: frame_padding_len_def outcome_simps Let_def max_def split: if_splits)
qed

lemma encode_frame_shape:
  assumes "encode_frame payload c incl u lp sd r fill = Ok w" "length payload < 65536" "fills fill"
  obtains p pad where "w = (if incl then u else []) @ [vision_command_byte c,
      of_int (drop_bit 8 (int (length payload))), of_int (int (length payload)),
      of_int (drop_bit 8 p), of_int p] @ payload @ pad"
    "p = int (length pad)" "frame_padding_len (int (length payload)) lp sd r = Ok p"
    "length pad \<le> 2027 - length payload"
proof -
  let ?c = "int (length payload)"
  have c: "as_i32 ?c = ?c" using assms(2) by (simp add: as_i32_id)
  from assms(1) obtain p where p: "frame_padding_len ?c lp sd r = Ok p"
    and w: "w = (if incl then u else []) @ [vision_command_byte c, of_int (drop_bit 8 ?c), of_int ?c,
      of_int (drop_bit 8 p), of_int p] @ payload @ fill (nat p)"
    by (auto simp: encode_frame_def c outcome_simps Let_def split: if_splits)
  have b: "0 \<le> p \<and> p \<le> max 0 (2027 - ?c)"
    using frame_padding_len_bounds [OF p] assms(2) by simp
  have f: "length (fill (nat p)) = nat p" using assms(3) by (simp add: fills_def)
  show thesis
    by (rule that [OF w _ p]) (use b f in \<open>auto simp: max_def split: if_splits\<close>)
qed

text \<open>Reading an encoded frame without prefix, by command.\<close>

definition frame_end :: "vision_command \<Rightarrow> unpad_state \<Rightarrow> unpad_state" where
  "frame_end c st =
     (let st = st\<lparr>current_command := vision_command_byte c, remaining_command := 0,
                  remaining_content := 0, remaining_padding := 0\<rparr>
      in case c of
           PaddingContinue \<Rightarrow> st\<lparr>remaining_command := 5, remaining_content := -1, remaining_padding := -1\<rparr>
         | PaddingEnd \<Rightarrow> st\<lparr>udone := True\<rparr>
         | PaddingDirect \<Rightarrow> st\<lparr>udone := True, direct := True\<rparr>)"

definition expects_frame :: "unpad_state \<Rightarrow> bool" where
  "expects_frame st \<longleftrightarrow> \<not> udone st \<and> uuid_done st \<and> remaining_command st = 5"

lemma encoded_frame_run:
  assumes "encode_frame payload c False u lp sd r fill = Ok w" "length payload < 65536" "fills fill"
    and "expects_frame st"
  shows "urun st w out = (Ok (), frame_end c st, out @ payload)"
proof -
  obtain p pad where w: "w = (if False then u else []) @ [vision_command_byte c,
      of_int (drop_bit 8 (int (length payload))), of_int (int (length payload)),
      of_int (drop_bit 8 p), of_int p] @ payload @ pad"
    and p: "p = int (length pad)" and len: "length pad \<le> 2027 - length payload"
    using encode_frame_shape [OF assms(1-3)] by metis
  have "urun st w out = end_byte (st\<lparr>current_command := vision_command_byte c, remaining_command := 0,
      remaining_content := 0, remaining_padding := 0\<rparr>) (out @ payload)"
    unfolding w using assms(2,4) p len
      frame_run [of st payload pad "int (length payload)" p "vision_command_byte c" out]
    by (simp add: expects_frame_def)
  then show ?thesis
    by (cases c) (simp_all add: end_byte_def frame_complete_def frame_end_def Let_def)
qed

lemma encode_frame_prefix:
  assumes "encode_frame payload c True u lp sd r fill = Ok w" "length payload < 65536"
  obtains w' where "w = u @ w'" "encode_frame payload c False u lp sd r fill = Ok w'"
proof -
  let ?c = "int (length payload)"
  have c: "as_i32 ?c = ?c" using assms(2) by (simp add: as_i32_id)
  from assms(1) obtain p where p: "frame_padding_len ?c lp sd r = Ok p"
    by (auto simp: encode_frame_def c outcome_simps Let_def)
  have b: "0 \<le> p \<and> p \<le> 2027" using frame_padding_len_bounds [OF p] assms(2)
    by (auto simp: max_def split: if_splits)
  have "uint (of_int (5 + ?c + p) :: u64) = 5 + ?c + p"
    using b assms(2) by (simp only: unsigned_of_int) (simp add: take_bit_int_eq_self)
  then have "uint (5 + of_int ?c + of_int p :: u64) = 5 + ?c + p" by simp
  then have "\<not> (5 + of_int ?c + of_int p :: u64) > 0x7FFFFFFFFFFFFFFF"
    using b assms(2) by (simp add: word_less_def)
  with assms(1) p show thesis
    by (intro that) (auto simp: encode_frame_def c Let_def split: if_splits)
qed

section \<open>The UUID prefix\<close>

lemma uuid_run:
  "\<not> uuid_done st \<Longrightarrow> length (uuid_buf st @ xs) = 16 \<Longrightarrow> xs \<noteq> [] \<Longrightarrow>
     urun st xs out =
       (if uuid_buf st @ xs = user_uuid st
        then (Ok (), st\<lparr>uuid_buf := user_uuid st, uuid_done := True, remaining_command := 5\<rparr>, out)
        else (Err UuidMismatch, st\<lparr>uuid_buf := uuid_buf st @ xs\<rparr>, out))"
proof (induction xs arbitrary: st)
  case (Cons b xs)
  show ?case
  proof (cases "xs = []")
    case True
    with Cons.prems show ?thesis by (simp add: ustep_def Let_def)
  next
    case False
    let ?st = "st\<lparr>uuid_buf := uuid_buf st @ [b]\<rparr>"
    have "ustep st b out = (Ok (), ?st, out)"
      using Cons.prems False by (cases xs) (simp_all add: ustep_def Let_def)
    moreover have "length (uuid_buf ?st @ xs) = 16" using Cons.prems by simp
    ultimately show ?thesis using Cons.IH [of ?st] Cons.prems(1) False by simp
  qed
qed simp

definition ready_unpad :: "bytes \<Rightarrow> unpad_state" where
  "ready_unpad u = (new_unpad u)\<lparr>uuid_buf := u, uuid_done := True, remaining_command := 5\<rparr>"

lemma expects_frame_ready: "expects_frame (ready_unpad u)" "\<not> direct (ready_unpad u)"
  by (simp_all add: expects_frame_def ready_unpad_def new_unpad_def)

lemma new_unpad_prefix:
  "length u = 16 \<Longrightarrow> urun (new_unpad u) (u @ rest) out = urun (ready_unpad u) rest out"
  using uuid_run [of "new_unpad u" u out]
  by (cases "u = []") (simp_all add: urun_bind new_unpad_def ready_unpad_def)

lemma expects_frame_continue:
  "expects_frame st \<Longrightarrow> expects_frame (frame_end PaddingContinue st)"
  "direct (frame_end PaddingContinue st) = direct st"
  by (simp_all add: expects_frame_def frame_end_def)

lemma continue_frames_run:
  assumes "list_all2 (\<lambda>(p, lp, r) w. encode_frame p PaddingContinue False u lp sd r fill = Ok w
      \<and> length p < 65536) ps ws" "fills fill" "expects_frame st"
  shows "\<exists>st'. urun st (concat ws) out = (Ok (), st', out @ concat (map fst ps))
    \<and> expects_frame st' \<and> direct st' = direct st"
  using assms(1,3)
proof (induction ps ws arbitrary: st out rule: list_all2_induct)
  case (Cons p ps w ws)
  obtain pl lp r where p: "p = (pl, lp, r)" by (cases p) auto
  have "urun st w out = (Ok (), frame_end PaddingContinue st, out @ pl)"
    using Cons.hyps(1) p encoded_frame_run [OF _ _ assms(2) Cons.prems] by auto
  moreover have "\<exists>st'. urun (frame_end PaddingContinue st) (concat ws) (out @ pl)
      = (Ok (), st', (out @ pl) @ concat (map fst ps)) \<and> expects_frame st' \<and> direct st' = direct st"
    using Cons.IH [OF expects_frame_continue(1) [OF Cons.prems], of "out @ pl"]
    by (simp add: expects_frame_continue)
  ultimately show ?case using p by (auto simp: urun_bind)
qed simp

lemma urun_done: "udone st \<Longrightarrow> uuid_done st \<Longrightarrow> urun st bs out = (Ok (), st, out @ bs)"
  by (induction bs arbitrary: out) (simp_all add: ustep_def)

lemma final_frame_run:
  assumes "encode_frame q c False u lp sd r fill = Ok w" "length q < 65536" "fills fill"
    and "c \<noteq> PaddingContinue" "expects_frame st" "\<not> direct st"
  shows "\<exists>st'. urun st (w @ raw) out = (Ok (), st', out @ q @ raw)
    \<and> udone st' \<and> (direct st' \<longleftrightarrow> c = PaddingDirect)"
proof -
  have "udone (frame_end c st) \<and> uuid_done (frame_end c st) \<and> (direct (frame_end c st) \<longleftrightarrow> c = PaddingDirect)"
    using assms(4-6) by (cases c) (simp_all add: frame_end_def expects_frame_def)
  with encoded_frame_run [OF assms(1-3,5)] show ?thesis by (simp add: urun_bind urun_done)
qed

section \<open>Frame sizes and the one-shot writer\<close>

lemma default_padding_len:
  assumes "0 \<le> c" "c < 65536"
  shows "\<exists>p. frame_padding_len c lp default_seed r = Ok p
    \<and> (c < 900 \<and> lp \<longrightarrow> 900 \<le> c + p \<and> c + p < 1400) \<and> (\<not> (c < 900 \<and> lp) \<longrightarrow> p < 256)"
proof -
  obtain x y where x: "uint (r mod 500) = x" "0 \<le> x" "x < 500"
    and y: "uint (r mod 256) = y" "0 \<le> y" "y < 256"
    by (simp add: uint_mod)
  have lt: "(of_int c :: u32) < 900 \<longleftrightarrow> c < 900"
    using assms by (simp add: word_less_def unsigned_of_int take_bit_int_eq_self)
  have cap: "as_i32 (int FRAME_MAX - int HEADER_OVERHEAD - c) = 2027 - c"
    using assms by (simp add: FRAME_MAX_def HEADER_OVERHEAD_def as_i32_id)
  have i: "as_i32 x = x" "as_i32 y = y" "as_i32 900 = 900" "as_i32 (x + 900) = x + 900"
    using x y by (simp_all add: as_i32_id)
  show ?thesis
  proof (cases "c < 900 \<and> lp")
    case True
    then have "as_i32 (x + 900 - c) = x + 900 - c" using assms x by (simp add: as_i32_id)
    with True x assms show ?thesis
      by (simp add: frame_padding_len_def default_seed_def lt cap max_def i)
  next
    case False
    then have "frame_padding_len c lp default_seed r = Ok (if y > 2027 - c then max (2027 - c) 0 else y)"
      using y by (auto simp: frame_padding_len_def default_seed_def lt cap i Let_def)
    with False y show ?thesis by auto
  qed
qed

lemma encode_default_ok:
  assumes "length payload < 65536"
  shows "\<exists>w. encode_frame payload c incl u lp default_seed r fill = Ok w"
proof -
  let ?c = "int (length payload)"
  have c: "as_i32 ?c = ?c" using assms by (simp add: as_i32_id)
  obtain p where p: "frame_padding_len ?c lp default_seed r = Ok p"
    using default_padding_len [of ?c lp r] assms by auto
  have b: "0 \<le> p \<and> p \<le> 2027" using frame_padding_len_bounds [OF p] assms
    by (auto simp: max_def split: if_splits)
  have "uint (of_int ((if incl then 16 else 0) + 5 + ?c + p) :: u64) = (if incl then 16 else 0) + 5 + ?c + p"
    using b assms by (simp only: unsigned_of_int) (simp add: take_bit_int_eq_self)
  then have "\<not> ((if incl then 16 else 0) + 5 + of_int ?c + of_int p :: u64) > 0x7FFFFFFFFFFFFFFF"
    using b assms by (cases incl) (simp_all add: word_less_def)
  with p show ?thesis by (simp add: encode_frame_def c Let_def)
qed

text \<open>A sequence of calls of \<open>wrap\<close>, one draw per call, and what it puts on the wire.\<close>

fun wrap_all :: "pad_state \<Rightarrow> (bytes \<times> u32) list \<Rightarrow> (nat \<Rightarrow> bytes) \<Rightarrow> (unit, bytes list) outcome" where
  "wrap_all p [] fill = Ok []"
| "wrap_all p ((payload, r) # ws) fill =
     outcome_bind (wrap p payload r fill) (\<lambda>(w, p').
     outcome_bind (wrap_all p' ws fill) (\<lambda>rest. Ok (w # rest)))"

lemma wrap_all_done: "pdone p \<Longrightarrow> wrap_all p ws fill = Ok (map fst ws)"
  by (induction ws) (auto simp: wrap_def pad_with_def)

section \<open>Properties\<close>

text \<open>
  C5: the chunk boundaries never matter to the reader. From a fresh reader, feeding any chunks
  one after the other returns (no call loops, none panics), and gives the same result, state and
  output as feeding all bytes at once, which is the result of the byte-by-byte specification.
\<close>

theorem vision_feed_chunks:
  assumes "length u = 16"
  shows "feed_all vision_fd (new_unpad u, []) cs = Some (urun (new_unpad u) (concat cs) [])
    \<and> feed (new_unpad u) (concat cs) [] = Some (urun (new_unpad u) (concat cs) [])"
  using vision.feed_all_concat [of "(new_unpad u, [])" cs] unpad_inv_new [OF assms]
  by (simp add: vision_fd_def feed_urun)

theorem vision_feed_chunks_witness:
  "feed_all vision_fd (new_unpad (replicate 16 7), [])
      [replicate 10 7, replicate 6 7 @ [1, 0], [2, 0, 1, 0xAA], [0xBB, 0, 0xCC]]
   = Some (urun (new_unpad (replicate 16 7)) (replicate 16 7 @ [1, 0, 2, 0, 1, 0xAA, 0xBB, 0, 0xCC]) [])"
  using vision_feed_chunks [of "replicate 16 7"
      "[replicate 10 7, replicate 6 7 @ [1, 0], [2, 0, 1, 0xAA], [0xBB, 0, 0xCC]]"]
  by (simp add: numeral_eq_Suc)

text \<open>
  C12: what a peer writes is what the reader delivers. A stream made of a first frame with the
  UUID prefix, further continue frames, a last frame with an end or direct command and raw
  bytes, cut into any chunks, yields exactly the concatenated payloads and raw bytes, whatever
  the padding; the reader is then done, and direct exactly for the direct command.
\<close>

theorem vision_roundtrip:
  assumes "length u = 16" "fills fill"
    and "encode_frame p0 PaddingContinue True u lp0 sd r0 fill = Ok w0" "length p0 < 65536"
    and "list_all2 (\<lambda>(p, lp, r) w. encode_frame p PaddingContinue False u lp sd r fill = Ok w
      \<and> length p < 65536) ps ws"
    and "encode_frame q c False u lp sd r fill = Ok wq" "length q < 65536" "c \<noteq> PaddingContinue"
    and "concat cs = w0 @ concat ws @ wq @ raw"
  shows "\<exists>st. feed_all vision_fd (new_unpad u, []) cs
      = Some (Ok (), st, p0 @ concat (map fst ps) @ q @ raw)
    \<and> unpad_is_done st \<and> (is_direct st \<longleftrightarrow> c = PaddingDirect)"
proof -
  obtain w where w0: "w0 = u @ w" and w: "encode_frame p0 PaddingContinue False u lp0 sd r0 fill = Ok w"
    using encode_frame_prefix [OF assms(3,4)] by blast
  let ?r = "ready_unpad u" and ?s = "frame_end PaddingContinue (ready_unpad u)"
  have first: "urun ?r w [] = (Ok (), ?s, p0)"
    using encoded_frame_run [OF w assms(4,2) expects_frame_ready(1)] by simp
  obtain st1 where mid: "urun ?s (concat ws) p0 = (Ok (), st1, p0 @ concat (map fst ps))"
    and st1: "expects_frame st1" "\<not> direct st1"
    using continue_frames_run [OF assms(5,2) expects_frame_continue(1) [OF expects_frame_ready(1)], of u p0]
      expects_frame_ready(2) by (auto simp: expects_frame_continue)
  obtain st2 where last: "urun st1 (wq @ raw) (p0 @ concat (map fst ps))
      = (Ok (), st2, (p0 @ concat (map fst ps)) @ q @ raw)"
    and st2: "udone st2" "direct st2 \<longleftrightarrow> c = PaddingDirect"
    using final_frame_run [OF assms(6,7,2,8) st1] by blast
  have "urun (new_unpad u) (concat cs) [] = (Ok (), st2, p0 @ concat (map fst ps) @ q @ raw)"
    using first mid last new_unpad_prefix [OF assms(1), of "w @ concat ws @ wq @ raw" "[]"]
    unfolding assms(9) w0 append.assoc by (simp only: urun_bind [of ?r] urun_bind [of ?s] bind_feed_Ok append.assoc)
  moreover have "feed_all vision_fd (new_unpad u, []) cs = Some (urun (new_unpad u) (concat cs) [])"
    using vision.feed_all_concat [of "(new_unpad u, [])" cs] unpad_inv_new [OF assms(1)]
    by (simp add: vision_fd_def feed_urun)
  ultimately show ?thesis using st2 by (auto simp: unpad_is_done_def is_direct_def)
qed

theorem vision_roundtrip_witness:
  "\<exists>w0 wq st. encode_frame [0x41] PaddingContinue True (replicate 16 7) False default_seed 1 (\<lambda>n. replicate n 0) = Ok w0
     \<and> encode_frame [0x42] PaddingDirect False (replicate 16 7) False default_seed 2 (\<lambda>n. replicate n 0) = Ok wq
     \<and> feed_all vision_fd (new_unpad (replicate 16 7), []) [w0, wq, [0x43]]
        = Some (Ok (), st, [0x41, 0x42, 0x43]) \<and> is_direct st"
proof -
  let ?u = "replicate 16 (7 :: byte)" and ?f = "\<lambda>n. replicate n (0 :: byte)"
  obtain w0 where w0: "encode_frame [0x41] PaddingContinue True ?u False default_seed 1 ?f = Ok w0"
    using encode_default_ok [of "[0x41]" PaddingContinue True ?u False 1 ?f] by auto
  obtain wq where wq: "encode_frame [0x42] PaddingDirect False ?u False default_seed 2 ?f = Ok wq"
    using encode_default_ok [of "[0x42]" PaddingDirect False ?u False 2 ?f] by auto
  from vision_roundtrip [of ?u ?f, OF _ _ w0 _ _ wq, of "[]" "[]" "[w0, wq, [0x43]]" "[0x43]"] w0 wq
  show ?thesis by (auto simp: fills_def)
qed

text \<open>
  C20: a stream whose first sixteen bytes are not the user's UUID is refused as a mismatch,
  however it is cut, and not one of its bytes is delivered.
\<close>

theorem vision_uuid_mismatch:
  assumes "length u = 16" "concat cs = v @ rest" "length v = 16" "v \<noteq> u"
  shows "\<exists>st. feed_all vision_fd (new_unpad u, []) cs = Some (Err UuidMismatch, st, [])"
proof -
  have "urun (new_unpad u) v [] = (Err UuidMismatch, (new_unpad u)\<lparr>uuid_buf := v\<rparr>, [])"
    using uuid_run [of "new_unpad u" v "[]"] assms by (cases "v = []") (auto simp: new_unpad_def)
  then have "urun (new_unpad u) (concat cs) [] = (Err UuidMismatch, (new_unpad u)\<lparr>uuid_buf := v\<rparr>, [])"
    by (simp add: assms(2) urun_append)
  then show ?thesis
    using vision.feed_all_concat [of "(new_unpad u, [])" cs] unpad_inv_new [OF assms(1)]
    by (simp add: vision_fd_def feed_urun)
qed

theorem vision_uuid_mismatch_witness:
  "\<exists>st. feed_all vision_fd (new_unpad (replicate 16 7), [])
     [replicate 15 7, 8 # replicate 20 0] = Some (Err UuidMismatch, st, [])"
  by (rule vision_uuid_mismatch [of _ _ "replicate 15 7 @ [8]" "replicate 20 0"])
     (simp_all add: numeral_eq_Suc)



text \<open>
  C37: the server's one-shot writer and the client's reader agree. Any sequence of \<open>wrap\<close>
  calls (the first payload below 64 KiB) succeeds, and a Vision reader with the same UUID
  delivers exactly the concatenation of the payloads, however the wire bytes are cut.
\<close>

theorem wrap_feed:
  assumes "length u = 16" "fills fill" "length p0 < 65536"
  shows "\<exists>ws. wrap_all (new_pad u) ((p0, r0) # ps) fill = Ok ws
    \<and> (concat cs = concat ws \<longrightarrow>
        (\<exists>st. feed_all vision_fd (new_unpad u, []) cs = Some (Ok (), st, p0 @ concat (map fst ps))
          \<and> unpad_is_done st \<and> \<not> is_direct st))"
proof -
  obtain w0 where w0: "encode_frame p0 PaddingEnd True u True default_seed r0 fill = Ok w0"
    using encode_default_ok [OF assms(3)] by blast
  obtain w where w: "w0 = u @ w" "encode_frame p0 PaddingEnd False u True default_seed r0 fill = Ok w"
    using encode_frame_prefix [OF w0 assms(3)] by blast
  have all: "wrap_all (new_pad u) ((p0, r0) # ps) fill = Ok (w0 # map fst ps)"
    using w0 by (simp add: wrap_def pad_with_def new_pad_def wrap_all_done)
  obtain st where st: "urun (ready_unpad u) (w @ concat (map fst ps)) [] = (Ok (), st, p0 @ concat (map fst ps))"
    "udone st" "\<not> direct st"
    using final_frame_run [OF w(2) assms(3,2) _ expects_frame_ready(1) [of u] expects_frame_ready(2), of "concat (map fst ps)" "[]"]
    by auto
  have "feed_all vision_fd (new_unpad u, []) cs = Some (Ok (), st, p0 @ concat (map fst ps))"
    if "concat cs = concat (w0 # map fst ps)"
    using vision.feed_all_concat [of "(new_unpad u, [])" cs] unpad_inv_new [OF assms(1)] st(1) w(1) that
      new_unpad_prefix [OF assms(1), of "w @ concat (map fst ps)" "[]"]
    by (simp add: vision_fd_def feed_urun)
  with all st(2,3) show ?thesis by (auto simp: unpad_is_done_def is_direct_def)
qed

theorem wrap_feed_witness:
  "\<exists>ws st. wrap_all (new_pad (replicate 16 7)) [([1, 2], 5), ([3], 6)] (\<lambda>n. replicate n 0) = Ok ws
     \<and> feed_all vision_fd (new_unpad (replicate 16 7), []) ws = Some (Ok (), st, [1, 2, 3])"
proof -
  obtain ws where "wrap_all (new_pad (replicate 16 7)) [([1, 2], 5), ([3], 6)] (\<lambda>n. replicate n 0) = Ok ws"
    using wrap_feed [of "replicate 16 7" "\<lambda>n. replicate n 0" "[1, 2]" 5 "[([3], 6)]" "[]"]
    by (auto simp: fills_def)
  with wrap_feed [of "replicate 16 7" "\<lambda>n. replicate n 0" "[1, 2]" 5 "[([3], 6)]" ws]
  show ?thesis by (auto simp: fills_def)
qed

end
