(* ===== verification/Tls_Record.thy ===== *)
theory Tls_Record
  imports Io
begin

text \<open>
  \<open>orcax/transport/src/tls_record.rs\<close>: reading one TLS record from any \<open>AsyncRead\<close> and
  building one. The reader is generic in \<open>read_exact\<close>, and its lemmas are proved under the
  contract \<open>exact_reader\<close>.
\<close>

section \<open>Operations\<close>

definition CONTENT_HANDSHAKE :: byte where "CONTENT_HANDSHAKE = 0x16"
definition CONTENT_CCS :: byte where "CONTENT_CCS = 0x14"
definition CONTENT_APPLICATION :: byte where "CONTENT_APPLICATION = 0x17"
definition HANDSHAKE_CLIENT_HELLO :: byte where "HANDSHAKE_CLIENT_HELLO = 0x01"
definition HANDSHAKE_SERVER_HELLO :: byte where "HANDSHAKE_SERVER_HELLO = 0x02"
definition MAX_RECORD_SIZE :: nat where "MAX_RECORD_SIZE = 16384 + 256"

record tls_record_header =
  content_type :: byte
  legacy_version :: "byte \<times> byte"
  len :: u16

datatype record_error = ShortRecordHeader | RecordTooLarge u16 | ShortRecordPayload

definition read_tls_record ::
    "(nat \<Rightarrow> 's \<Rightarrow> (bytes \<times> 's) option) \<Rightarrow> 's \<Rightarrow>
     (record_error, (tls_record_header \<times> bytes) \<times> 's) outcome" where
  "read_tls_record rd s =
     outcome_bind (ok_or ShortRecordHeader (rd 5 s)) (\<lambda>(hdr, s).
     let header = \<lparr>content_type = hdr ! 0, legacy_version = (hdr ! 1, hdr ! 2),
                   len = from_be16 (hdr ! 3) (hdr ! 4)\<rparr> in
     if unat (len header) > MAX_RECORD_SIZE then Err (RecordTooLarge (len header))
     else outcome_bind (ok_or ShortRecordPayload (rd (unat (len header)) s)) (\<lambda>(payload, s).
          Ok ((header, payload), s)))"

definition build_tls_record :: "byte \<Rightarrow> bytes \<Rightarrow> bytes" where
  "build_tls_record ct payload = ct # [0x03, 0x03] @ be16 (of_nat (length payload)) @ payload"

section \<open>Reading what was built\<close>

lemma record_header_fields:
  assumes "hdr = ct # [0x03, 0x03] @ be16 n"
  shows "hdr ! 0 = ct" "hdr ! 1 = 0x03" "hdr ! 2 = 0x03" "from_be16 (hdr ! 3) (hdr ! 4) = n"
  using assms from_be16_be16 [of n] by (simp_all add: nth_append)

context exact_reader
begin

lemma read_built_record:
  assumes "content s = build_tls_record ct payload @ r" "length payload < 65536"
  shows "if length payload \<le> MAX_RECORD_SIZE
    then \<exists>s'. read_tls_record rd s = Ok ((\<lparr>content_type = ct, legacy_version = (0x03, 0x03),
        len = of_nat (length payload)\<rparr>, payload), s') \<and> content s' = r
    else read_tls_record rd s = Err (RecordTooLarge (of_nat (length payload)))"
proof -
  define hdr where "hdr = ct # [0x03, 0x03] @ be16 (of_nat (length payload))"
  have "content s = hdr @ (payload @ r)" using assms(1) by (simp add: build_tls_record_def hdr_def)
  moreover have "length hdr = 5" by (simp add: hdr_def)
  ultimately obtain s1 where
    s1: "rd 5 s = Some (hdr, s1)" "content s1 = payload @ r" using rd_prefix by blast
  from rd_prefix [OF s1(2) refl] obtain s2 where
    s2: "rd (length payload) s1 = Some (payload, s2)" "content s2 = r" by blast
  have u: "unat (of_nat (length payload) :: u16) = length payload"
    using assms(2) by (rule unat_of_nat_u16)
  show ?thesis
    using s2 record_header_fields [OF hdr_def] by (auto simp: read_tls_record_def s1(1) Let_def u)
qed

lemma read_record_content:
  assumes "read_tls_record rd s = Ok ((h, payload), s')"
  shows "content s = content_type h # [fst (legacy_version h), snd (legacy_version h)]
      @ be16 (len h) @ payload @ content s'
    \<and> length payload = unat (len h) \<and> length payload \<le> MAX_RECORD_SIZE"
proof -
  obtain hdr s1 where s1: "rd 5 s = Some (hdr, s1)"
    using assms by (auto simp: read_tls_record_def outcome_simps)
  obtain a b c d e where hdr: "hdr = [a, b, c, d, e]"
    using rd_Some [OF s1] by (auto simp: length_Suc_conv numeral_eq_Suc)
  have h: "h = \<lparr>content_type = a, legacy_version = (b, c), len = from_be16 d e\<rparr>"
    and le: "unat (from_be16 d e) \<le> MAX_RECORD_SIZE"
    and s2: "rd (unat (from_be16 d e)) s1 = Some (payload, s')"
    using assms by (auto simp: read_tls_record_def s1 hdr outcome_simps Let_def split: if_splits)
  then show ?thesis using rd_Some [OF s1] rd_Some [OF s2] hdr by simp
qed

end

section \<open>Properties\<close>



end
