(* ===== verification/Client_Hello.thy ===== *)
theory Client_Hello
  imports Rust_Text
begin

text \<open>
  \<open>orcax/transport/src/client_hello.rs\<close>: the ClientHello parser of the Reality server. Every
  index and slice of the source is a checked access (\<open>at\<close>, \<open>sub\<close>, \<open>be16_at\<close>), so that an
  access out of range would be the outcome \<open>Panic\<close>. Sizes are of type \<open>usize\<close>; all sums are
  below 2^25 and are taken over the natural numbers.
\<close>

section \<open>Data\<close>

record client_hello_info =
  raw :: bytes
  random :: bytes
  session_id :: bytes
  session_id_offset :: nat
  sni :: "rust_string option"
  x25519_key :: "bytes option"
  cipher_suites :: "u16 list"

datatype hello_error =
    HandshakeTooShort
  | NotClientHello byte
  | ClientHelloTruncated nat nat
  | MissingLegacyVersion
  | MissingRandom
  | MissingSessionIdLength
  | TruncatedSessionId
  | MissingCipherSuitesLength
  | InvalidCipherSuites
  | MissingCompressionMethods

section \<open>Extensions\<close>

definition parse_sni :: "bytes \<Rightarrow> (hello_error, rust_string option) outcome" where
  "parse_sni data =
     (if length data < 5 then Ok None
      else outcome_bind (be16_at data 0) (\<lambda>list_len.
        outcome_bind (at data 2) (\<lambda>name_type.
        if name_type \<noteq> 0 then Ok None
        else outcome_bind (be16_at data 3) (\<lambda>l.
          let name_len = unat l in
          if length data < 5 + name_len then Ok None
          else outcome_bind (sub data 5 (5 + name_len)) (\<lambda>name. Ok (from_utf8 name))))))"

function key_share_loop :: "bytes \<Rightarrow> nat \<Rightarrow> nat \<Rightarrow> (hello_error, bytes option) outcome" where
  "key_share_loop data end_pos pos =
     (if pos + 4 \<le> end_pos then
        outcome_bind (be16_at data pos) (\<lambda>group.
        outcome_bind (be16_at data (pos + 2)) (\<lambda>l.
        let key_len = unat l; pos' = pos + 4 in
        if pos' + key_len > length data then Ok None
        else if group = 0x001d \<and> key_len = 32 then
          outcome_bind (sub data pos' (pos' + 32)) (\<lambda>key. Ok (Some key))
        else key_share_loop data end_pos (pos' + key_len)))
      else Ok None)"
  by pat_completeness auto
termination
  by (relation "measure (\<lambda>(data, e, pos). e - pos)") auto

declare key_share_loop.simps [simp del]

definition parse_key_share :: "bytes \<Rightarrow> (hello_error, bytes option) outcome" where
  "parse_key_share data =
     (if length data < 2 then Ok None
      else outcome_bind (be16_at data 0) (\<lambda>l.
        key_share_loop data (min (2 + unat l) (length data)) 2))"

function ext_loop ::
    "bytes \<Rightarrow> nat \<Rightarrow> nat \<Rightarrow> rust_string option \<Rightarrow> bytes option \<Rightarrow>
     (hello_error, rust_string option \<times> bytes option) outcome" where
  "ext_loop body ext_end pos sn key =
     (if pos + 4 \<le> ext_end \<and> pos + 4 \<le> length body then
        outcome_bind (be16_at body pos) (\<lambda>ext_type.
        outcome_bind (be16_at body (pos + 2)) (\<lambda>l.
        let ext_data_len = unat l; pos' = pos + 4 in
        if pos' + ext_data_len > length body then Ok (sn, key)
        else outcome_bind (sub body pos' (pos' + ext_data_len)) (\<lambda>ext_data.
          outcome_bind (if ext_type = 0x0000 then parse_sni ext_data else Ok sn) (\<lambda>sn'.
          outcome_bind (if ext_type = 0x0033 then parse_key_share ext_data else Ok key) (\<lambda>key'.
          ext_loop body ext_end (pos' + ext_data_len) sn' key')))))
      else Ok (sn, key))"
  by pat_completeness auto
termination
  by (relation "measure (\<lambda>(body, e, pos, _, _). e - pos)") auto

declare ext_loop.simps [simp del]

section \<open>The message\<close>

text \<open>\<open>for i in (0..cs_len).step_by(2)\<close>: \<open>n\<close> suites from position \<open>pos\<close> on.\<close>

fun suites_at :: "bytes \<Rightarrow> nat \<Rightarrow> nat \<Rightarrow> (hello_error, u16 list) outcome" where
  "suites_at body pos 0 = Ok []"
| "suites_at body pos (Suc n) =
     outcome_bind (be16_at body pos) (\<lambda>c.
     outcome_bind (suites_at body (pos + 2) n) (\<lambda>cs. Ok (c # cs)))"

definition parse_extensions ::
    "bytes \<Rightarrow> nat \<Rightarrow> (hello_error, rust_string option \<times> bytes option) outcome" where
  "parse_extensions body pos =
     (if length body > pos + 2 then
        outcome_bind (be16_at body pos) (\<lambda>l. ext_loop body (pos + 2 + unat l) (pos + 2) None None)
      else Ok (None, None))"

definition parse_body :: "bytes \<Rightarrow> bytes \<Rightarrow> (hello_error, client_hello_info) outcome" where
  "parse_body raw_msg body =
     (if length body < 2 then Err MissingLegacyVersion
      else if length body < 34 then Err MissingRandom
      else outcome_bind (sub body 2 34) (\<lambda>rnd.
      if length body < 35 then Err MissingSessionIdLength
      else outcome_bind (at body 34) (\<lambda>sl.
      let sid_len = unat sl; pos = 35 in
      if length body < pos + sid_len then Err TruncatedSessionId
      else outcome_bind (sub body pos (pos + sid_len)) (\<lambda>sid.
      let pos = pos + sid_len in
      if length body < pos + 2 then Err MissingCipherSuitesLength
      else outcome_bind (be16_at body pos) (\<lambda>cl.
      let cs_len = unat cl; pos = pos + 2 in
      if length body < pos + cs_len \<or> cs_len mod 2 \<noteq> 0 then Err InvalidCipherSuites
      else outcome_bind (suites_at body pos (cs_len div 2)) (\<lambda>suites.
      let pos = pos + cs_len in
      if length body < pos + 1 then Err MissingCompressionMethods
      else outcome_bind (at body pos) (\<lambda>comp_len.
      outcome_bind (parse_extensions body (pos + 1 + unat comp_len)) (\<lambda>(sn, key).
      Ok \<lparr>raw = raw_msg, random = rnd, session_id = sid, session_id_offset = 4 + 2 + 32 + 1,
          sni = sn, x25519_key = key, cipher_suites = suites\<rparr>))))))))"

definition parse_client_hello :: "bytes \<Rightarrow> (hello_error, client_hello_info) outcome" where
  "parse_client_hello data =
     (if length data < 4 then Err HandshakeTooShort
      else outcome_bind (at data 0) (\<lambda>hs_type.
      if hs_type \<noteq> 0x01 then Err (NotClientHello hs_type)
      else outcome_bind (at data 1) (\<lambda>a. outcome_bind (at data 2) (\<lambda>b. outcome_bind (at data 3) (\<lambda>c.
      let hs_len = from_be24 a b c in
      if length data < 4 + hs_len then Err (ClientHelloTruncated (length data) (4 + hs_len))
      else outcome_bind (sub data 0 (4 + hs_len)) (\<lambda>raw_msg.
        outcome_bind (sub data 4 (4 + hs_len)) (\<lambda>body. parse_body raw_msg body)))))))"

section \<open>No panic\<close>

lemma parse_sni_no_panic: "parse_sni data \<noteq> Panic"
  by (auto simp: parse_sni_def Let_def)

lemma key_share_loop_no_panic: "e \<le> length data \<Longrightarrow> key_share_loop data e pos \<noteq> Panic"
proof (induction data e pos rule: key_share_loop.induct)
  case (1 data e pos)
  show ?case
  proof (cases "pos + 4 \<le> e")
    case True
    with 1 show ?thesis by (subst key_share_loop.simps) (auto simp: Let_def)
  qed (subst key_share_loop.simps, simp)
qed

lemma parse_key_share_no_panic: "parse_key_share data \<noteq> Panic"
  by (auto simp: parse_key_share_def key_share_loop_no_panic)

lemma ext_loop_no_panic: "ext_loop body e pos sn key \<noteq> Panic"
proof (induction body e pos sn key rule: ext_loop.induct)
  case (1 body e pos sn key)
  show ?case
  proof (cases "pos + 4 \<le> e \<and> pos + 4 \<le> length body")
    case True
    with 1 show ?thesis
      by (subst ext_loop.simps)
         (auto simp: Let_def outcome_bind_Panic_iff parse_sni_no_panic parse_key_share_no_panic)
  qed (subst ext_loop.simps, auto)
qed

lemma suites_at_no_panic: "pos + 2 * n \<le> length body \<Longrightarrow> suites_at body pos n \<noteq> Panic"
  by (induction n arbitrary: pos) (auto simp: outcome_bind_Panic_iff)

lemma parse_body_no_panic: "parse_body r body \<noteq> Panic"
  by (auto simp: parse_body_def Let_def outcome_bind_Panic_iff parse_extensions_def ext_loop_no_panic
      suites_at_no_panic)

section \<open>Messages on the wire\<close>

text \<open>
  The layout of a ClientHello by RFC 8446, as the reference for the parser: the extensions the
  server looks at, any other extension as raw data.
\<close>

datatype ext = Sni rust_string | KeyShare "(u16 \<times> bytes) list" | Other u16 bytes

definition key_entry :: "u16 \<times> bytes \<Rightarrow> bytes" where
  "key_entry e = be16 (fst e) @ be16 (of_nat (length (snd e))) @ snd e"

fun ext_type :: "ext \<Rightarrow> u16" where
  "ext_type (Sni _) = 0x0000"
| "ext_type (KeyShare _) = 0x0033"
| "ext_type (Other t _) = t"

fun ext_data :: "ext \<Rightarrow> bytes" where
  "ext_data (Sni name) = be16 (of_nat (length name) + 3) @ 0x00 # be16 (of_nat (length name)) @ name"
| "ext_data (KeyShare es) = be16 (of_nat (length (concat (map key_entry es)))) @ concat (map key_entry es)"
| "ext_data (Other _ d) = d"

definition enc_ext :: "ext \<Rightarrow> bytes" where
  "enc_ext e = be16 (ext_type e) @ be16 (of_nat (length (ext_data e))) @ ext_data e"

fun ext_ok :: "ext \<Rightarrow> bool" where
  "ext_ok (Sni name) \<longleftrightarrow> utf8_valid name \<and> length name < 65531"
| "ext_ok (KeyShare es) \<longleftrightarrow> length (concat (map key_entry es)) < 65534"
| "ext_ok (Other t d) \<longleftrightarrow> t \<noteq> 0x0000 \<and> t \<noteq> 0x0033 \<and> length d < 65536"

text \<open>What the extensions mean: the last server name, and the first x25519 key of the last key share.\<close>

definition x25519_of :: "(u16 \<times> bytes) list \<Rightarrow> bytes option" where
  "x25519_of es = map_option snd (find (\<lambda>(g, k). g = 0x001d \<and> length k = 32) es)"

fun apply_ext :: "rust_string option \<times> bytes option \<Rightarrow> ext \<Rightarrow> rust_string option \<times> bytes option" where
  "apply_ext (sn, key) (Sni name) = (Some name, key)"
| "apply_ext (sn, key) (KeyShare es) = (sn, x25519_of es)"
| "apply_ext (sn, key) (Other _ _) = (sn, key)"

lemma parse_sni_ext: "ext_ok (Sni name) \<Longrightarrow> parse_sni (ext_data (Sni name)) = Ok (Some name)"
  using be16_at_append [of "[]" 0 "of_nat (length name) + 3" "0x00 # be16 (of_nat (length name)) @ name"]
    be16_at_append [of "be16 (of_nat (length name) + 3) @ [0x00]" 3 "of_nat (length name)" name]
    at_append [of "be16 (of_nat (length name) + 3)" 2 "0x00" "be16 (of_nat (length name)) @ name"]
    sub_append [of "be16 (of_nat (length name) + 3) @ 0x00 # be16 (of_nat (length name))" 5 name _ "[]"]
  by (simp add: parse_sni_def unat_of_nat_u16 Let_def from_utf8_def)

lemma key_share_loop_entries:
  assumes "data = a @ concat (map key_entry es)" "length (concat (map key_entry es)) < 65536"
  shows "key_share_loop data (length data) (length a) = Ok (x25519_of es)"
  using assms
proof (induction es arbitrary: a)
  case Nil
  then show ?case by (subst key_share_loop.simps) (simp add: x25519_of_def)
next
  case (Cons e es)
  obtain g k where e: "e = (g, k)" by fastforce
  let ?r = "concat (map key_entry es)"
  have k: "unat (of_nat (length k) :: u16) = length k"
    using Cons.prems(2) by (simp add: e key_entry_def unat_of_nat_u16)
  have data: "data = a @ be16 g @ be16 (of_nat (length k)) @ k @ ?r"
    using Cons.prems(1) by (simp add: e key_entry_def [of "(g, k)"])
  have g1: "be16_at data (length a) = Ok g"
    unfolding data by (rule be16_at_append) simp
  have g2: "be16_at data (length a + 2) = Ok (of_nat (length k))"
    using be16_at_append [of "a @ be16 g" "length a + 2" "of_nat (length k)" "k @ ?r"] by (simp add: data)
  have sub: "length k = 32 \<Longrightarrow> sub data (length a + 4) (length a + 4 + 32) = Ok k"
    using sub_append [of "a @ be16 g @ be16 (of_nat (length k))" "length a + 4" k "length a + 4 + 32" ?r]
    by (simp add: data add.commute)
  have l: "length (a @ be16 g @ be16 (of_nat (length k)) @ k) = length a + 4 + length k" by simp
  have IH: "key_share_loop data (length data) (length a + 4 + length k) = Ok (x25519_of es)"
    unfolding l [symmetric] by (rule Cons.IH) (use Cons.prems(2) data in simp_all)
  have len: "length data = length a + 4 + length k + length ?r" by (simp add: data)
  show ?case
    by (subst key_share_loop.simps)
       (use g1 g2 k sub IH len in \<open>simp add: Let_def x25519_of_def e\<close>)
qed

lemma parse_key_share_ext:
  assumes "ext_ok (KeyShare es)"
  shows "parse_key_share (ext_data (KeyShare es)) = Ok (x25519_of es)"
proof -
  let ?c = "concat (map key_entry es)"
  have c: "length ?c < 65536" "unat (of_nat (length ?c) :: u16) = length ?c"
    using assms by (simp_all add: unat_of_nat_u16)
  show ?thesis
    using be16_at_append [of "[]" 0 "of_nat (length ?c)" ?c]
      key_share_loop_entries [OF refl c(1), of "be16 (of_nat (length ?c))"] c(2)
    by (simp add: parse_key_share_def)
qed

lemma ext_data_length: "ext_ok e \<Longrightarrow> length (ext_data e) < 65536"
  by (cases e) simp_all

text \<open>One round of the extension loop on a well-formed extension.\<close>

lemma ext_loop_step:
  assumes "body = a @ enc_ext e @ r" "ext_ok e"
  shows "ext_loop body (length body) (length a) sn key =
    (case apply_ext (sn, key) e of (sn', key') \<Rightarrow>
       ext_loop body (length body) (length (a @ enc_ext e)) sn' key')"
proof -
  let ?t = "ext_type e" and ?d = "ext_data e"
  have d: "unat (of_nat (length ?d) :: u16) = length ?d"
    using ext_data_length [OF assms(2)] by (rule unat_of_nat_u16)
  have body: "body = a @ be16 ?t @ be16 (of_nat (length ?d)) @ ?d @ r"
    using assms(1) by (simp add: enc_ext_def)
  have g1: "be16_at body (length a) = Ok ?t"
    unfolding body by (rule be16_at_append) simp
  have g2: "be16_at body (length a + 2) = Ok (of_nat (length ?d))"
    using be16_at_append [of "a @ be16 ?t" "length a + 2" "of_nat (length ?d)" "?d @ r"] by (simp add: body)
  have sub: "sub body (length a + 4) (length a + 4 + length ?d) = Ok ?d"
    using sub_append [of "a @ be16 ?t @ be16 (of_nat (length ?d))" "length a + 4" ?d _ r] by (simp add: body)
  have len: "length body = length a + 4 + length ?d + length r" by (simp add: body)
  have pos: "length (a @ enc_ext e) = length a + 4 + length ?d" by (simp add: enc_ext_def)
  show ?thesis
    unfolding pos by (subst ext_loop.simps)
      (use g1 g2 d sub len assms(2) parse_sni_ext parse_key_share_ext in \<open>cases e; simp add: Let_def\<close>)
qed

lemma ext_loop_exts:
  assumes "body = a @ concat (map enc_ext es)" "list_all ext_ok es"
  shows "ext_loop body (length body) (length a) sn key = Ok (foldl apply_ext (sn, key) es)"
  using assms
proof (induction es arbitrary: a sn key)
  case Nil
  then show ?case by (subst ext_loop.simps) simp
next
  case (Cons e es)
  obtain sn' key' where ap: "apply_ext (sn, key) e = (sn', key')" by fastforce
  have "ext_loop body (length body) (length a) sn key = ext_loop body (length body) (length (a @ enc_ext e)) sn' key'"
    using ext_loop_step [of body a e "concat (map enc_ext es)" sn key] Cons.prems ap by simp
  also have "\<dots> = Ok (foldl apply_ext (sn', key') es)"
    using Cons.prems by (intro Cons.IH) simp_all
  finally show ?case using ap by simp
qed

lemma suites_at_enc:
  "length a = pos \<Longrightarrow> suites_at (a @ concat (map be16 cs) @ r) pos (length cs) = Ok cs"
proof (induction cs arbitrary: a pos)
  case (Cons c cs)
  have "suites_at ((a @ be16 c) @ concat (map be16 cs) @ r) (pos + 2) (length cs) = Ok cs"
    using Cons.prems by (intro Cons.IH) simp
  then show ?case by (simp add: be16_at_append [OF Cons.prems])
qed simp

record hello =
  hversion :: "byte \<times> byte"
  hrandom :: bytes
  hsession_id :: bytes
  hsuites :: "u16 list"
  hcompression :: bytes
  hexts :: "ext list"

definition hello_ok :: "hello \<Rightarrow> bool" where
  "hello_ok h \<longleftrightarrow>
     length (hrandom h) = 32 \<and> length (hsession_id h) < 256 \<and> length (hsuites h) < 32768
     \<and> length (hcompression h) < 256 \<and> list_all ext_ok (hexts h)
     \<and> length (concat (map enc_ext (hexts h))) < 65536"

definition hello_body :: "hello \<Rightarrow> bytes" where
  "hello_body h =
     [fst (hversion h), snd (hversion h)] @ hrandom h
     @ of_nat (length (hsession_id h)) # hsession_id h
     @ be16 (of_nat (2 * length (hsuites h))) @ concat (map be16 (hsuites h))
     @ of_nat (length (hcompression h)) # hcompression h
     @ be16 (of_nat (length (concat (map enc_ext (hexts h))))) @ concat (map enc_ext (hexts h))"

definition hello_msg :: "hello \<Rightarrow> bytes" where
  "hello_msg h =
     (let n = length (hello_body h) in
      0x01 # of_nat (n div 65536) # of_nat (n div 256) # of_nat n # hello_body h)"

text \<open>The fields of the body before the extensions.\<close>

lemma parse_body_fields:
  assumes body: "body = [v0, v1] @ rnd @ of_nat (length sid) # sid @ be16 (of_nat (2 * length cs))
      @ concat (map be16 cs) @ of_nat (length cm) # r"
    and l: "length rnd = 32" "length sid < 256" "length cs < 32768" "length cm < 256"
  shows "parse_body m body =
    outcome_bind (parse_extensions body (38 + length sid + 2 * length cs + length cm)) (\<lambda>(sn, key).
      Ok \<lparr>raw = m, random = rnd, session_id = sid, session_id_offset = 39,
          sni = sn, x25519_key = key, cipher_suites = cs\<rparr>)"
proof -
  have cl: "length (concat (map be16 cs)) = 2 * length cs" by (induction cs) simp_all
  have len: "length body = 38 + length sid + 2 * length cs + length r"
    using l by (simp add: body cl)
  have u: "unat (of_nat (length sid) :: u8) = length sid" "unat (of_nat (length cm) :: u8) = length cm"
    "unat (of_nat (2 * length cs) :: u16) = 2 * length cs"
    using l by (simp_all add: unat_of_nat_u8 unat_of_nat_u16 del: of_nat_mult)
  have f1: "sub body 2 34 = Ok rnd"
    unfolding body using l(1) by (intro sub_append) simp_all
  have f2: "at body 34 = Ok (of_nat (length sid))"
    unfolding body using l(1) at_append [of "[v0, v1] @ rnd" 34] by simp
  have f3: "sub body 35 (35 + length sid) = Ok sid"
    unfolding body using l(1) sub_append [of "[v0, v1] @ rnd @ [of_nat (length sid)]" 35 sid] by simp
  let ?p3 = "[v0, v1] @ rnd @ of_nat (length sid) # sid"
  have f4: "be16_at body (35 + length sid) = Ok (of_nat (2 * length cs))"
    unfolding body using l(1) be16_at_append [of ?p3 "35 + length sid" "of_nat (2 * length cs)"]
    by (simp del: of_nat_mult)
  have f5: "suites_at body (35 + length sid + 2) (length cs) = Ok cs"
    unfolding body using l(1) suites_at_enc [of "?p3 @ be16 (of_nat (2 * length cs))" "35 + length sid + 2" cs]
    by (simp del: of_nat_mult)
  have f6: "at body (35 + length sid + 2 + 2 * length cs) = Ok (of_nat (length cm))"
    unfolding body using l(1) cl
      at_append [of "?p3 @ be16 (of_nat (2 * length cs)) @ concat (map be16 cs)" "35 + length sid + 2 + 2 * length cs"]
    by (simp del: of_nat_mult)
  have c: "\<not> length body < 2" "\<not> length body < 34" "\<not> length body < 35" "\<not> length body < 35 + length sid"
    "\<not> length body < 35 + length sid + 2"
    "\<not> (length body < 35 + length sid + 2 + 2 * length cs \<or> 2 * length cs mod 2 \<noteq> 0)"
    "\<not> length body < 35 + length sid + 2 + 2 * length cs + 1" "2 * length cs div 2 = length cs"
    by (simp_all add: len)
  have p: "35 + length sid + 2 + 2 * length cs + 1 + length cm = 38 + length sid + 2 * length cs + length cm"
    "4 + 2 + 32 + 1 = (39 :: nat)" by simp_all
  show ?thesis
    by (simp only: parse_body_def Let_def outcome_bind_simps if_False c f1 f2 f3 f4 f5 f6 u p)
qed

lemma parse_body_hello:
  assumes ok: "hello_ok h"
  shows "parse_body m (hello_body h) =
    Ok \<lparr>raw = m, random = hrandom h, session_id = hsession_id h, session_id_offset = 39,
        sni = fst (foldl apply_ext (None, None) (hexts h)),
        x25519_key = snd (foldl apply_ext (None, None) (hexts h)), cipher_suites = hsuites h\<rparr>"
proof -
  define E where "E = concat (map enc_ext (hexts h))"
  define pos where "pos = 38 + length (hsession_id h) + 2 * length (hsuites h) + length (hcompression h)"
  define pre where "pre = [fst (hversion h), snd (hversion h)] @ hrandom h
     @ of_nat (length (hsession_id h)) # hsession_id h
     @ be16 (of_nat (2 * length (hsuites h))) @ concat (map be16 (hsuites h))
     @ of_nat (length (hcompression h)) # hcompression h"
  have l: "length (hrandom h) = 32" "length E < 65536" "list_all ext_ok (hexts h)"
    using ok by (simp_all add: hello_ok_def E_def)
  have body: "hello_body h = pre @ be16 (of_nat (length E)) @ E"
    by (simp add: hello_body_def pre_def E_def)
  have "length (concat (map be16 cs)) = 2 * length cs" for cs by (induction cs) simp_all
  then have pre: "length pre = pos" using l(1) by (simp add: pre_def pos_def)
  have E: "unat (of_nat (length E) :: u16) = length E" using l(2) by (rule unat_of_nat_u16)
  have "parse_extensions (hello_body h) pos = Ok (foldl apply_ext (None, None) (hexts h))"
  proof (cases "E = []")
    case True
    then have "hexts h = []" by (cases "hexts h") (auto simp: E_def enc_ext_def be16_def)
    then show ?thesis by (simp add: parse_extensions_def body True pre)
  next
    case False
    have "ext_loop (hello_body h) (length (hello_body h)) (length (pre @ be16 (of_nat (length E)))) None None
        = Ok (foldl apply_ext (None, None) (hexts h))"
      by (rule ext_loop_exts) (simp_all add: body E_def l(3))
    moreover have "length (hello_body h) = pos + 2 + length E" by (simp add: body pre)
    ultimately show ?thesis
      using False
      by (simp add: parse_extensions_def body E pre be16_at_append [OF pre] del: be16_at_Ok)
  qed
  moreover have "parse_body m (hello_body h) = outcome_bind (parse_extensions (hello_body h) pos) (\<lambda>(sn, key).
      Ok \<lparr>raw = m, random = hrandom h, session_id = hsession_id h, session_id_offset = 39,
          sni = sn, x25519_key = key, cipher_suites = hsuites h\<rparr>)"
    unfolding pos_def by (rule parse_body_fields) (use ok in \<open>simp_all add: hello_body_def hello_ok_def\<close>)
  ultimately show ?thesis by (simp split: prod.splits)
qed

lemma from_be24_nat:
  assumes "n < 16777216"
  shows "from_be24 (of_nat (n div 65536)) (of_nat (n div 256)) (of_nat n) = n"
proof -
  have q: "n div 65536 = n div 256 div 256" by (simp add: div_mult2_eq [symmetric])
  have "n div 65536 < 256" using assms by (simp add: less_mult_imp_div_less)
  then have "from_be24 (of_nat (n div 65536)) (of_nat (n div 256)) (of_nat n)
      = n div 256 div 256 * 65536 + n div 256 mod 256 * 256 + n mod 256"
    by (simp add: from_be24_def unat_of_nat q)
  then show ?thesis
    using div_mult_mod_eq [of "n div 256" 256] div_mult_mod_eq [of n 256] by linarith
qed

lemma hello_body_length:
  assumes "hello_ok h"
  shows "length (hello_body h) < 16777216"
proof -
  have "length (concat (map be16 cs)) = 2 * length cs" for cs by (induction cs) simp_all
  then show ?thesis using assms by (simp add: hello_ok_def hello_body_def)
qed

lemma parse_client_hello_msg:
  assumes ok: "hello_ok h"
  shows "parse_client_hello (hello_msg h @ r) =
    Ok \<lparr>raw = hello_msg h, random = hrandom h, session_id = hsession_id h, session_id_offset = 39,
        sni = fst (foldl apply_ext (None, None) (hexts h)),
        x25519_key = snd (foldl apply_ext (None, None) (hexts h)), cipher_suites = hsuites h\<rparr>"
proof -
  define n where "n = length (hello_body h)"
  have msg: "hello_msg h = [0x01, of_nat (n div 65536), of_nat (n div 256), of_nat n] @ hello_body h"
    by (simp add: hello_msg_def n_def Let_def)
  have hs: "from_be24 (of_nat (n div 65536)) (of_nat (n div 256)) (of_nat n) = n"
    unfolding n_def by (rule from_be24_nat [OF hello_body_length [OF ok]])
  have len: "length (hello_msg h) = 4 + n" by (simp add: msg n_def)
  have f1: "sub (hello_msg h @ r) 0 (4 + n) = Ok (hello_msg h)"
    by (simp add: sub_def len slice_def)
  have f2: "sub (hello_msg h @ r) 4 (4 + n) = Ok (hello_body h)"
    unfolding msg append.assoc by (rule sub_append) (simp_all add: n_def)
  have f3: "at (hello_msg h @ r) 0 = Ok 0x01" "at (hello_msg h @ r) 1 = Ok (of_nat (n div 65536))"
    "at (hello_msg h @ r) 2 = Ok (of_nat (n div 256))" "at (hello_msg h @ r) 3 = Ok (of_nat n)"
    by (simp_all add: at_def msg)
  have c: "\<not> length (hello_msg h @ r) < 4" "\<not> length (hello_msg h @ r) < 4 + n" by (simp_all add: len)
  show ?thesis
    by (simp only: parse_client_hello_def outcome_bind_simps Let_def if_False f1 f2 f3 c hs
        parse_body_hello [OF ok]) simp
qed

text \<open>The message builder of the test module is an instance of the layout.\<close>

definition build_test_client_hello :: "bytes \<Rightarrow> bytes \<Rightarrow> rust_string \<Rightarrow> bytes \<Rightarrow> bytes" where
  "build_test_client_hello rnd sid name x25519_pub =
     (let name_len = of_nat (length name) :: u16;
          sni_ext = be16 (name_len + 3) @ [0x00] @ be16 name_len @ name;
          ks_ext = be16 (2 + 2 + 32) @ [0x00, 0x1d] @ [0x00, 0x20] @ x25519_pub;
          exts = [0x00, 0x00] @ be16 (of_nat (length sni_ext)) @ sni_ext
               @ [0x00, 0x33] @ be16 (of_nat (length ks_ext)) @ ks_ext;
          body = [0x03, 0x03] @ rnd @ [of_nat (length sid)] @ sid @ [0x00, 0x02, 0x13, 0x01]
               @ [0x01, 0x00] @ be16 (of_nat (length exts)) @ exts;
          n = length body
      in [0x01, of_nat (n div 65536), of_nat (n div 256), of_nat n] @ body)"

definition test_hello :: "bytes \<Rightarrow> bytes \<Rightarrow> rust_string \<Rightarrow> bytes \<Rightarrow> hello" where
  "test_hello rnd sid name key =
     \<lparr>hversion = (0x03, 0x03), hrandom = rnd, hsession_id = sid, hsuites = [0x1301],
      hcompression = [0x00], hexts = [Sni name, KeyShare [(0x001d, key)]]\<rparr>"

lemma build_test_hello:
  assumes "length key = 32"
  shows "build_test_client_hello rnd sid name key = hello_msg (test_hello rnd sid name key)"
proof -
  have b: "be16 0x1301 = [0x13, 0x01]" "be16 0 = [0, 0]" "be16 51 = [0, 51]" "be16 29 = [0, 29]"
    "be16 32 = [0, 32]" "be16 2 = [0, 2]" by (simp_all add: be16_def)
  show ?thesis
    using assms
    by (simp add: build_test_client_hello_def hello_msg_def hello_body_def test_hello_def enc_ext_def
        key_entry_def Let_def b)
qed

lemma test_hello_ok:
  assumes "length rnd = 32" "length sid < 256" "utf8_valid name" "length name < 65000" "length key = 32"
  shows "hello_ok (test_hello rnd sid name key)"
  using assms by (simp add: hello_ok_def test_hello_def enc_ext_def key_entry_def)

section \<open>What an accepted message guarantees\<close>

lemma key_share_loop_len: "key_share_loop data e pos = Ok (Some k) \<Longrightarrow> length k = 32"
proof (induction data e pos rule: key_share_loop.induct)
  case (1 data e pos)
  from "1.prems" have c: "pos + 4 \<le> e"
    by (subst (asm) key_share_loop.simps) (simp split: if_splits)
  from "1.prems" obtain g l where gl: "be16_at data pos = (Ok g :: (hello_error, u16) outcome)"
    "be16_at data (pos + 2) = (Ok l :: (hello_error, u16) outcome)"
    by (subst (asm) key_share_loop.simps) (auto simp: c outcome_bind_Ok_iff simp del: be16_at_Ok)
  from "1.prems" consider "sub data (pos + 4) (pos + 4 + 32) = (Ok k :: (hello_error, bytes) outcome)"
    | "\<not> pos + 4 + unat l > length data" "\<not> (g = 0x001d \<and> unat l = 32)"
      "key_share_loop data e (pos + 4 + unat l) = Ok (Some k)"
    by (subst (asm) key_share_loop.simps)
       (auto simp: c gl Let_def outcome_bind_Ok_iff split: if_splits simp del: sub_Ok be16_at_Ok add_2_eq_Suc')
  then show ?case
  proof cases
    case 1
    then show ?thesis by (auto simp: sub_def split: if_splits)
  next
    case 2
    then show ?thesis by (rule "1.IH" [OF c refl refl])
  qed
qed


lemma parse_key_share_len: "parse_key_share data = Ok (Some k) \<Longrightarrow> length k = 32"
  by (auto simp: parse_key_share_def outcome_simps split: if_splits dest: key_share_loop_len)

definition key_len_ok :: "bytes option \<Rightarrow> bool" where
  "key_len_ok key \<longleftrightarrow> (\<forall>k. key = Some k \<longrightarrow> length k = 32)"

lemma ext_loop_key:
  "ext_loop body e pos sn key = Ok (sn', key') \<Longrightarrow> key_len_ok key \<Longrightarrow> key_len_ok key'"
proof (induction body e pos sn key rule: ext_loop.induct)
  case (1 body e pos sn key)
  show ?case
  proof (cases "pos + 4 \<le> e \<and> pos + 4 \<le> length body")
    case False
    with "1.prems" show ?thesis by (subst (asm) ext_loop.simps) (auto split: if_splits)
  next
    case c: True
    define t l where "t = from_be16 (body ! pos) (body ! (pos + 1))"
      and "l = from_be16 (body ! (pos + 2)) (body ! (pos + 2 + 1))"
    have tl: "be16_at body pos = Ok t" "be16_at body (pos + 2) = Ok l"
      using c by (simp_all add: t_def l_def)
    show ?thesis
    proof (cases "pos + 4 + unat l > length body")
      case True
      with "1.prems" c show ?thesis
        by (subst (asm) ext_loop.simps) (auto simp: tl Let_def simp del: be16_at_Ok add_2_eq_Suc')
    next
      case fits: False
      let ?d = "slice (pos + 4) (pos + 4 + unat l) body"
      from "1.prems"(1) fits obtain s1 k1 where
        s1: "(if t = 0 then parse_sni ?d else Ok sn) = Ok s1"
        and k1: "(if t = 0x33 then parse_key_share ?d else Ok key) = Ok k1"
        and rec: "ext_loop body e (pos + 4 + unat l) s1 k1 = Ok (sn', key')"
        by (subst (asm) ext_loop.simps)
           (auto simp: c tl Let_def outcome_bind_Ok_iff simp del: be16_at_Ok add_2_eq_Suc')
      have "key_len_ok k1"
        using k1 "1.prems"(2) by (auto simp: key_len_ok_def parse_key_share_len split: if_splits)
      with rec show ?thesis by (rule "1.IH" [OF c refl refl fits])
    qed
  qed
qed

lemma parse_extensions_key: "parse_extensions body pos = Ok (sn, key) \<Longrightarrow> key_len_ok key"
  by (auto simp: parse_extensions_def outcome_bind_Ok_iff key_len_ok_def split: if_splits
      dest!: ext_loop_key)

lemma parse_body_Ok:
  assumes "parse_body m body = Ok info"
  shows "raw info = m \<and> length (random info) = 32 \<and> session_id_offset info = 39
    \<and> 35 + length (session_id info) \<le> length body
    \<and> session_id info = slice 35 (35 + length (session_id info)) body \<and> key_len_ok (x25519_key info)"
  using assms
  by (auto simp: parse_body_def Let_def outcome_bind_Ok_iff sub_def split: if_splits
      dest: parse_extensions_key)

lemma parse_client_hello_Ok:
  assumes "parse_client_hello data = Ok info"
  shows "\<exists>n. 4 + n \<le> length data \<and> raw info = take (4 + n) data
    \<and> parse_body (raw info) (slice 4 (4 + n) data) = Ok info"
proof -
  from assms obtain n where "4 + n \<le> length data"
    "parse_body (slice 0 (4 + n) data) (slice 4 (4 + n) data) = Ok info"
    by (fastforce simp: parse_client_hello_def Let_def outcome_bind_Ok_iff sub_def not_less split: if_splits)
  with parse_body_Ok [OF this(2)] show ?thesis by (auto simp: slice_def)
qed

lemma accepted_hello:
  assumes "parse_client_hello data = Ok info"
  shows "(\<exists>rest. data = raw info @ rest) \<and> length (random info) = 32 \<and> session_id_offset info = 39
    \<and> 39 + length (session_id info) \<le> length (raw info)
    \<and> slice 39 (39 + length (session_id info)) (raw info) = session_id info
    \<and> key_len_ok (x25519_key info)"
proof -
  obtain n where n: "4 + n \<le> length data" "raw info = take (4 + n) data"
    "parse_body (raw info) (slice 4 (4 + n) data) = Ok info"
    using parse_client_hello_Ok [OF assms] by blast
  note b = parse_body_Ok [OF n(3)]
  have "slice 39 (39 + length (session_id info)) (raw info)
      = slice 35 (35 + length (session_id info)) (slice 4 (4 + n) data)"
    using b n(1,2) by (simp add: slice_def drop_take)
  moreover have "\<exists>rest. data = raw info @ rest" using n(2) by (metis append_take_drop_id)
  moreover have "39 + length (session_id info) \<le> length (raw info)" using b n(1,2) by (simp add: length_slice)
  ultimately show ?thesis using b by simp
qed

section \<open>Properties\<close>

text \<open>
  C10: the parser reads every well-formed ClientHello, whatever its version, session id, cipher
  suites, compression methods and extensions and whatever follows it: it returns the message,
  its random, its session id, the suites in order, the last server name and the first x25519
  key of the last key share.
\<close>

theorem parse_client_hello_roundtrip:
  assumes "hello_ok h"
  shows "parse_client_hello (hello_msg h @ r) =
    Ok \<lparr>raw = hello_msg h, random = hrandom h, session_id = hsession_id h, session_id_offset = 39,
        sni = fst (foldl apply_ext (None, None) (hexts h)),
        x25519_key = snd (foldl apply_ext (None, None) (hexts h)), cipher_suites = hsuites h\<rparr>"
  using assms by (rule parse_client_hello_msg)

theorem parse_client_hello_roundtrip_witness:
  "parse_client_hello
     (build_test_client_hello (replicate 32 0x42) (replicate 32 0xAB) (str ''ozon.ru'') (replicate 32 0xCD) @ [1]) =
   Ok \<lparr>raw = build_test_client_hello (replicate 32 0x42) (replicate 32 0xAB) (str ''ozon.ru'') (replicate 32 0xCD),
      random = replicate 32 0x42, session_id = replicate 32 0xAB, session_id_offset = 39,
      sni = Some (str ''ozon.ru''), x25519_key = Some (replicate 32 0xCD), cipher_suites = [0x1301]\<rparr>"
proof -
  let ?h = "test_hello (replicate 32 0x42) (replicate 32 0xAB) (str ''ozon.ru'') (replicate 32 0xCD)"
  have "utf8_valid (str ''ozon.ru'')" by (rule utf8_valid_ascii) (simp add: of_char_def)
  then have "hello_ok ?h" by (intro test_hello_ok) simp_all
  from parse_client_hello_roundtrip [OF this, of "[1]"] show ?thesis
    unfolding build_test_hello [of "replicate 32 0xCD", OF length_replicate]
    by (simp add: test_hello_def x25519_of_def)
qed

text \<open>
  C11: the parser is safe on every input. It never panics; when it accepts, the message is a
  prefix of the input, the random has 32 bytes, the session id is the part of the message at the
  offset it reports, and a key it reports has 32 bytes.
\<close>

theorem parse_client_hello_safe:
  "case parse_client_hello data of
     Panic \<Rightarrow> False
   | Err _ \<Rightarrow> True
   | Ok info \<Rightarrow> (\<exists>rest. data = raw info @ rest) \<and> length (random info) = 32
       \<and> slice (session_id_offset info) (session_id_offset info + length (session_id info)) (raw info)
           = session_id info
       \<and> (\<forall>k. x25519_key info = Some k \<longrightarrow> length k = 32)"
proof -
  have "parse_client_hello data \<noteq> Panic"
    by (auto simp: parse_client_hello_def Let_def parse_body_no_panic at_def sub_def)
  then show ?thesis
    using accepted_hello [of data] by (auto simp: key_len_ok_def split: outcome.splits)
qed

theorem parse_client_hello_safe_witness:
  "\<exists>e. parse_client_hello [1, 0, 0, 1, 3] = Err e"
  using parse_client_hello_safe [of "[1, 0, 0, 1, 3]"]
  by (simp add: parse_client_hello_def parse_body_def slice_def from_be24_def)

end
