(* ===== verification/Crypto.thy ===== *)
theory Crypto
  imports Rust_Text
begin

text \<open>
  The cryptographic crates the sources call (\<open>x25519_dalek\<close>, \<open>hkdf\<close>, \<open>chacha20poly1305\<close>,
  \<open>aes_gcm\<close>, \<open>ring\<close>, \<open>hmac\<close>) are parameters: a record of functions that every definition
  which uses them takes as an argument. What the theorems rely on of them is stated here as named
  predicates: Diffie-Hellman agreement, the length of derived keys, and that authenticated
  decryption inverts encryption and accepts nothing else.
\<close>

section \<open>Parameters\<close>

record crypto =
  x_pub :: "bytes \<Rightarrow> bytes"
  x_dh :: "bytes \<Rightarrow> bytes \<Rightarrow> bytes"
  hkdf :: "bytes \<Rightarrow> bytes \<Rightarrow> bytes \<Rightarrow> nat \<Rightarrow> bytes option"
  chacha_seal :: "bytes \<Rightarrow> bytes \<Rightarrow> bytes \<Rightarrow> bytes \<Rightarrow> bytes \<times> bytes"
  chacha_open :: "bytes \<Rightarrow> bytes \<Rightarrow> bytes \<Rightarrow> bytes \<Rightarrow> bytes \<Rightarrow> bytes option"
  gcm_seal :: "bytes \<Rightarrow> bytes \<Rightarrow> bytes \<Rightarrow> bytes \<Rightarrow> bytes"
  gcm_open :: "bytes \<Rightarrow> bytes \<Rightarrow> bytes \<Rightarrow> bytes \<Rightarrow> bytes option"
  hmac256 :: "bytes \<Rightarrow> bytes \<Rightarrow> bytes"
  hmac512 :: "bytes \<Rightarrow> bytes \<Rightarrow> bytes"

section \<open>What is relied on\<close>

text \<open>Both sides of an x25519 exchange compute the same secret; a public key has 32 bytes.\<close>

definition x25519_ok :: "crypto \<Rightarrow> bool" where
  "x25519_ok cr \<longleftrightarrow> (\<forall>a b. x_dh cr a (x_pub cr b) = x_dh cr b (x_pub cr a)) \<and> (\<forall>a. length (x_pub cr a) = 32)"

text \<open>HKDF-SHA256 expands to every length up to 255 blocks of 32 bytes.\<close>

definition hkdf_ok :: "crypto \<Rightarrow> bool" where
  "hkdf_ok cr \<longleftrightarrow> (\<forall>salt ikm info n. n \<le> 255 * 32 \<longrightarrow> (\<exists>k. hkdf cr salt ikm info n = Some k \<and> length k = n))"

text \<open>
  ChaCha20-Poly1305 with a detached tag of 16 bytes: the ciphertext has the length of the
  plaintext, and decryption succeeds exactly on what encryption produces.
\<close>

definition chacha_ok :: "crypto \<Rightarrow> bool" where
  "chacha_ok cr \<longleftrightarrow>
     (\<forall>k n a p. length (fst (chacha_seal cr k n a p)) = length p \<and> length (snd (chacha_seal cr k n a p)) = 16)
     \<and> (\<forall>k n a p c t. chacha_open cr k n a c t = Some p \<longleftrightarrow> chacha_seal cr k n a p = (c, t))"

text \<open>AES-256-GCM with the tag of 16 bytes appended.\<close>

definition gcm_ok :: "crypto \<Rightarrow> bool" where
  "gcm_ok cr \<longleftrightarrow>
     (\<forall>k n a p. length (gcm_seal cr k n a p) = length p + 16)
     \<and> (\<forall>k n a p c. gcm_open cr k n a c = Some p \<longleftrightarrow> gcm_seal cr k n a p = c)"

text \<open>HMAC-SHA256 and HMAC-SHA512 tags have 32 and 64 bytes.\<close>

definition hmac_ok :: "crypto \<Rightarrow> bool" where
  "hmac_ok cr \<longleftrightarrow> (\<forall>k m. length (hmac256 cr k m) = 32) \<and> (\<forall>k m. length (hmac512 cr k m) = 64)"

lemmas crypto_ok_defs = x25519_ok_def hkdf_ok_def chacha_ok_def gcm_ok_def hmac_ok_def

lemma hkdf_ok_key:
  assumes "hkdf_ok cr" "n \<le> 8160"
  obtains k where "hkdf cr salt ikm info n = Some k" "length k = n"
proof -
  have "n \<le> 255 * 32" using assms(2) by simp
  then show thesis using assms(1) that unfolding hkdf_ok_def by blast
qed

lemma chacha_open_seal:
  "chacha_ok cr \<Longrightarrow> chacha_open cr k n a (fst (chacha_seal cr k n a p)) (snd (chacha_seal cr k n a p)) = Some p"
  by (simp add: chacha_ok_def)

lemma gcm_open_seal: "gcm_ok cr \<Longrightarrow> gcm_open cr k n a (gcm_seal cr k n a p) = Some p"
  by (simp add: gcm_ok_def)

section \<open>The parameters can be met\<close>

text \<open>
  A concrete instance of the parameters that meets all the predicates. It shows that they are
  consistent and lets the witnesses compute; it is not a model of the crates.
\<close>

definition plain_crypto :: crypto where
  "plain_crypto = \<lparr>
     x_pub = (\<lambda>s. take 32 (s @ replicate 32 0)),
     x_dh = (\<lambda>s p. map2 (+) (take 32 (s @ replicate 32 0)) p),
     hkdf = (\<lambda>salt ikm info n. if n \<le> 8160 then Some (replicate n 1) else None),
     chacha_seal = (\<lambda>k n a p. (p, replicate 16 0)),
     chacha_open = (\<lambda>k n a c t. if t = replicate 16 0 then Some c else None),
     gcm_seal = (\<lambda>k n a p. p @ replicate 16 0),
     gcm_open = (\<lambda>k n a c. if 16 \<le> length c \<and> drop (length c - 16) c = replicate 16 0
       then Some (take (length c - 16) c) else None),
     hmac256 = (\<lambda>k m. replicate 32 0),
     hmac512 = (\<lambda>k m. replicate 64 0)\<rparr>"

lemma plain_crypto_dh: "x_dh plain_crypto a (x_pub plain_crypto b) = x_dh plain_crypto b (x_pub plain_crypto a)"
  by (auto simp: plain_crypto_def intro!: nth_equalityI)

lemma plain_crypto_ok:
  "x25519_ok plain_crypto" "hkdf_ok plain_crypto" "chacha_ok plain_crypto" "gcm_ok plain_crypto"
  "hmac_ok plain_crypto"
proof -
  show "x25519_ok plain_crypto"
    unfolding x25519_ok_def using plain_crypto_dh by (auto simp: plain_crypto_def)
  have "gcm_open plain_crypto k n a c = Some p \<longleftrightarrow> gcm_seal plain_crypto k n a p = c" for k n a p c
  proof
    assume "gcm_open plain_crypto k n a c = Some p"
    then have "drop (length c - 16) c = replicate 16 0" "take (length c - 16) c = p"
      by (auto simp: plain_crypto_def split: if_splits)
    then show "gcm_seal plain_crypto k n a p = c"
      using append_take_drop_id [of "length c - 16" c] by (simp add: plain_crypto_def)
  qed (auto simp: plain_crypto_def)
  then show "gcm_ok plain_crypto" unfolding gcm_ok_def by (simp add: plain_crypto_def [THEN arg_cong, of gcm_seal])
  show "hkdf_ok plain_crypto" "hmac_ok plain_crypto"
    by (simp_all add: hkdf_ok_def hmac_ok_def plain_crypto_def)
  show "chacha_ok plain_crypto" unfolding chacha_ok_def by (auto simp: plain_crypto_def)
qed

end
