(* ===== verification/Handshake.thy ===== *)
theory Handshake
  imports Crypto Vless
begin

text \<open>
  \<open>orcax/transport/src/handshake.rs\<close>: the OrcaX handshake, x25519 agreement and
  ChaCha20-Poly1305 over the UUID and a timestamp. The cryptographic functions, \<open>hex::encode\<close>,
  the clock (\<open>None\<close> before the epoch, where \<open>duration_since(..).unwrap()\<close> panics) and the
  random ephemeral secrets are arguments.
\<close>

section \<open>Operations\<close>

definition MAX_TIME_DRIFT :: u64 where "MAX_TIME_DRIFT = 15"

record handshake_config =
  static_key :: bytes

record handshake_result =
  hr_uuid :: rust_string
  server_ephemeral_pub :: bytes

datatype handshake_error =
  HkdfExpandFailed | BadAuthPayloadSize | AuthDecryptionFailed | TimestampDrift u64

definition auth_message_bytes :: "bytes \<Rightarrow> bytes \<Rightarrow> bytes" where
  "auth_message_bytes client_ephemeral_pub encrypted_payload = client_ephemeral_pub @ encrypted_payload"

text \<open>The key material of both sides: 32 bytes of key and 12 bytes of nonce.\<close>

definition auth_key_material :: "crypto \<Rightarrow> bytes \<Rightarrow> bytes option" where
  "auth_key_material cr shared_secret = hkdf cr (str ''orcax-v2'') shared_secret (str ''ORCAX-AUTH-V2'') 44"

definition abs_diff :: "('a :: {linorder, minus}) \<Rightarrow> 'a \<Rightarrow> 'a" where
  "abs_diff now t = (if now > t then now - t else t - now)"

definition server_handshake ::
    "crypto \<Rightarrow> (bytes \<Rightarrow> rust_string) \<Rightarrow> u64 option \<Rightarrow> bytes \<Rightarrow> handshake_config \<Rightarrow> bytes \<Rightarrow> bytes \<Rightarrow>
     (handshake_error, handshake_result) outcome" where
  "server_handshake cr hexenc clock server_secret config client_ephemeral_pub encrypted_payload =
     (let shared_secret = x_dh cr (static_key config) client_ephemeral_pub in
      outcome_bind (ok_or HkdfExpandFailed (auth_key_material cr shared_secret)) (\<lambda>km.
      let key = take 32 km; nonce = slice 32 44 km in
      if length encrypted_payload \<noteq> 40 then Err BadAuthPayloadSize
      else outcome_bind (ok_or AuthDecryptionFailed
             (chacha_open cr key nonce [] (take 24 encrypted_payload) (slice 24 40 encrypted_payload)))
        (\<lambda>plaintext.
        outcome_bind (sub plaintext 0 16) (\<lambda>ub.
        outcome_bind (sub plaintext 16 24) (\<lambda>tb.
        let client_timestamp = from_be64 tb in
        case clock of
          None \<Rightarrow> Panic
        | Some now \<Rightarrow>
            let drift = abs_diff now client_timestamp in
            if drift > MAX_TIME_DRIFT then Err (TimestampDrift drift)
            else outcome_bind (format_uuid (hexenc ub)) (\<lambda>u.
              Ok \<lparr>hr_uuid = u, server_ephemeral_pub = x_pub cr server_secret\<rparr>))))))"

text \<open>\<open>unwrap\<close> of the HKDF result and of the clock panic.\<close>

definition client_encrypt_uuid ::
    "crypto \<Rightarrow> u64 option \<Rightarrow> bytes \<Rightarrow> bytes \<Rightarrow> bytes \<Rightarrow> (handshake_error, bytes \<times> bytes) outcome" where
  "client_encrypt_uuid cr clock client_secret server_static_pub ub =
     (let shared_secret = x_dh cr client_secret server_static_pub in
      case auth_key_material cr shared_secret of
        None \<Rightarrow> Panic
      | Some km \<Rightarrow>
          let key = take 32 km; nonce = slice 32 44 km in
          case clock of
            None \<Rightarrow> Panic
          | Some timestamp \<Rightarrow>
              let (c, tag) = chacha_seal cr key nonce [] (ub @ be64 timestamp)
              in Ok (x_pub cr client_secret, c @ tag))"

section \<open>Lemmas\<close>

lemma auth_key_material_Some:
  assumes "hkdf_ok cr"
  shows "\<exists>km. auth_key_material cr s = Some km \<and> length km = 44"
proof -
  have "44 \<le> (255 * 32 :: nat)" by simp
  with assms show ?thesis unfolding auth_key_material_def hkdf_ok_def by blast
qed

lemma client_encrypt_Ok:
  assumes "hkdf_ok cr" "chacha_ok cr" "length ub = 16"
    and "client_encrypt_uuid cr (Some t) cs spub ub = Ok (cpub, enc)"
  obtains km c tag where "auth_key_material cr (x_dh cr cs spub) = Some km" "length km = 44"
    "chacha_seal cr (take 32 km) (slice 32 44 km) [] (ub @ be64 t) = (c, tag)"
    "cpub = x_pub cr cs" "enc = c @ tag" "length c = 24" "length tag = 16"
proof -
  obtain km where km: "auth_key_material cr (x_dh cr cs spub) = Some km" "length km = 44"
    using auth_key_material_Some [OF assms(1)] by blast
  obtain c tag where s: "chacha_seal cr (take 32 km) (slice 32 44 km) [] (ub @ be64 t) = (c, tag)"
    by fastforce
  have "length (fst (c, tag)) = length (ub @ be64 t)" "length (snd (c, tag)) = 16"
    using assms(2) unfolding chacha_ok_def s [symmetric] by auto
  then show thesis
    using assms(3,4) km s by (intro that) (auto simp: client_encrypt_uuid_def Let_def)
qed

lemma client_encrypt_total:
  assumes "hkdf_ok cr"
  shows "\<exists>r. client_encrypt_uuid cr (Some t) cs spub ub = Ok r"
proof -
  obtain km where "auth_key_material cr (x_dh cr cs spub) = Some km"
    using auth_key_material_Some [OF assms] by blast
  then show ?thesis by (simp add: client_encrypt_uuid_def split: prod.splits)
qed

lemma server_handshake_opened:
  assumes "hex_crate hexenc" "length ub = 16"
    and "auth_key_material cr (x_dh cr (static_key cfg) cpub) = Some km" "length enc = 40"
    and "chacha_open cr (take 32 km) (slice 32 44 km) [] (take 24 enc) (slice 24 40 enc) = Some (ub @ be64 t)"
  shows "server_handshake cr hexenc (Some now) ss cfg cpub enc =
    (if abs_diff now t > MAX_TIME_DRIFT then Err (TimestampDrift (abs_diff now t))
     else Ok \<lparr>hr_uuid = canonical_uuid ub, server_ephemeral_pub = x_pub cr ss\<rparr>)"
proof -
  have "sub (ub @ be64 t) 0 16 = (Ok ub :: (handshake_error, bytes) outcome)"
    "sub (ub @ be64 t) 16 24 = (Ok (be64 t) :: (handshake_error, bytes) outcome)"
    using sub_append [of "[]" 0 ub 16 "be64 t"] sub_append [of ub 16 "be64 t" 24 "[]"] assms(2) by simp_all
  moreover have "format_uuid (hexenc ub) = (Ok (canonical_uuid ub) :: (handshake_error, rust_string) outcome)"
    using assms(1,2) by (simp add: hex_crate_def format_uuid_hex)
  ultimately show ?thesis
    using assms(3-5) by (simp add: server_handshake_def Let_def del: sub_Ok)
qed

text \<open>What the client seals for a server's key, that server opens.\<close>

lemma client_sealed:
  assumes "x25519_ok cr" "hkdf_ok cr" "chacha_ok cr" "length ub = 16"
    and "client_encrypt_uuid cr (Some t) cs (x_pub cr sk) ub = Ok (cpub, enc)"
  shows "\<exists>km. auth_key_material cr (x_dh cr sk cpub) = Some km \<and> length enc = 40 \<and> cpub = x_pub cr cs
    \<and> chacha_open cr (take 32 km) (slice 32 44 km) [] (take 24 enc) (slice 24 40 enc) = Some (ub @ be64 t)"
proof -
  obtain km c tag where k: "auth_key_material cr (x_dh cr cs (x_pub cr sk)) = Some km"
    "chacha_seal cr (take 32 km) (slice 32 44 km) [] (ub @ be64 t) = (c, tag)"
    "cpub = x_pub cr cs" "enc = c @ tag" "length c = 24" "length tag = 16"
    using client_encrypt_Ok [OF assms(2-5)] by metis
  have "x_dh cr sk cpub = x_dh cr cs (x_pub cr sk)" using assms(1) k(3) by (simp add: x25519_ok_def)
  moreover have "take 24 enc = c" "slice 24 40 enc = tag" "length enc = 40"
    using k(4-6) by (simp_all add: slice_def)
  moreover have "chacha_open cr (take 32 km) (slice 32 44 km) [] c tag = Some (ub @ be64 t)"
    using chacha_open_seal [OF assms(3)] k(2) by (metis fst_conv snd_conv)
  ultimately show ?thesis using k(1,3) by simp
qed

section \<open>Properties\<close>

text \<open>
  C9: what the client encrypts for the server's public key authenticates it: the server
  returns the client's UUID in canonical form at every time within 15 seconds of the client's
  clock, in either direction, and refuses the message as drifted at every other time.
\<close>

theorem handshake_roundtrip:
  assumes "x25519_ok cr" "hkdf_ok cr" "chacha_ok cr" "hex_crate hexenc" "length ub = 16"
    and "client_encrypt_uuid cr (Some t) cs (x_pub cr (static_key cfg)) ub = Ok (cpub, enc)"
  shows "server_handshake cr hexenc (Some now) ss cfg cpub enc =
    (if abs_diff now t > MAX_TIME_DRIFT then Err (TimestampDrift (abs_diff now t))
     else Ok \<lparr>hr_uuid = canonical_uuid ub, server_ephemeral_pub = x_pub cr ss\<rparr>)"
  using client_sealed [OF assms(1-3,5,6)] server_handshake_opened [OF assms(4,5)] by metis

theorem handshake_roundtrip_witness:
  "\<exists>cpub enc. client_encrypt_uuid plain_crypto (Some 1000) [1] (x_pub plain_crypto [2]) (replicate 16 5) = Ok (cpub, enc)
     \<and> server_handshake plain_crypto hex_encode (Some 1015) [3] \<lparr>static_key = [2]\<rparr> cpub enc
       = Ok \<lparr>hr_uuid = canonical_uuid (replicate 16 5), server_ephemeral_pub = x_pub plain_crypto [3]\<rparr>"
proof -
  obtain cpub enc where
    e: "client_encrypt_uuid plain_crypto (Some 1000) [1] (x_pub plain_crypto (static_key \<lparr>static_key = [2]\<rparr>)) (replicate 16 5) = Ok (cpub, enc)"
    using client_encrypt_total [OF plain_crypto_ok(2)] by (metis surj_pair)
  from handshake_roundtrip [OF plain_crypto_ok(1-3) _ _ e, of hex_encode 1015 "[3]"] e show ?thesis
    by (auto simp: hex_crate_def abs_diff_def MAX_TIME_DRIFT_def)
qed

text \<open>
  C2: the server accepts nothing else. If it accepts a message at time \<open>now\<close>, the payload is the
  encryption, under the key shared with the sender's ephemeral key, of sixteen UUID bytes and a
  timestamp within 15 seconds of \<open>now\<close>, and the UUID reported is that UUID; any change of the
  payload is refused.
\<close>

theorem handshake_authentic:
  assumes "hkdf_ok cr" "chacha_ok cr" "hex_crate hexenc"
    and "server_handshake cr hexenc (Some now) ss cfg cpub enc = Ok r"
  shows "\<exists>km ub t c tag. auth_key_material cr (x_dh cr (static_key cfg) cpub) = Some km
    \<and> length ub = 16 \<and> enc = c @ tag
    \<and> chacha_seal cr (take 32 km) (slice 32 44 km) [] (ub @ be64 t) = (c, tag)
    \<and> abs_diff now t \<le> 15 \<and> hr_uuid r = canonical_uuid ub"
proof -
  obtain km where km: "auth_key_material cr (x_dh cr (static_key cfg) cpub) = Some km"
    using auth_key_material_Some [OF assms(1)] by blast
  let ?c = "take 24 enc" and ?t = "slice 24 40 enc"
  have len: "length enc = 40"
    using assms(4) km by (auto simp: server_handshake_def Let_def split: if_splits)
  obtain p where p: "chacha_open cr (take 32 km) (slice 32 44 km) [] ?c ?t = Some p"
    using assms(4) km len by (auto simp: server_handshake_def Let_def outcome_bind_Ok_iff ok_or_Ok_iff)
  then have seal: "chacha_seal cr (take 32 km) (slice 32 44 km) [] p = (?c, ?t)"
    using assms(2) by (simp add: chacha_ok_def)
  have "length (fst (?c, ?t)) = length p" using assms(2) unfolding chacha_ok_def seal [symmetric] by blast
  then have lp: "length p = 24" using len by simp
  define ub t where "ub = take 16 p" and "t = from_be64 (drop 16 p)"
  have pe: "p = ub @ be64 t" "length ub = 16"
    using lp by (simp_all add: ub_def t_def be64_from_be64)
  have "server_handshake cr hexenc (Some now) ss cfg cpub enc =
    (if abs_diff now t > MAX_TIME_DRIFT then Err (TimestampDrift (abs_diff now t))
     else Ok \<lparr>hr_uuid = canonical_uuid ub, server_ephemeral_pub = x_pub cr ss\<rparr>)"
    using p pe by (intro server_handshake_opened [OF assms(3) pe(2) km len]) simp
  with assms(4) have "abs_diff now t \<le> 15" "hr_uuid r = canonical_uuid ub"
    by (auto simp: MAX_TIME_DRIFT_def split: if_splits)
  moreover have "enc = ?c @ ?t" using len by (simp add: slice_def)
  ultimately show ?thesis using km pe seal by metis
qed

theorem handshake_authentic_witness:
  "\<exists>r ub t. server_handshake plain_crypto hex_encode (Some 7) [3] \<lparr>static_key = [2]\<rparr> (replicate 32 9)
      (replicate 16 5 @ be64 7 @ replicate 16 0) = Ok r \<and> hr_uuid r = canonical_uuid ub \<and> abs_diff 7 t \<le> (15 :: u64)"
proof -
  let ?enc = "replicate 16 5 @ be64 7 @ replicate 16 0 :: bytes"
  obtain km where km: "auth_key_material plain_crypto (x_dh plain_crypto [2] (replicate 32 9)) = Some km"
    using auth_key_material_Some [OF plain_crypto_ok(2)] by blast
  have o: "chacha_open plain_crypto (take 32 km) (slice 32 44 km) [] (take 24 ?enc) (slice 24 40 ?enc)
      = Some (replicate 16 5 @ be64 7)"
    by (simp add: plain_crypto_def slice_def)
  have "server_handshake plain_crypto hex_encode (Some 7) [3] \<lparr>static_key = [2]\<rparr> (replicate 32 9) ?enc
      = Ok \<lparr>hr_uuid = canonical_uuid (replicate 16 5), server_ephemeral_pub = x_pub plain_crypto [3]\<rparr>"
    using server_handshake_opened [OF _ _ _ _ o, of hex_encode "\<lparr>static_key = [2]\<rparr>" "replicate 32 9" 7 "[3]"] km
    by (simp add: hex_crate_def abs_diff_def MAX_TIME_DRIFT_def)
  from handshake_authentic [OF plain_crypto_ok(2,3) _ this] this show ?thesis
    by (auto simp: hex_crate_def)
qed

end
