(* ===== verification/Reality.thy ===== *)
theory Reality
  imports Handshake Client_Hello
begin

text \<open>
  \<open>orcax/transport/src/reality.rs\<close>: the server's verification of a Reality ClientHello, whose
  session id is an AES-256-GCM encryption of version, timestamp and short id, bound to the rest
  of the message as additional data. The clock, \<open>hex::decode\<close> and \<open>base64\<close> decoding are
  arguments.
\<close>

section \<open>Operations\<close>

record reality_config =
  private_key :: bytes
  short_ids :: "bytes list"
  server_names :: "rust_string list"
  dest :: rust_string
  max_time_diff :: u64

record reality_auth =
  ra_version :: bytes
  ra_timestamp :: u32
  ra_short_id :: bytes

datatype reality_error =
    SniNotAllowed rust_string
  | NoX25519KeyShare
  | RealityHkdfFailed
  | InvalidSessionIdLength nat
  | AadTooShort
  | RealityDecryptionFailed
  | DecryptedAuthTooShort nat
  | ShortIdNotAllowed
  | RealityTimestampDrift u32

definition zero_range :: "nat \<Rightarrow> nat \<Rightarrow> bytes \<Rightarrow> bytes" where
  "zero_range a b bs = take a bs @ replicate (b - a) 0 @ drop b bs"

definition reality_key :: "crypto \<Rightarrow> bytes \<Rightarrow> bytes \<Rightarrow> bytes option" where
  "reality_key cr shared_secret rnd = hkdf cr (slice 0 20 rnd) shared_secret (str ''REALITY'') 32"

text \<open>The decoding and validation of the decrypted payload, steps 8 to 10.\<close>

definition check_auth ::
    "u64 option \<Rightarrow> reality_config \<Rightarrow> bytes \<Rightarrow> (reality_error, reality_auth) outcome" where
  "check_auth clock config plaintext =
     (if length plaintext < 16 then Err (DecryptedAuthTooShort (length plaintext))
      else outcome_bind (sub plaintext 0 4) (\<lambda>version.
        let timestamp = from_be32 (plaintext ! 4) (plaintext ! 5) (plaintext ! 6) (plaintext ! 7) in
        outcome_bind (sub plaintext 8 16) (\<lambda>short_id.
        if short_id \<notin> set (short_ids config) then Err ShortIdNotAllowed
        else case clock of
          None \<Rightarrow> Panic
        | Some secs \<Rightarrow>
            let now = ucast secs :: u32;
                diff = abs_diff now timestamp
            in if diff > ucast (max_time_diff config) then Err (RealityTimestampDrift diff)
               else Ok \<lparr>ra_version = version, ra_timestamp = timestamp, ra_short_id = short_id\<rparr>)))"

definition verify_client_hello ::
    "crypto \<Rightarrow> u64 option \<Rightarrow> reality_config \<Rightarrow> client_hello_info \<Rightarrow> (reality_error, reality_auth) outcome" where
  "verify_client_hello cr clock config info =
     (let name = (case sni info of Some s \<Rightarrow> s | None \<Rightarrow> []) in
      if name \<notin> set (server_names config) then Err (SniNotAllowed name)
      else outcome_bind (ok_or NoX25519KeyShare (x25519_key info)) (\<lambda>client_pub.
        let shared_secret = x_dh cr (private_key config) client_pub in
        outcome_bind (ok_or RealityHkdfFailed (reality_key cr shared_secret (random info))) (\<lambda>auth_key.
        if length (session_id info) \<noteq> 32 then Err (InvalidSessionIdLength (length (session_id info)))
        else let sid_start = session_id_offset info; sid_end = sid_start + 32 in
        if length (raw info) \<ge> sid_end then
          let aad = zero_range sid_start sid_end (raw info); nonce = slice 20 32 (random info) in
          outcome_bind (ok_or RealityDecryptionFailed (gcm_open cr auth_key nonce aad (session_id info)))
            (check_auth clock config)
        else Err AadTooShort)))"

text \<open>The HMAC in the server's random and the key it uses.\<close>

definition server_hello_auth :: "crypto \<Rightarrow> bytes \<Rightarrow> bytes \<Rightarrow> bytes \<Rightarrow> bytes" where
  "server_hello_auth cr auth_key server_random_prefix client_random =
     take 12 (hmac256 cr auth_key (server_random_prefix @ client_random))"

definition derive_auth_key :: "crypto \<Rightarrow> bytes \<Rightarrow> bytes \<Rightarrow> bytes \<Rightarrow> (unit, bytes) outcome" where
  "derive_auth_key cr priv client_public client_random =
     (case reality_key cr (x_dh cr priv client_public) client_random of Some k \<Rightarrow> Ok k | None \<Rightarrow> Panic)"

datatype parse_key_error = InvalidHexShortId | ShortIdTooLong nat | InvalidBase64 | BadKeyLength nat

definition parse_short_id :: "(rust_string \<Rightarrow> bytes option) \<Rightarrow> rust_string \<Rightarrow> (parse_key_error, bytes) outcome" where
  "parse_short_id hexdec hex_str =
     outcome_bind (ok_or InvalidHexShortId (hexdec hex_str)) (\<lambda>bs.
     if length bs > 8 then Err (ShortIdTooLong (length bs))
     else Ok (bs @ replicate (8 - length bs) 0))"

definition parse_private_key :: "(rust_string \<Rightarrow> bytes option) \<Rightarrow> rust_string \<Rightarrow> (parse_key_error, bytes) outcome" where
  "parse_private_key b64dec b64 =
     outcome_bind (ok_or InvalidBase64 (b64dec b64)) (\<lambda>bs.
     if length bs \<noteq> 32 then Err (BadKeyLength (length bs)) else Ok bs)"

section \<open>Lemmas\<close>

lemma reality_key_Some:
  assumes "hkdf_ok cr"
  shows "\<exists>k. reality_key cr s rnd = Some k \<and> length k = 32"
proof -
  have "32 \<le> (255 * 32 :: nat)" by simp
  with assms show ?thesis unfolding reality_key_def hkdf_ok_def by blast
qed

lemma zero_range_length [simp]: "a \<le> b \<Longrightarrow> b \<le> length bs \<Longrightarrow> length (zero_range a b bs) = length bs"
  by (simp add: zero_range_def)

lemma zero_range_same:
  "length a = i \<Longrightarrow> length m = length m' \<Longrightarrow> zero_range i (i + length m) (a @ m @ r) = zero_range i (i + length m) (a @ m' @ r)"
  by (simp add: zero_range_def)

text \<open>The payload the server accepts, and when it does.\<close>

definition auth_payload :: "bytes \<Rightarrow> u32 \<Rightarrow> bytes \<Rightarrow> bytes" where
  "auth_payload version ts sid = version @ be32 ts @ sid"

lemma check_auth_payload:
  assumes "length version = 4" "length sid = 8" "sid \<in> set (short_ids config)"
  shows "check_auth (Some secs) config (auth_payload version ts sid) =
    (if abs_diff (ucast secs) ts > ucast (max_time_diff config)
     then Err (RealityTimestampDrift (abs_diff (ucast secs) ts))
     else Ok \<lparr>ra_version = version, ra_timestamp = ts, ra_short_id = sid\<rparr>)"
proof -
  let ?p = "auth_payload version ts sid"
  have v: "sub ?p 0 4 = (Ok version :: (reality_error, bytes) outcome)"
    using sub_append [of "[]" 0 version 4 "be32 ts @ sid"] assms(1) by (simp add: auth_payload_def)
  have s: "sub ?p 8 16 = (Ok sid :: (reality_error, bytes) outcome)"
    using sub_append [of "version @ be32 ts" 8 sid 16 "[]"] assms(1,2) by (simp add: auth_payload_def)
  have n: "?p ! 4 = be32 ts ! 0" "?p ! 5 = be32 ts ! 1" "?p ! 6 = be32 ts ! 2" "?p ! 7 = be32 ts ! 3"
    using assms(1) by (simp_all add: auth_payload_def nth_append)
  have t: "from_be32 (?p ! 4) (?p ! 5) (?p ! 6) (?p ! 7) = ts"
    using from_be32_be32 [of ts] by (simp only: n One_nat_def)
  have "\<not> length ?p < 16" using assms(1,2) by (simp add: auth_payload_def)
  then show ?thesis
    unfolding check_auth_def using v s t assms(3) by (simp add: Let_def del: sub_Ok)
qed

lemma check_auth_Ok:
  assumes "check_auth (Some secs) config p = Ok a" "length p = 16"
  shows "p = auth_payload (ra_version a) (ra_timestamp a) (ra_short_id a)
    \<and> length (ra_version a) = 4 \<and> ra_short_id a \<in> set (short_ids config)
    \<and> abs_diff (ucast secs) (ra_timestamp a) \<le> ucast (max_time_diff config)"
proof -
  obtain x0 x1 x2 x3 t0 t1 t2 t3 r where p: "p = [x0, x1, x2, x3, t0, t1, t2, t3] @ r" "length r = 8"
  proof
    show "p = [p ! 0, p ! 1, p ! 2, p ! 3, p ! 4, p ! 5, p ! 6, p ! 7] @ drop 8 p"
      using assms(2) by (auto simp: length_Suc_conv numeral_eq_Suc)
    show "length (drop 8 p) = 8" using assms(2) by simp
  qed
  show ?thesis
    using assms(1) p
    by (auto simp: check_auth_def Let_def slice_def auth_payload_def split: if_splits)
qed

text \<open>Verification of a message with a session id of 32 bytes at its offset.\<close>

lemma verify_reduced:
  assumes "reality_key cr (x_dh cr (private_key config) cpub) (random info) = Some k"
    and "sni info = Some name" "name \<in> set (server_names config)" "x25519_key info = Some cpub"
    and "length (session_id info) = 32" "session_id_offset info + 32 \<le> length (raw info)"
  shows "verify_client_hello cr clock config info =
    outcome_bind (ok_or RealityDecryptionFailed (gcm_open cr k (slice 20 32 (random info))
       (zero_range (session_id_offset info) (session_id_offset info + 32) (raw info)) (session_id info)))
      (check_auth clock config)"
  using assms by (simp add: verify_client_hello_def Let_def)

text \<open>A message whose session id was sealed over the message itself.\<close>

lemma hello_msg_split:
  assumes "hello_ok h" "length (hsession_id h) = 32"
  obtains a r where "length a = 39"
    "\<And>sid. length sid = 32 \<Longrightarrow> hello_msg (h\<lparr>hsession_id := sid\<rparr>) = a @ sid @ r" "0 < length r"
proof -
  define body where "body = (\<lambda>sid. hello_body (h\<lparr>hsession_id := sid\<rparr>))"
  define r where "r = be16 (of_nat (2 * length (hsuites h))) @ concat (map be16 (hsuites h))
     @ of_nat (length (hcompression h)) # hcompression h
     @ be16 (of_nat (length (concat (map enc_ext (hexts h))))) @ concat (map enc_ext (hexts h))"
  define b where "b = [fst (hversion h), snd (hversion h)] @ hrandom h @ [32 :: byte]"
  define n where "n = length (hello_body h)"
  have body: "body sid = b @ sid @ r" if "length sid = 32" for sid
    using that by (simp add: body_def b_def r_def hello_body_def)
  have "body (hsession_id h) = hello_body h" by (simp add: body_def)
  with body [OF assms(2)] have n: "n = length b + (32 + length r)" using assms(2) by (simp add: n_def)
  show thesis
  proof (rule that)
    show "length ([0x01, of_nat (n div 65536), of_nat (n div 256), of_nat n] @ b) = 39"
      using assms(1) by (simp add: b_def hello_ok_def)
    show "hello_msg (h\<lparr>hsession_id := sid\<rparr>) = ([0x01, of_nat (n div 65536), of_nat (n div 256), of_nat n] @ b) @ sid @ r"
      if "length sid = 32" for sid
      using body [OF that] that n by (simp add: hello_msg_def Let_def body_def)
    show "0 < length r" by (simp add: r_def)
  qed
qed

definition sealed_session_id :: "crypto \<Rightarrow> bytes \<Rightarrow> hello \<Rightarrow> bytes \<Rightarrow> bytes" where
  "sealed_session_id cr k h p =
     gcm_seal cr k (slice 20 32 (hrandom h)) (zero_range 39 71 (hello_msg h)) p"

lemma verify_sealed_hello:
  assumes "gcm_ok cr" "hello_ok h" "length (hsession_id h) = 32" "length p = 16"
    and ext: "foldl apply_ext (None, None) (hexts h) = (Some name, Some cpub)"
    and "name \<in> set (server_names config)"
    and k: "reality_key cr (x_dh cr (private_key config) cpub) (hrandom h) = Some k"
  shows "\<exists>info. parse_client_hello (hello_msg (h\<lparr>hsession_id := sealed_session_id cr k h p\<rparr>) @ rest) = Ok info
    \<and> verify_client_hello cr clock config info = check_auth clock config p"
proof -
  define sid where "sid = sealed_session_id cr k h p"
  let ?h = "h\<lparr>hsession_id := sid\<rparr>"
  have ls: "length sid = 32" using assms(1,4) by (simp add: sid_def sealed_session_id_def gcm_ok_def)
  have ok: "hello_ok ?h" using assms(2) ls by (simp add: hello_ok_def)
  obtain a r where m: "length a = 39" "\<And>sid. length sid = 32 \<Longrightarrow> hello_msg (h\<lparr>hsession_id := sid\<rparr>) = a @ sid @ r"
    using hello_msg_split [OF assms(2,3)] by metis
  have m0: "hello_msg h = a @ hsession_id h @ r" using m(2) [OF assms(3)] by simp
  have zr: "zero_range 39 71 (hello_msg ?h) = zero_range 39 71 (hello_msg h)"
    using zero_range_same [OF m(1), of sid "hsession_id h" r] ls assms(3) by (simp add: m(2) m0)
  let ?info = "\<lparr>raw = hello_msg ?h, random = hrandom h, session_id = sid, session_id_offset = 39,
      sni = Some name, x25519_key = Some cpub, cipher_suites = hsuites h\<rparr>"
  have p: "parse_client_hello (hello_msg ?h @ rest) = Ok ?info"
    using parse_client_hello_msg [OF ok, of rest] ext by simp
  have "verify_client_hello cr clock config ?info =
      outcome_bind (ok_or RealityDecryptionFailed (gcm_open cr k (slice 20 32 (hrandom h))
        (zero_range 39 71 (hello_msg ?h)) sid)) (check_auth clock config)"
    using verify_reduced [of cr config cpub ?info k name clock] k assms(6) ls m by simp
  also have "\<dots> = check_auth clock config p"
    unfolding zr unfolding sid_def sealed_session_id_def gcm_open_seal [OF assms(1)] by simp
  finally show ?thesis using p by (auto simp: sid_def)
qed

text \<open>A message that is accepted, for the witnesses.\<close>

definition sample_config :: reality_config where
  "sample_config = \<lparr>private_key = [2], short_ids = [replicate 8 3], server_names = [str ''ozon.ru''],
     dest = str ''ozon.ru:443'', max_time_diff = 120\<rparr>"

definition sample_hello :: hello where
  "sample_hello = test_hello (replicate 32 0x42) (replicate 32 0) (str ''ozon.ru'') (x_pub plain_crypto [1])"

lemma sample_hello_ok:
  "hello_ok sample_hello" "length (hsession_id sample_hello) = 32" "hrandom sample_hello = replicate 32 0x42"
  "foldl apply_ext (None, None) (hexts sample_hello) = (Some (str ''ozon.ru''), Some (x_pub plain_crypto [1]))"
proof -
  have "utf8_valid (str ''ozon.ru'')" by (rule utf8_valid_ascii) (simp add: of_char_def)
  moreover have "length (x_pub plain_crypto [1]) = 32" using plain_crypto_ok(1) by (simp add: x25519_ok_def)
  ultimately show "hello_ok sample_hello"
    "foldl apply_ext (None, None) (hexts sample_hello) = (Some (str ''ozon.ru''), Some (x_pub plain_crypto [1]))"
    unfolding sample_hello_def by (simp_all add: test_hello_ok) (simp add: test_hello_def x25519_of_def)
qed (simp_all add: sample_hello_def test_hello_def)

section \<open>Properties\<close>

text \<open>
  C1: the server accepts only what a holder of the shared key has sealed for this very message.
  If \<open>verify_client_hello\<close> accepts a parsed ClientHello, the server name is allowed, the short
  id is allowed, the timestamp is within the configured drift, and the session id is the GCM
  encryption of exactly the reported version, timestamp and short id, under the key derived from
  the client's key share and random, with the message (its session id zeroed) as additional data.
\<close>

theorem reality_authentic:
  assumes "gcm_ok cr" "parse_client_hello data = Ok info"
    and "verify_client_hello cr (Some secs) config info = Ok a"
  shows "(case sni info of Some s \<Rightarrow> s | None \<Rightarrow> []) \<in> set (server_names config)
    \<and> ra_short_id a \<in> set (short_ids config)
    \<and> abs_diff (ucast secs) (ra_timestamp a) \<le> ucast (max_time_diff config)
    \<and> (\<exists>cpub k. x25519_key info = Some cpub
        \<and> reality_key cr (x_dh cr (private_key config) cpub) (random info) = Some k
        \<and> session_id info = gcm_seal cr k (slice 20 32 (random info)) (zero_range 39 71 (raw info))
            (auth_payload (ra_version a) (ra_timestamp a) (ra_short_id a)))"
proof -
  have h: "session_id_offset info = 39" "39 + length (session_id info) \<le> length (raw info)"
    using accepted_hello [OF assms(2)] by simp_all
  from assms(3) h(1) obtain cpub k p where
    n: "(case sni info of Some s \<Rightarrow> s | None \<Rightarrow> []) \<in> set (server_names config)"
    and k: "x25519_key info = Some cpub" "reality_key cr (x_dh cr (private_key config) cpub) (random info) = Some k"
    and len: "length (session_id info) = 32"
    and o: "gcm_open cr k (slice 20 32 (random info)) (zero_range 39 71 (raw info)) (session_id info) = Some p"
    and c: "check_auth (Some secs) config p = Ok a"
    by (auto simp: verify_client_hello_def Let_def outcome_bind_Ok_iff ok_or_Ok_iff split: if_splits)
  have s: "gcm_seal cr k (slice 20 32 (random info)) (zero_range 39 71 (raw info)) p = session_id info"
    using o assms(1) by (simp add: gcm_ok_def)
  then have "length p = 16" using assms(1) len unfolding gcm_ok_def by (metis add_right_cancel numeral_Bit0)
  from check_auth_Ok [OF c this] n k s show ?thesis by metis
qed

theorem reality_authentic_witness:
  "\<exists>data info a. parse_client_hello data = Ok info
     \<and> verify_client_hello plain_crypto (Some 1000) sample_config info = Ok a
     \<and> ra_short_id a = replicate 8 3"
proof -
  let ?p = "auth_payload (replicate 4 0) 990 (replicate 8 3)"
  obtain k where k: "reality_key plain_crypto (x_dh plain_crypto (private_key sample_config) (x_pub plain_crypto [1]))
      (hrandom sample_hello) = Some k"
    using reality_key_Some [OF plain_crypto_ok(2)] by blast
  have lp: "length ?p = 16" by (simp add: auth_payload_def)
  have n: "str ''ozon.ru'' \<in> set (server_names sample_config)" by (simp add: sample_config_def)
  let ?d = "hello_msg (sample_hello\<lparr>hsession_id := sealed_session_id plain_crypto k sample_hello ?p\<rparr>) @ []"
  have c: "check_auth (Some 1000) sample_config ?p
      = Ok \<lparr>ra_version = replicate 4 0, ra_timestamp = 990, ra_short_id = replicate 8 3\<rparr>"
    by (subst check_auth_payload) (simp_all add: sample_config_def abs_diff_def)
  obtain info where i: "parse_client_hello ?d = Ok info"
    "verify_client_hello plain_crypto (Some 1000) sample_config info
      = Ok \<lparr>ra_version = replicate 4 0, ra_timestamp = 990, ra_short_id = replicate 8 3\<rparr>"
    using verify_sealed_hello [OF plain_crypto_ok(4) sample_hello_ok(1,2) lp sample_hello_ok(4) n k, of "[]" "Some 1000"] c
    by metis
  from reality_authentic [OF plain_crypto_ok(4) i] have "replicate 8 3 \<in> set (short_ids sample_config)" by simp
  then show ?thesis using i by (intro exI [of _ ?d] exI [of _ info]) simp
qed

end
