(* ===== verification/Rustls_Reality.thy ===== *)
theory Rustls_Reality
  imports Reality
begin

text \<open>
  \<open>orcax/rustls-fork/rustls/src/reality.rs\<close>: the Reality hooks of the TLS fork. The client part
  seals the authentication data into the session id; the server part puts an HMAC into the server
  random and checks an HMAC in the session id. \<open>ring\<close> is the parameter record \<open>crypto\<close>.
\<close>

section \<open>Operations\<close>

record rr_config =
  rr_private_key :: bytes
  rr_verify_client :: bool
  rr_dest :: "rust_string option"
  rr_short_ids :: "bytes list"

datatype rr_error =
    PrivateKeyLength
  | BadServerPubkey
  | UseEncryptWithKey
  | AeadSeal


definition with_verify_client :: "rr_config \<Rightarrow> bool \<Rightarrow> rr_config" where
  "with_verify_client c verify = c\<lparr>rr_verify_client := verify\<rparr>"

definition with_dest :: "rr_config \<Rightarrow> rust_string \<Rightarrow> rr_config" where
  "with_dest c d = c\<lparr>rr_dest := Some d\<rparr>"

definition with_short_ids :: "rr_config \<Rightarrow> bytes list \<Rightarrow> rr_config" where
  "with_short_ids c ids = c\<lparr>rr_short_ids := ids\<rparr>"


record rr_client_config =
  server_public_key :: bytes
  rc_short_id :: bytes

definition rc_new :: "bytes \<Rightarrow> bytes \<Rightarrow> rr_client_config" where
  "rc_new key sid = \<lparr>server_public_key = key, rc_short_id = sid\<rparr>"

definition encrypt_session_id :: "rr_client_config \<Rightarrow> (rr_error, bytes) outcome" where
  "encrypt_session_id c =
     (if length (server_public_key c) \<noteq> 32 then Err BadServerPubkey else Err UseEncryptWithKey)"

definition encrypt_session_id_with_key ::
    "crypto \<Rightarrow> u64 option \<Rightarrow> rr_client_config \<Rightarrow> bytes \<Rightarrow> bytes \<Rightarrow> bytes \<Rightarrow> nat \<Rightarrow> (rr_error, bytes) outcome" where
  "encrypt_session_id_with_key cr clock c auth_key client_random raw_hello off =
     (case clock of
        None \<Rightarrow> Panic
      | Some secs \<Rightarrow>
          let timestamp = ucast secs :: u32;
              sid_len = min (length (rc_short_id c)) 8;
              plaintext = replicate 4 0 @ be32 timestamp @ take sid_len (rc_short_id c) @ replicate (8 - sid_len) 0;
              aad = (if length raw_hello > off + 32 then zero_range off (off + 32) raw_hello else raw_hello);
              sid = gcm_seal cr auth_key (slice 20 32 client_random) aad plaintext
          in sub sid 0 32)"


definition verify_client :: "crypto \<Rightarrow> bytes \<Rightarrow> bytes \<Rightarrow> rr_config \<Rightarrow> bool" where
  "verify_client cr sid client_random c =
     (if length sid < 8 \<or> length (rr_private_key c) \<noteq> 32 then False
      else take 8 (hmac256 cr (rr_private_key c) client_random) = take 8 sid)"

section \<open>Lemmas\<close>

lemma encrypt_session_id_sealed:
  assumes "gcm_ok cr" "hello_ok h" "length (hsession_id h) = 32" "length (rc_short_id c) = 8"
  shows "encrypt_session_id_with_key cr (Some secs) c k (hrandom h) (hello_msg h) 39
    = Ok (sealed_session_id cr k h (auth_payload (replicate 4 0) (ucast secs) (rc_short_id c)))"
proof -
  obtain a r where m: "length a = 39" "\<And>sid. length sid = 32 \<Longrightarrow> hello_msg (h\<lparr>hsession_id := sid\<rparr>) = a @ sid @ r"
    "0 < length r"
    using hello_msg_split [OF assms(2,3)] by metis
  have "hello_msg h = a @ hsession_id h @ r" using m(2) [OF assms(3)] by simp
  then have "length (hello_msg h) > 39 + 32" using m assms(3) by simp
  moreover have "length (sealed_session_id cr k h (auth_payload (replicate 4 0) (ucast secs) (rc_short_id c))) = 32"
    using assms(1,4) by (simp add: sealed_session_id_def gcm_ok_def auth_payload_def)
  ultimately show ?thesis
    using assms(4)
    by (simp add: encrypt_session_id_with_key_def Let_def sealed_session_id_def auth_payload_def slice_def sub_def)
qed

section \<open>Properties\<close>

text \<open>
  C8: the client's sealing and the server's verification fit together. A client that derives the
  key from its ephemeral secret and the server's public key, seals its 8-byte short id over its
  ClientHello at offset 39 and puts the result in the session id is accepted by the server, whose
  parser reads that message, exactly when the server's clock is within the configured drift of
  the client's; the server reports the client's short id and time.
\<close>

theorem reality_client_server:
  assumes "x25519_ok cr" "gcm_ok cr" "hello_ok h" "length (hsession_id h) = 32"
    and "foldl apply_ext (None, None) (hexts h) = (Some name, Some (x_pub cr cs))"
    and "name \<in> set (server_names config)"
    and "rc_short_id c \<in> set (short_ids config)" "length (rc_short_id c) = 8"
    and "derive_auth_key cr cs (x_pub cr (private_key config)) (hrandom h) = Ok k"
    and "encrypt_session_id_with_key cr (Some t) c k (hrandom h) (hello_msg h) 39 = Ok sid"
  shows "\<exists>info. parse_client_hello (hello_msg (h\<lparr>hsession_id := sid\<rparr>) @ rest) = Ok info
    \<and> verify_client_hello cr (Some secs) config info =
      (if abs_diff (ucast secs :: u32) (ucast t) > ucast (max_time_diff config)
       then Err (RealityTimestampDrift (abs_diff (ucast secs) (ucast t)))
       else Ok \<lparr>ra_version = replicate 4 0, ra_timestamp = ucast t, ra_short_id = rc_short_id c\<rparr>)"
proof -
  let ?p = "auth_payload (replicate 4 0) (ucast t) (rc_short_id c)"
  have sid: "sid = sealed_session_id cr k h ?p"
    using encrypt_session_id_sealed [OF assms(2-4,8), of t k] assms(10) by simp
  have "x_dh cr cs (x_pub cr (private_key config)) = x_dh cr (private_key config) (x_pub cr cs)"
    using assms(1) by (simp add: x25519_ok_def)
  then have k: "reality_key cr (x_dh cr (private_key config) (x_pub cr cs)) (hrandom h) = Some k"
    using assms(9) by (simp add: derive_auth_key_def split: option.splits)
  have "length ?p = 16" using assms(8) by (simp add: auth_payload_def)
  from verify_sealed_hello [OF assms(2-4) this assms(5,6) k, of rest "Some secs"] show ?thesis
    unfolding sid [symmetric]
    using check_auth_payload [of "replicate 4 0" "rc_short_id c" config secs "ucast t"] assms(7,8) by simp
qed

theorem reality_client_server_witness:
  "\<exists>k sid info. derive_auth_key plain_crypto [1] (x_pub plain_crypto [2]) (hrandom sample_hello) = Ok k
     \<and> encrypt_session_id_with_key plain_crypto (Some 1000) (rc_new [] (replicate 8 3)) k (hrandom sample_hello)
         (hello_msg sample_hello) 39 = Ok sid
     \<and> parse_client_hello (hello_msg (sample_hello\<lparr>hsession_id := sid\<rparr>) @ []) = Ok info
     \<and> verify_client_hello plain_crypto (Some 1100) sample_config info
       = Ok \<lparr>ra_version = replicate 4 0, ra_timestamp = 1000, ra_short_id = replicate 8 3\<rparr>"
proof -
  have pk: "private_key sample_config = [2]" by (simp add: sample_config_def)
  obtain k where k: "derive_auth_key plain_crypto [1] (x_pub plain_crypto (private_key sample_config)) (hrandom sample_hello) = Ok k"
    using reality_key_Some [OF plain_crypto_ok(2)] by (metis derive_auth_key_def option.simps(5))
  have l: "length (rc_short_id (rc_new [] (replicate 8 3))) = 8" by (simp add: rc_new_def)
  note e = encrypt_session_id_sealed [OF plain_crypto_ok(4) sample_hello_ok(1,2) l, of 1000 k]
  have "str ''ozon.ru'' \<in> set (server_names sample_config)"
    "rc_short_id (rc_new [] (replicate 8 3)) \<in> set (short_ids sample_config)"
    by (simp_all add: sample_config_def rc_new_def)
  from reality_client_server [OF plain_crypto_ok(1,4) sample_hello_ok(1,2,4) this l k e, of "[]" 1100]
  obtain info where "parse_client_hello (hello_msg (sample_hello\<lparr>hsession_id := sealed_session_id plain_crypto k
      sample_hello (auth_payload (replicate 4 0) (ucast (1000 :: u64)) (rc_short_id (rc_new [] (replicate 8 3))))\<rparr>) @ []) = Ok info"
    "verify_client_hello plain_crypto (Some 1100) sample_config info
       = Ok \<lparr>ra_version = replicate 4 0, ra_timestamp = 1000, ra_short_id = replicate 8 3\<rparr>"
    by (auto simp: sample_config_def abs_diff_def rc_new_def)
  with k e pk show ?thesis by metis
qed



end
