(* ===== verification/Server_Stream.thy ===== *)
theory Server_Stream
  imports Tls_Record Hash_Map Crypto
begin

text \<open>
  \<open>orcax/transport/src/server.rs\<close> and \<open>reality_cert.rs\<close>. \<open>PrefixedStream\<close> replays the bytes
  that were read ahead (a ClientHello) before it reads from the socket; its contract is that of
  any byte source, stated as the locale \<open>byte_source\<close>, which gives \<open>exact_reader\<close>. The
  certificate cache keeps one template per domain and signs a copy with the session's key;
  certificate generation by \<open>rcgen\<close> is an argument.
\<close>

section \<open>Byte sources\<close>

text \<open>The default \<open>read_exact\<close> of \<open>std::io::Read\<close> over a type's own \<open>read\<close>.\<close>

function read_exact_by :: "(nat \<Rightarrow> 's \<Rightarrow> bytes \<times> 's) \<Rightarrow> nat \<Rightarrow> 's \<Rightarrow> (bytes \<times> 's) option" where
  "read_exact_by rs n s =
     (if n = 0 then Some ([], s)
      else case rs n s of (b, s') \<Rightarrow>
        if b = [] then None
        else map_option (\<lambda>(r, s''). (b @ r, s'')) (read_exact_by rs (n - length b) s'))"
  by pat_completeness auto
termination
  by (relation "measure (\<lambda>(_, n, _). n)") auto

declare read_exact_by.simps [simp del]

locale byte_source =
  fixes rs :: "nat \<Rightarrow> 's \<Rightarrow> bytes \<times> 's"
    and content :: "'s \<Rightarrow> bytes"
  assumes rs_content: "rs n s = (b, s') \<Longrightarrow> content s = b @ content s' \<and> length b \<le> n"
    and rs_eof: "rs n s = ([], s') \<Longrightarrow> 0 < n \<Longrightarrow> content s = []"
begin

lemma read_exact_by_enough:
  "n \<le> length (content s) \<Longrightarrow>
     \<exists>s'. read_exact_by rs n s = Some (take n (content s), s') \<and> content s' = drop n (content s)"
proof (induction n arbitrary: s rule: less_induct)
  case (less n)
  show ?case
  proof (cases "n = 0")
    case True
    then show ?thesis by (simp add: read_exact_by.simps)
  next
    case False
    obtain b s' where rs: "rs n s = (b, s')" by fastforce
    have c: "content s = b @ content s'" "length b \<le> n" using rs_content [OF rs] by simp_all
    have ne: "b \<noteq> []" using rs_eof [of n s s'] rs False less.prems by auto
    then have "n - length b < n" using False by simp
    moreover have "n - length b \<le> length (content s')" using less.prems c by simp
    ultimately obtain s'' where
      "read_exact_by rs (n - length b) s' = Some (take (n - length b) (content s'), s'')"
      "content s'' = drop (n - length b) (content s')"
      using less.IH by blast
    with False rs ne c show ?thesis by (subst read_exact_by.simps) simp
  qed
qed

lemma read_exact_by_short: "length (content s) < n \<Longrightarrow> read_exact_by rs n s = None"
proof (induction n arbitrary: s rule: less_induct)
  case (less n)
  obtain b s' where rs: "rs n s = (b, s')" by fastforce
  have c: "content s = b @ content s'" "length b \<le> n" using rs_content [OF rs] by simp_all
  show ?case
  proof (cases "b = []")
    case True
    with rs less.prems show ?thesis by (subst read_exact_by.simps) auto
  next
    case False
    then have "n - length b < n" "length (content s') < n - length b" using less.prems c by simp_all
    from less.IH [OF this] rs False less.prems show ?thesis by (subst read_exact_by.simps) simp
  qed
qed

end

sublocale byte_source \<subseteq> exact_reader "read_exact_by rs" content
  by unfold_locales (erule read_exact_by_enough, erule read_exact_by_short)

interpretation seg_source: byte_source read_some concat
  by unfold_locales (simp_all add: read_some_concat read_some_empty)

section \<open>PrefixedStream\<close>

record prefixed_stream =
  prefix :: bytes
  prefix_pos :: nat
  inner :: segs

definition new_prefixed :: "bytes \<Rightarrow> segs \<Rightarrow> prefixed_stream" where
  "new_prefixed p s = \<lparr>prefix = p, prefix_pos = 0, inner = s\<rparr>"

definition prefixed_read :: "nat \<Rightarrow> prefixed_stream \<Rightarrow> bytes \<times> prefixed_stream" where
  "prefixed_read n s =
     (if prefix_pos s < length (prefix s) then
        let remaining = drop (prefix_pos s) (prefix s); k = min (length remaining) n
        in (take k remaining, s\<lparr>prefix_pos := prefix_pos s + k\<rparr>)
      else case read_some n (inner s) of (b, i) \<Rightarrow> (b, s\<lparr>inner := i\<rparr>))"

definition prefixed_content :: "prefixed_stream \<Rightarrow> bytes" where
  "prefixed_content s = drop (prefix_pos s) (prefix s) @ concat (inner s)"

lemma prefixed_read_content:
  assumes "prefixed_read n s = (b, s')"
  shows "prefixed_content s = b @ prefixed_content s' \<and> length b \<le> n"
proof (cases "prefix_pos s < length (prefix s)")
  case True
  let ?rem = "drop (prefix_pos s) (prefix s)"
  let ?k = "min (length ?rem) n"
  have "b = take ?k ?rem" "s' = s\<lparr>prefix_pos := prefix_pos s + ?k\<rparr>"
    using assms True by (auto simp: prefixed_read_def Let_def)
  moreover have "?rem = take ?k ?rem @ drop (prefix_pos s + ?k) (prefix s)"
    by (metis append_take_drop_id drop_drop add.commute)
  ultimately show ?thesis by (auto simp: prefixed_content_def)
next
  case False
  then show ?thesis
    using assms read_some_concat [of n "inner s"]
    by (auto simp: prefixed_read_def prefixed_content_def split: prod.splits)
qed

interpretation prefixed: byte_source prefixed_read prefixed_content
proof unfold_locales
  fix n s b s'
  assume "prefixed_read n s = (b, s')"
  then show "prefixed_content s = b @ prefixed_content s' \<and> length b \<le> n"
    by (rule prefixed_read_content)
next
  fix n s s'
  assume "prefixed_read n s = ([], s')" "0 < n"
  then show "prefixed_content s = []"
    by (auto simp: prefixed_read_def prefixed_content_def Let_def split: if_splits prod.splits
        dest!: read_some_empty)
qed

section \<open>The certificate cache\<close>

text \<open>A template is a certificate in DER, its private key and its raw public key.\<close>

type_synonym template = "bytes \<times> bytes \<times> bytes"
type_synonym cert_cache = "(rust_string, template) hmap option"

datatype cert_error = CertGenerationFailed | CertTooShort nat

definition get_or_create_template ::
    "(rust_string \<Rightarrow> template option) \<Rightarrow> rust_string \<Rightarrow> cert_cache \<Rightarrow>
     (cert_error, template) outcome \<times> cert_cache" where
  "get_or_create_template gen domain cache =
     (let m = (case cache of Some m \<Rightarrow> m | None \<Rightarrow> []) in
      case hm_get m domain of
        Some cached \<Rightarrow> (Ok cached, Some m)
      | None \<Rightarrow>
          (case gen domain of
             None \<Rightarrow> (Err CertGenerationFailed, Some m)
           | Some t \<Rightarrow> (Ok t, Some (hm_insert domain t m))))"

definition sign_template :: "crypto \<Rightarrow> bytes \<Rightarrow> template \<Rightarrow> (cert_error, bytes \<times> bytes) outcome" where
  "sign_template cr auth_key t =
     (case t of (cert_der, priv_key_der, pub_key_raw) \<Rightarrow>
        let signature = hmac512 cr auth_key pub_key_raw; total_len = length cert_der in
        if total_len < 64 then Err (CertTooShort total_len)
        else outcome_bind (sub signature 0 64) (\<lambda>sg.
          Ok (take (total_len - 64) cert_der @ sg, priv_key_der)))"

definition generate_reality_cert ::
    "crypto \<Rightarrow> (rust_string \<Rightarrow> template option) \<Rightarrow> bytes \<Rightarrow> rust_string \<Rightarrow> cert_cache \<Rightarrow>
     (cert_error, bytes \<times> bytes) outcome \<times> cert_cache" where
  "generate_reality_cert cr gen auth_key domain cache =
     (case get_or_create_template gen domain cache of
        (r, cache') \<Rightarrow> (outcome_bind r (sign_template cr auth_key), cache'))"

definition get_cached_pubkey :: "rust_string \<Rightarrow> cert_cache \<Rightarrow> bytes option" where
  "get_cached_pubkey domain cache =
     (case cache of
        None \<Rightarrow> None
      | Some m \<Rightarrow> map_option (\<lambda>(_, _, pk). pk) (hm_get m domain))"

text \<open>Further requests, each with its own outcome of the generator.\<close>

fun cert_requests ::
    "crypto \<Rightarrow> ((rust_string \<Rightarrow> template option) \<times> bytes \<times> rust_string) list \<Rightarrow> cert_cache \<Rightarrow> cert_cache" where
  "cert_requests cr [] cache = cache"
| "cert_requests cr ((gen, auth_key, domain) # rs) cache =
     cert_requests cr rs (snd (generate_reality_cert cr gen auth_key domain cache))"

definition cached :: "cert_cache \<Rightarrow> rust_string \<Rightarrow> template option" where
  "cached cache domain = (case cache of None \<Rightarrow> None | Some m \<Rightarrow> hm_get m domain)"

lemma template_cached:
  "get_or_create_template gen domain cache = (Ok t, cache') \<Longrightarrow> cached cache' domain = Some t"
  by (auto simp: get_or_create_template_def cached_def update_conv' Let_def split: option.splits)

lemma template_hit: "cached cache domain = Some t \<Longrightarrow> get_or_create_template gen domain cache = (Ok t, cache)"
  by (auto simp: get_or_create_template_def cached_def split: option.splits)

lemma template_keeps:
  "cached cache d = Some t \<Longrightarrow> cached (snd (get_or_create_template gen domain cache)) d = Some t"
  by (auto simp: get_or_create_template_def cached_def update_conv' split: option.splits)

lemma requests_keep: "cached cache d = Some t \<Longrightarrow> cached (cert_requests cr rs cache) d = Some t"
proof (induction rs arbitrary: cache)
  case (Cons r rs)
  obtain gen k dom where r: "r = (gen, k, dom)" by (cases r) auto
  have "snd (generate_reality_cert cr gen k dom cache) = snd (get_or_create_template gen dom cache)"
    by (simp add: generate_reality_cert_def split: prod.splits)
  with Cons r template_keeps [OF Cons.prems] show ?case by simp
qed simp

lemma sign_template_Ok:
  assumes "hmac_ok cr"
  shows "sign_template cr k (cert, priv, pk) = Ok r \<longleftrightarrow>
    64 \<le> length cert \<and> r = (take (length cert - 64) cert @ hmac512 cr k pk, priv)"
  using assms by (auto simp: sign_template_def Let_def sub_def slice_def hmac_ok_def)

section \<open>Properties\<close>

text \<open>
  C27: replaying read-ahead bytes is invisible to the reader: however a TLS record is divided
  between the prefix of a \<open>PrefixedStream\<close> and the segments of its socket, reading a record from
  the stream returns it whole, and what remains is exactly what followed it.
\<close>

theorem prefixed_stream_record:
  assumes "p @ concat segs = build_tls_record ct payload @ r" "length payload \<le> MAX_RECORD_SIZE"
  shows "\<exists>s'. read_tls_record (read_exact_by prefixed_read) (new_prefixed p segs) =
      Ok ((\<lparr>content_type = ct, legacy_version = (0x03, 0x03), len = of_nat (length payload)\<rparr>, payload), s')
    \<and> prefixed_content s' = r"
proof -
  have "prefixed_content (new_prefixed p segs) = build_tls_record ct payload @ r"
    using assms(1) by (simp add: prefixed_content_def new_prefixed_def)
  moreover have "length payload < 65536" using assms(2) by (simp add: MAX_RECORD_SIZE_def)
  ultimately show ?thesis using prefixed.read_built_record assms(2) by auto
qed

theorem prefixed_stream_record_witness:
  "\<exists>s'. read_tls_record (read_exact_by prefixed_read) (new_prefixed [0x16, 3, 3, 0] [[2, 7], [8, 9]]) =
     Ok ((\<lparr>content_type = 0x16, legacy_version = (3, 3), len = 2\<rparr>, [7, 8]), s') \<and> prefixed_content s' = [9]"
  using prefixed_stream_record [of "[0x16, 3, 3, 0]" "[[2, 7], [8, 9]]" "0x16" "[7, 8]" "[9]"]
  by (simp add: build_tls_record_def be16_def MAX_RECORD_SIZE_def)

text \<open>
  C28: the certificate of a domain is stable. Once a certificate was made for a domain, any later
  request for it, after any other requests and whatever the generator would return, gives the
  same private key and the same certificate up to its last 64 bytes, which are the HMAC of the
  cached public key under the request's own key.
\<close>

theorem reality_cert_stable:
  assumes "hmac_ok cr"
    and "generate_reality_cert cr gen k domain cache = (Ok (cert, priv), cache1)"
    and "cache2 = cert_requests cr rs cache1"
  shows "\<exists>pk. get_cached_pubkey domain cache2 = Some pk \<and> 64 \<le> length cert
    \<and> generate_reality_cert cr gen' k' domain cache2 =
        (Ok (take (length cert - 64) cert @ hmac512 cr k' pk, priv), cache2)"
proof -
  obtain c0 p0 pk where t: "get_or_create_template gen domain cache = (Ok (c0, p0, pk), cache1)"
    and s: "sign_template cr k (c0, p0, pk) = Ok (cert, priv)"
    using assms(2) by (auto simp: generate_reality_cert_def outcome_bind_Ok_iff split: prod.splits)
  have c: "64 \<le> length c0" "cert = take (length c0 - 64) c0 @ hmac512 cr k pk" "priv = p0"
    using s sign_template_Ok [OF assms(1)] by auto
  have l: "length cert = length c0" using c assms(1) by (simp add: hmac_ok_def)
  have "cached cache2 domain = Some (c0, p0, pk)"
    using requests_keep [OF template_cached [OF t]] assms(3) by simp
  then have "get_cached_pubkey domain cache2 = Some pk"
    and h: "get_or_create_template gen' domain cache2 = (Ok (c0, p0, pk), cache2)"
    by (auto simp: cached_def get_cached_pubkey_def intro: template_hit split: option.splits)
  moreover have tk: "take (length cert - 64) cert = take (length c0 - 64) c0"
    unfolding l using c(2) by simp
  moreover have "sign_template cr k' (c0, p0, pk) = Ok (take (length c0 - 64) c0 @ hmac512 cr k' pk, priv)"
    using c(1,3) by (simp add: sign_template_Ok [OF assms(1)])
  ultimately show ?thesis unfolding tk l using c(1) by (simp add: generate_reality_cert_def)
qed

theorem reality_cert_stable_witness:
  "\<exists>cache1 pk. generate_reality_cert plain_crypto (\<lambda>_. Some (replicate 70 1, [2], [3])) [5] [6] None
       = (Ok (replicate 6 1 @ replicate 64 0, [2]), cache1)
     \<and> generate_reality_cert plain_crypto (\<lambda>_. None) [7] [6] cache1
       = (Ok (replicate 6 1 @ hmac512 plain_crypto [7] pk, [2]), cache1)"
proof -
  let ?g = "\<lambda>_ :: rust_string. Some (replicate 70 1, [2], [3]) :: template option"
  have e: "generate_reality_cert plain_crypto ?g [5] [6] None
      = (Ok (replicate 6 1 @ replicate 64 0, [2]), Some [([6], replicate 70 1, [2], [3])])"
    by (simp add: generate_reality_cert_def get_or_create_template_def sign_template_def Let_def sub_def slice_def plain_crypto_def)
  from reality_cert_stable [OF plain_crypto_ok(5) e, of _ "[]" "\<lambda>_. None" "[7]"] e show ?thesis by auto
qed

end
