(* ===== verification/Rust_Str.thy ===== *)
theory Rust_Str
  imports Rust_Net "HOL-Library.Sublist"
begin

text \<open>
  The string methods of the Rust standard library that the client calls: \<open>split\<close>,
  \<open>split_once\<close>, \<open>rfind\<close>, \<open>trim\<close>, \<open>replace\<close>, \<open>ends_with\<close> on the UTF-8 bytes of a
  string, \<open>parse\<close> of the unsigned integers, and \<open>parse\<close> of \<open>IpAddr\<close> and \<open>SocketAddr\<close>
  (the recursive descent parser of \<open>core::net\<close>).
\<close>

section \<open>Splitting\<close>

text \<open>\<open>split(c)\<close> for an ASCII character: always at least one piece.\<close>

fun split_on :: "byte \<Rightarrow> rust_string \<Rightarrow> rust_string list" where
  "split_on c [] = [[]]"
| "split_on c (x # xs) =
     (if x = c then [] # split_on c xs
      else case split_on c xs of [] \<Rightarrow> [[x]] | p # ps \<Rightarrow> (x # p) # ps)"

fun join_with :: "byte \<Rightarrow> rust_string list \<Rightarrow> rust_string" where
  "join_with c [] = []"
| "join_with c [p] = p"
| "join_with c (p # q # ps) = p @ [c] @ join_with c (q # ps)"

lemma split_on_not_Nil [simp]: "split_on c s \<noteq> []"
  by (induction s) (auto split: list.splits)

lemma join_with_Cons: "ps \<noteq> [] \<Longrightarrow> join_with c (p # ps) = p @ [c] @ join_with c ps"
  by (cases ps) auto

lemma join_split [simp]: "join_with c (split_on c s) = s"
proof (induction s)
  case (Cons x s)
  obtain p ps where "split_on c s = p # ps" by (cases "split_on c s") auto
  with Cons show ?case by (cases ps) (auto simp: join_with_Cons)
qed simp

lemma split_on_append: "split_on c (a @ c # b) = split_on c a @ split_on c b"
proof (induction a)
  case (Cons x a)
  obtain p ps where "split_on c a = p # ps" by (cases "split_on c a") auto
  with Cons show ?case by auto
qed simp

lemma join_with_append:
  "ps \<noteq> [] \<Longrightarrow> qs \<noteq> [] \<Longrightarrow> join_with c (ps @ qs) = join_with c ps @ [c] @ join_with c qs"
  by (induction c ps rule: join_with.induct) (auto simp: join_with_Cons)

lemma split_on_inj: "split_on c a = split_on c b \<Longrightarrow> a = b"
  by (metis join_split)

lemma split_on_pieces: "p \<in> set (split_on c s) \<Longrightarrow> c \<notin> set p"
proof (induction s arbitrary: p)
  case (Cons x s)
  then show ?case by (auto split: list.splits if_splits)
qed simp

lemma split_on_single: "c \<notin> set s \<Longrightarrow> split_on c s = [s]"
  by (induction s) auto

lemma split_join: "ps \<noteq> [] \<Longrightarrow> \<forall>p \<in> set ps. c \<notin> set p \<Longrightarrow> split_on c (join_with c ps) = ps"
proof (induction ps)
  case (Cons p ps)
  then show ?case
    by (cases "ps = []") (simp_all add: join_with_Cons split_on_append split_on_single)
qed simp

text \<open>\<open>ends_with(".d")\<close> or equality is a suffix of the dot-separated labels.\<close>

lemma ends_with_labels:
  "h = d \<or> suffix (c # d) h \<longleftrightarrow> suffix (split_on c d) (split_on c h)"
proof
  assume "h = d \<or> suffix (c # d) h"
  then show "suffix (split_on c d) (split_on c h)"
    by (auto simp: suffix_def split_on_append)
next
  assume "suffix (split_on c d) (split_on c h)"
  then obtain ls where ls: "split_on c h = ls @ split_on c d" by (auto simp: suffix_def)
  show "h = d \<or> suffix (c # d) h"
  proof (cases "ls = []")
    case True
    with ls show ?thesis by (simp add: split_on_inj)
  next
    case False
    have "h = join_with c (ls @ split_on c d)" by (simp add: ls [symmetric])
    with False have "h = join_with c ls @ c # d" by (simp add: join_with_append)
    then show ?thesis by (auto simp: suffix_def)
  qed
qed

text \<open>\<open>split_once(c)\<close>, and the two parts around the last occurrence (\<open>rfind\<close>).\<close>

definition split_once :: "byte \<Rightarrow> rust_string \<Rightarrow> (rust_string \<times> rust_string) option" where
  "split_once c s =
     (if c \<in> set s then Some (takeWhile (\<lambda>x. x \<noteq> c) s, tl (dropWhile (\<lambda>x. x \<noteq> c) s)) else None)"

definition rfind_prefix :: "byte \<Rightarrow> rust_string \<Rightarrow> rust_string option" where
  "rfind_prefix c s =
     (if c \<in> set s then Some (rev (tl (dropWhile (\<lambda>x. x \<noteq> c) (rev s)))) else None)"

lemma rfind_prefix_append: "c \<notin> set b \<Longrightarrow> rfind_prefix c (a @ c # b) = Some a"
proof -
  assume c: "c \<notin> set b"
  have "dropWhile (\<lambda>x. x \<noteq> c) (rev b @ c # rev a) = c # rev a"
    using c by (subst dropWhile_append2) auto
  then show ?thesis by (simp add: rfind_prefix_def)
qed

text \<open>\<open>rsplit(c).next()\<close>: what follows the last occurrence, the whole string when there is none.\<close>

definition rsplit_first :: "byte \<Rightarrow> rust_string \<Rightarrow> rust_string" where
  "rsplit_first c s = rev (takeWhile (\<lambda>x. x \<noteq> c) (rev s))"

text \<open>\<open>replace(from, to)\<close>: non-overlapping occurrences of a non-empty pattern, left to right.\<close>

fun replace_all :: "rust_string \<Rightarrow> rust_string \<Rightarrow> rust_string \<Rightarrow> rust_string" where
  "replace_all pat to [] = []"
| "replace_all pat to (x # xs) =
     (if pat \<noteq> [] \<and> prefix pat (x # xs) then to @ replace_all pat to (drop (length pat - 1) xs)
      else x # replace_all pat to xs)"

lemma replace_all_single: "replace_all [c] [] s = filter (\<lambda>x. x \<noteq> c) s"
  by (induction s) auto

section \<open>Trimming\<close>

text \<open>
  The UTF-8 encodings of the characters with the Unicode property \<open>White_Space\<close>. In a valid
  string every occurrence of one of them starts at a character boundary.
\<close>

definition white_space :: "bytes list" where
  "white_space =
     map (\<lambda>n. [of_nat n]) [9, 10, 11, 12, 13, 32]
     @ [[0xC2, 0x85], [0xC2, 0xA0], [0xE1, 0x9A, 0x80]]
     @ map (\<lambda>n. [0xE2, 0x80, of_nat n]) ([0x80..<0x8B] @ [0xA8, 0xA9, 0xAF])
     @ [[0xE2, 0x81, 0x9F], [0xE3, 0x80, 0x80]]"

function strip_front :: "bytes list \<Rightarrow> rust_string \<Rightarrow> rust_string" where
  "strip_front ws s =
     (case find (\<lambda>w. w \<noteq> [] \<and> prefix w s) ws of
        None \<Rightarrow> s
      | Some w \<Rightarrow> strip_front ws (drop (length w) s))"
  by pat_completeness auto
termination
  by (relation "measure (length \<circ> snd)") (auto simp: find_Some_iff prefix_def)

declare strip_front.simps [simp del]

definition trim :: "rust_string \<Rightarrow> rust_string" where
  "trim s = rev (strip_front (map rev white_space) (rev (strip_front white_space s)))"

lemma strip_front_id: "\<forall>w \<in> set ws. w = [] \<or> \<not> prefix w s \<Longrightarrow> strip_front ws s = s"
proof -
  assume "\<forall>w \<in> set ws. w = [] \<or> \<not> prefix w s"
  then have "find (\<lambda>w. w \<noteq> [] \<and> prefix w s) ws = None" by (auto simp: find_None_iff)
  then show ?thesis by (subst strip_front.simps) simp
qed

lemma white_space_front: "\<exists>w \<in> set white_space. prefix w (x # s) \<Longrightarrow> x \<in> {9, 10, 11, 12, 13, 32, 0xC2, 0xE1, 0xE2, 0xE3}"
  by (auto simp: white_space_def)

lemma white_space_back:
  "\<exists>w \<in> set (map rev white_space). prefix w (x # s) \<Longrightarrow> x \<in> {9, 10, 11, 12, 13, 32} \<or> 0x80 \<le> x"
proof -
  have "\<forall>w \<in> set (map rev white_space). hd w \<in> {9, 10, 11, 12, 13, 32} \<or> 0x80 \<le> hd w" "\<forall>w \<in> set (map rev white_space). w \<noteq> []"
    by code_simp+
  then show "\<exists>w \<in> set (map rev white_space). prefix w (x # s) \<Longrightarrow> x \<in> {9, 10, 11, 12, 13, 32} \<or> 0x80 \<le> x"
    by (metis (no_types, lifting) list.exhaust_sel list.sel(1) prefix_Cons)
qed

text \<open>A string of printing ASCII characters is its own trimmed form.\<close>

definition printing :: "byte \<Rightarrow> bool" where
  "printing b \<longleftrightarrow> 0x20 < b \<and> b < 0x7F"

lemma trim_printing:
  assumes "list_all printing s"
  shows "trim s = s"
proof (cases s)
  case (Cons x s')
  have p: "printing (hd s)" "printing (hd (rev s))"
    using assms Cons hd_in_set [of s] hd_in_set [of "rev s"] by (auto simp: list_all_iff)
  have nf: "\<not> (\<exists>w \<in> set white_space. prefix w s)"
  proof
    assume "\<exists>w \<in> set white_space. prefix w s"
    then have "x \<in> {9, 10, 11, 12, 13, 32, 0xC2, 0xE1, 0xE2, 0xE3}" unfolding Cons by (rule white_space_front)
    with p(1) Cons show False by (auto simp: printing_def)
  qed
  obtain y r where r: "rev s = y # r" using Cons by (cases "rev s") auto
  have "\<not> (\<exists>w \<in> set (map rev white_space). prefix w (rev s))"
  proof
    assume "\<exists>w \<in> set (map rev white_space). prefix w (rev s)"
    then have "y \<in> {9, 10, 11, 12, 13, 32} \<or> 0x80 \<le> y" unfolding r by (rule white_space_back)
    with p(2) r show False by (auto simp: printing_def word_le_nat_alt word_less_nat_alt)
  qed
  then have "strip_front (map rev white_space) (rev s) = rev s" by (intro strip_front_id) blast
  moreover have "strip_front white_space s = s" using nf by (intro strip_front_id) blast
  ultimately show ?thesis by (simp add: trim_def)
qed (simp add: trim_def strip_front_id)

section \<open>Parsing integers\<close>

text \<open>
  \<open>str::parse::<u16>\<close>: an optional plus sign and at least one decimal digit, the value below
  65536.
\<close>

definition dec_value :: "rust_string \<Rightarrow> nat" where
  "dec_value ds = foldl (\<lambda>v c. 10 * v + (unat c - 48)) 0 ds"

definition parse_u16 :: "rust_string \<Rightarrow> u16 option" where
  "parse_u16 s =
     (let ds = (case s of c # r \<Rightarrow> if c = 0x2B then r else s | [] \<Rightarrow> s) in
      if ds \<noteq> [] \<and> list_all is_digit ds \<and> dec_value ds < 65536 then Some (of_nat (dec_value ds)) else None)"

section \<open>Parsing IP addresses\<close>

text \<open>\<open>Parser::read_given_char\<close> and \<open>Parser::read_separator\<close>.\<close>

definition read_char :: "byte \<Rightarrow> rust_string \<Rightarrow> rust_string option" where
  "read_char c s = (case s of x # r \<Rightarrow> if x = c then Some r else None | [] \<Rightarrow> None)"

definition read_separator :: "byte \<Rightarrow> nat \<Rightarrow> (rust_string \<Rightarrow> ('a \<times> rust_string) option) \<Rightarrow> rust_string
    \<Rightarrow> ('a \<times> rust_string) option" where
  "read_separator c i inner s = (if i = 0 then inner s else Option.bind (read_char c s) inner)"

text \<open>\<open>read_number(16, Some(4), true)\<close> at type \<open>u16\<close>: one to four hexadecimal digits, and no fifth.\<close>

definition read_group :: "rust_string \<Rightarrow> (u16 \<times> rust_string) option" where
  "read_group s =
     (let ds = takeWhile (\<lambda>c. hex_value c \<noteq> None) s in
      if ds = [] \<or> length ds > 4 then None
      else Some (of_nat (foldl (\<lambda>v c. 16 * v + the (hex_value c)) 0 ds), drop (length ds) s))"

text \<open>
  \<open>read_groups\<close> with \<open>k\<close> slots left after \<open>i\<close> groups: the groups read, whether they end in a
  dotted IPv4 address, and the rest of the input.
\<close>

fun read_groups :: "nat \<Rightarrow> nat \<Rightarrow> rust_string \<Rightarrow> u16 list \<times> bool \<times> rust_string" where
  "read_groups i 0 s = ([], False, s)"
| "read_groups i (Suc k) s =
     (case (if k > 0 then read_separator colon i read_ipv4 s else None) of
        Some (Ipv4Addr a b c d, r) \<Rightarrow> ([from_be16 a b, from_be16 c d], True, r)
      | None \<Rightarrow>
          (case read_separator colon i read_group s of
             None \<Rightarrow> ([], False, s)
           | Some (g, r) \<Rightarrow> (case read_groups (Suc i) k r of (gs, v4, r') \<Rightarrow> (g # gs, v4, r'))))"

definition ipv6_of_groups :: "u16 list \<Rightarrow> ipv6_addr" where
  "ipv6_of_groups gs = Ipv6Addr (concat (map be16 gs))"

definition read_ipv6 :: "rust_string \<Rightarrow> (ipv6_addr \<times> rust_string) option" where
  "read_ipv6 s =
     (case read_groups 0 8 s of (hd_gs, hd_v4, r) \<Rightarrow>
        if length hd_gs = 8 then Some (ipv6_of_groups hd_gs, r)
        else if hd_v4 then None
        else Option.bind (read_char colon r) (\<lambda>r1. Option.bind (read_char colon r1) (\<lambda>r2.
          case read_groups 0 (8 - (length hd_gs + 1)) r2 of (tl_gs, _, r3) \<Rightarrow>
            Some (ipv6_of_groups (hd_gs @ replicate (8 - length hd_gs - length tl_gs) 0 @ tl_gs), r3))))"

text \<open>\<open>str::parse::<IpAddr>\<close>: the whole input is one address, tried as IPv4 first.\<close>

definition parse_ip :: "rust_string \<Rightarrow> ip_addr option" where
  "parse_ip s =
     (case read_ipv4 s of
        Some (ip, r) \<Rightarrow> if r = [] then Some (V4 ip) else None
      | None \<Rightarrow> (case read_ipv6 s of Some (ip, []) \<Rightarrow> Some (V6 ip) | _ \<Rightarrow> None))"

lemma parse_ip_v4: "parse_ipv4 s = Some ip \<Longrightarrow> parse_ip s = Some (V4 ip)"
  by (auto simp: parse_ipv4_def parse_ip_def split: option.splits prod.splits list.splits)

lemma parse_ip_show_ipv4 [simp]: "parse_ip (show_ipv4 ip) = Some (V4 ip)"
  by (rule parse_ip_v4) simp

section \<open>Parsing socket addresses\<close>

text \<open>
  \<open>read_number(10, None, true)\<close>: digits as long as the value fits, \<open>lim\<close> being the first value
  that does not.
\<close>

definition read_decimal :: "nat \<Rightarrow> rust_string \<Rightarrow> (nat \<times> rust_string) option" where
  "read_decimal lim s =
     (let ds = takeWhile is_digit s in
      if ds = [] \<or> dec_value ds \<ge> lim then None else Some (dec_value ds, drop (length ds) s))"

definition read_port :: "rust_string \<Rightarrow> (u16 \<times> rust_string) option" where
  "read_port s =
     Option.bind (read_char colon s) (\<lambda>s. map_option (map_prod of_nat id) (read_decimal 65536 s))"

definition read_scope_id :: "rust_string \<Rightarrow> (u32 \<times> rust_string) option" where
  "read_scope_id s =
     Option.bind (read_char 0x25 s) (\<lambda>s. map_option (map_prod of_nat id) (read_decimal 4294967296 s))"

definition read_socket_addr_v6 :: "rust_string \<Rightarrow> (socket_addr \<times> rust_string) option" where
  "read_socket_addr_v6 s =
     Option.bind (read_char 0x5B s) (\<lambda>s.
     Option.bind (read_ipv6 s) (\<lambda>(ip, s).
       let (scope, s) = (case read_scope_id s of Some (i, s') \<Rightarrow> (i, s') | None \<Rightarrow> (0, s)) in
       Option.bind (read_char 0x5D s) (\<lambda>s.
       map_option (\<lambda>(p, s). (SocketAddrV6 ip p 0 scope, s)) (read_port s))))"

definition read_socket_addr :: "rust_string \<Rightarrow> (socket_addr \<times> rust_string) option" where
  "read_socket_addr s =
     (case Option.bind (read_ipv4 s) (\<lambda>(ip, s). map_option (\<lambda>(p, s). (SocketAddrV4 ip p, s)) (read_port s)) of
        Some r \<Rightarrow> Some r
      | None \<Rightarrow> read_socket_addr_v6 s)"

text \<open>\<open>str::parse::<SocketAddr>\<close>.\<close>

definition parse_socket_addr :: "rust_string \<Rightarrow> socket_addr option" where
  "parse_socket_addr s = (case read_socket_addr s of Some (a, []) \<Rightarrow> Some a | _ \<Rightarrow> None)"

end
