(* ===== verification/Whitelist.thy ===== *)
theory Whitelist
  imports Rust_Str
begin

text \<open>
  \<open>orcax/client/src/whitelist.rs\<close>: which destinations bypass the tunnel. Host names are
  matched by suffix, addresses by CIDR. The networks come from the crate \<open>ipnet\<close>, which is not
  part of the sources: parsing a network and testing membership are parameters (\<open>ipnet\<close>), and
  \<open>ipnet_ok\<close> states the documented behaviour on IPv4 networks.
\<close>

section \<open>Data\<close>

record 'n ipnet =
  net_from_str :: "rust_string \<Rightarrow> 'n option"
  net_contains :: "'n \<Rightarrow> ip_addr \<Rightarrow> bool"

definition DEFAULT_DOMAINS :: "rust_string list" where
  "DEFAULT_DOMAINS = map str
     [''vk.com'', ''vk.me'', ''vkontakte.ru'', ''vk.cc'', ''userapi.com'',
      ''ok.ru'', ''odnoklassniki.ru'', ''mycdn.me'',
      ''mail.ru'', ''list.ru'', ''inbox.ru'', ''bk.ru'',
      ''yandex.ru'', ''yandex.com'', ''yandex.net'', ''ya.ru'', ''yandex.st'', ''yastatic.net'',
      ''sberbank.ru'', ''online.sberbank.ru'', ''sber.ru'', ''sbrf.ru'',
      ''tinkoff.ru'', ''tbank.ru'',
      ''alfabank.ru'', ''alfa-bank.ru'',
      ''vtb.ru'', ''vtb24.ru'',
      ''gazprombank.ru'', ''raiffeisen.ru'', ''open.ru'', ''psb.ru'',
      ''gosuslugi.ru'', ''mos.ru'', ''gov.ru'', ''kremlin.ru'', ''nalog.ru'', ''nalog.gov.ru'',
      ''ria.ru'', ''tass.ru'', ''rt.com'', ''rbc.ru'', ''kommersant.ru'', ''lenta.ru'',
      ''wildberries.ru'', ''wb.ru'', ''ozon.ru'', ''ozone.ru'', ''avito.ru'', ''yandex.market'',
      ''lamoda.ru'', ''dns-shop.ru'', ''citilink.ru'',
      ''rutube.ru'', ''dzen.ru'', ''kinopoisk.ru'', ''okko.tv'', ''ivi.ru'',
      ''megafon.ru'', ''mts.ru'', ''beeline.ru'', ''tele2.ru'', ''rostelecom.ru'',
      ''gazprom.ru'', ''rosneft.ru'', ''sibur.ru'', ''lukoil.ru'']"

definition DEFAULT_CIDRS :: "rust_string list" where
  "DEFAULT_CIDRS = map str
     [''5.45.192.0/18'', ''5.255.192.0/18'', ''37.9.64.0/18'', ''37.140.128.0/18'',
      ''77.88.0.0/18'', ''87.250.224.0/19'', ''93.158.128.0/18'', ''95.108.128.0/17'',
      ''141.8.128.0/18'', ''178.154.128.0/18'', ''213.180.192.0/19'',
      ''87.240.128.0/18'', ''87.240.190.0/24'', ''95.213.0.0/16'',
      ''185.225.76.0/22'', ''185.32.184.0/22'',
      ''95.163.32.0/19'', ''94.100.176.0/20'', ''217.69.128.0/20'',
      ''194.186.207.0/24'', ''195.218.190.0/23'', ''213.171.32.0/19'',
      ''213.87.0.0/16'', ''95.106.0.0/17'',
      ''83.149.0.0/16'', ''188.130.0.0/17'',
      ''85.140.0.0/16'', ''213.234.192.0/19'',
      ''81.23.0.0/17'', ''195.98.64.0/19'',
      ''89.169.16.0/24'', ''194.54.14.0/24'']"

record 'n whitelist =
  domains :: "rust_string list"
  cidrs :: "'n list"

section \<open>Operations\<close>

abbreviation comma :: byte where "comma \<equiv> 0x2C"

definition add_extra :: "rust_string list \<Rightarrow> rust_string \<Rightarrow> rust_string list" where
  "add_extra ds e =
     (let e = to_ascii_lowercase (trim e) in
      if e \<noteq> [] \<and> dot \<in> set e \<and> e \<notin> set ds then ds @ [e] else ds)"

definition whitelist_new :: "'n ipnet \<Rightarrow> rust_string option \<Rightarrow> 'n whitelist" where
  "whitelist_new net extra =
     (let ds = map to_ascii_lowercase DEFAULT_DOMAINS in
      \<lparr>domains = (case extra of None \<Rightarrow> ds | Some s \<Rightarrow> foldl add_extra ds (split_on comma s)),
       cidrs = List.map_filter (net_from_str net) DEFAULT_CIDRS\<rparr>)"

definition matches_ip :: "'n ipnet \<Rightarrow> 'n whitelist \<Rightarrow> ip_addr \<Rightarrow> bool" where
  "matches_ip net w ip = list_ex (\<lambda>c. net_contains net c ip) (cidrs w)"

definition matches :: "'n ipnet \<Rightarrow> 'n whitelist \<Rightarrow> rust_string \<Rightarrow> bool" where
  "matches net w host =
     (case parse_ip host of
        Some ip \<Rightarrow> matches_ip net w ip
      | None \<Rightarrow>
          let host = to_ascii_lowercase host in
          list_ex (\<lambda>d. host = d \<or> suffix (dot # d) host) (domains w))"

section \<open>Domain names\<close>

definition labels :: "rust_string \<Rightarrow> rust_string list" where
  "labels s = split_on dot (to_ascii_lowercase s)"

text \<open>The domains a user adds: the trimmed entries that contain a dot.\<close>

definition extra_domains :: "rust_string option \<Rightarrow> rust_string set" where
  "extra_domains extra =
     (case extra of None \<Rightarrow> {} | Some s \<Rightarrow> {d. \<exists>e \<in> set (split_on comma s). d = trim e \<and> dot \<in> set d})"

lemma lower_dot: "dot \<in> set (to_ascii_lowercase s) \<longleftrightarrow> dot \<in> set s"
proof -
  have "to_ascii_lowercase1 b = dot \<longleftrightarrow> b = dot" for b
  proof (cases "0x41 \<le> b \<and> b \<le> 0x5A")
    case True
    then have "unat (b + 0x20) = unat b + 32" "65 \<le> unat b"
      by (simp_all add: unat_word_ariths word_le_nat_alt)
    then have "b + 0x20 \<noteq> dot" "b \<noteq> dot" by auto
    with True show ?thesis by (simp add: to_ascii_lowercase1_def)
  qed (auto simp: to_ascii_lowercase1_def)
  then show ?thesis by (auto simp: to_ascii_lowercase_def)
qed

lemma set_add_extra:
  "set (add_extra ds e) = set ds \<union> {d. d = to_ascii_lowercase (trim e) \<and> dot \<in> set (trim e)}"
  by (auto simp: add_extra_def Let_def lower_dot) (simp add: to_ascii_lowercase_def)

lemma set_foldl_add_extra:
  "set (foldl add_extra ds es) = set ds \<union> to_ascii_lowercase ` {d. \<exists>e \<in> set es. d = trim e \<and> dot \<in> set d}"
  by (induction es arbitrary: ds) (auto simp: set_add_extra)

lemma set_domains:
  "set (domains (whitelist_new net extra)) = to_ascii_lowercase ` (set DEFAULT_DOMAINS \<union> extra_domains extra)"
  by (cases extra) (auto simp: whitelist_new_def extra_domains_def set_foldl_add_extra)

lemma matches_domain:
  "parse_ip host = None \<Longrightarrow>
     matches net w host \<longleftrightarrow> (\<exists>d \<in> set (domains w). suffix (split_on dot d) (labels host))"
  by (auto simp: matches_def labels_def list_ex_iff ends_with_labels)

section \<open>Networks\<close>

definition ipv4_bits :: "ipv4_addr \<Rightarrow> u32" where
  "ipv4_bits ip = (case ip of Ipv4Addr a b c d \<Rightarrow> from_be32 a b c d)"

definition in_net :: "ipv4_addr \<Rightarrow> nat \<Rightarrow> ipv4_addr \<Rightarrow> bool" where
  "in_net a n ip \<longleftrightarrow> drop_bit (32 - n) (ipv4_bits ip) = drop_bit (32 - n) (ipv4_bits a)"

definition cidr_text :: "ipv4_addr \<times> nat \<Rightarrow> rust_string" where
  "cidr_text c = show_ipv4 (fst c) @ 0x2F # show_nat (snd c)"

text \<open>The documented behaviour of \<open>ipnet\<close>: a CIDR denotes the addresses with the same first bits.\<close>

definition ipnet_ok :: "'n ipnet \<Rightarrow> bool" where
  "ipnet_ok net \<longleftrightarrow> (\<forall>a n. n \<le> 32 \<longrightarrow> (\<exists>c. net_from_str net (cidr_text (a, n)) = Some c
     \<and> (\<forall>ip. net_contains net c (V4 ip) = in_net a n ip) \<and> (\<forall>ip. \<not> net_contains net c (V6 ip))))"

definition default_nets :: "(ipv4_addr \<times> nat) list" where
  "default_nets =
     [(Ipv4Addr 5 45 192 0, 18), (Ipv4Addr 5 255 192 0, 18), (Ipv4Addr 37 9 64 0, 18), (Ipv4Addr 37 140 128 0, 18),
      (Ipv4Addr 77 88 0 0, 18), (Ipv4Addr 87 250 224 0, 19), (Ipv4Addr 93 158 128 0, 18), (Ipv4Addr 95 108 128 0, 17),
      (Ipv4Addr 141 8 128 0, 18), (Ipv4Addr 178 154 128 0, 18), (Ipv4Addr 213 180 192 0, 19),
      (Ipv4Addr 87 240 128 0, 18), (Ipv4Addr 87 240 190 0, 24), (Ipv4Addr 95 213 0 0, 16),
      (Ipv4Addr 185 225 76 0, 22), (Ipv4Addr 185 32 184 0, 22),
      (Ipv4Addr 95 163 32 0, 19), (Ipv4Addr 94 100 176 0, 20), (Ipv4Addr 217 69 128 0, 20),
      (Ipv4Addr 194 186 207 0, 24), (Ipv4Addr 195 218 190 0, 23), (Ipv4Addr 213 171 32 0, 19),
      (Ipv4Addr 213 87 0 0, 16), (Ipv4Addr 95 106 0 0, 17),
      (Ipv4Addr 83 149 0 0, 16), (Ipv4Addr 188 130 0 0, 17),
      (Ipv4Addr 85 140 0 0, 16), (Ipv4Addr 213 234 192 0, 19),
      (Ipv4Addr 81 23 0 0, 17), (Ipv4Addr 195 98 64 0, 19),
      (Ipv4Addr 89 169 16 0, 24), (Ipv4Addr 194 54 14 0, 24)]"

lemma DEFAULT_CIDRS_text: "DEFAULT_CIDRS = map cidr_text default_nets"
  unfolding DEFAULT_CIDRS_def default_nets_def cidr_text_def
  by (simp add: show_nat_small)

lemma matches_ip_default:
  assumes "ipnet_ok net"
  shows "matches_ip net (whitelist_new net extra) ip \<longleftrightarrow>
    (case ip of V4 a \<Rightarrow> \<exists>(b, n) \<in> set default_nets. in_net b n a | V6 _ \<Rightarrow> False)"
proof -
  have le: "\<forall>(a, n) \<in> set default_nets. n \<le> 32" by (simp add: default_nets_def)
  have c: "\<exists>c. net_from_str net (cidr_text (a, n)) = Some c
      \<and> (\<forall>ip. net_contains net c (V4 ip) = in_net a n ip) \<and> (\<forall>ip. \<not> net_contains net c (V6 ip))"
    if "(a, n) \<in> set default_nets" for a n
    using assms le that by (auto simp: ipnet_ok_def)
  have "matches_ip net (whitelist_new net extra) ip \<longleftrightarrow>
      (\<exists>(a, n) \<in> set default_nets. \<exists>c. net_from_str net (cidr_text (a, n)) = Some c \<and> net_contains net c ip)"
  proof -
    have "cidrs (whitelist_new net extra) = List.map_filter (net_from_str net) (map cidr_text default_nets)"
      by (simp add: whitelist_new_def Let_def DEFAULT_CIDRS_text)
    then show ?thesis by (force simp: matches_ip_def list_ex_iff List.map_filter_def)
  qed
  also have "\<dots> \<longleftrightarrow> (case ip of V4 a \<Rightarrow> \<exists>(b, n) \<in> set default_nets. in_net b n a | V6 _ \<Rightarrow> False)"
    using c by (cases ip) (fastforce split: prod.splits)+
  finally show ?thesis .
qed

text \<open>A model of the crate: CIDR texts are read with the parsers of \<open>Rust_Str\<close>.\<close>

definition cidr_from_str :: "rust_string \<Rightarrow> (ipv4_addr \<times> nat) option" where
  "cidr_from_str s =
     Option.bind (read_ipv4 s) (\<lambda>(a, r). Option.bind (read_char 0x2F r) (\<lambda>r.
     Option.bind (read_decimal 33 r) (\<lambda>(n, r). if r = [] then Some (a, n) else None)))"

definition v4_ipnet :: "(ipv4_addr \<times> nat) ipnet" where
  "v4_ipnet = \<lparr>net_from_str = cidr_from_str,
     net_contains = (\<lambda>(a, n) ip. case ip of V4 x \<Rightarrow> in_net a n x | V6 _ \<Rightarrow> False)\<rparr>"

lemma read_decimal_show:
  assumes "n < lim" "n < 100"
  shows "read_decimal lim (show_nat n) = Some (n, [])"
proof (cases "n < 10")
  case True
  then have "show_nat n = digit_chars [n]" by (simp add: show_nat_small)
  with True assms show ?thesis by (simp add: read_decimal_def dec_value_def del: of_nat_add)
next
  case False
  then have s: "show_nat n = digit_chars [n div 10, n mod 10]" using assms by (simp add: show_nat_small)
  have d: "n div 10 < 10" "n mod 10 < 10" using assms by auto
  have "10 * (n div 10) + n mod 10 = n" by simp
  with d assms s show ?thesis by (simp add: read_decimal_def dec_value_def del: of_nat_add)
qed

lemma v4_ipnet_ok: "ipnet_ok v4_ipnet"
  unfolding ipnet_ok_def
proof (intro allI impI)
  fix a n assume n: "n \<le> (32 :: nat)"
  obtain a1 a2 a3 a4 where a: "a = Ipv4Addr a1 a2 a3 a4" by (cases a)
  have nd: "\<not> is_digit dot" "\<not> is_digit 0x2F" by (simp_all add: is_digit_def)
  have "read_ipv4 (show_ipv4 a @ 0x2F # r) = Some (a, 0x2F # r)" for r
    using nd by (simp add: a read_ipv4_def read_octet_show read_dot_def)
  then have "cidr_from_str (cidr_text (a, n)) = Some (a, n)"
    using n read_decimal_show [of n 33] by (simp add: cidr_from_str_def cidr_text_def read_char_def)
  then show "\<exists>c. net_from_str v4_ipnet (cidr_text (a, n)) = Some c
      \<and> (\<forall>ip. net_contains v4_ipnet c (V4 ip) = in_net a n ip) \<and> (\<forall>ip. \<not> net_contains v4_ipnet c (V6 ip))"
    by (simp add: v4_ipnet_def)
qed

section \<open>Properties\<close>

text \<open>
  C25: a destination bypasses the tunnel exactly when it should. A host name bypasses if and only
  if, without regard to ASCII case, its dot-separated labels end in the labels of a default
  domain or of a user entry that contains a dot, so that neither \<open>vk.com.evil.com\<close> nor
  \<open>evilvk.com\<close> counts as \<open>vk.com\<close>; a literal IPv4 address bypasses if and only if it lies in one
  of the listed networks, whatever the user adds; a literal IPv6 address never does.
\<close>

theorem whitelist_matches:
  assumes "ipnet_ok net"
  shows "matches net (whitelist_new net extra) host \<longleftrightarrow>
    (case parse_ip host of
       Some (V4 ip) \<Rightarrow> \<exists>(a, n) \<in> set default_nets. in_net a n ip
     | Some (V6 _) \<Rightarrow> False
     | None \<Rightarrow> \<exists>d \<in> set DEFAULT_DOMAINS \<union> extra_domains extra. suffix (labels d) (labels host))"
proof (cases "parse_ip host")
  case None
  then show ?thesis by (simp add: matches_domain set_domains labels_def)
next
  case (Some ip)
  then have "matches net (whitelist_new net extra) host = matches_ip net (whitelist_new net extra) ip"
    by (simp add: matches_def)
  with Some show ?thesis by (simp add: matches_ip_default [OF assms] split: ip_addr.splits)
qed

theorem whitelist_matches_witness:
  "matches v4_ipnet (whitelist_new v4_ipnet None) (str ''m.VK.com'')
   \<and> \<not> matches v4_ipnet (whitelist_new v4_ipnet None) (str ''evilvk.com'')
   \<and> matches v4_ipnet (whitelist_new v4_ipnet None) (str ''77.88.55.60'')
   \<and> \<not> matches v4_ipnet (whitelist_new v4_ipnet None) (str ''8.8.8.8'')"
proof -
  have p: "parse_ip (str ''m.VK.com'') = None" "parse_ip (str ''evilvk.com'') = None"
    "parse_ip (str ''77.88.55.60'') = Some (V4 (Ipv4Addr 77 88 55 60))"
    "parse_ip (str ''8.8.8.8'') = Some (V4 (Ipv4Addr 8 8 8 8))"
    by code_simp+
  have "\<exists>d \<in> set DEFAULT_DOMAINS. suffix (labels d) (labels (str ''m.VK.com''))"
    "\<not> (\<exists>d \<in> set DEFAULT_DOMAINS. suffix (labels d) (labels (str ''evilvk.com'')))"
    "\<exists>(a, n) \<in> set default_nets. in_net a n (Ipv4Addr 77 88 55 60)"
    "\<not> (\<exists>(a, n) \<in> set default_nets. in_net a n (Ipv4Addr 8 8 8 8))"
    by code_simp+
  with p show ?thesis
    by (simp only: whitelist_matches [OF v4_ipnet_ok]) (simp add: extra_domains_def)
qed

end
