(* ===== verification/Client_Mux.thy ===== *)
theory Client_Mux
  imports Orca Hash_Map
begin

text \<open>
  \<open>orcax/client/src/main.rs\<close>, the multiplexer of the TCP mode: \<open>MuxPool\<close> (lines 93 to 141) and
  the reader task of a connection (lines 376 to 413). The table of streams is shared by the
  SOCKS5 handlers, which open streams and receive from their channels, and by the reader task,
  which routes the frames of the server to the channels. Their interleaving is the step
  relation \<open>mux_run\<close>, whose label sequence is the history of the run.

  A bounded channel of \<open>tokio::sync::mpsc\<close> is the queue of its messages: a send to a full
  channel waits, which is a frame the reader cannot take (\<open>None\<close>), and a send to a channel
  whose receiver is gone is dropped. The padding lengths and bytes that \<open>rand\<close> draws are
  arguments.
\<close>

section \<open>State\<close>

record chan =
  queue :: "bytes list"
  rx_alive :: bool

definition CHANNEL_CAP :: nat where "CHANNEL_CAP = 64"

record mux_link =
  write_open :: bool
  write_queue :: "bytes list"

record mux_client =
  links :: "mux_link list"
  streams :: "(u32, chan) hmap"
  next_id :: u32
  server_addr :: rust_string
  session_token :: bytes
  bytes_down :: u64
  frame_count :: u64

datatype pool_error = WriteClosed

section \<open>\<open>MuxPool\<close>\<close>

definition link_idx :: "mux_client \<Rightarrow> u32 \<Rightarrow> nat" where
  "link_idx mc sid = (unat sid div 2) mod length (links mc)"

text \<open>Hand a frame to the writer task of a link; the send fails when that task has ended.\<close>

definition link_send :: "nat \<Rightarrow> bytes \<Rightarrow> mux_client \<Rightarrow> (pool_error, unit) outcome \<times> mux_client" where
  "link_send i f mc =
     (let l = links mc ! i in
      if write_open l then (Ok (), mc\<lparr>links := (links mc)[i := l\<lparr>write_queue := write_queue l @ [f]\<rparr>]\<rparr>)
      else (Err WriteClosed, mc))"

text \<open>The receiver of a stream goes out of scope; its sender stays in the table.\<close>

definition drop_rx :: "u32 \<Rightarrow> mux_client \<Rightarrow> mux_client" where
  "drop_rx sid mc = mc\<lparr>streams := hm_modify sid (\<lambda>ch. ch\<lparr>rx_alive := False\<rparr>) (streams mc)\<rparr>"

definition mux_open_stream ::
    "nat \<times> bytes \<Rightarrow> target_addr \<Rightarrow> mux_client \<Rightarrow> (pool_error, u32) outcome \<times> mux_client" where
  "mux_open_stream draw target mc =
     (let sid = next_id mc;
          mc1 = mc\<lparr>next_id := sid + 2, streams := hm_insert sid \<lparr>queue = [], rx_alive = True\<rparr> (streams mc)\<rparr> in
      if links mc = [] then (Panic, mc1)
      else case with_padding (stream_open sid target) 4 128 (fst draw) (snd draw) of
          Ok f \<Rightarrow>
            (case link_send (link_idx mc sid) (encode f) mc1 of
               (Ok _, mc2) \<Rightarrow> (Ok sid, mc2)
             | (Err e, mc2) \<Rightarrow> (Err e, drop_rx sid mc2)
             | (Panic, mc2) \<Rightarrow> (Panic, mc2))
        | _ \<Rightarrow> (Panic, mc1))"

definition mux_close_stream :: "nat \<times> bytes \<Rightarrow> u32 \<Rightarrow> mux_client \<Rightarrow> (pool_error, unit) outcome \<times> mux_client" where
  "mux_close_stream draw sid mc =
     (case with_padding (stream_close sid) 4 64 (fst draw) (snd draw) of
        Ok f \<Rightarrow>
          if links mc = [] then (Panic, mc)
          else let mc1 = snd (link_send (link_idx mc sid) (encode f) mc) in
            (Ok (), mc1\<lparr>streams := hm_remove sid (streams mc1)\<rparr>)
      | _ \<Rightarrow> (Panic, mc))"

section \<open>The reader task\<close>

text \<open>One frame off the wire: type, flags, stream id and payload, with no check of the type.\<close>

definition read_wire_frame ::
    "(nat \<Rightarrow> 's \<Rightarrow> (bytes \<times> 's) option) \<Rightarrow> 's \<Rightarrow> ((byte \<times> byte \<times> u32 \<times> bytes) \<times> 's) option" where
  "read_wire_frame rd s =
     Option.bind (rd 8 s) (\<lambda>(hdr, s1).
       let sid = from_be32 (hdr ! 2) (hdr ! 3) (hdr ! 4) (hdr ! 5);
           len = unat (from_be16 (hdr ! 6) (hdr ! 7)) in
       Option.bind (if len > 0 then rd len s1 else Some ([], s1)) (\<lambda>(p, s2).
         Some ((hdr ! 0, hdr ! 1, sid, p), s2)))"

definition reader_strip :: "byte \<Rightarrow> bytes \<Rightarrow> bytes" where
  "reader_strip fl p =
     (if fl AND 0x04 \<noteq> 0 \<and> p \<noteq> [] then
        let pad_len = unat (last p) in
        if pad_len > 0 \<and> pad_len < length p then take (length p - pad_len) p else p
      else p)"

text \<open>\<open>tx.send(x).await\<close>: \<open>None\<close> while the channel is full.\<close>

definition chan_send :: "bytes \<Rightarrow> chan \<Rightarrow> chan option" where
  "chan_send x ch =
     (if \<not> rx_alive ch then Some ch
      else if length (queue ch) < CHANNEL_CAP then Some (ch\<lparr>queue := queue ch @ [x]\<rparr>)
      else None)"

definition route :: "u32 \<Rightarrow> bytes \<Rightarrow> mux_client \<Rightarrow> mux_client option" where
  "route sid x mc =
     (case hm_get (streams mc) sid of
        None \<Rightarrow> Some mc
      | Some ch \<Rightarrow> map_option (\<lambda>ch'. mc\<lparr>streams := hm_insert sid ch' (streams mc)\<rparr>) (chan_send x ch))"

text \<open>
  The body of the loop for one frame. The pong goes to the writer of the reader's own link
  \<open>i\<close>; its padding is drawn as \<open>draw\<close>.
\<close>

definition reader_frame ::
    "nat \<Rightarrow> nat \<times> bytes \<Rightarrow> byte \<times> byte \<times> u32 \<times> bytes \<Rightarrow> mux_client \<Rightarrow> mux_client option" where
  "reader_frame i draw fr mc0 =
     (case fr of (ft, fl, sid, p) \<Rightarrow>
        let mc = mc0\<lparr>frame_count := frame_count mc0 + 1\<rparr> in
        if ft = 0x00 then
          let d = reader_strip fl p in route sid d (mc\<lparr>bytes_down := bytes_down mc + of_nat (length d)\<rparr>)
        else if ft = 0x01 then route sid p mc
        else if ft = 0x02 then Some (mc\<lparr>streams := hm_remove sid (streams mc)\<rparr>)
        else if ft = 0x03 then
          (case with_padding pong 4 64 (fst draw) (snd draw) of
             Ok f \<Rightarrow> Some (snd (link_send i (encode f) mc))
           | _ \<Rightarrow> None)
        else Some mc)"

text \<open>The whole loop, with \<open>rng\<close> the draws by frame number, until the link is closed or a send waits.\<close>

partial_function (option) reader_task ::
    "(nat \<Rightarrow> 's \<Rightarrow> (bytes \<times> 's) option) \<Rightarrow> nat \<Rightarrow> (nat \<Rightarrow> nat \<times> bytes) \<Rightarrow> nat \<Rightarrow> 's \<Rightarrow> mux_client \<Rightarrow> (mux_client \<times> 's) option" where
  "reader_task rd i rng k s mc =
     (case read_wire_frame rd s of
        None \<Rightarrow> Some (mc, s)
      | Some (fr, s') \<Rightarrow>
          (case reader_frame i (rng k) fr mc of
             None \<Rightarrow> Some (mc, s)
           | Some mc' \<Rightarrow> reader_task rd i rng (Suc k) s' mc'))"

text \<open>The stats reporter: bytes per second over the last two seconds.\<close>

definition stats_speed :: "u64 \<Rightarrow> u64 \<Rightarrow> u64" where
  "stats_speed d prev = (if d \<ge> prev then d - prev else 0) div 2"

section \<open>Interleaved runs\<close>

text \<open>
  What happens in a run, in order: the reader takes a frame, a handler receives from its
  channel, opens a stream, closes one, or lets its receiver go out of scope.
\<close>

datatype mux_event =
    EvRead "byte \<times> byte \<times> u32 \<times> bytes"
  | EvRecv u32 bytes
  | EvOpen u32
  | EvClose u32
  | EvDrop u32

inductive mux_run :: "nat \<Rightarrow> mux_client \<Rightarrow> segs \<Rightarrow> mux_event list \<Rightarrow> mux_client \<Rightarrow> segs \<Rightarrow> bool"
  for i :: nat and mc0 :: mux_client and inp0 :: segs where
  run_start: "mux_run i mc0 inp0 [] mc0 inp0"
| run_read: "mux_run i mc0 inp0 es mc inp \<Longrightarrow> read_wire_frame read_exact inp = Some (fr, inp')
    \<Longrightarrow> reader_frame i draw fr mc = Some mc' \<Longrightarrow> mux_run i mc0 inp0 (es @ [EvRead fr]) mc' inp'"
| run_recv: "mux_run i mc0 inp0 es mc inp \<Longrightarrow> hm_get (streams mc) sid = Some ch
    \<Longrightarrow> rx_alive ch \<Longrightarrow> queue ch = x # xs
    \<Longrightarrow> mux_run i mc0 inp0 (es @ [EvRecv sid x]) (mc\<lparr>streams := hm_insert sid (ch\<lparr>queue := xs\<rparr>) (streams mc)\<rparr>) inp"
| run_open: "mux_run i mc0 inp0 es mc inp \<Longrightarrow> mux_open_stream draw t mc = (r, mc')
    \<Longrightarrow> mux_run i mc0 inp0 (es @ [EvOpen (next_id mc)]) mc' inp"
| run_close: "mux_run i mc0 inp0 es mc inp \<Longrightarrow> mux_close_stream draw sid mc = (r, mc')
    \<Longrightarrow> mux_run i mc0 inp0 (es @ [EvClose sid]) mc' inp"
| run_drop: "mux_run i mc0 inp0 es mc inp \<Longrightarrow> mux_run i mc0 inp0 (es @ [EvDrop sid]) (drop_rx sid mc) inp"

text \<open>
  The history of one stream since it was last opened: the messages its handler received, and
  the messages the server sent it, with the padding of data frames removed.
\<close>

fun hist_step :: "u32 \<Rightarrow> bytes list \<times> bytes list \<Rightarrow> mux_event \<Rightarrow> bytes list \<times> bytes list" where
  "hist_step s (r, q) (EvRead (ft, fl, sid, p)) =
     (if sid = s \<and> ft = 0x00 then (r, q @ [reader_strip fl p])
      else if sid = s \<and> ft = 0x01 then (r, q @ [p])
      else (r, q))"
| "hist_step s (r, q) (EvRecv sid x) = (if sid = s then (r @ [x], q) else (r, q))"
| "hist_step s (r, q) (EvOpen sid) = (if sid = s then ([], []) else (r, q))"
| "hist_step s (r, q) e = (r, q)"

definition hist :: "u32 \<Rightarrow> mux_event list \<Rightarrow> bytes list \<times> bytes list" where
  "hist s es = foldl (hist_step s) ([], []) es"

text \<open>The bytes of the frames that were read.\<close>

definition wire :: "byte \<times> byte \<times> u32 \<times> bytes \<Rightarrow> bytes" where
  "wire fr = (case fr of (ft, fl, sid, p) \<Rightarrow> ft # fl # be32 sid @ be16 (of_nat (length p)) @ p)"

fun read_bytes :: "mux_event list \<Rightarrow> bytes" where
  "read_bytes [] = []"
| "read_bytes (EvRead fr # es) = wire fr @ read_bytes es"
| "read_bytes (_ # es) = read_bytes es"

lemma hist_snoc [simp]: "hist s (es @ [e]) = hist_step s (hist s es) e"
  by (simp add: hist_def)

lemma hist_Nil [simp]: "hist s [] = ([], [])"
  by (simp add: hist_def)

lemma read_bytes_append [simp]: "read_bytes (a @ b) = read_bytes a @ read_bytes b"
  by (induction a rule: read_bytes.induct) simp_all

section \<open>Reading frames\<close>

lemma wire_encode: "encode f = wire (frame_type_byte (frame_type f), flags f, stream_id f, payload f)"
  by (simp add: encode_def wire_def)

context exact_reader
begin

lemma read_wire_frame_Some:
  assumes "read_wire_frame rd s = Some (fr, s')"
  shows "content s = wire fr @ content s'"
proof -
  obtain hdr s1 p where h: "rd 8 s = Some (hdr, s1)"
    and p: "(if unat (from_be16 (hdr ! 6) (hdr ! 7)) > 0 then rd (unat (from_be16 (hdr ! 6) (hdr ! 7))) s1 else Some ([], s1)) = Some (p, s')"
    and fr: "fr = (hdr ! 0, hdr ! 1, from_be32 (hdr ! 2) (hdr ! 3) (hdr ! 4) (hdr ! 5), p)"
    using assms by (auto simp: read_wire_frame_def Let_def bind_eq_Some_conv)
  have c: "content s = hdr @ content s1" "length hdr = 8" using rd_Some [OF h] by simp_all
  have lp: "content s1 = p @ content s'" "length p = unat (from_be16 (hdr ! 6) (hdr ! 7))"
    using p rd_Some by (auto split: if_splits)
  obtain a b c d e f g k where hdr: "hdr = [a, b, c, d, e, f, g, k]"
    using c(2) by (auto simp: length_Suc_conv numeral_eq_Suc)
  have "of_nat (length p) = from_be16 g k" using lp(2) hdr by simp
  with c lp hdr fr show ?thesis by (simp add: wire_def)
qed

lemma read_wire_frame_complete:
  assumes "content s = wire (ft, fl, sid, p) @ r" "length p < 65536"
  shows "\<exists>s'. read_wire_frame rd s = Some ((ft, fl, sid, p), s') \<and> content s' = r"
proof -
  obtain a b c d where be: "be32 sid = [a, b, c, d]" "from_be32 a b c d = sid"
    using from_be32_be32 [of sid] by (simp add: be32_def)
  obtain g k where l: "be16 (of_nat (length p)) = [g, k]" "from_be16 g k = of_nat (length p)"
    using from_be16_be16 [of "of_nat (length p)"] by (simp add: be16_def)
  let ?h = "[ft, fl, a, b, c, d, g, k]"
  have "content s = ?h @ (p @ r)" using assms(1) be l by (simp add: wire_def)
  from rd_prefix [OF this, of 8] obtain s1 where s1: "rd 8 s = Some (?h, s1)" "content s1 = p @ r" by auto
  from rd_prefix [OF s1(2) refl] obtain s2 where s2: "rd (length p) s1 = Some (p, s2)" "content s2 = r" by auto
  have "unat (from_be16 g k) = length p" using l(2) assms(2) by (simp add: unat_of_nat_u16)
  with s1 s2 be show ?thesis by (cases "p = []") (auto simp: read_wire_frame_def)
qed

end

lemma reader_strip_unpadded [simp]: "fl AND 0x04 = 0 \<Longrightarrow> reader_strip fl p = p"
  by (simp add: reader_strip_def)

text \<open>The reader removes exactly the padding the sender added, unless the frame had no data.\<close>

lemma reader_strip_padded:
  assumes "pad_draw lo hi n rnd" "0 < n" "n < 256" "with_padding f lo hi n rnd = Ok g"
  shows "reader_strip (flags g) (payload g) = (if payload f = [] then payload g else payload f)"
proof -
  note g = with_padding_shape [OF assms(1,2,4)]
  have "length (payload g) = length (payload f) + n" using g assms(2) by simp
  moreover have "flags g AND 0x04 \<noteq> 0" using g padded_flag(1) [of "flags f"] by (simp add: PADDED_def)
  ultimately show ?thesis
    using g assms(2,3) by (simp add: reader_strip_def unat_of_nat_u8)
qed

section \<open>The delivery invariant\<close>


lemma link_send_streams [simp]: "streams (snd (link_send i f mc)) = streams mc"
  by (simp add: link_send_def Let_def)

lemma hist_step_simps [simp]:
  "hist_step s h (EvRead (ft, fl, sid, p)) =
     (if s = sid \<and> ft = 0x00 then (fst h, snd h @ [reader_strip fl p])
      else if s = sid \<and> ft = 0x01 then (fst h, snd h @ [p]) else h)"
  "hist_step s h (EvRecv sid x) = (if s = sid then (fst h @ [x], snd h) else h)"
  "hist_step s h (EvOpen sid) = (if s = sid then ([], []) else h)"
  "hist_step s h (EvClose sid) = h" "hist_step s h (EvDrop sid) = h"
  by (cases h; auto)+










text \<open>The reader task on its own: it ends, and what it does is a run of reads only.\<close>

context exact_reader
begin

lemma reader_task_ends:
  "\<exists>mc' s'. reader_task rd i rng k s mc = Some (mc', s')
     \<and> (read_wire_frame rd s' = None \<or> (\<exists>fr s'' j. read_wire_frame rd s' = Some (fr, s'') \<and> reader_frame i (rng j) fr mc' = None))"
proof (induction "length (content s)" arbitrary: k s mc rule: less_induct)
  case less
  show ?case
  proof (cases "read_wire_frame rd s")
    case None
    then show ?thesis by (subst reader_task.simps) simp
  next
    case (Some a)
    then obtain fr s1 where r: "read_wire_frame rd s = Some (fr, s1)" by (cases a) auto
    have "length (content s1) < length (content s)"
      using read_wire_frame_Some [OF r] by (cases fr) (simp add: wire_def)
    note IH = less [OF this]
    show ?thesis
    proof (cases "reader_frame i (rng k) fr mc")
      case None
      then have "reader_task rd i rng k s mc = Some (mc, s)" by (subst reader_task.simps) (simp add: r)
      with r None show ?thesis by blast
    next
      case (Some mc1)
      then have "reader_task rd i rng k s mc = reader_task rd i rng (Suc k) s1 mc1"
        by (subst reader_task.simps) (simp add: r)
      with IH show ?thesis by simp
    qed
  qed
qed

end

fun opens :: "mux_event list \<Rightarrow> u32 list" where
  "opens [] = []"
| "opens (EvOpen sid # es) = sid # opens es"
| "opens (_ # es) = opens es"

lemma opens_append [simp]: "opens (a @ b) = opens a @ opens b"
  by (induction a rule: opens.induct) simp_all






lemma parse_butlast_payload:
  assumes "wf_target t"
  shows "\<exists>e. parse (butlast (addr_payload t)) = Err e"
proof (cases "parse (butlast (addr_payload t))")
  case (Ok v)
  obtain t' n where v: "v = (t', n)" by (cases v)
  let ?b = "butlast (addr_payload t)"
  from parse_Ok [OF Ok [unfolded v]] have p: "wf_target t'" "take n ?b = addr_payload t'" by simp_all
  have ne: "addr_payload t \<noteq> []" by (simp add: addr_payload_def be16_def)
  then have "addr_payload t = ?b @ [last (addr_payload t)]" by simp
  also have "\<dots> = addr_payload t' @ (drop n ?b @ [last (addr_payload t)])"
    by (simp add: p(2) [symmetric])
  finally have "addr_payload t @ [] = addr_payload t' @ (drop n ?b @ [last (addr_payload t)])" by simp
  from target.enc_prefix_free [OF assms p(1) this] show ?thesis by simp
qed (auto simp: parse_no_panic)

definition sample_pool :: mux_client where
  "sample_pool = \<lparr>links = [\<lparr>write_open = True, write_queue = []\<rparr>], streams = [], next_id = 1,
     server_addr = str ''1.2.3.4:9443'', session_token = replicate 16 0, bytes_down = 0, frame_count = 0\<rparr>"

definition sample_target :: target_addr where
  "sample_target = \<lparr>addr = IPv4 (Ipv4Addr 1 2 3 4), port = 443\<rparr>"

section \<open>Properties\<close>






text \<open>
  C21: the frame with which the client opens a stream carries the target, but the protocol's own
  \<open>Frame::decode\<close> cannot read it back: padding is always added, the decoder drops one byte more
  than the padding, and the address parser then refuses the truncated address of every
  well-formed target. The client's own reader, which removes exactly the padding, would recover it.
\<close>

theorem stream_open_undecodable:
  assumes "wf_target t" "pad_draw 4 128 n rnd" "links mc \<noteq> []"
    and "write_open (links mc ! link_idx mc (next_id mc))"
  shows "\<exists>f mc' g e. mux_open_stream (n, rnd) t mc = (Ok (next_id mc), mc')
    \<and> last (write_queue (links mc' ! link_idx mc (next_id mc))) = encode f
    \<and> reader_strip (flags f) (payload f) = 1 # addr_payload t
    \<and> decode slice_read (encode f @ r) = Ok (g, r)
    \<and> frame_type g = StreamOpen \<and> parse (tl (payload g)) = Err e"
proof -
  let ?o = "stream_open (next_id mc) t"
  obtain f where f: "with_padding ?o 4 128 n rnd = Ok f"
    by (simp add: with_padding_def MAX_PADDING_def)
  have n: "0 < n" "n < 256" "n \<le> 128" using assms(2) by (simp_all add: pad_draw_def MAX_PADDING_def)
  note sh = with_padding_shape [OF assms(2) n(1) f]
  have p: "payload ?o = 1 # addr_payload t" by (simp add: stream_open_def)
  have ne: "addr_payload t \<noteq> []" by (simp add: addr_payload_def be16_def)
  have "length (addr_payload t) \<le> 300"
    using assms(1) by (simp add: addr_payload_length) (simp add: wf_target_def split: address.splits)
  then have "length (payload f) \<le> MAX_FRAME_SIZE" using sh p n by (simp add: MAX_FRAME_SIZE_def)
  from slc.decode_encode_strip [OF refl this, of r]
  have d: "decode slice_read (encode f @ r) = Ok (f\<lparr>payload := strip_padding (flags f) (payload f)\<rparr>, r)" by auto
  have st: "strip_padding (flags f) (payload f) = 1 # butlast (addr_payload t)"
    using strip_padding_padded [OF assms(2) n(1,2) f] p ne by simp
  have rs: "reader_strip (flags f) (payload f) = 1 # addr_payload t"
    using reader_strip_padded [OF assms(2) n(1,2) f] p by simp
  have i: "link_idx mc (next_id mc) < length (links mc)" using assms(3) by (simp add: link_idx_def)
  obtain mc' where o: "mux_open_stream (n, rnd) t mc = (Ok (next_id mc), mc')"
    "last (write_queue (links mc' ! link_idx mc (next_id mc))) = encode f"
    using assms(3,4) f i by (simp add: mux_open_stream_def Let_def link_send_def)
  obtain e where e: "parse (butlast (addr_payload t)) = Err e" using parse_butlast_payload [OF assms(1)] by blast
  have "frame_type f = StreamOpen" using sh by (simp add: stream_open_def)
  with d st rs o e show ?thesis
    by (intro exI [of _ f] exI [of _ mc'] exI [of _ "f\<lparr>payload := 1 # butlast (addr_payload t)\<rparr>"] exI [of _ e]) simp
qed

theorem stream_open_undecodable_witness:
  "\<exists>f mc' g e. mux_open_stream (4, [0, 0, 0, 0]) sample_target sample_pool = (Ok 1, mc')
     \<and> last (write_queue (links mc' ! 0)) = encode f
     \<and> decode slice_read (encode f @ []) = Ok (g, []) \<and> parse (tl (payload g)) = Err e"
proof -
  have "next_id sample_pool = 1" "links sample_pool \<noteq> []" "write_open (links sample_pool ! 0)" "link_idx sample_pool 1 = 0"
    by (simp_all add: sample_pool_def link_idx_def)
  moreover have "wf_target sample_target" "pad_draw 4 128 4 [0, 0, 0, 0]"
    by (simp_all add: sample_target_def wf_target_def pad_draw_def MAX_PADDING_def)
  ultimately show ?thesis
    using stream_open_undecodable [of sample_target 4 "[0, 0, 0, 0]" sample_pool "[]"] by metis
qed

end
