(* ===== verification/Socks5.thy ===== *)
theory Socks5
  imports Whitelist Client_Mux
begin

text \<open>
  \<open>orcax/client/src/main.rs\<close>, the SOCKS5 front end: the method negotiation and password check
  (\<open>socks5_auth\<close>), the CONNECT request, the direct connection of whitelisted destinations
  (\<open>bypass_direct\<close>), and the handlers of the TCP mode (\<open>handle_socks5\<close>), the QUIC mode
  (\<open>quic_socks5\<close>) and the shim (\<open>shim_handle\<close>).

  A local connection is what its reads return (bytes, nothing within the time limit, an
  error), what was written to it, and how many further writes succeed. Name resolution, the
  outcome of dialling and the answers of the other parties are arguments. The relays
  (\<open>copy_bidirectional\<close>, \<open>tokio::io::copy\<close>) that follow a successful handler are not modelled.
\<close>

section \<open>Connections\<close>

datatype sock_read = Recv bytes | TimedOut | ReadFailed

record tcp_conn =
  inp :: "sock_read list"
  out :: "bytes list"
  writable :: nat

datatype socks_error =
    SocksTimeout | SocksIo | BadSocksAuth | AuthRejected | NoMethod
  | NotSocks5 | BadRequest | Unsupported | BadUtf8
  | DnsFailed | DnsNoAddrs | BypassTimeout
  | PoolClosed | ReadyTimeout | UpstreamRefused

type_synonym 'a sock = "tcp_conn \<Rightarrow> (socks_error, 'a) outcome \<times> tcp_conn"

definition sock_bind :: "'a sock \<Rightarrow> ('a \<Rightarrow> 'b sock) \<Rightarrow> 'b sock" where
  "sock_bind m f c =
     (case m c of (Ok x, c') \<Rightarrow> f x c' | (Err e, c') \<Rightarrow> (Err e, c') | (Panic, c') \<Rightarrow> (Panic, c'))"

definition sock_lift :: "(socks_error, 'a) outcome \<Rightarrow> 'a sock" where
  "sock_lift r c = (r, c)"

text \<open>A read into a buffer of \<open>n\<close> bytes under the five second limit; no bytes at end of file.\<close>

definition sock_recv :: "nat \<Rightarrow> bytes sock" where
  "sock_recv n c =
     (case inp c of
        [] \<Rightarrow> (Ok [], c)
      | Recv b # es \<Rightarrow> (Ok (take n b), c\<lparr>inp := (if n < length b then Recv (drop n b) # es else es)\<rparr>)
      | TimedOut # es \<Rightarrow> (Err SocksTimeout, c\<lparr>inp := es\<rparr>)
      | ReadFailed # es \<Rightarrow> (Err SocksIo, c\<lparr>inp := es\<rparr>))"

text \<open>A read without a limit: it waits.\<close>

definition sock_recv_wait :: "nat \<Rightarrow> bytes sock" where
  "sock_recv_wait n c = sock_recv n (c\<lparr>inp := dropWhile (\<lambda>e. e = TimedOut) (inp c)\<rparr>)"

definition sock_write :: "bytes \<Rightarrow> unit sock" where
  "sock_write b c =
     (if writable c = 0 then (Err SocksIo, c)
      else (Ok (), c\<lparr>out := out c @ [b], writable := writable c - 1\<rparr>))"

text \<open>The zero-initialised buffer of \<open>n\<close> bytes after a read.\<close>

definition fill :: "nat \<Rightarrow> bytes \<Rightarrow> bytes" where
  "fill n b = b @ replicate (n - length b) 0"

section \<open>Negotiation\<close>

text \<open>The offered methods are taken from the buffer, not from the bytes that arrived.\<close>

definition offered_methods :: "bytes \<Rightarrow> (socks_error, bytes) outcome" where
  "offered_methods b = (let nmethods = unat (b ! 1) in sub b 2 (2 + min nmethods 256))"

definition check_password :: "rust_string \<Rightarrow> bytes \<Rightarrow> unit sock" where
  "check_password token a0 =
     (let auth = fill 515 a0 in
      if length a0 < 3 \<or> auth ! 0 \<noteq> 1 then sock_lift (Err BadSocksAuth)
      else
        sock_bind (sock_lift (at auth 1)) (\<lambda>ulen.
        sock_bind (sock_lift (at auth (2 + unat ulen))) (\<lambda>plen.
        sock_bind (sock_lift (sub auth (3 + unat ulen) (3 + unat ulen + unat plen))) (\<lambda>pw.
          let pass = (case from_utf8 pw of Some s \<Rightarrow> s | None \<Rightarrow> []) in
          if pass = token then sock_write [1, 0]
          else sock_bind (sock_write [1, 1]) (\<lambda>_. sock_lift (Err AuthRejected))))))"

definition socks5_auth :: "rust_string \<Rightarrow> unit sock" where
  "socks5_auth token =
     sock_bind (sock_recv 258) (\<lambda>b0.
       if token = [] then sock_write [5, 0]
       else
         sock_bind (sock_lift (offered_methods (fill 258 b0))) (\<lambda>methods.
           if 0x02 \<in> set methods then
             sock_bind (sock_write [5, 2]) (\<lambda>_. sock_bind (sock_recv 515) (check_password token))
           else if 0x00 \<in> set methods then sock_write [5, 0]
           else sock_bind (sock_write [5, 0xFF]) (\<lambda>_. sock_lift (Err NoMethod))))"

section \<open>The CONNECT request\<close>

definition parse_connect :: "bytes \<Rightarrow> (socks_error, rust_string \<times> u16) outcome" where
  "parse_connect r0 =
     (let r = fill 263 r0 in
      if length r0 < 7 \<or> r ! 1 \<noteq> 1 then Err BadRequest
      else if r ! 3 = 1 then
        Ok (show_ipv4 (Ipv4Addr (r ! 4) (r ! 5) (r ! 6) (r ! 7)), from_be16 (r ! 8) (r ! 9))
      else if r ! 3 = 3 then
        let l = unat (r ! 4) in
        outcome_bind (sub r 5 (5 + l)) (\<lambda>d.
        outcome_bind (ok_or BadUtf8 (from_utf8 d)) (\<lambda>host.
        outcome_bind (at r (5 + l)) (\<lambda>a. outcome_bind (at r (6 + l)) (\<lambda>b. Ok (host, from_be16 a b)))))
      else Err Unsupported)"

text \<open>The target of a request: a host that reads as an IPv4 address is one.\<close>

definition socks_target :: "rust_string \<Rightarrow> u16 \<Rightarrow> target_addr" where
  "socks_target host p =
     \<lparr>addr = (case parse_ipv4 host of Some ip \<Rightarrow> IPv4 ip | None \<Rightarrow> Domain host), port = p\<rparr>"

definition SUCCESS_REPLY :: bytes where
  "SUCCESS_REPLY = [5, 0, 0, 1, 0, 0, 0, 0, 0, 0]"

section \<open>Bypass\<close>

datatype dial_result = Connected | DialTimedOut | DialFailed

record net_env =
  lookup_host :: "rust_string \<Rightarrow> u16 \<Rightarrow> socket_addr list option"
  dial :: "socket_addr \<Rightarrow> dial_result"

definition socket_addr_new :: "ip_addr \<Rightarrow> u16 \<Rightarrow> socket_addr" where
  "socket_addr_new ip p = (case ip of V4 a \<Rightarrow> SocketAddrV4 a p | V6 a \<Rightarrow> SocketAddrV6 a p 0 0)"

definition direct_target :: "net_env \<Rightarrow> rust_string \<Rightarrow> u16 \<Rightarrow> (socks_error, socket_addr) outcome" where
  "direct_target env host p =
     (case parse_ip host of
        Some ip \<Rightarrow> Ok (socket_addr_new ip p)
      | None \<Rightarrow>
          (case lookup_host env host p of
             None \<Rightarrow> Err DnsFailed
           | Some addrs \<Rightarrow> (case addrs of [] \<Rightarrow> Err DnsNoAddrs | a # _ \<Rightarrow> Ok a)))"

definition bypass_direct :: "net_env \<Rightarrow> rust_string \<Rightarrow> u16 \<Rightarrow> socket_addr sock" where
  "bypass_direct env host p =
     sock_bind (sock_lift (direct_target env host p)) (\<lambda>target.
     sock_bind (sock_lift
       (case dial env target of Connected \<Rightarrow> Ok () | DialTimedOut \<Rightarrow> Err BypassTimeout | DialFailed \<Rightarrow> Err SocksIo)) (\<lambda>_.
     sock_bind (sock_write SUCCESS_REPLY) (\<lambda>_. sock_lift (Ok target))))"

definition bypassed :: "'n ipnet \<Rightarrow> 'n whitelist option \<Rightarrow> rust_string \<Rightarrow> bool" where
  "bypassed net wl host = (case wl of Some w \<Rightarrow> matches net w host | None \<Rightarrow> False)"

section \<open>Handlers\<close>

text \<open>Where a handled connection is relayed to: directly, or through the tunnel with the bytes sent first.\<close>

datatype relay = Direct socket_addr | Tunnel u32 bytes | Quic bytes | Upstream "bytes list"

definition socks_request :: "rust_string \<Rightarrow> (rust_string \<times> u16) sock" where
  "socks_request token =
     sock_bind (socks5_auth token) (\<lambda>_. sock_bind (sock_recv 263) (\<lambda>r. sock_lift (parse_connect r)))"

text \<open>
  \<open>handle_socks5\<close> of the TCP mode. \<open>ready\<close> is what the stream's channel delivers within ten
  seconds, \<open>data_ok\<close> whether the data connection is made and takes the key.
\<close>

definition tunnel_stream ::
    "nat \<times> bytes \<Rightarrow> bytes option \<Rightarrow> bool \<Rightarrow> target_addr \<Rightarrow> mux_client \<Rightarrow> tcp_conn
     \<Rightarrow> (socks_error, relay) outcome \<times> tcp_conn \<times> mux_client" where
  "tunnel_stream draw ready data_ok t mc c =
     (case mux_open_stream draw t mc of
        (Ok sid, mc1) \<Rightarrow>
          if ready = None then (Err ReadyTimeout, c, drop_rx sid mc1)
          else if \<not> data_ok then (Err SocksIo, c, drop_rx sid mc1)
          else
            (case sock_write SUCCESS_REPLY c of
               (Ok _, c1) \<Rightarrow> (Ok (Tunnel sid (session_token mc @ be32 sid)), c1, mc1)
             | (_, c1) \<Rightarrow> (Err SocksIo, c1, drop_rx sid mc1))
      | (Err _, mc1) \<Rightarrow> (Err PoolClosed, c, mc1)
      | (Panic, mc1) \<Rightarrow> (Panic, c, mc1))"

definition handle_socks5 ::
    "'n ipnet \<Rightarrow> 'n whitelist option \<Rightarrow> net_env \<Rightarrow> rust_string \<Rightarrow> nat \<times> bytes \<Rightarrow> bytes option \<Rightarrow> bool
     \<Rightarrow> mux_client \<Rightarrow> tcp_conn \<Rightarrow> (socks_error, relay) outcome \<times> tcp_conn \<times> mux_client" where
  "handle_socks5 net wl env token draw ready data_ok mc c =
     (case socks_request token c of
        (Ok (host, p), c1) \<Rightarrow>
          if bypassed net wl host then
            (case bypass_direct env host p c1 of (r, c2) \<Rightarrow> (outcome_bind r (\<lambda>a. Ok (Direct a)), c2, mc))
          else tunnel_stream draw ready data_ok (socks_target host p) mc c1
      | (Err e, c1) \<Rightarrow> (Err e, c1, mc)
      | (Panic, c1) \<Rightarrow> (Panic, c1, mc))"

text \<open>The other handlers: relay directly when the host is whitelisted.\<close>

definition bypass_or ::
    "'n ipnet \<Rightarrow> 'n whitelist option \<Rightarrow> net_env \<Rightarrow> rust_string \<Rightarrow> u16 \<Rightarrow> relay sock \<Rightarrow> relay sock" where
  "bypass_or net wl env host p m =
     (if bypassed net wl host then sock_bind (bypass_direct env host p) (\<lambda>a. sock_lift (Ok (Direct a))) else m)"

text \<open>The address header a QUIC stream starts with; \<open>host.len() as u8\<close> wraps.\<close>

definition quic_header :: "rust_string \<Rightarrow> u16 \<Rightarrow> bytes" where
  "quic_header host p =
     1 # be16 p @ (case parse_ipv4 host of
         Some ip \<Rightarrow> 1 # ipv4_octets ip
       | None \<Rightarrow> 2 # of_nat (length host) # host)"

definition quic_socks5 ::
    "'n ipnet \<Rightarrow> 'n whitelist option \<Rightarrow> net_env \<Rightarrow> rust_string \<Rightarrow> bool \<Rightarrow> relay sock" where
  "quic_socks5 net wl env token open_ok =
     sock_bind (socks5_auth token) (\<lambda>_.
     sock_bind (sock_recv_wait 263) (\<lambda>r.
     sock_bind (sock_lift (parse_connect r)) (\<lambda>(host, p).
       bypass_or net wl env host p
         (if \<not> open_ok then sock_lift (Err SocksIo)
          else sock_bind (sock_write SUCCESS_REPLY) (\<lambda>_. sock_lift (Ok (Quic (quic_header host p))))))))"

text \<open>
  The shim: no authentication, and the request is replayed to the upstream proxy. \<open>up\<close> is the
  upstream's byte stream, \<open>None\<close> when it cannot be reached.
\<close>

definition shim_handle :: "'n ipnet \<Rightarrow> 'n whitelist option \<Rightarrow> net_env \<Rightarrow> segs option \<Rightarrow> relay sock" where
  "shim_handle net wl env up =
     sock_bind (sock_recv 258) (\<lambda>g0.
       if length g0 < 2 \<or> fill 258 g0 ! 0 \<noteq> 5 then sock_lift (Err NotSocks5)
       else
         sock_bind (sock_write [5, 0]) (\<lambda>_.
         sock_bind (sock_recv 263) (\<lambda>r0.
           if length r0 < 7 \<or> fill 263 r0 ! 0 \<noteq> 5 then sock_lift (Err BadRequest)
           else
             sock_bind (sock_lift (parse_connect r0)) (\<lambda>(host, p).
               bypass_or net wl env host p
                 (case up of
                    None \<Rightarrow> sock_lift (Err SocksIo)
                  | Some s \<Rightarrow>
                      (case read_exact 2 s of
                         None \<Rightarrow> sock_lift (Err SocksIo)
                       | Some (gr, _) \<Rightarrow>
                           if gr ! 0 \<noteq> 5 \<or> gr ! 1 \<noteq> 0 then sock_lift (Err UpstreamRefused)
                           else sock_lift (Ok (Upstream [[5, 1, 0], r0]))))))))"

section \<open>Lemmas\<close>

lemma sock_simps [simp]:
  "m c = (Ok x, c') \<Longrightarrow> sock_bind m f c = f x c'"
  "sock_bind (sock_lift (Ok x)) f = f x"
  "sock_bind (sock_lift (Err e)) f c = (Err e, c)"
  "sock_bind (sock_lift Panic) f c = (Panic, c)"
  "sock_lift r c = (r, c)"
  by (simp_all add: sock_bind_def sock_lift_def fun_eq_iff)

lemma length_fill [simp]: "length b \<le> n \<Longrightarrow> length (fill n b) = n"
  by (simp add: fill_def)

lemma fill_nth: "i < length b \<Longrightarrow> fill n b ! i = b ! i"
  by (simp add: fill_def nth_append)

lemma fill_slice: "j \<le> length b \<Longrightarrow> slice i j (fill n b) = slice i j b"
  by (simp add: slice_def fill_def)

text \<open>Computations that never panic, for every state of the connection.\<close>

definition calm :: "'a sock \<Rightarrow> bool" where
  "calm m \<longleftrightarrow> (\<forall>c. fst (m c) \<noteq> Panic)"

lemma calm_bind: "calm m \<Longrightarrow> (\<And>x. calm (f x)) \<Longrightarrow> calm (sock_bind m f)"
  by (auto simp: calm_def sock_bind_def split: prod.splits outcome.splits) (metis fst_conv)+

lemma calm_recv: "calm (sock_recv n)" "calm (sock_recv_wait n)"
  by (auto simp: calm_def sock_recv_def sock_recv_wait_def split: list.splits sock_read.splits)

lemma recv_length: "fst (sock_recv n c) = Ok b \<Longrightarrow> length b \<le> n"
  by (auto simp: sock_recv_def split: list.splits sock_read.splits)

lemma calm_recv_bind:
  assumes "\<And>b. length b \<le> n \<Longrightarrow> calm (f b)"
  shows "calm (sock_bind (sock_recv n) f)" "calm (sock_bind (sock_recv_wait n) f)"
proof -
  have "fst (sock_bind (sock_recv n) f c) \<noteq> Panic" for c
  proof (cases "sock_recv n c")
    case (Pair r c')
    then show ?thesis using assms recv_length [of n c] calm_recv(1) [of n]
      by (cases r) (auto simp: sock_bind_def calm_def, metis fst_conv)
  qed
  then show "calm (sock_bind (sock_recv n) f)" "calm (sock_bind (sock_recv_wait n) f)"
    by (simp_all add: calm_def sock_bind_def sock_recv_wait_def)
qed

lemma calm_write: "calm (sock_write b)"
  by (simp add: calm_def sock_write_def)

lemma calm_lift: "r \<noteq> Panic \<Longrightarrow> calm (sock_lift r)"
  by (simp add: calm_def)

lemmas calm_intros = calm_bind calm_recv_bind calm_recv calm_write calm_lift

lemma socks5_auth_calm: "calm (socks5_auth token)"
proof -
  have u: "unat (b :: byte) \<le> 255" for b using unat_u8_less [of b] by linarith
  have m: "2 + min (unat b) 256 \<le> 258" for b :: byte using u [of b] by simp
  have "2 + unat (a :: byte) < 515" "3 + unat a + unat (b :: byte) \<le> 515" for a b
    using u [of a] u [of b] by simp_all
  with m show ?thesis unfolding socks5_auth_def offered_methods_def check_password_def Let_def
    by (auto intro!: calm_intros simp: at_def sub_def)
qed

lemma parse_connect_no_panic: "length r \<le> 263 \<Longrightarrow> parse_connect r \<noteq> Panic"
proof -
  assume l: "length r \<le> 263"
  have "unat (fill 263 r ! 4) \<le> 255" using unat_u8_less [of "fill 263 r ! 4"] by linarith
  then show ?thesis using l
    by (auto simp: parse_connect_def Let_def outcome_bind_Panic_iff)
qed

lemma socks_request_calm: "calm (socks_request token)"
  unfolding socks_request_def
  by (intro calm_intros socks5_auth_calm parse_connect_no_panic)

lemma bypass_direct_calm: "calm (bypass_direct env host p)"
  unfolding bypass_direct_def direct_target_def
  by (intro calm_intros) (auto split: option.splits list.splits dial_result.splits)

lemma bypass_direct_Ok: "bypass_direct env host p c = (Ok a, c') \<Longrightarrow> direct_target env host p = Ok a"
  by (cases "direct_target env host p")
    (auto simp: bypass_direct_def sock_bind_def sock_lift_def sock_write_def split: dial_result.splits if_splits)

lemma sock_bind_Ok: "fst (sock_bind m f c) = Ok y \<longleftrightarrow> (\<exists>x c'. m c = (Ok x, c') \<and> fst (f x c') = Ok y)"
  by (auto simp: sock_bind_def split: prod.splits outcome.splits)

lemma open_no_panic: "links mc \<noteq> [] \<Longrightarrow> fst (mux_open_stream draw t mc) \<noteq> Panic"
  by (auto simp: mux_open_stream_def Let_def with_padding_def MAX_PADDING_def link_send_def split: if_splits)

lemma tunnel_stream_relay:
  "links mc \<noteq> [] \<Longrightarrow> fst (tunnel_stream draw ready data_ok t mc c) \<noteq> Panic"
  "fst (tunnel_stream draw ready data_ok t mc c) \<noteq> Ok (Direct a)"
  using open_no_panic [of mc draw t]
  by (auto simp: tunnel_stream_def sock_write_def split: prod.splits outcome.splits)

lemma handle_socks5_no_panic:
  assumes "links mc \<noteq> []"
  shows "fst (handle_socks5 net wl env token draw ready data_ok mc c) \<noteq> Panic"
proof -
  obtain r c1 where r: "socks_request token c = (r, c1)" by fastforce
  have "r \<noteq> Panic" using socks_request_calm [of token] r by (metis calm_def fst_conv)
  moreover have "bypass_direct env host p c1 \<noteq> (Panic, c2)" for host p c2
    using bypass_direct_calm [of env host p] by (metis calm_def fst_conv)
  ultimately show ?thesis using tunnel_stream_relay(1) [OF assms]
    by (cases r) (auto simp: handle_socks5_def r outcome_bind_Panic_iff split: prod.splits)
qed

lemma handle_socks5_Direct:
  assumes "fst (handle_socks5 net wl env token draw ready data_ok mc c) = Ok (Direct a)"
  shows "(\<exists>host p. bypassed net wl host \<and> direct_target env host p = Ok a)
    \<and> snd (snd (handle_socks5 net wl env token draw ready data_ok mc c)) = mc"
proof -
  obtain r c1 where r: "socks_request token c = (r, c1)" by fastforce
  from assms r obtain host p where hp: "r = Ok (host, p)"
    by (cases r) (auto simp: handle_socks5_def)
  have b: "bypassed net wl host"
    using assms r hp tunnel_stream_relay(2) by (auto simp: handle_socks5_def split: if_splits)
  obtain x c2 where x: "bypass_direct env host p c1 = (x, c2)" by fastforce
  with assms r hp b have "x = Ok a" by (simp add: handle_socks5_def outcome_bind_Ok_iff)
  with x bypass_direct_Ok have "direct_target env host p = Ok a" by blast
  with x r hp b show ?thesis by (auto simp: handle_socks5_def)
qed

lemma sock_bind_OkE:
  assumes "fst (sock_bind m f c) = Ok y"
  obtains x c' where "fst (f x c') = Ok y"
  using assms by (auto simp: sock_bind_Ok)

lemma bypass_or_Direct:
  assumes "fst (bypass_or net wl env host p m c) = Ok (Direct a)" "fst (m c) \<noteq> Ok (Direct a)"
  shows "bypassed net wl host \<and> direct_target env host p = Ok a"
  using assms by (auto simp: bypass_or_def sock_bind_Ok intro: bypass_direct_Ok split: if_splits)

lemma bypass_or_calm: "calm m \<Longrightarrow> calm (bypass_or net wl env host p m)"
  by (auto simp: bypass_or_def intro!: calm_intros bypass_direct_calm)

lemma quic_socks5_Direct:
  assumes "fst (quic_socks5 net wl env token open_ok c) = Ok (Direct a)"
  shows "\<exists>host p. bypassed net wl host \<and> direct_target env host p = Ok a"
  using assms unfolding quic_socks5_def
proof (elim sock_bind_OkE)
  fix x c' assume "fst ((case x of (host, p) \<Rightarrow> bypass_or net wl env host p
      (if \<not> open_ok then sock_lift (Err SocksIo)
       else sock_bind (sock_write SUCCESS_REPLY) (\<lambda>_. sock_lift (Ok (Quic (quic_header host p)))))) c') = Ok (Direct a)"
  then show ?thesis
    by (cases x) (auto dest!: bypass_or_Direct simp: sock_bind_def sock_write_def split: if_splits)
qed

lemma shim_handle_Direct:
  assumes "fst (shim_handle net wl env up c) = Ok (Direct a)"
  shows "\<exists>host p. bypassed net wl host \<and> direct_target env host p = Ok a"
proof -
  from assms obtain r0 hp c' where "fst ((case hp of (host, p) \<Rightarrow> bypass_or net wl env host p
      (case up of None \<Rightarrow> sock_lift (Err SocksIo)
       | Some s \<Rightarrow> (case read_exact 2 s of None \<Rightarrow> sock_lift (Err SocksIo)
         | Some (gr, _) \<Rightarrow> if gr ! 0 \<noteq> 5 \<or> gr ! 1 \<noteq> 0 then sock_lift (Err UpstreamRefused)
             else sock_lift (Ok (Upstream [[5, 1, 0], r0]))))) c') = Ok (Direct a)"
    unfolding shim_handle_def by (elim sock_bind_OkE) (auto elim!: sock_bind_OkE split: if_splits)
  then show ?thesis
    by (cases hp) (auto dest!: bypass_or_Direct split: option.splits if_splits)
qed

lemma quic_socks5_calm: "calm (quic_socks5 net wl env token open_ok)"
  unfolding quic_socks5_def
  by (auto intro!: calm_intros socks5_auth_calm bypass_or_calm parse_connect_no_panic split: prod.splits)

lemma shim_handle_calm: "calm (shim_handle net wl env up)"
  unfolding shim_handle_def
  by (auto intro!: calm_intros bypass_or_calm parse_connect_no_panic split: prod.splits option.splits)

section \<open>Messages of a SOCKS5 client\<close>

text \<open>The messages of RFC 1928 and RFC 1929.\<close>

definition greeting :: "bytes \<Rightarrow> bytes" where
  "greeting ms = 5 # of_nat (length ms) # ms"

definition password_msg :: "bytes \<Rightarrow> bytes \<Rightarrow> bytes" where
  "password_msg user pass = 1 # of_nat (length user) # user @ of_nat (length pass) # pass"

definition connect_msg :: "address \<Rightarrow> u16 \<Rightarrow> bytes" where
  "connect_msg a p =
     [5, 1, 0] @ (case a of
         IPv4 ip \<Rightarrow> 1 # ipv4_octets ip
       | Domain h \<Rightarrow> 3 # of_nat (length h) # h
       | IPv6 ip \<Rightarrow> 4 # ipv6_octets ip) @ be16 p"

text \<open>The host string a handler derives from the requested address.\<close>

definition host_of :: "address \<Rightarrow> rust_string" where
  "host_of a = (case a of IPv4 ip \<Rightarrow> show_ipv4 ip | Domain h \<Rightarrow> h | IPv6 ip \<Rightarrow> [])"

lemma greeting_methods:
  assumes "length ms < 256"
  shows "offered_methods (fill 258 (greeting ms)) = Ok ms"
proof -
  have "fill 258 (greeting ms) ! 1 = of_nat (length ms)" by (simp add: fill_def greeting_def)
  moreover have "sub (fill 258 (greeting ms)) 2 (2 + length ms) = (Ok ms :: (socks_error, bytes) outcome)"
    using assms by (subst sub_Ok) (simp_all add: fill_slice greeting_def slice_def fill_def)
  ultimately show ?thesis using assms by (simp add: offered_methods_def unat_of_nat_u8 del: add_2_eq_Suc')
qed

lemma password_fields:
  fixes user pass :: bytes
  assumes "length user < 256" "length pass < 256"
  defines "a \<equiv> fill 515 (password_msg user pass)"
  shows "at a 1 = Ok (of_nat (length user))" "at a (2 + length user) = Ok (of_nat (length pass))"
    "sub a (3 + length user) (3 + length user + length pass) = Ok pass" "a ! 0 = 1"
proof -
  have a: "a = 1 # of_nat (length user) # user @ of_nat (length pass) # pass @ replicate (515 - (3 + length user + length pass)) 0"
    by (simp add: a_def fill_def password_msg_def)
  show "at a 1 = Ok (of_nat (length user))" "a ! 0 = 1" by (simp_all add: a at_def)
  show "at a (2 + length user) = Ok (of_nat (length pass))" by (simp add: a at_def nth_append)
  show "sub a (3 + length user) (3 + length user + length pass) = Ok pass"
    by (simp add: a sub_def slice_def eval_nat_numeral)
qed

lemma check_password_msg:
  assumes "token \<noteq> []" "utf8_valid token" "length user < 256" "length pass < 256"
  shows "check_password token (password_msg user pass) =
    (if pass = token then sock_write [1, 0] else sock_bind (sock_write [1, 1]) (\<lambda>_. sock_lift (Err AuthRejected)))"
proof -
  have "(case from_utf8 pass of Some s \<Rightarrow> s | None \<Rightarrow> []) = token \<longleftrightarrow> pass = token"
    using assms(1,2) by (auto simp: from_utf8_def)
  moreover have "\<not> length (password_msg user pass) < 3" by (simp add: password_msg_def)
  moreover have "2 + unat (of_nat (length user) :: byte) = 2 + length user"
    "3 + unat (of_nat (length user) :: byte) + unat (of_nat (length pass) :: byte) = 3 + length user + length pass"
    "3 + unat (of_nat (length user) :: byte) = 3 + length user"
    using assms(3,4) by (simp_all add: unat_of_nat_u8)
  ultimately show ?thesis unfolding check_password_def Let_def
    by (simp only: password_fields [OF assms(3,4)] sock_simps simp_thms if_False not_True_eq_False)
qed

lemma parse_connect_msg:
  assumes "wf_target \<lparr>addr = a, port = p\<rparr>"
  shows "parse_connect (connect_msg a p) =
    (case a of IPv6 ip \<Rightarrow> Err Unsupported | _ \<Rightarrow> Ok (host_of a, p))"
proof -
  obtain p0 p1 where p: "be16 p = [p0, p1]" "from_be16 p0 p1 = p"
    using from_be16_be16 [of p] by (simp add: be16_def)
  show ?thesis
  proof (cases a)
    case (IPv4 ip)
    then show ?thesis by (cases ip) (simp add: parse_connect_def connect_msg_def fill_def p host_of_def)
  next
    case (IPv6 ip)
    with assms have "ipv6_octets ip \<noteq> []" by (cases ip) (auto simp: wf_target_def)
    with IPv6 show ?thesis by (simp add: parse_connect_def Let_def connect_msg_def fill_def p)
  next
    case (Domain h)
    with assms have h: "utf8_valid h" "length h < 256" by (simp_all add: wf_target_def)
    let ?r = "fill 263 (connect_msg a p)"
    have r: "?r = [5, 1, 0, 3, of_nat (length h)] @ h @ p0 # p1 # replicate (263 - (7 + length h)) 0"
      using Domain by (simp add: fill_def connect_msg_def p(1))
    have "sub ?r 5 (5 + length h) = (Ok h :: (socks_error, bytes) outcome)"
      unfolding r by (rule sub_append) simp_all
    moreover have "at ?r (5 + length h) = (Ok p0 :: (socks_error, byte) outcome)"
      "at ?r (6 + length h) = (Ok p1 :: (socks_error, byte) outcome)"
      unfolding r by (simp_all add: at_def nth_append)
    moreover have "?r ! 1 = 1" "?r ! 3 = 3" "?r ! 4 = of_nat (length h)" unfolding r by simp_all
    moreover have "7 \<le> length (connect_msg a p)" using Domain by (simp add: connect_msg_def)
    ultimately show ?thesis using h Domain p(2)
      by (simp add: parse_connect_def unat_of_nat_u8 from_utf8_def host_of_def)
  qed
qed

lemma socks_target_host:
  "socks_target (host_of (IPv4 ip)) p = \<lparr>addr = IPv4 ip, port = p\<rparr>"
  "parse_ipv4 h = None \<Longrightarrow> socks_target (host_of (Domain h)) p = \<lparr>addr = Domain h, port = p\<rparr>"
  by (simp_all add: socks_target_def host_of_def)

text \<open>The header of a QUIC stream is the address payload of the protocol crate.\<close>

lemma quic_header_payload: "quic_header host p = 1 # addr_payload (socks_target host p)"
  by (simp add: quic_header_def addr_payload_def socks_target_def split: option.splits)

section \<open>Properties\<close>

text \<open>
  C24: the password check. Whatever arrives, the negotiation does not panic. When a token is set
  and the client offers the username/password method, it is let in exactly when the password of
  its RFC 1929 message is the token, and told so; a client that does not offer that method but
  offers \<open>no authentication\<close> is let in without any password, and every other client is refused.
\<close>

theorem socks5_auth_password:
  assumes "token \<noteq> []" "utf8_valid token" "length ms < 256" "length user < 256" "length pass < 256"
    and "inp c = Recv (greeting ms) # Recv (password_msg user pass) # es" "2 \<le> writable c"
  shows "fst (socks5_auth token' c') \<noteq> Panic
    \<and> fst (socks5_auth token c) =
        (if 0x02 \<in> set ms then (if pass = token then Ok () else Err AuthRejected)
         else if 0x00 \<in> set ms then Ok () else Err NoMethod)
    \<and> out (snd (socks5_auth token c)) = out c @
        (if 0x02 \<in> set ms then [[5, 2], [1, if pass = token then 0 else 1]]
         else if 0x00 \<in> set ms then [[5, 0]] else [[5, 0xFF]])"
proof -
  have calm: "fst (socks5_auth token' c') \<noteq> Panic" using socks5_auth_calm by (simp add: calm_def)
  have l: "length (greeting ms) \<le> 258" "length (password_msg user pass) \<le> 515"
    using assms by (simp_all add: greeting_def password_msg_def)
  let ?c1 = "c\<lparr>inp := Recv (password_msg user pass) # es\<rparr>"
  let ?c2 = "?c1\<lparr>out := out c @ [[5, 2]], writable := writable c - 1\<rparr>"
  have r1: "sock_recv 258 c = (Ok (greeting ms), ?c1)" using l assms by (simp add: sock_recv_def)
  have r2: "sock_recv 515 ?c2 = (Ok (password_msg user pass), ?c2\<lparr>inp := es\<rparr>)"
    using l by (simp add: sock_recv_def)
  have w: "sock_write [5, 2] ?c1 = (Ok (), ?c2)" using assms(7) by (simp add: sock_write_def)
  have "socks5_auth token c =
      (if 0x02 \<in> set ms then check_password token (password_msg user pass) (?c2\<lparr>inp := es\<rparr>)
       else if 0x00 \<in> set ms then sock_write [5, 0] ?c1
       else sock_bind (sock_write [5, 0xFF]) (\<lambda>_. sock_lift (Err NoMethod)) ?c1)"
    using assms(1) r2 w by (simp add: socks5_auth_def r1 greeting_methods [OF assms(3)])
  then show ?thesis using calm assms(7)
    by (simp add: check_password_msg [OF assms(1,2,4,5)] sock_write_def sock_bind_def)
qed

theorem socks5_auth_password_witness:
  "fst (socks5_auth (str ''tok'') \<lparr>inp = [Recv (greeting [0, 2]), Recv (password_msg [1] (str ''tok''))], out = [], writable = 5\<rparr>) = Ok ()
   \<and> fst (socks5_auth (str ''tok'') \<lparr>inp = [Recv (greeting [2]), Recv (password_msg [1] (str ''tik''))], out = [], writable = 5\<rparr>) = Err AuthRejected
   \<and> fst (socks5_auth (str ''tok'') \<lparr>inp = [Recv (greeting [0]), Recv (password_msg [1] [])], out = [], writable = 5\<rparr>) = Ok ()"
  using socks5_auth_password [of "str ''tok''" "[0, 2]" "[1]" "str ''tok''" "\<lparr>inp = [Recv (greeting [0, 2]), Recv (password_msg [1] (str ''tok''))], out = [], writable = 5\<rparr>" "[]"]
    socks5_auth_password [of "str ''tok''" "[2]" "[1]" "str ''tik''" "\<lparr>inp = [Recv (greeting [2]), Recv (password_msg [1] (str ''tik''))], out = [], writable = 5\<rparr>" "[]"]
    socks5_auth_password [of "str ''tok''" "[0]" "[1]" "[]" "\<lparr>inp = [Recv (greeting [0]), Recv (password_msg [1] [])], out = [], writable = 5\<rparr>" "[]"]
  by simp

text \<open>
  C4: nothing leaves the tunnel unless the whitelist says so, and no local client can make a
  handler panic. In the TCP handler (over a pool with a link), the QUIC handler and the shim,
  and for every input, a connection is relayed directly only to the address of a host that the
  active whitelist matches; the TCP handler has then opened no stream.
\<close>

theorem socks_no_leak:
  assumes "links mc \<noteq> []"
    and "t = handle_socks5 net wl env token draw ready data_ok mc c"
    and "q = quic_socks5 net wl env token open_ok c" and "s = shim_handle net wl env up c"
  shows "fst t \<noteq> Panic \<and> fst q \<noteq> Panic \<and> fst s \<noteq> Panic
    \<and> (fst t = Ok (Direct a) \<longrightarrow> snd (snd t) = mc)
    \<and> (fst t = Ok (Direct a) \<or> fst q = Ok (Direct a) \<or> fst s = Ok (Direct a) \<longrightarrow>
        (\<exists>w host p. wl = Some w \<and> matches net w host \<and> direct_target env host p = Ok a))"
proof -
  have w: "bypassed net wl host \<Longrightarrow> \<exists>w. wl = Some w \<and> matches net w host" for host
    by (auto simp: bypassed_def split: option.splits)
  have t: "(\<exists>host p. bypassed net wl host \<and> direct_target env host p = Ok a) \<and> snd (snd t) = mc" if "fst t = Ok (Direct a)"
    using handle_socks5_Direct [of net wl env] that unfolding assms(2) by blast
  have q: "\<exists>host p. bypassed net wl host \<and> direct_target env host p = Ok a" if "fst q = Ok (Direct a)"
    using quic_socks5_Direct that unfolding assms(3) .
  have s: "\<exists>host p. bypassed net wl host \<and> direct_target env host p = Ok a" if "fst s = Ok (Direct a)"
    using shim_handle_Direct that unfolding assms(4) .
  have "fst t \<noteq> Panic" unfolding assms(2) by (rule handle_socks5_no_panic [OF assms(1)])
  moreover have "fst q \<noteq> Panic" "fst s \<noteq> Panic"
    using quic_socks5_calm [of net wl env] shim_handle_calm [of net wl env] unfolding assms(3,4) calm_def by blast+
  ultimately show ?thesis using t q s w by blast
qed

theorem socks_no_leak_witness:
  "fst (shim_handle v4_ipnet (Some (whitelist_new v4_ipnet None)) \<lparr>lookup_host = (\<lambda>_ _. None), dial = (\<lambda>_. Connected)\<rparr> None
       \<lparr>inp = [Recv [5, 1, 0], Recv [5, 1, 0, 1, 77, 88, 55, 60, 0, 80]], out = [], writable = 2\<rparr>)
     = Ok (Direct (SocketAddrV4 (Ipv4Addr 77 88 55 60) 80))
   \<and> (\<exists>w host p. Some (whitelist_new v4_ipnet None) = Some w \<and> matches v4_ipnet w host
      \<and> direct_target \<lparr>lookup_host = (\<lambda>_ _. None), dial = (\<lambda>_. Connected)\<rparr> host p = Ok (SocketAddrV4 (Ipv4Addr 77 88 55 60) 80))"
proof -
  let ?wl = "Some (whitelist_new v4_ipnet None)"
  let ?env = "\<lparr>lookup_host = (\<lambda>_ _. None), dial = (\<lambda>_. Connected)\<rparr>"
  let ?c = "\<lparr>inp = [Recv [5, 1, 0], Recv [5, 1, 0, 1, 77, 88, 55, 60, 0, 80]], out = [], writable = 2\<rparr>"
  have m: "fst (shim_handle v4_ipnet ?wl ?env None ?c) = Ok (Direct (SocketAddrV4 (Ipv4Addr 77 88 55 60) 80))"
    by code_simp
  have "links sample_pool \<noteq> []" by (simp add: sample_pool_def)
  from socks_no_leak [OF this refl refl refl, where net = v4_ipnet and wl = ?wl and env = ?env and up = None and c = ?c] m
  show ?thesis by blast
qed

text \<open>
  C14: a request for a destination that is not whitelisted is carried through the tunnel
  faithfully. For a client that presents the token and asks for an IPv4 address or a domain name
  (that does not itself read as an IPv4 address), when the server confirms the stream, the TCP
  handler has queued exactly one frame, the padded \<open>StreamOpen\<close> for the requested target under
  the next stream id, on the link that the id selects, opens the data connection with the session
  token and that id, and tells the client that it is connected.
\<close>

theorem handle_socks5_tunnels:
  assumes "token \<noteq> []" "utf8_valid token" "length token < 256" "length user < 256"
    and "wf_target \<lparr>addr = a, port = p\<rparr>"
    and "case a of IPv4 _ \<Rightarrow> True | Domain h \<Rightarrow> parse_ipv4 h = None | IPv6 _ \<Rightarrow> False"
    and "c = \<lparr>inp = [Recv (greeting [2]), Recv (password_msg user token), Recv (connect_msg a p)], out = [], writable = 3\<rparr>"
    and "\<not> bypassed net wl (host_of a)"
    and "links mc \<noteq> []" "write_open (links mc ! link_idx mc (next_id mc))"
    and "with_padding (stream_open (next_id mc) \<lparr>addr = a, port = p\<rparr>) 4 128 n rnd = Ok f"
    and "handle_socks5 net wl env token (n, rnd) (Some reply) True mc c = (r, c', mc')"
  shows "r = Ok (Tunnel (next_id mc) (session_token mc @ be32 (next_id mc)))
    \<and> out c' = [[5, 2], [1, 0], SUCCESS_REPLY]
    \<and> next_id mc' = next_id mc + 2 \<and> hm_get (streams mc') (next_id mc) = Some \<lparr>queue = [], rx_alive = True\<rparr>
    \<and> map write_queue (links mc') =
        (map write_queue (links mc))[link_idx mc (next_id mc) := write_queue (links mc ! link_idx mc (next_id mc)) @ [encode f]]"
proof -
  have lc: "length (connect_msg a p) \<le> 263"
  proof (cases a)
    case (IPv4 ip)
    then show ?thesis by (cases ip) (simp add: connect_msg_def)
  qed (use assms(5,6) in \<open>auto simp: connect_msg_def wf_target_def\<close>)
  let ?c1 = "\<lparr>inp = [Recv (connect_msg a p)], out = [[5, 2], [1, 0]], writable = 1\<rparr>"
  have auth: "socks5_auth token c = (Ok (), ?c1)"
  proof -
    have l: "length (greeting [2]) \<le> 258" "length (password_msg user token) \<le> 515"
      using assms(3,4) by (simp_all add: greeting_def password_msg_def)
    have g: "offered_methods (fill 258 (greeting [2])) = Ok [2]" using greeting_methods [of "[2]"] by simp
    show ?thesis using assms(1,7) l g check_password_msg [OF assms(1,2,4,3)]
      by (simp add: socks5_auth_def sock_bind_def sock_recv_def sock_write_def)
  qed
  have ok: "parse_connect (connect_msg a p) = Ok (host_of a, p)"
    using parse_connect_msg [OF assms(5)] assms(6) by (cases a) auto
  have req: "socks_request token c = (Ok (host_of a, p), \<lparr>inp = [], out = [[5, 2], [1, 0]], writable = 1\<rparr>)"
    using lc ok by (simp add: socks_request_def auth sock_bind_def sock_recv_def)
  have t: "socks_target (host_of a) p = \<lparr>addr = a, port = p\<rparr>"
    using assms(6) socks_target_host by (cases a) auto
  have i: "link_idx mc (next_id mc) < length (links mc)" using assms(9) by (simp add: link_idx_def)
  show ?thesis
    using assms(8-12) req t i
    by (auto simp: handle_socks5_def tunnel_stream_def mux_open_stream_def link_send_def sock_write_def Let_def
        update_conv' map_update)
qed

theorem handle_socks5_tunnels_witness:
  "\<exists>c' mc'. handle_socks5 v4_ipnet None \<lparr>lookup_host = (\<lambda>_ _. None), dial = (\<lambda>_. Connected)\<rparr> [7] (4, [0, 0, 0, 0]) (Some []) True sample_pool
       \<lparr>inp = [Recv (greeting [2]), Recv (password_msg [] [7]), Recv (connect_msg (IPv4 (Ipv4Addr 8 8 8 8)) 80)], out = [], writable = 3\<rparr>
     = (Ok (Tunnel 1 (replicate 16 0 @ be32 1)), c', mc')
   \<and> out c' = [[5, 2], [1, 0], SUCCESS_REPLY]"
proof -
  let ?a = "IPv4 (Ipv4Addr 8 8 8 8)"
  let ?env = "\<lparr>lookup_host = (\<lambda>_ _. None), dial = (\<lambda>_. Connected)\<rparr>"
  let ?c = "\<lparr>inp = [Recv (greeting [2]), Recv (password_msg [] [7]), Recv (connect_msg ?a 80)], out = [], writable = 3\<rparr>"
  have m: "links sample_pool \<noteq> []" "write_open (links sample_pool ! link_idx sample_pool (next_id sample_pool))"
    "next_id sample_pool = 1" "session_token sample_pool = replicate 16 0"
    by (simp_all add: sample_pool_def link_idx_def)
  obtain f where f: "with_padding (stream_open (next_id sample_pool) \<lparr>addr = ?a, port = 80\<rparr>) 4 128 4 [0, 0, 0, 0] = Ok f"
    by (simp add: with_padding_def MAX_PADDING_def)
  obtain r c' mc' where h: "handle_socks5 v4_ipnet None ?env [7] (4, [0, 0, 0, 0]) (Some []) True sample_pool ?c = (r, c', mc')"
    using prod_cases3 by blast
  have "r = Ok (Tunnel 1 (replicate 16 0 @ be32 1)) \<and> out c' = [[5, 2], [1, 0], SUCCESS_REPLY]"
    using handle_socks5_tunnels [OF _ _ _ _ _ _ refl _ m(1,2) f h] m(3,4)
    by (simp add: bypassed_def wf_target_def)
  with h show ?thesis by blast
qed

end
