(* ===== verification/Client_Config.thy ===== *)
theory Client_Config
  imports Rust_Str Whitelist Handshake
begin

text \<open>
  \<open>orcax/client/src/main.rs\<close>, start-up and connection: command line values, the SNI pool, the
  server's public key, the user's UUID, port hopping, the list of servers with its fallbacks,
  and the authentication exchange of \<open>connect_and_auth\<close> and \<open>quic_connect_and_auth\<close>.

  The base64 decoder of the crate \<open>base64\<close> is an argument; random choices are given by the
  index that is drawn.
\<close>

section \<open>Command line\<close>

definition arg :: "rust_string list \<Rightarrow> rust_string \<Rightarrow> rust_string option" where
  "arg a f = (case dropWhile (\<lambda>x. x \<noteq> f) a of _ # v # _ \<Rightarrow> Some v | _ \<Rightarrow> None)"

text \<open>The bypass is on when the flag is given; the extra domains are a separate value.\<close>

definition whitelist_from_args :: "'n ipnet \<Rightarrow> rust_string list \<Rightarrow> 'n whitelist option" where
  "whitelist_from_args net args =
     (if str ''--whitelist'' \<in> set args then Some (whitelist_new net (arg args (str ''--whitelist-extra''))) else None)"

text \<open>The random token, given the sixteen bytes that are drawn.\<close>

definition generate_socks_token :: "(bytes \<Rightarrow> rust_string) \<Rightarrow> bytes \<Rightarrow> rust_string" where
  "generate_socks_token hexenc rnd = hexenc rnd"

section \<open>Status lines\<close>

text \<open>The lines printed for the app. A log message has its quotes and backslashes replaced, a detail has not.\<close>

abbreviation quote :: byte where "quote \<equiv> 0x22"
abbreviation backslash :: byte where "backslash \<equiv> 0x5C"

definition json_field :: "string \<Rightarrow> rust_string \<Rightarrow> rust_string" where
  "json_field name v = quote # str name @ [quote, colon, quote] @ v @ [quote]"

definition dlog_text :: "rust_string \<Rightarrow> rust_string" where
  "dlog_text msg = replace_all [backslash] (str ''/'') (replace_all [quote] [0x27] msg)"

definition dlog_line :: "nat \<Rightarrow> rust_string \<Rightarrow> rust_string" where
  "dlog_line ts msg =
     0x7B # json_field ''status'' (str ''log'') @ comma # quote # str ''ts'' @ [quote, colon] @ show_nat ts
       @ comma # json_field ''msg'' (dlog_text msg) @ [0x7D]"

definition emit_line :: "rust_string \<Rightarrow> rust_string option \<Rightarrow> rust_string" where
  "emit_line s d =
     (case d of
        Some v \<Rightarrow> 0x7B # json_field ''status'' s @ comma # json_field ''detail'' v @ [0x7D]
      | None \<Rightarrow> 0x7B # json_field ''status'' s @ [0x7D])"

section \<open>The SNI pool\<close>

definition DEFAULT_SNI_POOL :: "rust_string list" where
  "DEFAULT_SNI_POOL = map str
     [''ozon.ru'', ''wildberries.ru'', ''yandex.ru'', ''api.vk.com'', ''lamoda.ru'', ''rbc.ru'', ''ria.ru'']"

text \<open>The cell is a \<open>OnceLock\<close>: the first pool that is set stays.\<close>

definition set_sni_pool_from_arg :: "rust_string option \<Rightarrow> rust_string list option \<Rightarrow> rust_string list option" where
  "set_sni_pool_from_arg arg_value cell =
     (let pool = (case arg_value of
            Some s \<Rightarrow> if trim s \<noteq> [] then filter (\<lambda>p. p \<noteq> []) (map trim (split_on comma s)) else DEFAULT_SNI_POOL
          | None \<Rightarrow> DEFAULT_SNI_POOL);
          pool = (if pool = [] then DEFAULT_SNI_POOL else pool)
      in case cell of None \<Rightarrow> Some pool | Some p \<Rightarrow> Some p)"

text \<open>\<open>gen_range\<close> panics on an empty range, the index on one out of range.\<close>

definition pick_sni :: "nat \<Rightarrow> rust_string list option \<Rightarrow> (unit, rust_string) outcome" where
  "pick_sni idx cell =
     (let pool = (case cell of Some p \<Rightarrow> p | None \<Rightarrow> DEFAULT_SNI_POOL) in
      if pool = [] then Panic else at pool idx)"

section \<open>Keys and user ids\<close>

definition DEFAULT_PUB :: rust_string where
  "DEFAULT_PUB = str ''OqtCAsfuBF4DAHLjAyOsHwKNj-jqJQdnsYrElI7la2w''"

definition bd :: "(rust_string \<Rightarrow> bytes option) \<Rightarrow> rust_string \<Rightarrow> bytes" where
  "bd b64 s = (case b64 s of Some b \<Rightarrow> b | None \<Rightarrow> [])"

definition spk :: "(rust_string \<Rightarrow> bytes option) \<Rightarrow> rust_string option \<Rightarrow> ('e, bytes) outcome" where
  "spk b64 pubkey_arg =
     (let src = (case pubkey_arg of Some s \<Rightarrow> s | None \<Rightarrow> DEFAULT_PUB); b = bd b64 src in
      if length b = 32 then Ok b
      else let fb = bd b64 DEFAULT_PUB in if length fb = 32 then Ok fb else Panic)"

text \<open>The slice \<open>hex[i*2..i*2+2]\<close> panics when there are fewer than 32 digits.\<close>

definition is_hexdigit :: "byte \<Rightarrow> bool" where
  "is_hexdigit c \<longleftrightarrow> hex_value c \<noteq> None"

definition hex_byte :: "byte \<Rightarrow> byte \<Rightarrow> byte" where
  "hex_byte a b = of_nat (16 * the (hex_value a) + the (hex_value b))"

definition parse_uuid :: "rust_string \<Rightarrow> ('e, bytes) outcome" where
  "parse_uuid s =
     (let hex = filter is_hexdigit s in
      if length hex < 32 then Panic else Ok (map (\<lambda>i. hex_byte (hex ! (2 * i)) (hex ! (2 * i + 1))) [0..<16]))"

definition DEFAULT_UUID :: rust_string where
  "DEFAULT_UUID = str ''0804b576-4dfb-424a-80e7-e812e5c13cae''"

section \<open>Servers\<close>

text \<open>Port hopping: replace the port of the server address by a drawn one.\<close>

definition hop_ports :: "rust_string \<Rightarrow> u16 list" where
  "hop_ports s = List.map_filter (\<lambda>p. parse_u16 (trim p)) (split_on comma s)"

definition port_hop :: "nat \<Rightarrow> rust_string option \<Rightarrow> rust_string \<Rightarrow> (unit, rust_string) outcome" where
  "port_hop idx ports_arg sa =
     (case ports_arg of
        None \<Rightarrow> Ok sa
      | Some s \<Rightarrow>
          (let ports = hop_ports s in
           if ports = [] then Ok sa
           else outcome_bind (at ports idx) (\<lambda>p.
             case rfind_prefix colon sa of
               Some host \<Rightarrow> Ok (host @ colon # show_nat (unat p))
             | None \<Rightarrow> Ok sa)))"

text \<open>After QUIC has failed the TCP port is tried.\<close>

definition tcp_fallback :: "rust_string \<Rightarrow> rust_string" where
  "tcp_fallback sa = replace_all (str '':9444'') (str '':9443'') (replace_all (str '':9446'') (str '':9443'') sa)"

definition tcp_servers :: "rust_string \<Rightarrow> rust_string option \<Rightarrow> rust_string list" where
  "tcp_servers sa extras =
     sa # (case extras of None \<Rightarrow> [] | Some s \<Rightarrow> filter (\<lambda>p. p \<noteq> []) (map trim (split_on comma s)))"

text \<open>The servers are tried in order; the first that authenticates is used.\<close>

fun first_connected :: "(rust_string \<Rightarrow> ('e, 'c) outcome) \<Rightarrow> rust_string list \<Rightarrow> ('e, 'c option) outcome" where
  "first_connected conn [] = Ok None"
| "first_connected conn (s # ss) =
     (case conn s of Ok c \<Rightarrow> Ok (Some c) | Err _ \<Rightarrow> first_connected conn ss | Panic \<Rightarrow> Panic)"

text \<open>The servers of the QUIC mode: socket addresses only, the primary one first.\<close>

definition quic_primary :: "rust_string \<Rightarrow> ('e, socket_addr) outcome" where
  "quic_primary sa =
     (case parse_socket_addr sa of
        Some a \<Rightarrow> Ok a
      | None \<Rightarrow>
          (let parts = split_on colon sa;
               p1 = (if 1 < length parts then parts ! 1 else str ''9444'')
           in case parse_socket_addr (parts ! 0 @ colon # p1) of Some a \<Rightarrow> Ok a | None \<Rightarrow> Panic))"

definition extra_server :: "rust_string \<Rightarrow> socket_addr option" where
  "extra_server s =
     (case parse_socket_addr (trim s) of
        Some a \<Rightarrow> Some a
      | None \<Rightarrow>
          (case split_once colon (trim s) of
             None \<Rightarrow> None
           | Some (h, p) \<Rightarrow>
               (case parse_u16 p of
                  None \<Rightarrow> None
                | Some pt \<Rightarrow>
                    (case parse_ip h of
                       None \<Rightarrow> None
                     | Some (V4 ip) \<Rightarrow> Some (SocketAddrV4 ip pt)
                     | Some (V6 ip) \<Rightarrow> Some (SocketAddrV6 ip pt 0 0)))))"

definition server_addrs :: "rust_string \<Rightarrow> rust_string option \<Rightarrow> ('e, socket_addr list) outcome" where
  "server_addrs sa extras =
     outcome_bind (quic_primary sa) (\<lambda>a.
       Ok (a # (case extras of None \<Rightarrow> [] | Some s \<Rightarrow> List.map_filter extra_server (split_on comma s))))"

section \<open>Authentication\<close>

datatype connect_error = AuthIo | AuthStatus byte

text \<open>The message a client sends: its ephemeral key and the encrypted user id and time.\<close>

definition auth_request ::
    "crypto \<Rightarrow> (rust_string \<Rightarrow> bytes option) \<Rightarrow> u64 option \<Rightarrow> bytes \<Rightarrow> rust_string list \<Rightarrow> (handshake_error, bytes) outcome" where
  "auth_request cr b64 clock secret args =
     outcome_bind (spk b64 (arg args (str ''--pubkey''))) (\<lambda>pk.
     outcome_bind (parse_uuid (case arg args (str ''--uuid'') of Some u \<Rightarrow> u | None \<Rightarrow> DEFAULT_UUID)) (\<lambda>uuid.
     outcome_bind (client_encrypt_uuid cr clock secret pk uuid) (\<lambda>(eph, enc). Ok (eph @ enc))))"

text \<open>The answer: 33 bytes with the status last, and over TCP the session token.\<close>

definition auth_status :: "(nat \<Rightarrow> 's \<Rightarrow> (bytes \<times> 's) option) \<Rightarrow> 's \<Rightarrow> (connect_error, 's) outcome" where
  "auth_status rd s =
     outcome_bind (ok_or AuthIo (rd 33 s)) (\<lambda>(rr, s1).
       if rr ! 32 \<noteq> 0 then Err (AuthStatus (rr ! 32)) else Ok s1)"

definition auth_response :: "(nat \<Rightarrow> 's \<Rightarrow> (bytes \<times> 's) option) \<Rightarrow> 's \<Rightarrow> (connect_error, bytes \<times> 's) outcome" where
  "auth_response rd s =
     outcome_bind (auth_status rd s) (\<lambda>s1. outcome_bind (ok_or AuthIo (rd 16 s1)) (\<lambda>(token, s2). Ok (token, s2)))"

text \<open>
  The two ways to connect. A connection is \<open>None\<close> when the transport could not be set up;
  \<open>unwrap\<close> and slice panics of the request are panics of the whole.
\<close>

datatype tcp_error = TransportFailed | TcpAuth connect_error

definition connect_and_auth ::
    "crypto \<Rightarrow> (rust_string \<Rightarrow> bytes option) \<Rightarrow> u64 option \<Rightarrow> bytes \<Rightarrow> rust_string list \<Rightarrow> segs option
     \<Rightarrow> (tcp_error, bytes \<times> bytes \<times> segs) outcome" where
  "connect_and_auth cr b64 clock secret args tls =
     (case tls of
        None \<Rightarrow> Err TransportFailed
      | Some s \<Rightarrow>
          (case auth_request cr b64 clock secret args of
             Ok msg \<Rightarrow>
               (case auth_response read_exact s of
                  Ok (token, s') \<Rightarrow> Ok (msg, token, s')
                | Err e \<Rightarrow> Err (TcpAuth e)
                | Panic \<Rightarrow> Panic)
           | _ \<Rightarrow> Panic))"

definition quic_connect_and_auth ::
    "crypto \<Rightarrow> (rust_string \<Rightarrow> bytes option) \<Rightarrow> u64 option \<Rightarrow> bytes \<Rightarrow> rust_string list \<Rightarrow> segs option
     \<Rightarrow> (unit, (bytes \<times> segs) option) outcome" where
  "quic_connect_and_auth cr b64 clock secret args stream =
     (case stream of
        None \<Rightarrow> Ok None
      | Some s \<Rightarrow>
          (case auth_request cr b64 clock secret args of
             Ok msg \<Rightarrow>
               (case auth_status read_exact s of
                  Ok s' \<Rightarrow> Ok (Some (msg, s'))
                | Err _ \<Rightarrow> Ok None
                | Panic \<Rightarrow> Panic)
           | _ \<Rightarrow> Panic))"

section \<open>Choosing the transport\<close>

text \<open>
  \<open>quic_up\<close> says whether the QUIC mode serves (it then does not return); \<open>conn\<close> is the outcome of
  \<open>connect_and_auth\<close> on a server.
\<close>

datatype 'c transport = QuicMode | TcpMode 'c | CdnMode rust_string | AllUnreachable

definition tcp_unreachable :: "rust_string option \<Rightarrow> 'c transport" where
  "tcp_unreachable cdn_url = (case cdn_url of Some url \<Rightarrow> CdnMode url | None \<Rightarrow> AllUnreachable)"

definition select_transport ::
    "rust_string \<Rightarrow> bool \<Rightarrow> rust_string \<Rightarrow> rust_string option \<Rightarrow> (rust_string \<Rightarrow> ('e, 'c) outcome) \<Rightarrow> rust_string option
     \<Rightarrow> ('e, 'c transport) outcome" where
  "select_transport protocol quic_up sa extras conn cdn_url =
     (if protocol = str ''quic'' \<and> quic_up then Ok QuicMode
      else
        let sa = (if protocol = str ''quic'' then tcp_fallback sa else sa) in
        outcome_bind (first_connected conn (tcp_servers sa extras)) (\<lambda>r.
          Ok (case r of Some c \<Rightarrow> TcpMode c | None \<Rightarrow> tcp_unreachable cdn_url)))"

section \<open>Lemmas\<close>

lemma dlog_clean: "quote \<notin> set (dlog_text msg) \<and> backslash \<notin> set (dlog_text msg)"
proof -
  have r: "replace_all [c] [d] s = map (\<lambda>x. if x = c then d else x) s" for c d s
    by (induction s) auto
  show ?thesis by (auto simp: dlog_text_def r split: if_splits)
qed

lemma socks_token_length: "hex_crate hexenc \<Longrightarrow> length rnd = 16 \<Longrightarrow> length (generate_socks_token hexenc rnd) = 32"
  by (simp add: generate_socks_token_def hex_crate_def)

lemma first_connected_None: "first_connected conn ss = Ok None \<longleftrightarrow> (\<forall>s \<in> set ss. \<exists>e. conn s = Err e)"
  by (induction ss) (auto split: outcome.splits)

text \<open>The fallbacks are taken only when every server has refused.\<close>

lemma select_transport_cdn:
  "select_transport protocol quic_up sa extras conn cdn_url = Ok (CdnMode url) \<Longrightarrow>
     cdn_url = Some url \<and> \<not> (protocol = str ''quic'' \<and> quic_up)
     \<and> (\<forall>s \<in> set (tcp_servers (if protocol = str ''quic'' then tcp_fallback sa else sa) extras). \<exists>e. conn s = Err e)"
  by (auto simp: select_transport_def Let_def outcome_bind_Ok_iff tcp_unreachable_def first_connected_None
      split: option.splits if_splits)

lemma sni_pool_nonempty:
  assumes "set_sni_pool_from_arg a None = Some pool"
  shows "pool \<noteq> [] \<and> [] \<notin> set pool"
proof -
  have d: "DEFAULT_SNI_POOL \<noteq> [] \<and> [] \<notin> set DEFAULT_SNI_POOL" by (simp add: DEFAULT_SNI_POOL_def)
  then show ?thesis
    using assms by (auto simp: set_sni_pool_from_arg_def Let_def split: option.splits if_splits)
qed

lemma hex_encode_Cons: "hex_encode (b # bs) = hex_digit (unat b div 16) # hex_digit (unat b mod 16) # hex_encode bs"
  by (simp add: hex_encode_def)

lemma hex_nibbles: "hex_value (hex_digit (unat (b :: byte) div 16)) = Some (unat b div 16)"
  "hex_value (hex_digit (unat b mod 16)) = Some (unat b mod 16)"
proof -
  have "unat b div 16 < 16" using unat_u8_less [of b] by (simp add: less_mult_imp_div_less)
  then show "hex_value (hex_digit (unat b div 16)) = Some (unat b div 16)" by (rule hex_value_digit)
  show "hex_value (hex_digit (unat b mod 16)) = Some (unat b mod 16)" by (rule hex_value_digit) simp
qed

lemma hexdigit_encode [simp]: "filter is_hexdigit (hex_encode bs) = hex_encode bs"
  by (induction bs) (simp_all add: hex_encode_Cons is_hexdigit_def hex_nibbles, simp add: hex_encode_def)

lemma hex_encode_append: "hex_encode (a @ b) = hex_encode a @ hex_encode b"
  by (simp add: hex_encode_def)

lemma hexdigit_canonical:
  assumes "length ub = 16"
  shows "filter is_hexdigit (canonical_uuid ub) = hex_encode ub"
proof -
  have "\<not> is_hexdigit 0x2D" by (simp add: is_hexdigit_def hex_value_def)
  then have "filter is_hexdigit (canonical_uuid ub) =
      hex_encode (slice 0 4 ub @ slice 4 6 ub @ slice 6 8 ub @ slice 8 10 ub @ slice 10 16 ub)"
    by (simp add: canonical_uuid_def hex_encode_append)
  also have "slice 0 4 ub @ slice 4 6 ub @ slice 6 8 ub @ slice 8 10 ub @ slice 10 16 ub = ub"
    using assms by (auto simp: slice_def length_Suc_conv numeral_eq_Suc)
  finally show ?thesis .
qed

lemma hex_byte_encode:
  "i < length bs \<Longrightarrow> hex_byte (hex_encode bs ! (2 * i)) (hex_encode bs ! (2 * i + 1)) = bs ! i"
proof (induction bs arbitrary: i)
  case (Cons b bs)
  show ?case
  proof (cases i)
    case 0
    have "16 * (unat b div 16) + unat b mod 16 = unat b" by simp
    with 0 show ?thesis by (simp add: hex_encode_Cons hex_byte_def hex_nibbles del: of_nat_add of_nat_mult)
  next
    case (Suc j)
    with Cons show ?thesis by (simp add: hex_encode_Cons)
  qed
qed simp

lemma parse_uuid_canonical:
  assumes "length ub = 16"
  shows "parse_uuid (canonical_uuid ub) = Ok ub"
proof -
  have "map (\<lambda>i. hex_byte (hex_encode ub ! (2 * i)) (hex_encode ub ! (2 * i + 1))) [0..<16] = map ((!) ub) [0..<length ub]"
    using assms hex_byte_encode [of _ ub] by (intro map_cong) auto
  then show ?thesis using assms
    unfolding parse_uuid_def Let_def hexdigit_canonical [OF assms] map_nth by simp
qed

lemma port_hop_replaces:
  assumes "idx < length (hop_ports s)" "colon \<notin> set p"
  shows "port_hop idx (Some s) (h @ colon # p) = Ok (h @ colon # show_nat (unat (hop_ports s ! idx)))"
  using assms by (auto simp: port_hop_def Let_def rfind_prefix_append)

lemma first_connected_Some:
  "first_connected conn ss = Ok (Some c) \<Longrightarrow>
     \<exists>pre s post. ss = pre @ s # post \<and> (\<forall>x \<in> set pre. \<exists>e. conn x = Err e) \<and> conn s = Ok c"
proof (induction ss)
  case (Cons s ss)
  show ?case
  proof (cases "conn s")
    case (Ok c')
    with Cons.prems show ?thesis by (intro exI [of _ "[] :: rust_string list"] exI [of _ s] exI [of _ ss]) auto
  next
    case (Err e)
    with Cons obtain pre x post where "ss = pre @ x # post" "\<forall>x \<in> set pre. \<exists>e. conn x = Err e" "conn x = Ok c"
      by auto
    with Err show ?thesis by (intro exI [of _ "s # pre"]) auto
  qed (use Cons.prems in simp)
qed simp

text \<open>
  A server given by name makes the QUIC mode panic: the text is not a socket address, and
  neither is the same text put together again.
\<close>

lemma quic_primary_hostname: "quic_primary (str ''vpn.example.com:9446'') = (Panic :: (unit, socket_addr) outcome)"
  by code_simp

lemma parse_uuid_short: "length (filter is_hexdigit s) < 32 \<Longrightarrow> parse_uuid s = Panic"
  by (simp add: parse_uuid_def)

section \<open>Properties\<close>

text \<open>
  C15: a client that is given the server's public key and a user id in canonical form connects.
  Its 72-byte message is accepted by the server of that key, which learns exactly that user id,
  at every time within 15 seconds of the client's clock and at no other; and it reads the
  server's answer correctly however it is segmented: a non-zero status is an error with that
  status, a zero status gives the session token that follows.
\<close>

theorem connect_and_auth_roundtrip:
  assumes "x25519_ok cr" "hkdf_ok cr" "chacha_ok cr" "hex_crate hexenc" "length ub = 16"
    and "arg args (str ''--uuid'') = Some (canonical_uuid ub)"
    and "arg args (str ''--pubkey'') = Some k" "b64 k = Some (x_pub cr (static_key cfg))"
    and "concat segs = x_pub cr ss @ st # token @ r" "length token = 16"
  shows "\<exists>msg. auth_request cr b64 (Some t) cs args = Ok msg \<and> length msg = 72
    \<and> server_handshake cr hexenc (Some now) ss cfg (take 32 msg) (drop 32 msg) =
        (if abs_diff now t > MAX_TIME_DRIFT then Err (TimestampDrift (abs_diff now t))
         else Ok \<lparr>hr_uuid = canonical_uuid ub, server_ephemeral_pub = x_pub cr ss\<rparr>)
    \<and> (if st \<noteq> 0 then connect_and_auth cr b64 (Some t) cs args (Some segs) = Err (TcpAuth (AuthStatus st))
        else \<exists>segs'. connect_and_auth cr b64 (Some t) cs args (Some segs) = Ok (msg, token, segs') \<and> concat segs' = r)"
proof -
  have l32: "length (x_pub cr s) = 32" for s using assms(1) by (simp add: x25519_ok_def)
  obtain eph enc where e: "client_encrypt_uuid cr (Some t) cs (x_pub cr (static_key cfg)) ub = Ok (eph, enc)"
    using client_encrypt_total [OF assms(2)] by (metis surj_pair)
  obtain km where s: "auth_key_material cr (x_dh cr (static_key cfg) eph) = Some km" "length enc = 40" "eph = x_pub cr cs"
    "chacha_open cr (take 32 km) (slice 32 44 km) [] (take 24 enc) (slice 24 40 enc) = Some (ub @ be64 t)"
    using client_sealed [OF assms(1-3,5) e] by blast
  have m: "auth_request cr b64 (Some t) cs args = Ok (eph @ enc)"
    using assms(5-8) l32 e by (simp add: auth_request_def spk_def bd_def parse_uuid_canonical)
  have "concat segs = (x_pub cr ss @ [st]) @ (token @ r)" using assms(9) by simp
  from seg.rd_prefix [OF this, of 33] l32 obtain s1 where
    s1: "read_exact 33 segs = Some (x_pub cr ss @ [st], s1)" "concat s1 = token @ r" by auto
  from seg.rd_prefix [OF s1(2) assms(10)] obtain s2 where s2: "read_exact 16 s1 = Some (token, s2)" "concat s2 = r" by auto
  have "if st \<noteq> 0 then auth_response read_exact segs = Err (AuthStatus st)
        else \<exists>segs'. auth_response read_exact segs = Ok (token, segs') \<and> concat segs' = r"
    using s1 s2 l32 by (simp add: auth_response_def auth_status_def nth_append)
  then have "if st \<noteq> 0 then connect_and_auth cr b64 (Some t) cs args (Some segs) = Err (TcpAuth (AuthStatus st))
        else \<exists>segs'. connect_and_auth cr b64 (Some t) cs args (Some segs) = Ok (eph @ enc, token, segs') \<and> concat segs' = r"
    by (auto simp: connect_and_auth_def m split: if_splits)
  moreover have "take 32 (eph @ enc) = eph" "drop 32 (eph @ enc) = enc" using s(3) l32 by simp_all
  moreover have "length (eph @ enc) = 72" using s(2,3) l32 by simp
  ultimately show ?thesis
    using m server_handshake_opened [OF assms(4,5) s(1,2,4), of now ss] by (intro exI [of _ "eph @ enc"]) simp
qed

theorem connect_and_auth_roundtrip_witness:
  "\<exists>msg segs'. auth_request plain_crypto (\<lambda>_. Some (x_pub plain_crypto [2])) (Some 1000) [1]
       [str ''--pubkey'', [7], str ''--uuid'', canonical_uuid (replicate 16 5)] = Ok msg
     \<and> server_handshake plain_crypto hex_encode (Some 1010) [3] \<lparr>static_key = [2]\<rparr> (take 32 msg) (drop 32 msg)
       = Ok \<lparr>hr_uuid = canonical_uuid (replicate 16 5), server_ephemeral_pub = x_pub plain_crypto [3]\<rparr>
     \<and> connect_and_auth plain_crypto (\<lambda>_. Some (x_pub plain_crypto [2])) (Some 1000) [1]
       [str ''--pubkey'', [7], str ''--uuid'', canonical_uuid (replicate 16 5)]
       (Some [x_pub plain_crypto [3] @ [0], replicate 16 9]) = Ok (msg, replicate 16 9, segs')"
proof -
  let ?args = "[str ''--pubkey'', [7], str ''--uuid'', canonical_uuid (replicate 16 5)]"
  have "arg ?args (str ''--uuid'') = Some (canonical_uuid (replicate 16 5))" "arg ?args (str ''--pubkey'') = Some [7]"
    by (simp_all add: arg_def)
  from connect_and_auth_roundtrip [OF plain_crypto_ok(1-3) _ _ this,
      of hex_encode "\<lambda>_. Some (x_pub plain_crypto [2])" "\<lparr>static_key = [2]\<rparr>" "[x_pub plain_crypto [3] @ [0], replicate 16 9]" "[3]" 0 "replicate 16 9" "[]" 1000 "[1]" 1010]
  show ?thesis by (auto simp: hex_crate_def abs_diff_def MAX_TIME_DRIFT_def)
qed

end
