(* ===== verification/Failover.thy ===== *)
theory Failover
  imports Client_Config
begin

text \<open>
  \<open>orcax/client/src/main.rs\<close>, \<open>run_quic_mode\<close>: connecting to all servers, and the health monitor
  that replaces a dead connection by a live backup or reconnects, cycling through the servers
  with a growing delay. Whether a connection is closed is a predicate, and the outcome of the
  \<open>k\<close>-th connection attempt to an address is a function of \<open>k\<close> and the address. The reconnect
  loop need not end, so it is an option-valued partial function.
\<close>

section \<open>Operations\<close>

text \<open>All servers are tried; the first connection is used, the others are backups.\<close>

definition quic_connections :: "('a \<Rightarrow> 'c option) \<Rightarrow> 'a list \<Rightarrow> ('c \<times> 'c list) option" where
  "quic_connections conn addrs =
     (case List.map_filter conn addrs of [] \<Rightarrow> None | c # cs \<Rightarrow> Some (c, cs))"





text \<open>
  The connection an accepted SOCKS5 client is served on: the current one, or the one half a
  second later, or none.
\<close>

definition serving_conn :: "('c \<Rightarrow> bool) \<Rightarrow> 'c \<Rightarrow> ('c \<Rightarrow> bool) \<Rightarrow> 'c \<Rightarrow> 'c option" where
  "serving_conn closed c closed_later c_later =
     (if closed c then (if closed_later c_later then None else Some c_later) else Some c)"

section \<open>Lemmas\<close>










section \<open>Properties\<close>



end
