(* ===== verification/Cdn.thy ===== *)
theory Cdn
  imports Socks5 Client_Config
begin

text \<open>
  \<open>orcax/client/src/main.rs\<close>, the WebSocket fallback (lines 910 to 1147): the authentication
  message that is put together by hand, the frames written byte by byte, the dispatcher of
  incoming messages and the SOCKS5 handler. The WebSocket itself is the sequence of its messages.
\<close>

section \<open>Authentication\<close>




datatype cdn_error = BadUuid | BadServerPubkey | CdnAuthRejected


datatype ws_message = Binary bytes | OtherMessage

text \<open>The first message must be the 33-byte answer with status zero; \<open>None\<close> is a closed or failed socket.\<close>

definition cdn_auth_response :: "ws_message option \<Rightarrow> (cdn_error, unit) outcome" where
  "cdn_auth_response msg =
     (case msg of
        Some (Binary data) \<Rightarrow> if length data = 33 \<and> data ! 32 = 0 then Ok () else Err CdnAuthRejected
      | _ \<Rightarrow> Err CdnAuthRejected)"

section \<open>Frames\<close>


definition cdn_data_frame :: "u32 \<Rightarrow> bytes \<Rightarrow> bytes" where
  "cdn_data_frame sid b = 0x00 # 0x00 # be32 sid @ be16 (of_nat (length b)) @ b"


section \<open>Dispatching incoming messages\<close>

text \<open>One message; \<open>None\<close> while a channel is full. The flags and the length field are not looked at.\<close>

definition cdn_dispatch :: "ws_message \<Rightarrow> (u32, chan) hmap \<Rightarrow> (u32, chan) hmap option" where
  "cdn_dispatch msg st =
     (case msg of
        OtherMessage \<Rightarrow> Some st
      | Binary data \<Rightarrow>
          if length data < 8 then Some st
          else
            let ft = data ! 0;
                sid = from_be32 (data ! 2) (data ! 3) (data ! 4) (data ! 5);
                p = drop 8 data in
            if ft = 0x00 then
              (case hm_get st sid of
                 None \<Rightarrow> Some st
               | Some ch \<Rightarrow> map_option (\<lambda>ch'. hm_insert sid ch' st) (chan_send p ch))
            else if ft = 0x02 then Some (hm_remove sid st)
            else Some st)"

section \<open>The handler\<close>





section \<open>Lemmas\<close>









text \<open>
  A read that fills the whole buffer of 65536 bytes is sent under the length zero, so that the
  protocol's decoder sees an empty frame and takes the data for further frames.
\<close>

lemma cdn_full_buffer:
  assumes "length b = 65536"
  shows "decode slice_read (cdn_data_frame sid b) = Ok (data_frame sid [], b)"
proof -
  have "of_nat (length b) = (0 :: u16)" by (simp add: assms)
  then have "cdn_data_frame sid b = encode (data_frame sid []) @ b"
    by (simp add: cdn_data_frame_def encode_def data_frame_def frame_type_byte_def)
  moreover have "frame_wf (data_frame sid [])" by (simp add: frame_wf_def data_frame_def MAX_FRAME_SIZE_def)
  ultimately show ?thesis using slc.decode_encode [of "data_frame sid []" "encode (data_frame sid []) @ b" b] by auto
qed

section \<open>Properties\<close>



end
