(* ===== verification/Tunnel.thy ===== *)
theory Tunnel
  imports Socks5 Handshake
begin

text \<open>
  \<open>orcax/client/src/tunnel.rs\<close>: the library form of the client. The tunnel's state and its
  accept loop, the SOCKS5 request, the OrcaX authentication over the TLS connection, and the
  relay loop. The TLS connection is given by whether it is established and the bytes it delivers.
\<close>

section \<open>State\<close>

record tunnel_config =
  tc_server_addr :: rust_string
  tc_server_pubkey :: bytes
  tc_uuid :: bytes
  tc_sni :: rust_string
  tc_socks_addr :: rust_string
  tc_short_id :: bytes

datatype tunnel_state = Disconnected | Connecting | TunnelConnected | TunnelError

definition state_code :: "tunnel_state \<Rightarrow> u32" where
  "state_code s = (case s of Disconnected \<Rightarrow> 0 | Connecting \<Rightarrow> 1 | TunnelConnected \<Rightarrow> 2 | TunnelError \<Rightarrow> 3)"

record tunnel =
  t_config :: tunnel_config
  t_state :: u32
  t_running :: bool

definition tunnel_new :: "tunnel_config \<Rightarrow> tunnel" where
  "tunnel_new cfg = \<lparr>t_config = cfg, t_state = state_code Disconnected, t_running = False\<rparr>"

definition tunnel_state_of :: "tunnel \<Rightarrow> tunnel_state" where
  "tunnel_state_of t =
     (if t_state t = 0 then Disconnected else if t_state t = 1 then Connecting
      else if t_state t = 2 then TunnelConnected else TunnelError)"

definition tunnel_stop :: "tunnel \<Rightarrow> tunnel" where
  "tunnel_stop t = t\<lparr>t_running := False\<rparr>"

section \<open>The accept loop\<close>

text \<open>
  What happens while the loop waits in \<open>accept\<close>: a connection, a failed accept, or a call of
  \<open>stop\<close> from another thread. The flag is read before each \<open>accept\<close>.
\<close>

datatype accept_event = Accepted tcp_conn | AcceptFailed | StopCalled

text \<open>The tunnel, the connections handed to a thread, and whether \<open>start\<close> has returned.\<close>

fun accept_wait :: "accept_event list \<Rightarrow> tunnel \<Rightarrow> tcp_conn list \<Rightarrow> tunnel \<times> tcp_conn list \<times> bool" where
  "accept_wait [] t served = (t, served, False)"
| "accept_wait (StopCalled # es) t served = accept_wait es (tunnel_stop t) served"
| "accept_wait (Accepted c # es) t served =
     (if t_running t then accept_wait es t (served @ [c])
      else (t\<lparr>t_state := state_code Disconnected\<rparr>, served @ [c], True))"
| "accept_wait (AcceptFailed # es) t served =
     (if t_running t then accept_wait es t served
      else (t\<lparr>t_state := state_code Disconnected\<rparr>, served, True))"

datatype tunnel_error =
    BindFailed | NotSocks | BadSocksRequest | BadDomain | IPv6NotImplemented | UnknownAddrType
  | ConnectFailed | AuthFailed | DeviceLimit | AccountBanned | ServerStatus byte | TunnelIo

definition tunnel_start :: "bool \<Rightarrow> accept_event list \<Rightarrow> tunnel \<Rightarrow> (tunnel_error, tcp_conn list \<times> bool) outcome \<times> tunnel" where
  "tunnel_start bind_ok es t =
     (let t1 = t\<lparr>t_running := True, t_state := state_code Connecting\<rparr> in
      if \<not> bind_ok then (Err BindFailed, t1)
      else case accept_wait es (t1\<lparr>t_state := state_code TunnelConnected\<rparr>) [] of
          (t2, served, returned) \<Rightarrow> (Ok (served, returned), t2))"

section \<open>The SOCKS5 request\<close>

definition tunnel_request :: "bytes \<Rightarrow> (tunnel_error, rust_string \<times> u16 \<times> nat) outcome" where
  "tunnel_request r0 =
     (let r = fill 263 r0 in
      if length r0 < 7 \<or> r ! 0 \<noteq> 5 \<or> r ! 1 \<noteq> 1 then Err BadSocksRequest
      else if r ! 3 = 1 then
        Ok (show_ipv4 (Ipv4Addr (r ! 4) (r ! 5) (r ! 6) (r ! 7)), from_be16 (r ! 8) (r ! 9), 10)
      else if r ! 3 = 3 then
        let l = unat (r ! 4) in
        outcome_bind (sub r 5 (5 + l)) (\<lambda>d.
        outcome_bind (ok_or BadDomain (from_utf8 d)) (\<lambda>host.
        outcome_bind (at r (5 + l)) (\<lambda>a. outcome_bind (at r (6 + l)) (\<lambda>b. Ok (host, from_be16 a b, 7 + l)))))
      else if r ! 3 = 4 then Err IPv6NotImplemented
      else Err UnknownAddrType)"

section \<open>Authentication\<close>

text \<open>\<open>dst.copy_from_slice(src)\<close> for the range from \<open>a\<close> to \<open>b\<close> of a buffer: it panics unless the lengths agree.\<close>

definition copy_into :: "nat \<Rightarrow> nat \<Rightarrow> bytes \<Rightarrow> bytes \<Rightarrow> ('e, bytes) outcome" where
  "copy_into a b src buf =
     (if a \<le> b \<and> b \<le> length buf \<and> length src = b - a then Ok (take a buf @ src @ drop b buf) else Panic)"

definition tunnel_auth_message ::
    "crypto \<Rightarrow> u64 option \<Rightarrow> bytes \<Rightarrow> tunnel_config \<Rightarrow> (tunnel_error, bytes) outcome" where
  "tunnel_auth_message cr clock secret cfg =
     (case client_encrypt_uuid cr clock secret (tc_server_pubkey cfg) (tc_uuid cfg) of
        Ok (eph, enc) \<Rightarrow>
          outcome_bind (copy_into 0 32 eph (replicate 48 0)) (\<lambda>a. copy_into 32 48 enc a)
      | _ \<Rightarrow> Panic)"

definition tunnel_status :: "byte \<Rightarrow> (tunnel_error, unit) outcome" where
  "tunnel_status st =
     (if st = 0 then Ok () else if st = 1 then Err AuthFailed else if st = 2 then Err DeviceLimit
      else if st = 3 then Err AccountBanned else Err (ServerStatus st))"

text \<open>\<open>tls\<close> is \<open>None\<close> when the connection or its TLS handshake fails. The message sent is returned with the stream.\<close>

definition connect_orcax ::
    "crypto \<Rightarrow> u64 option \<Rightarrow> bytes \<Rightarrow> tunnel_config \<Rightarrow> segs option \<Rightarrow> (tunnel_error, bytes \<times> segs) outcome" where
  "connect_orcax cr clock secret cfg tls =
     (case tls of
        None \<Rightarrow> Err ConnectFailed
      | Some s \<Rightarrow>
          outcome_bind (tunnel_auth_message cr clock secret cfg) (\<lambda>auth.
          outcome_bind (ok_or TunnelIo (read_exact 33 s)) (\<lambda>(resp, s1).
          outcome_bind (tunnel_status (resp ! 32)) (\<lambda>_. Ok (auth, s1)))))"

section \<open>The relay\<close>

datatype io_read = Got bytes | NotYet | IoFailed

text \<open>
  Rounds of the relay loop: what the read from the client and from the server give, and whether
  the writes succeed. The result is what was sent to the server and to the client.
\<close>

fun relay_tls :: "(io_read \<times> bool \<times> io_read \<times> bool) list \<Rightarrow> bytes \<times> bytes \<Rightarrow> bytes \<times> bytes" where
  "relay_tls [] st = st"
| "relay_tls ((cr, up_ok, sr, down_ok) # rs) (up, down) =
     (case cr of
        IoFailed \<Rightarrow> (up, down)
      | Got b \<Rightarrow>
          if b = [] then (up, down)
          else if \<not> up_ok then (up, down)
          else (case sr of
              IoFailed \<Rightarrow> (up @ b, down)
            | Got d \<Rightarrow>
                if d = [] then (up @ b, down)
                else if \<not> down_ok then (up @ b, down)
                else relay_tls rs (up @ b, down @ d)
            | NotYet \<Rightarrow> relay_tls rs (up @ b, down))
      | NotYet \<Rightarrow>
          (case sr of
             IoFailed \<Rightarrow> (up, down)
           | Got d \<Rightarrow>
               if d = [] then (up, down)
               else if \<not> down_ok then (up, down)
               else relay_tls rs (up, down @ d)
           | NotYet \<Rightarrow> relay_tls rs (up, down)))"

section \<open>The handler\<close>

definition tunnel_handle ::
    "crypto \<Rightarrow> u64 option \<Rightarrow> bytes \<Rightarrow> tunnel_config \<Rightarrow> segs option \<Rightarrow> bytes \<Rightarrow> bytes \<Rightarrow> (tunnel_error, bytes list) outcome" where
  "tunnel_handle cr clock secret cfg tls greet req =
     (if length greet < 2 \<or> fill 258 greet ! 0 \<noteq> 5 then Err NotSocks
      else
        outcome_bind (tunnel_request req) (\<lambda>(host, p, _).
        outcome_bind (connect_orcax cr clock secret cfg tls) (\<lambda>(auth, _).
          Ok [auth, encode (stream_open 1 (socks_target host p))])))"

section \<open>Lemmas\<close>

lemma tunnel_state_code: "tunnel_state_of (t\<lparr>t_state := state_code s\<rparr>) = s"
  by (cases s) (simp_all add: tunnel_state_of_def state_code_def)

text \<open>A failed bind leaves the tunnel \<open>Connecting\<close> and running.\<close>

lemma tunnel_start_bind_failed:
  "tunnel_start False es t = (Err BindFailed, t') \<Longrightarrow> tunnel_state_of t' = Connecting \<and> t_running t'"
  by (auto simp: tunnel_start_def Let_def tunnel_state_of_def state_code_def)

text \<open>After \<open>stop\<close> the loop still waits, and serves the next connection before it returns.\<close>

lemma accept_after_stop:
  "accept_wait [StopCalled] t served = (tunnel_stop t, served, False)"
  "accept_wait [StopCalled, Accepted c] t served = ((tunnel_stop t)\<lparr>t_state := state_code Disconnected\<rparr>, served @ [c], True)"
  by (simp_all add: tunnel_stop_def)

text \<open>The relay sends every byte it reads, in order, in both directions, up to the round in which it stops.\<close>

fun got :: "io_read \<Rightarrow> bytes" where
  "got (Got b) = b"
| "got _ = []"

definition sent_up :: "(io_read \<times> bool \<times> io_read \<times> bool) list \<Rightarrow> bytes" where
  "sent_up rs = concat (map (\<lambda>r. got (fst r)) rs)"

definition sent_down :: "(io_read \<times> bool \<times> io_read \<times> bool) list \<Rightarrow> bytes" where
  "sent_down rs = concat (map (\<lambda>r. got (fst (snd (snd r)))) rs)"

lemma relay_prefix:
  "\<exists>k m. relay_tls rs (up, down) = (up @ sent_up (take k rs), down @ sent_down (take m rs)) \<and> m \<le> k \<and> k \<le> Suc m"
proof (induction rs arbitrary: up down)
  case (Cons r rs)
  obtain c u s d where r: "r = (c, u, s, d)" by (cases r) auto
  have go: ?case if "relay_tls (r # rs) (up, down) = relay_tls rs (up @ got c, down @ got s)"
  proof -
    obtain k m where "relay_tls rs (up @ got c, down @ got s) = ((up @ got c) @ sent_up (take k rs), (down @ got s) @ sent_down (take m rs))"
      "m \<le> k" "k \<le> Suc m"
      using Cons by blast
    with that show ?thesis
      by (intro exI [of "\<lambda>k. \<exists>m. P k m" "Suc k" for P], intro exI [of _ "Suc m"]) (simp add: r sent_up_def sent_down_def)
  qed
  have half: ?case if "relay_tls (r # rs) (up, down) = (up @ got c, down)"
    using that by (intro exI [of "\<lambda>k. \<exists>m. P k m" "Suc 0" for P], intro exI [of _ 0]) (simp add: r sent_up_def sent_down_def)
  have stop: ?case if "relay_tls (r # rs) (up, down) = (up, down)"
    using that by (intro exI [of _ 0]) (simp add: sent_up_def sent_down_def)
  show ?case
    using go half stop by (cases c; cases s) (auto simp: r split: if_splits)
qed (auto simp: sent_up_def sent_down_def)

text \<open>The request is read as the other handlers read it.\<close>

lemma tunnel_request_connect:
  "parse_connect r = Ok (h, p) \<Longrightarrow> fill 263 r ! 0 = 5 \<Longrightarrow> \<exists>n. tunnel_request r = Ok (h, p, n)"
  by (auto simp: parse_connect_def tunnel_request_def Let_def outcome_bind_Ok_iff ok_or_Ok_iff at_def sub_def split: if_splits)

section \<open>Properties\<close>

text \<open>
  C23: the tunnel of the client library cannot authenticate. The message that
  \<open>client_encrypt_uuid\<close> returns is 40 bytes long and is copied into a slice of 16 bytes, so for
  every SOCKS5 request for an IPv4 address or a domain name the handler panics as soon as the TLS
  connection to the server is up, whatever the server answers.
\<close>

theorem tunnel_panics:
  assumes "hkdf_ok cr" "chacha_ok cr" "x25519_ok cr" "length (tc_uuid cfg) = 16"
    and "wf_target \<lparr>addr = a, port = p\<rparr>" "case a of IPv6 _ \<Rightarrow> False | _ \<Rightarrow> True"
  shows "tunnel_handle cr (Some t) secret cfg (Some s) (greeting ms) (connect_msg a p) = Panic"
proof -
  obtain eph enc where e: "client_encrypt_uuid cr (Some t) secret (tc_server_pubkey cfg) (tc_uuid cfg) = Ok (eph, enc)"
    using client_encrypt_total [OF assms(1)] by (metis surj_pair)
  obtain c tag where "eph = x_pub cr secret" "enc = c @ tag" "length c = 24" "length tag = 16"
    by (rule client_encrypt_Ok [OF assms(1,2,4) e])
  then have "length eph = 32" "length enc = 40" using assms(3) by (simp_all add: x25519_ok_def)
  with e have m: "tunnel_auth_message cr (Some t) secret cfg = Panic"
    by (simp add: tunnel_auth_message_def copy_into_def)
  have "parse_connect (connect_msg a p) = Ok (host_of a, p)"
    using parse_connect_msg [OF assms(5)] assms(6) by (cases a) auto
  moreover have "fill 263 (connect_msg a p) ! 0 = 5" by (simp add: connect_msg_def fill_def)
  ultimately obtain n where "tunnel_request (connect_msg a p) = Ok (host_of a, p, n)"
    using tunnel_request_connect by blast
  with m show ?thesis
    by (auto simp: tunnel_handle_def connect_orcax_def greeting_def fill_def)
qed

theorem tunnel_panics_witness:
  "tunnel_handle plain_crypto (Some 1000) [1]
     \<lparr>tc_server_addr = [], tc_server_pubkey = replicate 32 0, tc_uuid = replicate 16 5, tc_sni = [], tc_socks_addr = [], tc_short_id = []\<rparr>
     (Some [replicate 33 0]) (greeting [0]) (connect_msg (IPv4 (Ipv4Addr 8 8 8 8)) 80) = Panic"
  by (rule tunnel_panics [OF plain_crypto_ok(2,3,1)]) (simp_all add: wf_target_def)

end
