(* ===== verification/Brutal.thy ===== *)
theory Brutal
  imports Prelude Complex_Main "HOL-Library.Log_Nat"
begin

text \<open>
  \<open>orcax/client/src/brutal.rs\<close>: the congestion controller. Its windows are computed in \<open>f64\<close>.
  The finite non-negative doubles that occur are modelled as an integer times a power of two,
  with rounding to 53 bits, ties to even, and the saturating conversion to \<open>u64\<close>; the products
  stay far below the largest double, so there is no overflow. The measured round trip time
  arrives as the double that \<open>RttEstimator::get().as_secs_f64()\<close> returns.
\<close>

section \<open>Doubles\<close>

datatype f64 = F64 (mant: nat) (expo: int)

definition round_shift :: "nat \<Rightarrow> nat \<Rightarrow> nat" where
  "round_shift k m =
     (let q = m div 2 ^ k; r = m mod 2 ^ k in
      if 2 * r > 2 ^ k \<or> (2 * r = 2 ^ k \<and> odd q) then q + 1 else q)"

definition f64_round :: "nat \<Rightarrow> int \<Rightarrow> f64" where
  "f64_round m e = (let k = floorlog 2 m - 53 in if k = 0 then F64 m e else F64 (round_shift k m) (e + int k))"

definition f64_of_u64 :: "u64 \<Rightarrow> f64" where
  "f64_of_u64 w = f64_round (unat w) 0"

definition f64_mul :: "f64 \<Rightarrow> f64 \<Rightarrow> f64" where
  "f64_mul a b = f64_round (mant a * mant b) (expo a + expo b)"

text \<open>Comparison on a common exponent; \<open>max\<close>.\<close>

definition f64_le :: "f64 \<Rightarrow> f64 \<Rightarrow> bool" where
  "f64_le a b \<longleftrightarrow>
     (let e = min (expo a) (expo b) in mant a * 2 ^ nat (expo a - e) \<le> mant b * 2 ^ nat (expo b - e))"

definition f64_max :: "f64 \<Rightarrow> f64 \<Rightarrow> f64" where
  "f64_max a b = (if f64_le a b then b else a)"

text \<open>\<open>as u64\<close>: towards zero, at most the largest value.\<close>

definition f64_trunc :: "f64 \<Rightarrow> nat" where
  "f64_trunc x = (if expo x \<ge> 0 then mant x * 2 ^ nat (expo x) else mant x div 2 ^ nat (- expo x))"

definition f64_to_u64 :: "f64 \<Rightarrow> u64" where
  "f64_to_u64 x = of_nat (min (f64_trunc x) (2 ^ 64 - 1))"

text \<open>The literals \<open>0.01\<close> and \<open>1.05\<close>.\<close>

definition f64_0_01 :: f64 where "f64_0_01 = F64 5764607523034235 (-59)"
definition f64_1_05 :: f64 where "f64_1_05 = F64 4728779608739021 (-52)"

section \<open>The controller\<close>

definition DEFAULT_TARGET_RATE :: u64 where "DEFAULT_TARGET_RATE = 12500000"

record brutal =
  target_rate :: u64
  cwnd :: u64
  mtu :: u64

definition brutal_new :: "u64 \<Rightarrow> brutal" where
  "brutal_new rate = \<lparr>target_rate = rate, cwnd = rate, mtu = 1200\<rparr>"

definition on_sent :: "u64 \<Rightarrow> brutal \<Rightarrow> brutal" where
  "on_sent bytes b = b"

definition on_ack :: "f64 \<Rightarrow> brutal \<Rightarrow> brutal" where
  "on_ack rtt b =
     (let rtt_secs = f64_max rtt f64_0_01;
          w = f64_to_u64 (f64_mul (f64_of_u64 (target_rate b)) rtt_secs)
      in b\<lparr>cwnd := max w (mtu b * 2)\<rparr>)"

definition on_end_acks :: "brutal \<Rightarrow> brutal" where
  "on_end_acks b = b"

definition on_congestion_event :: "u64 \<Rightarrow> brutal \<Rightarrow> brutal" where
  "on_congestion_event lost_bytes b =
     (if lost_bytes > 0 then b\<lparr>cwnd := f64_to_u64 (f64_mul (f64_of_u64 (cwnd b)) f64_1_05)\<rparr> else b)"

definition on_mtu_update :: "u16 \<Rightarrow> brutal \<Rightarrow> brutal" where
  "on_mtu_update new_mtu b = b\<lparr>mtu := ucast new_mtu\<rparr>"

definition window :: "brutal \<Rightarrow> u64" where
  "window b = cwnd b"

definition initial_window :: "brutal \<Rightarrow> u64" where
  "initial_window b = target_rate b"

text \<open>\<open>BrutalFactory\<close> is its target rate.\<close>

definition factory_build :: "u64 \<Rightarrow> u16 \<Rightarrow> brutal" where
  "factory_build rate current_mtu = brutal_new rate"

section \<open>Rounding\<close>

definition f64_val :: "f64 \<Rightarrow> real" where
  "f64_val x = real (mant x) * 2 powi expo x"

lemma round_shift_error:
  assumes "0 < k"
  shows "real m - 2 ^ (k - 1) \<le> real (round_shift k m) * 2 ^ k" "real (round_shift k m) * 2 ^ k \<le> real m + 2 ^ (k - 1)"
proof -
  define q r where "q = m div 2 ^ k" and "r = m mod 2 ^ k"
  have "m = q * 2 ^ k + r" unfolding q_def r_def by (rule div_mult_mod_eq [symmetric])
  then have "real m = real (q * 2 ^ k + r)" by (simp only:)
  then have m: "real m = real q * 2 ^ k + real r" by simp
  have h: "(2 :: real) ^ k = 2 * 2 ^ (k - 1)" using assms by (cases k) auto
  have up: "2 * real r \<ge> 2 ^ k" if "2 * r > 2 ^ k \<or> 2 * r = 2 ^ k"
  proof -
    have "real (2 ^ k) \<le> real (2 * r)" using that by (intro of_nat_mono) auto
    then show ?thesis by simp
  qed
  have dn: "2 * real r \<le> 2 ^ k" if "\<not> 2 * r > 2 ^ k"
  proof -
    have "real (2 * r) \<le> real (2 ^ k)" using that by (intro of_nat_mono) auto
    then show ?thesis by simp
  qed
  have "real r \<le> real (2 ^ k)" by (intro of_nat_mono) (simp add: r_def less_imp_le)
  then have r: "real r \<le> 2 ^ k" by simp
  have s: "round_shift k m = (if 2 * r > 2 ^ k \<or> (2 * r = 2 ^ k \<and> odd q) then q + 1 else q)"
    by (simp add: round_shift_def q_def r_def Let_def)
  show "real m - 2 ^ (k - 1) \<le> real (round_shift k m) * 2 ^ k" "real (round_shift k m) * 2 ^ k \<le> real m + 2 ^ (k - 1)"
    using up dn r h m unfolding s by (auto simp: algebra_simps)
qed

text \<open>The relative error of one rounding is at most \<open>2 ^ -53\<close>.\<close>

definition eps :: real where "eps = 1 / 2 ^ 53"

lemma eps_bounds: "0 \<le> eps" "eps \<le> 1"
  by (simp_all add: eps_def)

lemma f64_round_error:
  "f64_val (f64_round m e) \<ge> real m * 2 powi e * (1 - eps)"
  "f64_val (f64_round m e) \<le> real m * 2 powi e * (1 + eps)"
proof -
  define k where "k = floorlog 2 m - 53"
  have p: "(0 :: real) < 2 powi e" by simp
  have "f64_val (f64_round m e) \<ge> real m * 2 powi e * (1 - eps) \<and> f64_val (f64_round m e) \<le> real m * 2 powi e * (1 + eps)"
  proof (cases "k = 0")
    case True
    then have v: "f64_val (f64_round m e) = real m * 2 powi e"
      by (simp add: f64_round_def f64_val_def k_def)
    have "real m * 2 powi e * (1 - eps) \<le> real m * 2 powi e * 1" "real m * 2 powi e * 1 \<le> real m * 2 powi e * (1 + eps)"
      using eps_bounds by (intro mult_left_mono; simp)+
    then show ?thesis unfolding v by simp
  next
    case False
    then have "0 < m" by (cases m) (simp_all add: k_def floorlog_def)
    then have "2 ^ (floorlog 2 m - 1) \<le> m" using floorlog_bounds [of m 2] by simp
    moreover have "floorlog 2 m - 1 = 53 + (k - 1)" using False by (simp add: k_def)
    ultimately have "2 ^ (53 + (k - 1)) \<le> m" by simp
    then have "real (2 ^ (53 + (k - 1))) \<le> real m" by (simp only: of_nat_le_iff)
    then have h: "2 ^ (k - 1) \<le> real m * eps" by (simp add: eps_def power_add field_simps)
    define v where "v = real (round_shift k m) * 2 ^ k"
    have "0 < k" using False by simp
    note e = round_shift_error [OF this, of m, folded v_def]
    have "f64_val (f64_round m e) = v * 2 powi e"
      using False by (simp add: f64_round_def f64_val_def k_def [symmetric] Let_def v_def power_int_add)
    moreover have "v \<ge> real m * (1 - eps)" "v \<le> real m * (1 + eps)" using e h by (simp_all add: algebra_simps)
    ultimately show ?thesis using p by (simp add: mult.assoc mult.left_commute [of "real m"] mult.commute [of v] mult_left_mono)
  qed
  then show "f64_val (f64_round m e) \<ge> real m * 2 powi e * (1 - eps)"
    "f64_val (f64_round m e) \<le> real m * 2 powi e * (1 + eps)" by simp_all
qed

lemma f64_trunc_bounds: "real (f64_trunc x) \<le> f64_val x" "f64_val x < real (f64_trunc x) + 1"
proof -
  have "real (f64_trunc x) \<le> f64_val x \<and> f64_val x < real (f64_trunc x) + 1"
  proof (cases "expo x \<ge> 0")
    case True
    then show ?thesis by (simp add: f64_trunc_def f64_val_def power_int_def)
  next
    case False
    define j where "j = nat (- expo x)"
    have v: "f64_val x = real (mant x) / 2 ^ j"
      using False by (simp add: f64_val_def power_int_def j_def field_simps)
    have t: "f64_trunc x = mant x div 2 ^ j" using False by (simp add: f64_trunc_def j_def)
    have "real (mant x div 2 ^ j) = of_int \<lfloor>real (mant x) / 2 ^ j\<rfloor>"
      using floor_divide_of_nat_eq [of "mant x" "2 ^ j", where ?'a = real] by simp
    then show ?thesis unfolding v t by linarith
  qed
  then show "real (f64_trunc x) \<le> f64_val x" "f64_val x < real (f64_trunc x) + 1" by simp_all
qed

lemma f64_mul_of_u64:
  "f64_val (f64_mul (f64_of_u64 w) x) \<ge> real (unat w) * f64_val x * (1 - eps) ^ 2"
  "f64_val (f64_mul (f64_of_u64 w) x) \<le> real (unat w) * f64_val x * (1 + eps) ^ 2"
proof -
  let ?a = "f64_of_u64 w"
  have x: "0 \<le> f64_val x" by (simp add: f64_val_def)
  have prod: "real (mant ?a * mant x) * 2 powi (expo ?a + expo x) = f64_val ?a * f64_val x"
    by (simp add: f64_val_def power_int_add)
  have a: "f64_val ?a \<ge> real (unat w) * (1 - eps)" "f64_val ?a \<le> real (unat w) * (1 + eps)"
    using f64_round_error [of "unat w" 0] by (simp_all add: f64_of_u64_def)
  have "f64_val (f64_mul ?a x) \<ge> f64_val ?a * f64_val x * (1 - eps)" "f64_val (f64_mul ?a x) \<le> f64_val ?a * f64_val x * (1 + eps)"
    using f64_round_error [of "mant ?a * mant x" "expo ?a + expo x"] unfolding prod f64_mul_def by simp_all
  moreover have "f64_val ?a * f64_val x * (1 - eps) \<ge> real (unat w) * (1 - eps) * f64_val x * (1 - eps)"
    "f64_val ?a * f64_val x * (1 + eps) \<le> real (unat w) * (1 + eps) * f64_val x * (1 + eps)"
    using a x eps_bounds by (intro mult_right_mono; simp)+
  ultimately show "f64_val (f64_mul ?a x) \<ge> real (unat w) * f64_val x * (1 - eps) ^ 2"
    "f64_val (f64_mul ?a x) \<le> real (unat w) * f64_val x * (1 + eps) ^ 2"
    by (simp_all add: power2_eq_square algebra_simps)
qed

lemma f64_to_u64_unat: "unat (f64_to_u64 x) = min (f64_trunc x) (2 ^ 64 - 1)"
  by (simp add: f64_to_u64_def unat_of_nat)

lemma loss_factor: "1 \<le> f64_val f64_1_05 * (1 - eps) ^ 2" "f64_val f64_1_05 * (1 + eps) ^ 2 \<le> 53 / 50"
  by (simp_all add: eps_def f64_val_def f64_1_05_def power_int_def power2_eq_square field_simps)

lemma loss_window:
  defines "p w \<equiv> f64_mul (f64_of_u64 w) f64_1_05"
  shows "unat w \<le> unat (f64_to_u64 (p w))" "real (unat (f64_to_u64 (p w))) \<le> 53 / 50 * real (unat w)"
proof -
  have c0: "0 \<le> real (unat w)" by (rule of_nat_0_le_iff)
  have c64: "unat w \<le> 2 ^ 64 - 1" using unsigned_less [of w, where 'a = nat] by simp
  obtain n where n: "n = unat w" by simp
  note f = mult_left_mono [OF loss_factor(1) c0] mult_left_mono [OF loss_factor(2) c0] f64_mul_of_u64 [of w f64_1_05]
    f64_trunc_bounds [of "p w"]
  have "real n < real (f64_trunc (p w)) + 1" "real (f64_trunc (p w)) \<le> 53 / 50 * real n"
    using f unfolding p_def n [symmetric] mult.assoc by linarith+
  then have "n \<le> f64_trunc (p w)" by linarith
  then show "unat w \<le> unat (f64_to_u64 (p w))" using c64 n by (simp add: f64_to_u64_unat)
  have "real (unat (f64_to_u64 (p w))) \<le> real (f64_trunc (p w))" unfolding f64_to_u64_unat by simp
  with \<open>real (f64_trunc (p w)) \<le> 53 / 50 * real n\<close> show "real (unat (f64_to_u64 (p w))) \<le> 53 / 50 * real (unat w)"
    unfolding n by linarith
qed

section \<open>Properties\<close>

text \<open>
  C38: the controller's window. A loss never shrinks the window and grows it by at most six percent
  (and to no more than the largest \<open>u64\<close>); an acknowledgement sets it, whatever it was, to the
  target rate times the round trip time (of at least ten milliseconds) up to the rounding of the
  doubles, but never below two packets.
\<close>

theorem brutal_window:
  assumes "unat (mtu b) < 65536" "x = real (unat (target_rate b)) * f64_val (f64_max rtt f64_0_01)" "x \<le> 2 ^ 63"
    and "lost > 0"
  shows "unat (cwnd b) \<le> unat (cwnd (on_congestion_event lost b))
    \<and> real (unat (cwnd (on_congestion_event lost b))) \<le> 53 / 50 * real (unat (cwnd b))
    \<and> 2 * unat (mtu b) \<le> unat (cwnd (on_ack rtt b))
    \<and> x * (1 - eps) ^ 2 - 1 < real (unat (cwnd (on_ack rtt b)))
    \<and> real (unat (cwnd (on_ack rtt b))) \<le> max (x * (1 + eps) ^ 2) (2 * real (unat (mtu b)))
    \<and> on_ack rtt (b\<lparr>cwnd := w\<rparr>) = on_ack rtt b"
proof -
  note loss = loss_window [of "cwnd b"]
  let ?q = "f64_mul (f64_of_u64 (target_rate b)) (f64_max rtt f64_0_01)"
  have q: "x * (1 - eps) ^ 2 \<le> f64_val ?q" "f64_val ?q \<le> x * (1 + eps) ^ 2"
    using f64_mul_of_u64 [of "target_rate b" "f64_max rtt f64_0_01"] assms(2) by simp_all
  have "x * (1 + eps) ^ 2 \<le> 2 ^ 63 * (1 + eps) ^ 2" using assms(3) by (intro mult_right_mono) simp_all
  also have "\<dots> < 2 ^ 64 - 1" by (simp add: eps_def power2_eq_square field_simps)
  finally have "real (f64_trunc ?q) < real (2 ^ 64 - 1)" using f64_trunc_bounds(1) [of ?q] q(2) by simp
  then have w: "unat (f64_to_u64 ?q) = f64_trunc ?q" by (simp add: f64_to_u64_unat)
  have m2: "unat (mtu b * 2) = 2 * unat (mtu b)" using assms(1) by (simp add: unat_word_ariths)
  have ack: "unat (cwnd (on_ack rtt b)) = max (f64_trunc ?q) (2 * unat (mtu b))"
    by (simp add: on_ack_def Let_def max_def word_le_nat_alt w m2)
  have "on_ack rtt (b\<lparr>cwnd := w\<rparr>) = on_ack rtt b" for w by (simp add: on_ack_def)
  moreover have "x * (1 - eps) ^ 2 - 1 < real (max (f64_trunc ?q) (2 * unat (mtu b)))"
    "real (max (f64_trunc ?q) (2 * unat (mtu b))) \<le> max (x * (1 + eps) ^ 2) (2 * real (unat (mtu b)))"
    using q f64_trunc_bounds [of ?q] by linarith+
  ultimately show ?thesis using loss assms(4) unfolding ack by (simp add: on_congestion_event_def)
qed

theorem brutal_window_witness:
  "2400 \<le> unat (cwnd (on_ack (F64 1 (-4)) (brutal_new DEFAULT_TARGET_RATE)))
   \<and> unat (cwnd (brutal_new DEFAULT_TARGET_RATE)) \<le> unat (cwnd (on_congestion_event 1 (brutal_new DEFAULT_TARGET_RATE)))"
proof -
  let ?b = "brutal_new DEFAULT_TARGET_RATE"
  have m: "unat (mtu ?b) = 1200" by (simp add: brutal_new_def)
  have r: "f64_val (f64_max (F64 1 (-4)) f64_0_01) \<le> 1"
    by (simp add: f64_max_def f64_le_def f64_val_def f64_0_01_def power_int_def Let_def power_divide)
  have "real (unat (target_rate ?b)) = 12500000" by (simp add: brutal_new_def DEFAULT_TARGET_RATE_def)
  then have "real (unat (target_rate ?b)) * f64_val (f64_max (F64 1 (-4)) f64_0_01) \<le> 2 ^ 63" using r by simp
  from brutal_window [OF _ refl this, of 1] m show ?thesis by simp
qed

end
