(* ===== verification/Rustls_Codec.thy ===== *)
theory Rustls_Codec
  imports Prelude
begin

text \<open>
  \<open>orcax/rustls-fork/rustls/src/msgs/codec.rs\<close> and \<open>base.rs\<close>: the cursor over a received
  message, the encodings of the fixed-width integers, and the length-prefixed lists and payloads
  of TLS.

  A decoder is a function from a \<open>reader\<close> to a value and the advanced reader; an encoder appends
  to the output vector it is given. The interface \<open>codec\<close> states what every \<open>impl Codec\<close> of the
  crate has to satisfy. Lists are proved once inside it, for every element type.
\<close>

named_theorems codec_intros

section \<open>Errors\<close>

datatype key_exchange_algorithm = ECDHE

datatype (plugins only: code size) invalid_message =
    HandshakePayloadTooLarge
  | InvalidCcs
  | InvalidContentType
  | InvalidCertificateStatusType
  | InvalidCertRequest
  | InvalidDhParams
  | InvalidEmptyPayload
  | InvalidKeyUpdate
  | InvalidServerName
  | MessageTooLarge
  | MessageTooShort
  | MissingData string
  | MissingKeyExchange
  | NoSignatureSchemes
  | TrailingData string
  | UnexpectedMessage string
  | UnknownProtocolVersion
  | UnsupportedCompression
  | UnsupportedCurveType
  | UnsupportedKeyExchangeAlgorithm key_exchange_algorithm

section \<open>Reader\<close>

record reader =
  rbuf :: bytes
  cursor :: nat

definition reader_init :: "bytes \<Rightarrow> reader" where
  "reader_init bs = \<lparr>rbuf = bs, cursor = 0\<rparr>"

definition r_left :: "reader \<Rightarrow> nat" where
  "r_left r = length (rbuf r) - cursor r"

definition r_take :: "nat \<Rightarrow> reader \<Rightarrow> bytes option \<times> reader" where
  "r_take n r =
     (if r_left r < n then (None, r)
      else (Some (slice (cursor r) (cursor r + n) (rbuf r)), r\<lparr>cursor := cursor r + n\<rparr>))"

definition r_sub :: "nat \<Rightarrow> reader \<Rightarrow> (invalid_message, reader \<times> reader) outcome" where
  "r_sub n r =
     (case r_take n r of
        (Some bs, r') \<Rightarrow> Ok (reader_init bs, r')
      | (None, _) \<Rightarrow> Err MessageTooShort)"

definition r_rest :: "reader \<Rightarrow> bytes \<times> reader" where
  "r_rest r = (drop (cursor r) (rbuf r), r\<lparr>cursor := length (rbuf r)\<rparr>)"

definition any_left :: "reader \<Rightarrow> bool" where
  "any_left r \<longleftrightarrow> cursor r < length (rbuf r)"

definition expect_empty :: "string \<Rightarrow> reader \<Rightarrow> (invalid_message, unit) outcome" where
  "expect_empty name r = (if any_left r then Err (TrailingData name) else Ok ())"

definition r_used :: "reader \<Rightarrow> nat" where
  "r_used r = cursor r"

text \<open>
  The recurring shape \<open>let mut sub = r.sub(n)?; ... sub ...\<close>: a part of the input is decoded by
  \<open>q\<close> on its own reader, which is dropped.
\<close>

definition in_sub ::
    "nat \<Rightarrow> (reader \<Rightarrow> (invalid_message, 'a) outcome) \<Rightarrow> reader \<Rightarrow> (invalid_message, 'a \<times> reader) outcome" where
  "in_sub n q r =
     outcome_bind (r_sub n r) (\<lambda>(sr, r).
     outcome_bind (q sr) (\<lambda>v. Ok (v, r)))"

type_synonym 'a rd = "reader \<Rightarrow> (invalid_message, 'a \<times> reader) outcome"

text \<open>\<open>read_bytes\<close>: decode from a fresh reader over a slice.\<close>

definition read_bytes_with :: "'a rd \<Rightarrow> bytes \<Rightarrow> (invalid_message, 'a) outcome" where
  "read_bytes_with rd bs = outcome_bind (rd (reader_init bs)) (\<lambda>(v, _). Ok v)"

text \<open>Decode with \<open>p\<close> and insist that nothing is left: \<open>sub.expect_empty(name).map(|_| v)\<close>.\<close>

definition all_of :: "string \<Rightarrow> 'a rd \<Rightarrow> reader \<Rightarrow> (invalid_message, 'a) outcome" where
  "all_of name p sr =
     outcome_bind (p sr) (\<lambda>(v, sr).
     outcome_bind (expect_empty name sr) (\<lambda>_. Ok v))"

section \<open>Integers\<close>

definition u8_encode :: "u8 \<Rightarrow> bytes \<Rightarrow> bytes" where
  "u8_encode v out = out @ [v]"

definition u8_read :: "u8 rd" where
  "u8_read r = (case r_take 1 r of (Some [b], r') \<Rightarrow> Ok (b, r') | _ \<Rightarrow> Err (MissingData ''u8''))"

definition u16_encode :: "u16 \<Rightarrow> bytes \<Rightarrow> bytes" where
  "u16_encode v out = out @ be16 v"

definition u16_read :: "u16 rd" where
  "u16_read r =
     (case r_take 2 r of (Some [a, b], r') \<Rightarrow> Ok (from_be16 a b, r') | _ \<Rightarrow> Err (MissingData ''u8''))"

datatype u24 = U24 u32

definition u24_usize :: "u24 \<Rightarrow> nat" where
  "u24_usize v = (case v of U24 w \<Rightarrow> unat w)"

definition u24_encode :: "u24 \<Rightarrow> bytes \<Rightarrow> bytes" where
  "u24_encode v out = (case v of U24 w \<Rightarrow> out @ drop 1 (be32 w))"

definition u24_read :: "u24 rd" where
  "u24_read r =
     (case r_take 3 r of
        (Some [a, b, c], r') \<Rightarrow> Ok (U24 (from_be32 0 a b c), r')
      | _ \<Rightarrow> Err (MissingData ''u24''))"

definition u32_encode :: "u32 \<Rightarrow> bytes \<Rightarrow> bytes" where
  "u32_encode v out = out @ be32 v"

definition u32_read :: "u32 rd" where
  "u32_read r =
     (case r_take 4 r of
        (Some [a, b, c, d], r') \<Rightarrow> Ok (from_be32 a b c d, r')
      | _ \<Rightarrow> Err (MissingData ''u32''))"

definition u64_encode :: "u64 \<Rightarrow> bytes \<Rightarrow> bytes" where
  "u64_encode v out = out @ be64 v"

definition u64_read :: "u64 rd" where
  "u64_read r =
     (case r_take 8 r of
        (Some [a, b, c, d, e, f, g, h], r') \<Rightarrow> Ok (from_be64 [a, b, c, d, e, f, g, h], r')
      | _ \<Rightarrow> Err (MissingData ''u64''))"

section \<open>Length-prefixed lists\<close>

datatype list_length = LenU8 | LenU16 | LenU24 (max_len: nat)

text \<open>
  \<open>LengthPrefixedBuffer\<close> writes a placeholder length, lets the caller append the body, and
  corrects the length when it is dropped. The length is cut to the width of the field there (the
  source only asserts in debug builds that it fits).
\<close>

definition lpb_new :: "list_length \<Rightarrow> bytes \<Rightarrow> bytes \<times> nat" where
  "lpb_new sz buf =
     (buf @ (case sz of LenU8 \<Rightarrow> [0xff] | LenU16 \<Rightarrow> [0xff, 0xff] | LenU24 _ \<Rightarrow> [0xff, 0xff, 0xff]),
      length buf)"

definition lpb_drop :: "list_length \<Rightarrow> nat \<Rightarrow> bytes \<Rightarrow> bytes" where
  "lpb_drop sz len_offset buf =
     (case sz of
        LenU8 \<Rightarrow> buf[len_offset := of_nat (length buf - len_offset - 1)]
      | LenU16 \<Rightarrow>
          take len_offset buf @ be16 (of_nat (length buf - len_offset - 2)) @ drop (len_offset + 2) buf
      | LenU24 _ \<Rightarrow>
          take len_offset buf @ drop 1 (be32 (of_nat (length buf - len_offset - 3))) @ drop (len_offset + 3) buf)"

text \<open>A nested encoding: the code between the creation of the buffer and its drop.\<close>

definition nested :: "list_length \<Rightarrow> (bytes \<Rightarrow> bytes) \<Rightarrow> bytes \<Rightarrow> bytes" where
  "nested sz body buf = (case lpb_new sz buf of (buf', off) \<Rightarrow> lpb_drop sz off (body buf'))"

definition vec_encode :: "list_length \<Rightarrow> ('a \<Rightarrow> bytes \<Rightarrow> bytes) \<Rightarrow> 'a list \<Rightarrow> bytes \<Rightarrow> bytes" where
  "vec_encode sz enc xs = nested sz (fold enc xs)"

definition read_len :: "list_length \<Rightarrow> nat rd" where
  "read_len sz r =
     (case sz of
        LenU8 \<Rightarrow> outcome_bind (u8_read r) (\<lambda>(v, r). Ok (unat v, r))
      | LenU16 \<Rightarrow> outcome_bind (u16_read r) (\<lambda>(v, r). Ok (unat v, r))
      | LenU24 mx \<Rightarrow> outcome_bind (u24_read r) (\<lambda>(v, r). Ok (min (u24_usize v) mx, r)))"

text \<open>
  The loop of \<open>Vec::read\<close>. An element decoder that succeeds without consuming anything would
  make the source loop for ever; the model answers \<open>Panic\<close> there, and the laws of \<open>codec\<close> exclude
  it for every element type.
\<close>

function vec_loop :: "'a rd \<Rightarrow> reader \<Rightarrow> 'a list \<Rightarrow> (invalid_message, 'a list) outcome" where
  "vec_loop rd sr ret =
     (if any_left sr then
        case rd sr of
          Ok (v, sr') \<Rightarrow> if r_left sr' < r_left sr then vec_loop rd sr' (ret @ [v]) else Panic
        | Err e \<Rightarrow> Err e
        | Panic \<Rightarrow> Panic
      else Ok ret)"
  by pat_completeness auto
termination
  by (relation "measure (\<lambda>(rd, sr, ret). r_left sr)") auto

declare vec_loop.simps [simp del]

definition vec_read :: "list_length \<Rightarrow> 'a rd \<Rightarrow> 'a list rd" where
  "vec_read sz rd r =
     outcome_bind (read_len sz r) (\<lambda>(len, r).
     in_sub len (\<lambda>sr. vec_loop rd sr []) r)"

section \<open>Payloads\<close>

definition payload_encode :: "bytes \<Rightarrow> bytes \<Rightarrow> bytes" where
  "payload_encode p out = out @ p"

definition payload_read :: "bytes rd" where
  "payload_read r = Ok (r_rest r)"

definition payload_u24_encode :: "bytes \<Rightarrow> bytes \<Rightarrow> bytes" where
  "payload_u24_encode p out = u24_encode (U24 (of_nat (length p))) out @ p"

definition payload_u24_read :: "bytes rd" where
  "payload_u24_read r =
     outcome_bind (u24_read r) (\<lambda>(len, r).
     in_sub (u24_usize len) (\<lambda>sr. Ok (fst (r_rest sr))) r)"

text \<open>The \<open>Codec\<close> of a certificate is the same code as that of \<open>PayloadU24\<close>.\<close>

definition certificate_der_encode :: "bytes \<Rightarrow> bytes \<Rightarrow> bytes" where
  "certificate_der_encode c out = u24_encode (U24 (of_nat (length c))) out @ c"

definition certificate_der_read :: "bytes rd" where
  "certificate_der_read r =
     outcome_bind (u24_read r) (\<lambda>(len, r).
     in_sub (u24_usize len) (\<lambda>sr. Ok (fst (r_rest sr))) r)"

definition payload_u16_encode :: "bytes \<Rightarrow> bytes \<Rightarrow> bytes" where
  "payload_u16_encode p out = u16_encode (of_nat (length p)) out @ p"

definition payload_u16_read :: "bytes rd" where
  "payload_u16_read r =
     outcome_bind (u16_read r) (\<lambda>(len, r).
     in_sub (unat len) (\<lambda>sr. Ok (fst (r_rest sr))) r)"

definition payload_u8_encode :: "bytes \<Rightarrow> bytes \<Rightarrow> bytes" where
  "payload_u8_encode p out = u8_encode (of_nat (length p)) out @ p"

definition payload_u8_read :: "bytes rd" where
  "payload_u8_read r =
     outcome_bind (u8_read r) (\<lambda>(len, r).
     in_sub (unat len) (\<lambda>sr. Ok (fst (r_rest sr))) r)"

section \<open>Reasoning about readers\<close>

text \<open>
  What is still to be read, and two judgements. \<open>reads w p bs v\<close>: on input that starts with \<open>bs\<close>
  the decoder \<open>p\<close> returns \<open>v\<close> and stops behind it; with \<open>w\<close> set, only if \<open>bs\<close> is all that is
  left. \<open>gives P p\<close>: \<open>p\<close> never panics, and a value it returns is related by \<open>P\<close> to the bytes it
  consumed.
\<close>

definition reader_inv :: "reader \<Rightarrow> bool" where
  "reader_inv r \<longleftrightarrow> cursor r \<le> length (rbuf r)"

definition rem :: "reader \<Rightarrow> bytes" where
  "rem r = drop (cursor r) (rbuf r)"

definition same_buf :: "reader \<Rightarrow> reader \<Rightarrow> bool" where
  "same_buf r r' \<longleftrightarrow> reader_inv r' \<and> rbuf r' = rbuf r"

definition reads :: "bool \<Rightarrow> (reader \<Rightarrow> ('e, 'a \<times> reader) outcome) \<Rightarrow> bytes \<Rightarrow> 'a \<Rightarrow> bool" where
  "reads w p bs v \<longleftrightarrow>
     (\<forall>r t. reader_inv r \<longrightarrow> rem r = bs @ t \<longrightarrow> (w \<longrightarrow> t = []) \<longrightarrow>
        (\<exists>r'. p r = Ok (v, r') \<and> reader_inv r' \<and> rem r' = t))"

definition gives :: "('a \<Rightarrow> bytes \<Rightarrow> bool) \<Rightarrow> (reader \<Rightarrow> ('e, 'a \<times> reader) outcome) \<Rightarrow> bool" where
  "gives P p \<longleftrightarrow>
     (\<forall>r. reader_inv r \<longrightarrow>
        (case p r of
           Ok (v, r') \<Rightarrow> same_buf r r' \<and> (\<exists>bs. rem r = bs @ rem r' \<and> P v bs)
         | Err _ \<Rightarrow> True
         | Panic \<Rightarrow> False))"

lemma reader_init_simps [simp]:
  "reader_inv (reader_init bs)" "rem (reader_init bs) = bs"
  by (simp_all add: reader_inv_def rem_def reader_init_def)

lemma any_left_rem: "any_left r \<longleftrightarrow> rem r \<noteq> []"
  by (auto simp: any_left_def rem_def)

lemma r_left_rem: "r_left r = length (rem r)"
  by (simp add: r_left_def rem_def)

lemma r_take_enough:
  assumes "reader_inv r" "rem r = bs @ t" "length bs = n"
  shows "\<exists>r'. r_take n r = (Some bs, r') \<and> reader_inv r' \<and> rem r' = t"
proof -
  have "\<not> r_left r < n" using assms(2,3) by (simp add: r_left_rem)
  moreover have "slice (cursor r) (cursor r + n) (rbuf r) = bs"
    using assms(2,3) by (simp add: slice_def rem_def)
  moreover have "drop (cursor r + n) (rbuf r) = t"
    using assms(2,3) by (simp add: rem_def add.commute drop_drop [symmetric])
  moreover have "cursor r + n \<le> length (rbuf r)"
    using assms by (auto simp: reader_inv_def rem_def dest!: arg_cong [of _ _ length])
  ultimately show ?thesis by (auto simp: r_take_def reader_inv_def rem_def)
qed

lemma r_take_Some:
  assumes "reader_inv r" "r_take n r = (Some bs, r')"
  shows "same_buf r r' \<and> rem r = bs @ rem r' \<and> length bs = n"
proof -
  have "rbuf r' = rbuf r" using assms(2) by (auto simp: r_take_def split: if_splits)
  have "n \<le> length (rem r)" using assms(2) by (auto simp: r_take_def r_left_rem split: if_splits)
  then obtain cs t where "rem r = cs @ t" "length cs = n"
    by (metis append_take_drop_id length_take min.absorb2)
  with r_take_enough [OF assms(1) this] assms(2) \<open>rbuf r' = rbuf r\<close> show ?thesis
    by (auto simp: same_buf_def)
qed

lemma same_bufD [dest]: "same_buf r r' \<Longrightarrow> reader_inv r' \<and> rbuf r' = rbuf r"
  by (simp add: same_buf_def)

lemma same_buf_refl [simp]: "reader_inv r \<Longrightarrow> same_buf r r"
  by (simp add: same_buf_def)

lemma same_buf_trans [trans]: "same_buf r r1 \<Longrightarrow> same_buf r1 r' \<Longrightarrow> same_buf r r'"
  by (simp add: same_buf_def)

text \<open>The position of a reader follows from what is left.\<close>

lemma same_buf_cursor: "same_buf (reader_init bs) r \<Longrightarrow> cursor r = length bs - length (rem r)"
  by (auto simp: same_buf_def reader_init_def rem_def reader_inv_def)

lemma readsI:
  "(\<And>r t. reader_inv r \<Longrightarrow> rem r = bs @ t \<Longrightarrow> (w \<Longrightarrow> t = []) \<Longrightarrow>
     \<exists>r'. p r = Ok (v, r') \<and> reader_inv r' \<and> rem r' = t) \<Longrightarrow> reads w p bs v"
  unfolding reads_def by blast

lemma readsD:
  "reads w p bs v \<Longrightarrow> reader_inv r \<Longrightarrow> rem r = bs @ t \<Longrightarrow> (w \<Longrightarrow> t = []) \<Longrightarrow>
     \<exists>r'. p r = Ok (v, r') \<and> reader_inv r' \<and> rem r' = t"
  unfolding reads_def by blast

lemma reads_weaken: "reads False p bs v \<Longrightarrow> reads w p bs v"
  unfolding reads_def by blast

lemma reads_Ok [codec_intros]: "bs = [] \<Longrightarrow> v = v' \<Longrightarrow> reads w (\<lambda>r. Ok (v, r)) bs v'"
  by (simp add: reads_def)

lemma reads_bind:
  assumes "reads False p bs v" "reads w (f v) cs u"
  shows "reads w (\<lambda>r. outcome_bind (p r) (\<lambda>(x, r). f x r)) (bs @ cs) u"
proof (rule readsI)
  fix r t assume r: "reader_inv r" "rem r = (bs @ cs) @ t" and w: "w \<Longrightarrow> t = []"
  from readsD [OF assms(1) r(1), of "cs @ t"] r(2) obtain r1 where
    "p r = Ok (v, r1)" "reader_inv r1" "rem r1 = cs @ t" by auto
  with readsD [OF assms(2), of r1 t] w
  show "\<exists>r'. outcome_bind (p r) (\<lambda>(x, r). f x r) = Ok (u, r') \<and> reader_inv r' \<and> rem r' = t" by simp
qed

lemma givesI:
  assumes "\<And>r. reader_inv r \<Longrightarrow> p r \<noteq> Panic"
    and "\<And>r v r'. reader_inv r \<Longrightarrow> p r = Ok (v, r') \<Longrightarrow> same_buf r r' \<and> (\<exists>bs. rem r = bs @ rem r' \<and> P v bs)"
  shows "gives P p"
  unfolding gives_def
proof (intro allI impI)
  fix r assume "reader_inv r"
  then show "case p r of Ok (v, r') \<Rightarrow> same_buf r r' \<and> (\<exists>bs. rem r = bs @ rem r' \<and> P v bs)
      | Err _ \<Rightarrow> True | Panic \<Rightarrow> False"
    using assms by (cases "p r") auto
qed

lemma gives_no_panic: "gives P p \<Longrightarrow> reader_inv r \<Longrightarrow> p r \<noteq> Panic"
  unfolding gives_def by (force split: outcome.splits)

lemma givesD:
  "gives P p \<Longrightarrow> reader_inv r \<Longrightarrow> p r = Ok (v, r') \<Longrightarrow>
     same_buf r r' \<and> (\<exists>bs. rem r = bs @ rem r' \<and> P v bs)"
  unfolding gives_def by (force split: outcome.splits)

lemma gives_mono: "gives P p \<Longrightarrow> (\<And>v bs. P v bs \<Longrightarrow> Q v bs) \<Longrightarrow> gives Q p"
  by (rule givesI) (blast dest: gives_no_panic givesD)+

lemma gives_Ok [codec_intros]: "P v [] \<Longrightarrow> gives P (\<lambda>r. Ok (v, r))"
  by (rule givesI) auto

lemma gives_Err [codec_intros]: "gives P (\<lambda>r. Err e)"
  by (rule givesI) auto

lemma gives_if [codec_intros]:
  "(b \<Longrightarrow> gives P p) \<Longrightarrow> (\<not> b \<Longrightarrow> gives P q) \<Longrightarrow> gives P (\<lambda>r. if b then p r else q r)"
  by (cases b) simp_all

lemma gives_bind:
  assumes "gives P p" "\<And>v bs. P v bs \<Longrightarrow> gives (\<lambda>u cs. Q u (bs @ cs)) (f v)"
  shows "gives Q (\<lambda>r. outcome_bind (p r) (\<lambda>(x, r). f x r))"
proof (rule givesI)
  fix r assume r: "reader_inv r"
  show "outcome_bind (p r) (\<lambda>(x, r). f x r) \<noteq> Panic"
  proof (cases "p r")
    case (Ok x)
    obtain v r1 where x: "x = (v, r1)" by fastforce
    with givesD [OF assms(1) r] Ok obtain bs where "reader_inv r1" "P v bs" by blast
    with assms(2) show ?thesis using gives_no_panic Ok x by (simp, blast)
  qed (use gives_no_panic [OF assms(1) r] in auto)
next
  fix r u r' assume r: "reader_inv r" and b: "outcome_bind (p r) (\<lambda>(x, r). f x r) = Ok (u, r')"
  then obtain v r1 where p: "p r = Ok (v, r1)" and f: "f v r1 = Ok (u, r')"
    by (auto simp: outcome_bind_Ok_iff)
  from givesD [OF assms(1) r p] obtain bs where bs: "reader_inv r1" "rem r = bs @ rem r1" "P v bs"
    and same: "same_buf r r1"
    by blast
  from givesD [OF assms(2) [OF bs(3)] bs(1) f] bs(2) same_buf_trans [OF same]
  show "same_buf r r' \<and> (\<exists>bs. rem r = bs @ rem r' \<and> Q u bs)" by force
qed

lemma reads_in_sub:
  assumes "q (reader_init bs) = Ok v" "length bs = n"
  shows "reads w (in_sub n q) bs v"
proof (rule readsI)
  fix r t assume "reader_inv r" "rem r = bs @ t"
  from r_take_enough [OF this assms(2)] assms(1)
  show "\<exists>r'. in_sub n q r = Ok (v, r') \<and> reader_inv r' \<and> rem r' = t"
    by (auto simp: in_sub_def r_sub_def)
qed

lemma gives_in_sub:
  assumes "\<And>bs. length bs = n \<Longrightarrow> q (reader_init bs) \<noteq> Panic"
    and "\<And>bs v. length bs = n \<Longrightarrow> q (reader_init bs) = Ok v \<Longrightarrow> P v bs"
  shows "gives P (in_sub n q)"
proof (rule givesI)
  fix r assume r: "reader_inv r"
  show "in_sub n q r \<noteq> Panic"
    using r_take_Some [OF r, of n] assms(1)
    by (auto simp: in_sub_def r_sub_def outcome_bind_Panic_iff split: prod.splits option.splits)
next
  fix r v r' assume r: "reader_inv r" and i: "in_sub n q r = Ok (v, r')"
  then obtain bs where "r_take n r = (Some bs, r')" "q (reader_init bs) = Ok v"
    by (auto simp: in_sub_def r_sub_def outcome_bind_Ok_iff split: prod.splits option.splits)
  with r_take_Some [OF r] assms(2) show "same_buf r r' \<and> (\<exists>bs. rem r = bs @ rem r' \<and> P v bs)"
    by blast
qed

lemma r_sub_reads:
  assumes "length bs = n"
  shows "reads w (r_sub n) bs (reader_init bs)"
proof (rule readsI)
  fix r t assume "reader_inv r" "rem r = bs @ t"
  from r_take_enough [OF this assms]
  show "\<exists>r'. r_sub n r = Ok (reader_init bs, r') \<and> reader_inv r' \<and> rem r' = t"
    by (auto simp: r_sub_def)
qed

lemma r_sub_gives: "gives (\<lambda>sr bs. sr = reader_init bs \<and> length bs = n) (r_sub n)"
proof (rule givesI)
  show "r_sub n r \<noteq> Panic" for r by (simp add: r_sub_def split: prod.splits option.splits)
  fix r sr r' assume r: "reader_inv r" and s: "r_sub n r = Ok (sr, r')"
  then obtain bs where "r_take n r = (Some bs, r')" "sr = reader_init bs"
    by (auto simp: r_sub_def split: prod.splits option.splits)
  with r_take_Some [OF r] show "same_buf r r' \<and> (\<exists>bs. rem r = bs @ rem r' \<and> sr = reader_init bs \<and> length bs = n)"
    by blast
qed

lemma all_of_reads: "reads True p bs v \<Longrightarrow> all_of name p (reader_init bs) = Ok v"
  using readsD [of True p bs v "reader_init bs" "[]"]
  by (auto simp: all_of_def expect_empty_def any_left_rem)

lemma all_of_gives:
  assumes "gives P p"
  shows "all_of name p (reader_init bs) \<noteq> Panic"
    and "all_of name p (reader_init bs) = Ok v \<Longrightarrow> P v bs"
proof -
  show "all_of name p (reader_init bs) \<noteq> Panic"
    using gives_no_panic [OF assms, of "reader_init bs"]
    by (auto simp: all_of_def expect_empty_def outcome_bind_Panic_iff)
  assume "all_of name p (reader_init bs) = Ok v"
  then obtain r where "p (reader_init bs) = Ok (v, r)" "\<not> any_left r"
    by (auto simp: all_of_def expect_empty_def outcome_bind_Ok_iff split: if_splits)
  with givesD [OF assms, of "reader_init bs" v r] show "P v bs" by (auto simp: any_left_rem)
qed

text \<open>Only the error changes under \<open>map_err\<close>.\<close>

definition map_err :: "('e \<Rightarrow> 'f) \<Rightarrow> ('e, 'a) outcome \<Rightarrow> ('f, 'a) outcome" where
  "map_err f m = (case m of Ok v \<Rightarrow> Ok v | Err e \<Rightarrow> Err (f e) | Panic \<Rightarrow> Panic)"

lemma map_err_simps [simp]:
  "map_err f (Ok v) = Ok v" "map_err f (Err e) = Err (f e)" "map_err f Panic = Panic"
  by (simp_all add: map_err_def)

lemma map_err_Ok_iff [simp]: "map_err f m = Ok v \<longleftrightarrow> m = Ok v"
  by (cases m) simp_all

lemma map_err_Panic_iff [simp]: "map_err f m = Panic \<longleftrightarrow> m = Panic"
  by (cases m) simp_all

lemma reads_map_err: "reads w p bs v \<Longrightarrow> reads w (\<lambda>r. map_err f (p r)) bs v"
  by (simp add: reads_def)

lemma gives_map_err: "gives P p \<Longrightarrow> gives P (\<lambda>r. map_err f (p r))"
  by (rule givesI) (auto dest: gives_no_panic givesD)

section \<open>The integer decoders\<close>

lemma reads_take:
  assumes "length bs = n" "\<And>r r'. r_take n r = (Some bs, r') \<Longrightarrow> p r = Ok (v, r')"
  shows "reads w p bs v"
  by (rule readsI) (use r_take_enough [OF _ _ assms(1)] assms(2) in blast)

lemma gives_take:
  assumes "\<And>r. p r \<noteq> Panic"
    and "\<And>r v r'. p r = Ok (v, r') \<Longrightarrow> \<exists>bs n. r_take n r = (Some bs, r') \<and> P v bs"
  shows "gives P p"
  by (rule givesI) (use assms r_take_Some in blast)+

lemma u8_reads: "reads w u8_read [v] v"
  by (rule reads_take [of _ 1]) (simp_all add: u8_read_def)

lemma u8_gives: "gives (\<lambda>v bs. bs = [v]) u8_read"
  by (rule gives_take) (auto simp: u8_read_def split: prod.splits option.splits list.splits)

lemma u16_reads: "reads w u16_read (be16 v) v"
  using from_be16_be16 [of v]
  by (intro reads_take [of _ 2]) (auto simp: u16_read_def be16_def)

lemma u16_gives: "gives (\<lambda>v bs. bs = be16 v) u16_read"
  by (rule gives_take) (auto simp: u16_read_def split: prod.splits option.splits list.splits)

lemma u32_reads: "reads w u32_read (be32 v) v"
  using from_be32_be32 [of v]
  by (intro reads_take [of _ 4]) (auto simp: u32_read_def be32_def)

lemma u32_gives: "gives (\<lambda>v bs. bs = be32 v) u32_read"
  by (rule gives_take) (auto simp: u32_read_def split: prod.splits option.splits list.splits)

lemma u64_reads: "reads w u64_read (be64 v) v"
  using from_be64_be64 [of v]
  by (intro reads_take [of _ 8]) (auto simp: u64_read_def be64_def be32_def)

lemma u64_gives: "gives (\<lambda>v bs. bs = be64 v) u64_read"
  by (rule gives_take)
    (auto simp: u64_read_def be64_from_be64 split: prod.splits option.splits list.splits)

lemma be_nonempty [simp]: "be16 a \<noteq> []" "be32 b \<noteq> []" "be64 c \<noteq> []"
  by (simp_all add: be16_def be32_def be64_def)

text \<open>A \<open>u24\<close> is kept in a \<open>u32\<close>; what the decoder returns has a zero top byte.\<close>

definition u24_wf :: "u24 \<Rightarrow> bool" where
  "u24_wf v \<longleftrightarrow> u24_usize v < 2 ^ 24"

definition be24 :: "nat \<Rightarrow> bytes" where
  "be24 n = drop 1 (be32 (of_nat n))"

lemma length_be24 [simp, wire_simps]: "length (be24 n) = 3"
  by (simp add: be24_def)

lemma top_byte_zero:
  assumes "unat (w :: u32) < 2 ^ 24"
  shows "ucast (drop_bit 24 w) = (0 :: u8)"
proof (rule bit_word_eqI)
  fix n
  have "unat (take_bit 24 w) = unat w"
    using assms by (simp add: unsigned_take_bit_eq take_bit_nat_eq_self)
  then have "w = take_bit 24 w" by (metis word_unat_eq_iff)
  then have "\<not> bit w (24 + n)" by (metis bit_take_bit_iff not_add_less1)
  then show "bit (ucast (drop_bit 24 w) :: u8) n = bit (0 :: u8) n" by (simp add: bit_simps)
qed

lemma from_be32_zero_less: "unat (from_be32 0 a b c) < 2 ^ 24"
proof -
  have "take_bit 24 (from_be32 0 a b c) = from_be32 0 a b c"
    by (rule bit_word_eqI) (auto simp: from_be32_def bit_simps dest: bit_imp_le_length)
  then have "unat (from_be32 0 a b c) = take_bit 24 (unat (from_be32 0 a b c))"
    by (metis unsigned_take_bit_eq)
  then show ?thesis by (metis take_bit_nat_less_exp)
qed

lemma u24_reads: "u24_wf v \<Longrightarrow> reads w u24_read (u24_encode v []) v"
proof -
  assume wf: "u24_wf v"
  obtain x where v: "v = U24 x" by (cases v)
  have "ucast (drop_bit 24 x) = (0 :: u8)" using wf v by (simp add: u24_wf_def u24_usize_def top_byte_zero)
  then have "from_be32 0 (be32 x ! 1) (be32 x ! 2) (be32 x ! 3) = x"
    using from_be32_be32 [of x] by (simp add: be32_def)
  then show ?thesis
    by (intro reads_take [of _ 3]) (auto simp: u24_read_def u24_encode_def v be32_def)
qed

lemma u24_gives: "gives (\<lambda>v bs. u24_wf v \<and> bs = u24_encode v []) u24_read"
  by (rule gives_take)
    (auto simp: u24_read_def u24_encode_def u24_wf_def u24_usize_def from_be32_zero_less [simplified]
      split: prod.splits option.splits list.splits)

section \<open>The interface of an encoder and a decoder\<close>

text \<open>
  \<open>whole_codec\<close> is a codec whose decoder may read up to the end of its input; \<open>codec\<close> is one whose
  encodings delimit themselves and are not empty, so that they can be followed by others and
  appear in lists.
\<close>

locale whole_codec =
  fixes enc :: "'a \<Rightarrow> bytes \<Rightarrow> bytes" and rd :: "'a rd" and wf :: "'a \<Rightarrow> bool"
  assumes enc_app: "enc v out = out @ enc v []"
    and rd_all: "wf v \<Longrightarrow> reads True rd (enc v []) v"
    and rd_wf: "gives (\<lambda>v bs. wf v \<and> length (enc v []) \<le> length bs) rd"
begin

lemma all_of_enc: "wf v \<Longrightarrow> all_of name rd (reader_init (enc v [])) = Ok v"
  by (rule all_of_reads [OF rd_all])

lemma all_of_wf:
  "all_of name rd (reader_init bs) \<noteq> Panic"
  "all_of name rd (reader_init bs) = Ok v \<Longrightarrow> wf v \<and> length (enc v []) \<le> length bs"
  using all_of_gives [OF rd_wf] by blast+

lemma read_bytes_enc: "wf v \<Longrightarrow> read_bytes_with rd (enc v []) = Ok v"
  using readsD [OF rd_all, of v "reader_init (enc v [])" "[]"] by (auto simp: read_bytes_with_def)

lemma read_bytes_wf: "read_bytes_with rd bs = Ok v \<Longrightarrow> wf v"
  using givesD [OF rd_wf, of "reader_init bs" v]
  by (auto simp: read_bytes_with_def outcome_bind_Ok_iff)

lemma read_bytes_no_panic: "read_bytes_with rd bs \<noteq> Panic"
  using gives_no_panic [OF rd_wf, of "reader_init bs"]
  by (auto simp: read_bytes_with_def outcome_bind_Panic_iff)

lemma reads_wf: "rd (reader_init bs) = Ok (v, r) \<Longrightarrow> wf v"
  using givesD [OF rd_wf, of "reader_init bs" v r] by auto

end

locale codec = whole_codec +
  assumes rd_enc: "wf v \<Longrightarrow> reads w rd (enc v []) v"
    and enc_nonempty: "wf v \<Longrightarrow> enc v [] \<noteq> []"

text \<open>The usual shape of an encoder and of the law for its decoder.\<close>

lemma codecI:
  assumes "\<And>v out. enc v out = out @ enc v []"
    and "\<And>v w. ok v \<Longrightarrow> reads w rd (enc v []) v"
    and "gives (\<lambda>v bs. ok v \<and> length (enc v []) \<le> length bs) rd"
    and "\<And>v. ok v \<Longrightarrow> enc v [] \<noteq> []"
  shows "codec enc rd ok"
  by unfold_locales (rule assms; assumption)+

interpretation u8: codec u8_encode u8_read "\<lambda>_. True"
  by (rule codecI) (auto simp: u8_encode_def u8_reads intro: gives_mono [OF u8_gives])

interpretation u16: codec u16_encode u16_read "\<lambda>_. True"
  by (rule codecI) (auto simp: u16_encode_def u16_reads intro: gives_mono [OF u16_gives])

interpretation u24: codec u24_encode u24_read u24_wf
proof (rule codecI)
  show "u24_encode v out = out @ u24_encode v []" for v out
    by (cases v) (simp add: u24_encode_def)
  show "u24_encode v [] \<noteq> []" for v
    by (cases v) (simp add: u24_encode_def be32_def)
qed (auto intro: u24_reads gives_mono [OF u24_gives])

interpretation u32: codec u32_encode u32_read "\<lambda>_. True"
  by (rule codecI) (auto simp: u32_encode_def u32_reads intro: gives_mono [OF u32_gives])

interpretation u64: codec u64_encode u64_read "\<lambda>_. True"
  by (rule codecI) (auto simp: u64_encode_def u64_reads intro: gives_mono [OF u64_gives])

section \<open>Length prefixes\<close>

definition len_prefix :: "list_length \<Rightarrow> nat \<Rightarrow> bytes" where
  "len_prefix sz n = (case sz of LenU8 \<Rightarrow> [of_nat n] | LenU16 \<Rightarrow> be16 (of_nat n) | LenU24 _ \<Rightarrow> be24 n)"

definition fits :: "list_length \<Rightarrow> nat \<Rightarrow> bool" where
  "fits sz n \<longleftrightarrow> (case sz of LenU8 \<Rightarrow> n < 256 | LenU16 \<Rightarrow> n < 65536 | LenU24 mx \<Rightarrow> n < 2 ^ 24 \<and> n \<le> mx)"

lemma fits_mono: "fits sz n \<Longrightarrow> m \<le> n \<Longrightarrow> fits sz m"
  by (auto simp: fits_def split: list_length.splits)

lemma len_prefix_nonempty [simp]: "len_prefix sz n \<noteq> []"
  by (cases sz) (auto simp: len_prefix_def be24_def be32_def)

lemma length_len_prefix: "length (len_prefix sz n) = length (len_prefix sz m)"
  by (cases sz) (simp_all add: len_prefix_def)

lemma nested_eq:
  assumes "\<And>b. body b = b @ bs"
  shows "nested sz body buf = buf @ len_prefix sz (length bs) @ bs"
  by (cases sz)
    (simp_all add: nested_def lpb_new_def lpb_drop_def assms len_prefix_def be24_def list_update_append)

lemma unat_of_nat_u24: "n < 2 ^ 24 \<Longrightarrow> unat (of_nat n :: u32) = n"
  by (simp add: unat_of_nat)

lemma u24_of_nat: "n < 2 ^ 24 \<Longrightarrow> u24_wf (U24 (of_nat n)) \<and> u24_usize (U24 (of_nat n)) = n"
  using unat_of_nat_u24 [of n] by (simp add: u24_wf_def u24_usize_def)

lemma read_len_reads:
  assumes "fits sz n"
  shows "reads w (read_len sz) (len_prefix sz n) n"
proof (cases sz)
  case LenU8
  then have "reads w (\<lambda>r. outcome_bind (u8_read r) (\<lambda>(v, r). Ok (unat v, r))) ([of_nat n] @ []) n"
    using assms by (intro reads_bind [OF u8_reads] reads_Ok) (simp_all add: fits_def unat_of_nat_u8)
  then show ?thesis by (simp add: LenU8 read_len_def [abs_def] len_prefix_def)
next
  case LenU16
  then have "reads w (\<lambda>r. outcome_bind (u16_read r) (\<lambda>(v, r). Ok (unat v, r))) (be16 (of_nat n) @ []) n"
    using assms by (intro reads_bind [OF u16_reads] reads_Ok) (simp_all add: fits_def unat_of_nat_u16)
  then show ?thesis by (simp add: LenU16 read_len_def [abs_def] len_prefix_def)
next
  case (LenU24 mx)
  then have n: "n < 2 ^ 24" "n \<le> mx" using assms by (simp_all add: fits_def)
  have "reads w (\<lambda>r. outcome_bind (u24_read r) (\<lambda>(v, r). Ok (min (u24_usize v) mx, r)))
      (u24_encode (U24 (of_nat n)) [] @ []) n"
    using n u24_of_nat [OF n(1)] by (intro reads_bind [OF u24_reads] reads_Ok) simp_all
  then show ?thesis by (simp add: LenU24 read_len_def [abs_def] len_prefix_def u24_encode_def be24_def)
qed

lemma read_len_gives: "gives (\<lambda>n bs. fits sz n \<and> length bs = length (len_prefix sz 0)) (read_len sz)"
proof (cases sz)
  case LenU8
  have "gives (\<lambda>n bs. fits sz n \<and> length bs = length (len_prefix sz 0))
      (\<lambda>r. outcome_bind (u8_read r) (\<lambda>(v, r). Ok (unat v, r)))"
    by (intro gives_bind [OF u8_gives] gives_Ok) (auto simp: LenU8 fits_def len_prefix_def)
  then show ?thesis by (simp add: LenU8 read_len_def [abs_def])
next
  case LenU16
  have "gives (\<lambda>n bs. fits sz n \<and> length bs = length (len_prefix sz 0))
      (\<lambda>r. outcome_bind (u16_read r) (\<lambda>(v, r). Ok (unat v, r)))"
    by (intro gives_bind [OF u16_gives] gives_Ok) (auto simp: LenU16 fits_def len_prefix_def)
  then show ?thesis by (simp add: LenU16 read_len_def [abs_def])
next
  case (LenU24 mx)
  have "gives (\<lambda>n bs. fits sz n \<and> length bs = length (len_prefix sz 0))
      (\<lambda>r. outcome_bind (u24_read r) (\<lambda>(v, r). Ok (min (u24_usize v) mx, r)))"
    by (intro gives_bind [OF u24_gives] gives_Ok)
      (auto simp: LenU24 fits_def len_prefix_def u24_wf_def u24_encode_def split: u24.splits)
  then show ?thesis by (simp add: LenU24 read_len_def [abs_def])
qed

section \<open>Lists\<close>

definition enc_list :: "('a \<Rightarrow> bytes \<Rightarrow> bytes) \<Rightarrow> 'a list \<Rightarrow> bytes" where
  "enc_list enc xs = concat (map (\<lambda>x. enc x []) xs)"

lemma enc_list_simps [simp]:
  "enc_list enc [] = []" "enc_list enc (x # xs) = enc x [] @ enc_list enc xs"
  by (simp_all add: enc_list_def)

definition vec_wf :: "list_length \<Rightarrow> ('a \<Rightarrow> bytes \<Rightarrow> bytes) \<Rightarrow> ('a \<Rightarrow> bool) \<Rightarrow> 'a list \<Rightarrow> bool" where
  "vec_wf sz enc ok xs \<longleftrightarrow> list_all ok xs \<and> fits sz (length (enc_list enc xs))"

lemma fold_enc: "(\<And>v out. enc v out = out @ enc v []) \<Longrightarrow> fold enc xs b = b @ enc_list enc xs"
proof (induction xs arbitrary: b)
  case (Cons x xs)
  have "fold enc (x # xs) b = fold enc xs (b @ enc x [])" using Cons.prems [of x b] by simp
  also have "\<dots> = b @ enc_list enc (x # xs)" using Cons.IH [OF Cons.prems] by simp
  finally show ?case .
qed simp

lemma vec_encode_eq:
  "(\<And>v out. enc v out = out @ enc v []) \<Longrightarrow>
     vec_encode sz enc xs out = out @ len_prefix sz (length (enc_list enc xs)) @ enc_list enc xs"
  unfolding vec_encode_def by (rule nested_eq) (rule fold_enc)

lemma vec_loop_step:
  assumes "p r = Ok (v, r')" "rem r = bs @ rem r'" "bs \<noteq> []"
  shows "vec_loop p r ret = vec_loop p r' (ret @ [v])"
  using assms by (subst vec_loop.simps) (simp add: any_left_rem r_left_rem)

lemma vec_loop_end: "rem r = [] \<Longrightarrow> vec_loop p r ret = Ok ret"
  by (subst vec_loop.simps) (simp add: any_left_rem)

lemma vec_loop_reads:
  assumes "\<forall>x\<in>set (butlast xs). reads False p (enc x []) x"
    and "xs \<noteq> [] \<Longrightarrow> reads True p (enc (last xs) []) (last xs)"
    and "\<forall>x\<in>set xs. enc x [] \<noteq> []"
    and "reader_inv r" "rem r = enc_list enc xs"
  shows "vec_loop p r ret = Ok (ret @ xs)"
  using assms
proof (induction xs arbitrary: r ret)
  case Nil
  then show ?case by (simp add: vec_loop_end)
next
  case (Cons x xs)
  have "\<exists>r'. p r = Ok (x, r') \<and> reader_inv r' \<and> rem r' = enc_list enc xs"
  proof (cases "xs = []")
    case True
    then show ?thesis using Cons.prems readsD [of True p "enc x []" x r "[]"] by simp
  next
    case False
    then show ?thesis using Cons.prems readsD [of False p "enc x []" x r "enc_list enc xs"] by simp
  qed
  then obtain r' where r': "p r = Ok (x, r')" "reader_inv r'" "rem r' = enc_list enc xs" by blast
  have "vec_loop p r ret = vec_loop p r' (ret @ [x])"
    using r' Cons.prems by (intro vec_loop_step [of p r x r' "enc x []"]) simp_all
  also have "\<dots> = Ok ((ret @ [x]) @ xs)"
    using Cons.prems r' by (intro Cons.IH) (auto split: if_splits)
  finally show ?case by simp
qed

lemma vec_loop_gives:
  assumes "gives (\<lambda>v bs. ok v \<and> length (enc v []) \<le> length bs \<and> bs \<noteq> []) p" "reader_inv r"
  shows "vec_loop p r ret \<noteq> Panic
    \<and> (\<forall>ys. vec_loop p r ret = Ok ys \<longrightarrow>
         (\<exists>xs. ys = ret @ xs \<and> list_all ok xs \<and> length (enc_list enc xs) \<le> length (rem r)))"
  using assms(2)
proof (induction "length (rem r)" arbitrary: r ret rule: less_induct)
  case less
  show ?case
  proof (cases "rem r = []")
    case True
    then show ?thesis by (simp add: vec_loop_end)
  next
    case False
    show ?thesis
    proof (cases "p r")
      case (Ok x)
      obtain v r' where x: "x = (v, r')" by fastforce
      from givesD [OF assms(1) less.prems Ok [unfolded x]] obtain bs where
        bs: "reader_inv r'" "rem r = bs @ rem r'" "ok v" "length (enc v []) \<le> length bs" "bs \<noteq> []"
        by blast
      have "length (rem r') < length (rem r)" using bs by simp
      note IH = less.hyps [OF this bs(1), of "ret @ [v]"]
      have st: "vec_loop p r ret = vec_loop p r' (ret @ [v])"
        using Ok x bs by (intro vec_loop_step) simp_all
      have "\<exists>xs. ys = ret @ xs \<and> list_all ok xs \<and> length (enc_list enc xs) \<le> length (rem r)"
        if ys: "vec_loop p r ret = Ok ys" for ys
      proof -
        from IH ys st obtain xs where "ys = (ret @ [v]) @ xs" "list_all ok xs"
          "length (enc_list enc xs) \<le> length (rem r')" by auto
        with bs show ?thesis by (intro exI [of _ "v # xs"]) simp
      qed
      with IH st show ?thesis by simp
    next
      case (Err e)
      then show ?thesis using False by (simp add: vec_loop.simps [of p r] any_left_rem)
    next
      case Panic
      then show ?thesis using gives_no_panic [OF assms(1) less.prems] by simp
    qed
  qed
qed

lemma vec_read_reads:
  assumes "\<And>v out. enc v out = out @ enc v []"
    and "\<forall>x\<in>set (butlast xs). reads False p (enc x []) x"
    and "xs \<noteq> [] \<Longrightarrow> reads True p (enc (last xs) []) (last xs)"
    and "\<forall>x\<in>set xs. enc x [] \<noteq> []"
    and "fits sz (length (enc_list enc xs))"
  shows "reads w (vec_read sz p) (vec_encode sz enc xs []) xs"
proof -
  have "reads w (\<lambda>r. outcome_bind (read_len sz r) (\<lambda>(len, r). in_sub len (\<lambda>sr. vec_loop p sr []) r))
      (len_prefix sz (length (enc_list enc xs)) @ enc_list enc xs) xs"
    using assms(5) vec_loop_reads [of xs p enc, OF assms(2-4), of "reader_init (enc_list enc xs)" "[]"]
    by (intro reads_bind [OF read_len_reads] reads_in_sub) simp_all
  then show ?thesis by (simp add: vec_read_def [abs_def] vec_encode_eq [OF assms(1)])
qed

lemma vec_read_gives:
  assumes "\<And>v out. enc v out = out @ enc v []"
    and "gives (\<lambda>v bs. ok v \<and> length (enc v []) \<le> length bs \<and> bs \<noteq> []) p"
  shows "gives (\<lambda>xs bs. vec_wf sz enc ok xs \<and> length (vec_encode sz enc xs []) \<le> length bs) (vec_read sz p)"
proof -
  have "gives (\<lambda>xs bs. vec_wf sz enc ok xs \<and> length (vec_encode sz enc xs []) \<le> length bs)
      (\<lambda>r. outcome_bind (read_len sz r) (\<lambda>(len, r). in_sub len (\<lambda>sr. vec_loop p sr []) r))"
  proof (rule gives_bind [OF read_len_gives], rule gives_in_sub)
    fix n and bs cs :: bytes assume n: "fits sz n \<and> length bs = length (len_prefix sz 0)" and cs: "length cs = n"
    note l = vec_loop_gives [of ok enc, OF assms(2), of "reader_init cs" "[]", simplified]
    show "vec_loop p (reader_init cs) [] \<noteq> Panic" using l by simp
    fix xs assume "vec_loop p (reader_init cs) [] = Ok xs"
    with l have xs: "list_all ok xs" "length (enc_list enc xs) \<le> length cs" by auto
    then show "vec_wf sz enc ok xs \<and> length (vec_encode sz enc xs []) \<le> length (bs @ cs)"
      using n cs fits_mono [of sz "length cs" "length (enc_list enc xs)"]
        length_len_prefix [of sz "length (enc_list enc xs)" 0] by (auto simp: vec_wf_def vec_encode_eq [OF assms(1)])
  qed
  then show ?thesis by (simp add: vec_read_def [abs_def])
qed

context codec
begin

lemma vec_codec: "codec (vec_encode sz enc) (vec_read sz rd) (vec_wf sz enc wf)"
proof (rule codecI)
  show "vec_encode sz enc xs out = out @ vec_encode sz enc xs []" for xs out
    by (simp add: vec_encode_eq [OF enc_app])
  show "vec_encode sz enc xs [] \<noteq> []" for xs
    by (simp add: vec_encode_eq [OF enc_app])
  show "reads w (vec_read sz rd) (vec_encode sz enc xs []) xs" if "vec_wf sz enc wf xs" for w xs
    using that rd_enc enc_nonempty
    by (intro vec_read_reads [OF enc_app]) (auto simp: vec_wf_def list_all_iff dest: in_set_butlastD)
  have "gives (\<lambda>v bs. wf v \<and> length (enc v []) \<le> length bs \<and> bs \<noteq> []) rd"
    by (rule gives_mono [OF rd_wf]) (use enc_nonempty in fastforce)
  then show "gives (\<lambda>xs bs. vec_wf sz enc wf xs \<and> length (vec_encode sz enc xs []) \<le> length bs) (vec_read sz rd)"
    by (rule vec_read_gives [OF enc_app])
qed

end

section \<open>Payload codecs\<close>

lemma payload_reads: "reads True payload_read p p"
  by (rule readsI) (simp add: payload_read_def r_rest_def rem_def reader_inv_def)

lemma payload_gives: "gives (\<lambda>p bs. bs = p) payload_read"
  by (rule givesI) (auto simp: payload_read_def r_rest_def rem_def reader_inv_def same_buf_def)

interpretation payload: whole_codec payload_encode payload_read "\<lambda>_. True"
  by unfold_locales (auto simp: payload_encode_def payload_reads intro: gives_mono [OF payload_gives])

definition sized :: "nat \<Rightarrow> bytes \<Rightarrow> bool" where
  "sized n p \<longleftrightarrow> length p < n"

lemma rest_init: "fst (r_rest (reader_init bs)) = bs"
  by (simp add: r_rest_def reader_init_def)

interpretation payload_u8: codec payload_u8_encode payload_u8_read "sized 256"
proof (rule codecI)
  show "reads w payload_u8_read (payload_u8_encode p []) p" if "sized 256 p" for w p
  proof -
    have "reads w (\<lambda>r. outcome_bind (u8_read r) (\<lambda>(len, r). in_sub (unat len) (\<lambda>sr. Ok (fst (r_rest sr))) r))
        ([of_nat (length p)] @ p) p"
      using that by (intro reads_bind [OF u8_reads] reads_in_sub) (simp_all add: sized_def unat_of_nat_u8 rest_init)
    then show ?thesis by (simp add: payload_u8_read_def [abs_def] payload_u8_encode_def u8_encode_def)
  qed
  show "gives (\<lambda>p bs. sized 256 p \<and> length (payload_u8_encode p []) \<le> length bs) payload_u8_read"
    unfolding payload_u8_read_def [abs_def]
    by (intro gives_bind [OF u8_gives] gives_in_sub)
      (auto simp: sized_def rest_init payload_u8_encode_def u8_encode_def)
qed (simp_all add: payload_u8_encode_def u8_encode_def)

interpretation payload_u16: codec payload_u16_encode payload_u16_read "sized 65536"
proof (rule codecI)
  show "reads w payload_u16_read (payload_u16_encode p []) p" if "sized 65536 p" for w p
  proof -
    have "reads w (\<lambda>r. outcome_bind (u16_read r) (\<lambda>(len, r). in_sub (unat len) (\<lambda>sr. Ok (fst (r_rest sr))) r))
        (be16 (of_nat (length p)) @ p) p"
      using that by (intro reads_bind [OF u16_reads] reads_in_sub) (simp_all add: sized_def unat_of_nat_u16 rest_init)
    then show ?thesis by (simp add: payload_u16_read_def [abs_def] payload_u16_encode_def u16_encode_def)
  qed
  show "gives (\<lambda>p bs. sized 65536 p \<and> length (payload_u16_encode p []) \<le> length bs) payload_u16_read"
    unfolding payload_u16_read_def [abs_def]
    by (intro gives_bind [OF u16_gives] gives_in_sub)
      (auto simp: sized_def rest_init payload_u16_encode_def u16_encode_def)
qed (simp_all add: payload_u16_encode_def u16_encode_def)

interpretation payload_u24: codec payload_u24_encode payload_u24_read "sized (2 ^ 24)"
proof (rule codecI)
  show "reads w payload_u24_read (payload_u24_encode p []) p" if "sized (2 ^ 24) p" for w p
  proof -
    have "reads w (\<lambda>r. outcome_bind (u24_read r) (\<lambda>(len, r). in_sub (u24_usize len) (\<lambda>sr. Ok (fst (r_rest sr))) r))
        (u24_encode (U24 (of_nat (length p))) [] @ p) p"
      using that u24_of_nat [of "length p"]
      by (intro reads_bind [OF u24_reads] reads_in_sub) (simp_all add: sized_def rest_init)
    then show ?thesis by (simp add: payload_u24_read_def [abs_def] payload_u24_encode_def)
  qed
  show "gives (\<lambda>p bs. sized (2 ^ 24) p \<and> length (payload_u24_encode p []) \<le> length bs) payload_u24_read"
    unfolding payload_u24_read_def [abs_def]
    by (intro gives_bind [OF u24_gives] gives_in_sub)
      (auto simp: sized_def rest_init payload_u24_encode_def u24_wf_def u24_encode_def split: u24.splits)
qed (simp_all add: payload_u24_encode_def u24_encode_def be32_def)

lemma certificate_der_u24:
  "certificate_der_encode = payload_u24_encode" "certificate_der_read = payload_u24_read"
  by (simp_all add: certificate_der_encode_def [abs_def] payload_u24_encode_def [abs_def]
      certificate_der_read_def [abs_def] payload_u24_read_def [abs_def])

interpretation certificate_der: codec certificate_der_encode certificate_der_read "sized (2 ^ 24)"
  unfolding certificate_der_u24 by (rule payload_u24.codec_axioms)

end
