(* ===== verification/Rustls_Enums.thy ===== *)
theory Rustls_Enums
  imports Rustls_Codec
begin

text \<open>
  \<open>orcax/rustls-fork/rustls/src/enums.rs\<close>, \<open>msgs/enums.rs\<close> and the macro \<open>enum_builder!\<close> of
  \<open>msgs/macros.rs\<close>: the code points of TLS. The macro generates for each enumeration a variant
  \<open>Unknown\<close>, the conversions from and to the code point, and a codec of one or two bytes; they are
  proved once in the locales \<open>enum8\<close> and \<open>enum16\<close>.

  A value \<open>Unknown x\<close> whose code point \<open>x\<close> has a name is never produced by the decoder; \<open>known\<close> is
  the set of values without these. The variants carry a prefix for their enumeration.
\<close>

section \<open>The macro\<close>

definition enum8_encode :: "('e \<Rightarrow> u8) \<Rightarrow> 'e \<Rightarrow> bytes \<Rightarrow> bytes" where
  "enum8_encode get v out = u8_encode (get v) out"

definition enum8_read :: "string \<Rightarrow> (u8 \<Rightarrow> 'e) \<Rightarrow> 'e rd" where
  "enum8_read name frm r =
     (case u8_read r of
        Ok (x, r') \<Rightarrow> Ok (frm x, r')
      | Err _ \<Rightarrow> Err (MissingData name)
      | Panic \<Rightarrow> Panic)"

definition enum16_encode :: "('e \<Rightarrow> u16) \<Rightarrow> 'e \<Rightarrow> bytes \<Rightarrow> bytes" where
  "enum16_encode get v out = u16_encode (get v) out"

definition enum16_read :: "string \<Rightarrow> (u16 \<Rightarrow> 'e) \<Rightarrow> 'e rd" where
  "enum16_read name frm r =
     (case u16_read r of
        Ok (x, r') \<Rightarrow> Ok (frm x, r')
      | Err _ \<Rightarrow> Err (MissingData name)
      | Panic \<Rightarrow> Panic)"

definition known :: "('e \<Rightarrow> 'w) \<Rightarrow> ('w \<Rightarrow> 'e) \<Rightarrow> 'e \<Rightarrow> bool" where
  "known get frm v \<longleftrightarrow> frm (get v) = v"

locale enum8 =
  fixes name :: string and get :: "'e \<Rightarrow> u8" and frm :: "u8 \<Rightarrow> 'e"
  assumes get_from: "get (frm x) = x"

context enum8
begin

lemma rd_exact:
  "gives (\<lambda>v bs. known get frm v \<and> bs = enum8_encode get v []) (enum8_read name frm)"
proof (rule givesI)
  show "enum8_read name frm r \<noteq> Panic" if "reader_inv r" for r
    using gives_no_panic [OF u8_gives that] by (auto simp: enum8_read_def split: outcome.splits)
  fix r v r' assume r: "reader_inv r" and e: "enum8_read name frm r = Ok (v, r')"
  then obtain x where "u8_read r = Ok (x, r')" "v = frm x"
    by (auto simp: enum8_read_def split: outcome.splits prod.splits)
  with givesD [OF u8_gives r] show "same_buf r r' \<and> (\<exists>bs. rem r = bs @ rem r'
      \<and> known get frm v \<and> bs = enum8_encode get v [])"
    by (auto simp: known_def get_from enum8_encode_def u8_encode_def)
qed

end

sublocale enum8 \<subseteq> codec "enum8_encode get" "enum8_read name frm" "known get frm"
proof (rule codecI)
  fix v :: 'e and w assume k: "known get frm v"
  show "reads w (enum8_read name frm) (enum8_encode get v []) v"
  proof (rule readsI)
    fix r t assume "reader_inv r" "rem r = enum8_encode get v [] @ t"
    with readsD [OF u8_reads [of False "get v"], of r t] k
    show "\<exists>r'. enum8_read name frm r = Ok (v, r') \<and> reader_inv r' \<and> rem r' = t"
      by (auto simp: enum8_encode_def u8_encode_def enum8_read_def known_def)
  qed
next
  show "gives (\<lambda>v bs. known get frm v \<and> length (enum8_encode get v []) \<le> length bs) (enum8_read name frm)"
    by (rule gives_mono [OF rd_exact]) simp
qed (simp_all add: enum8_encode_def u8_encode_def)

locale enum16 =
  fixes name :: string and get :: "'e \<Rightarrow> u16" and frm :: "u16 \<Rightarrow> 'e"
  assumes get_from: "get (frm x) = x"

context enum16
begin

lemma rd_exact:
  "gives (\<lambda>v bs. known get frm v \<and> bs = enum16_encode get v []) (enum16_read name frm)"
proof (rule givesI)
  show "enum16_read name frm r \<noteq> Panic" if "reader_inv r" for r
    using gives_no_panic [OF u16_gives that] by (auto simp: enum16_read_def split: outcome.splits)
  fix r v r' assume r: "reader_inv r" and e: "enum16_read name frm r = Ok (v, r')"
  then obtain x where "u16_read r = Ok (x, r')" "v = frm x"
    by (auto simp: enum16_read_def split: outcome.splits prod.splits)
  with givesD [OF u16_gives r] show "same_buf r r' \<and> (\<exists>bs. rem r = bs @ rem r'
      \<and> known get frm v \<and> bs = enum16_encode get v [])"
    by (auto simp: known_def get_from enum16_encode_def u16_encode_def)
qed

end

sublocale enum16 \<subseteq> codec "enum16_encode get" "enum16_read name frm" "known get frm"
proof (rule codecI)
  fix v :: 'e and w assume k: "known get frm v"
  show "reads w (enum16_read name frm) (enum16_encode get v []) v"
  proof (rule readsI)
    fix r t assume "reader_inv r" "rem r = enum16_encode get v [] @ t"
    with readsD [OF u16_reads [of False "get v"], of r t] k
    show "\<exists>r'. enum16_read name frm r = Ok (v, r') \<and> reader_inv r' \<and> rem r' = t"
      by (auto simp: enum16_encode_def u16_encode_def enum16_read_def known_def)
  qed
next
  show "gives (\<lambda>v bs. known get frm v \<and> length (enum16_encode get v []) \<le> length bs) (enum16_read name frm)"
    by (rule gives_mono [OF rd_exact]) simp
qed (simp_all add: enum16_encode_def u16_encode_def)

section \<open>The enumerations\<close>

text \<open>\<open>AlertDescription\<close>.\<close>

datatype (plugins only: code size) alert_description =
    AD_CloseNotify | AD_UnexpectedMessage | AD_BadRecordMac | AD_DecryptionFailed
  | AD_RecordOverflow | AD_DecompressionFailure | AD_HandshakeFailure | AD_NoCertificate
  | AD_BadCertificate | AD_UnsupportedCertificate | AD_CertificateRevoked
  | AD_CertificateExpired | AD_CertificateUnknown | AD_IllegalParameter | AD_UnknownCA
  | AD_AccessDenied | AD_DecodeError | AD_DecryptError | AD_ExportRestriction
  | AD_ProtocolVersion | AD_InsufficientSecurity | AD_InternalError
  | AD_InappropriateFallback | AD_UserCanceled | AD_NoRenegotiation | AD_MissingExtension
  | AD_UnsupportedExtension | AD_CertificateUnobtainable | AD_UnrecognisedName
  | AD_BadCertificateStatusResponse | AD_BadCertificateHashValue | AD_UnknownPSKIdentity
  | AD_CertificateRequired | AD_NoApplicationProtocol | AD_Unknown u8

primrec alert_description_get :: "alert_description \<Rightarrow> u8" where
  "alert_description_get AD_CloseNotify = 0x00"
| "alert_description_get AD_UnexpectedMessage = 0x0a"
| "alert_description_get AD_BadRecordMac = 0x14"
| "alert_description_get AD_DecryptionFailed = 0x15"
| "alert_description_get AD_RecordOverflow = 0x16"
| "alert_description_get AD_DecompressionFailure = 0x1e"
| "alert_description_get AD_HandshakeFailure = 0x28"
| "alert_description_get AD_NoCertificate = 0x29"
| "alert_description_get AD_BadCertificate = 0x2a"
| "alert_description_get AD_UnsupportedCertificate = 0x2b"
| "alert_description_get AD_CertificateRevoked = 0x2c"
| "alert_description_get AD_CertificateExpired = 0x2d"
| "alert_description_get AD_CertificateUnknown = 0x2e"
| "alert_description_get AD_IllegalParameter = 0x2f"
| "alert_description_get AD_UnknownCA = 0x30"
| "alert_description_get AD_AccessDenied = 0x31"
| "alert_description_get AD_DecodeError = 0x32"
| "alert_description_get AD_DecryptError = 0x33"
| "alert_description_get AD_ExportRestriction = 0x3c"
| "alert_description_get AD_ProtocolVersion = 0x46"
| "alert_description_get AD_InsufficientSecurity = 0x47"
| "alert_description_get AD_InternalError = 0x50"
| "alert_description_get AD_InappropriateFallback = 0x56"
| "alert_description_get AD_UserCanceled = 0x5a"
| "alert_description_get AD_NoRenegotiation = 0x64"
| "alert_description_get AD_MissingExtension = 0x6d"
| "alert_description_get AD_UnsupportedExtension = 0x6e"
| "alert_description_get AD_CertificateUnobtainable = 0x6f"
| "alert_description_get AD_UnrecognisedName = 0x70"
| "alert_description_get AD_BadCertificateStatusResponse = 0x71"
| "alert_description_get AD_BadCertificateHashValue = 0x72"
| "alert_description_get AD_UnknownPSKIdentity = 0x73"
| "alert_description_get AD_CertificateRequired = 0x74"
| "alert_description_get AD_NoApplicationProtocol = 0x78"
| "alert_description_get (AD_Unknown x) = x"

definition alert_description_from :: "u8 \<Rightarrow> alert_description" where
  "alert_description_from x =
     (if x = 0x00 then AD_CloseNotify
      else if x = 0x0a then AD_UnexpectedMessage
      else if x = 0x14 then AD_BadRecordMac
      else if x = 0x15 then AD_DecryptionFailed
      else if x = 0x16 then AD_RecordOverflow
      else if x = 0x1e then AD_DecompressionFailure
      else if x = 0x28 then AD_HandshakeFailure
      else if x = 0x29 then AD_NoCertificate
      else if x = 0x2a then AD_BadCertificate
      else if x = 0x2b then AD_UnsupportedCertificate
      else if x = 0x2c then AD_CertificateRevoked
      else if x = 0x2d then AD_CertificateExpired
      else if x = 0x2e then AD_CertificateUnknown
      else if x = 0x2f then AD_IllegalParameter
      else if x = 0x30 then AD_UnknownCA
      else if x = 0x31 then AD_AccessDenied
      else if x = 0x32 then AD_DecodeError
      else if x = 0x33 then AD_DecryptError
      else if x = 0x3c then AD_ExportRestriction
      else if x = 0x46 then AD_ProtocolVersion
      else if x = 0x47 then AD_InsufficientSecurity
      else if x = 0x50 then AD_InternalError
      else if x = 0x56 then AD_InappropriateFallback
      else if x = 0x5a then AD_UserCanceled
      else if x = 0x64 then AD_NoRenegotiation
      else if x = 0x6d then AD_MissingExtension
      else if x = 0x6e then AD_UnsupportedExtension
      else if x = 0x6f then AD_CertificateUnobtainable
      else if x = 0x70 then AD_UnrecognisedName
      else if x = 0x71 then AD_BadCertificateStatusResponse
      else if x = 0x72 then AD_BadCertificateHashValue
      else if x = 0x73 then AD_UnknownPSKIdentity
      else if x = 0x74 then AD_CertificateRequired
      else if x = 0x78 then AD_NoApplicationProtocol
      else AD_Unknown x)"

interpretation alert_description: enum8 "''AlertDescription''" alert_description_get alert_description_from
  by unfold_locales (simp add: alert_description_from_def)

text \<open>\<open>HandshakeType\<close>.\<close>

datatype (plugins only: code size) handshake_type =
    HT_HelloRequest | HT_ClientHello | HT_ServerHello | HT_HelloVerifyRequest
  | HT_NewSessionTicket | HT_EndOfEarlyData | HT_HelloRetryRequest | HT_EncryptedExtensions
  | HT_Certificate | HT_ServerKeyExchange | HT_CertificateRequest | HT_ServerHelloDone
  | HT_CertificateVerify | HT_ClientKeyExchange | HT_Finished | HT_CertificateURL
  | HT_CertificateStatus | HT_KeyUpdate | HT_MessageHash | HT_Unknown u8

primrec handshake_type_get :: "handshake_type \<Rightarrow> u8" where
  "handshake_type_get HT_HelloRequest = 0x00"
| "handshake_type_get HT_ClientHello = 0x01"
| "handshake_type_get HT_ServerHello = 0x02"
| "handshake_type_get HT_HelloVerifyRequest = 0x03"
| "handshake_type_get HT_NewSessionTicket = 0x04"
| "handshake_type_get HT_EndOfEarlyData = 0x05"
| "handshake_type_get HT_HelloRetryRequest = 0x06"
| "handshake_type_get HT_EncryptedExtensions = 0x08"
| "handshake_type_get HT_Certificate = 0x0b"
| "handshake_type_get HT_ServerKeyExchange = 0x0c"
| "handshake_type_get HT_CertificateRequest = 0x0d"
| "handshake_type_get HT_ServerHelloDone = 0x0e"
| "handshake_type_get HT_CertificateVerify = 0x0f"
| "handshake_type_get HT_ClientKeyExchange = 0x10"
| "handshake_type_get HT_Finished = 0x14"
| "handshake_type_get HT_CertificateURL = 0x15"
| "handshake_type_get HT_CertificateStatus = 0x16"
| "handshake_type_get HT_KeyUpdate = 0x18"
| "handshake_type_get HT_MessageHash = 0xfe"
| "handshake_type_get (HT_Unknown x) = x"

definition handshake_type_from :: "u8 \<Rightarrow> handshake_type" where
  "handshake_type_from x =
     (if x = 0x00 then HT_HelloRequest
      else if x = 0x01 then HT_ClientHello
      else if x = 0x02 then HT_ServerHello
      else if x = 0x03 then HT_HelloVerifyRequest
      else if x = 0x04 then HT_NewSessionTicket
      else if x = 0x05 then HT_EndOfEarlyData
      else if x = 0x06 then HT_HelloRetryRequest
      else if x = 0x08 then HT_EncryptedExtensions
      else if x = 0x0b then HT_Certificate
      else if x = 0x0c then HT_ServerKeyExchange
      else if x = 0x0d then HT_CertificateRequest
      else if x = 0x0e then HT_ServerHelloDone
      else if x = 0x0f then HT_CertificateVerify
      else if x = 0x10 then HT_ClientKeyExchange
      else if x = 0x14 then HT_Finished
      else if x = 0x15 then HT_CertificateURL
      else if x = 0x16 then HT_CertificateStatus
      else if x = 0x18 then HT_KeyUpdate
      else if x = 0xfe then HT_MessageHash
      else HT_Unknown x)"

interpretation handshake_type: enum8 "''HandshakeType''" handshake_type_get handshake_type_from
  by unfold_locales (simp add: handshake_type_from_def)

text \<open>\<open>ContentType\<close>.\<close>

datatype content_type =
    CT_ChangeCipherSpec | CT_Alert | CT_Handshake | CT_ApplicationData | CT_Heartbeat
  | CT_Unknown u8

primrec content_type_get :: "content_type \<Rightarrow> u8" where
  "content_type_get CT_ChangeCipherSpec = 0x14"
| "content_type_get CT_Alert = 0x15"
| "content_type_get CT_Handshake = 0x16"
| "content_type_get CT_ApplicationData = 0x17"
| "content_type_get CT_Heartbeat = 0x18"
| "content_type_get (CT_Unknown x) = x"

definition content_type_from :: "u8 \<Rightarrow> content_type" where
  "content_type_from x =
     (if x = 0x14 then CT_ChangeCipherSpec
      else if x = 0x15 then CT_Alert
      else if x = 0x16 then CT_Handshake
      else if x = 0x17 then CT_ApplicationData
      else if x = 0x18 then CT_Heartbeat
      else CT_Unknown x)"

interpretation content_type: enum8 "''ContentType''" content_type_get content_type_from
  by unfold_locales (simp add: content_type_from_def)

text \<open>\<open>ProtocolVersion\<close>.\<close>

datatype protocol_version =
    PV_SSLv2 | PV_SSLv3 | PV_TLSv1_0 | PV_TLSv1_1 | PV_TLSv1_2 | PV_TLSv1_3 | PV_DTLSv1_0
  | PV_DTLSv1_2 | PV_DTLSv1_3 | PV_Unknown u16

primrec protocol_version_get :: "protocol_version \<Rightarrow> u16" where
  "protocol_version_get PV_SSLv2 = 0x0200"
| "protocol_version_get PV_SSLv3 = 0x0300"
| "protocol_version_get PV_TLSv1_0 = 0x0301"
| "protocol_version_get PV_TLSv1_1 = 0x0302"
| "protocol_version_get PV_TLSv1_2 = 0x0303"
| "protocol_version_get PV_TLSv1_3 = 0x0304"
| "protocol_version_get PV_DTLSv1_0 = 0xFEFF"
| "protocol_version_get PV_DTLSv1_2 = 0xFEFD"
| "protocol_version_get PV_DTLSv1_3 = 0xFEFC"
| "protocol_version_get (PV_Unknown x) = x"

definition protocol_version_from :: "u16 \<Rightarrow> protocol_version" where
  "protocol_version_from x =
     (if x = 0x0200 then PV_SSLv2
      else if x = 0x0300 then PV_SSLv3
      else if x = 0x0301 then PV_TLSv1_0
      else if x = 0x0302 then PV_TLSv1_1
      else if x = 0x0303 then PV_TLSv1_2
      else if x = 0x0304 then PV_TLSv1_3
      else if x = 0xFEFF then PV_DTLSv1_0
      else if x = 0xFEFD then PV_DTLSv1_2
      else if x = 0xFEFC then PV_DTLSv1_3
      else PV_Unknown x)"

interpretation protocol_version: enum16 "''ProtocolVersion''" protocol_version_get protocol_version_from
  by unfold_locales (simp add: protocol_version_from_def)

text \<open>\<open>SignatureScheme\<close>.\<close>

datatype (plugins only: code size) signature_scheme =
    SS_RSA_PKCS1_SHA1 | SS_ECDSA_SHA1_Legacy | SS_RSA_PKCS1_SHA256
  | SS_ECDSA_NISTP256_SHA256 | SS_RSA_PKCS1_SHA384 | SS_ECDSA_NISTP384_SHA384
  | SS_RSA_PKCS1_SHA512 | SS_ECDSA_NISTP521_SHA512 | SS_RSA_PSS_SHA256 | SS_RSA_PSS_SHA384
  | SS_RSA_PSS_SHA512 | SS_ED25519 | SS_ED448 | SS_Unknown u16

primrec signature_scheme_get :: "signature_scheme \<Rightarrow> u16" where
  "signature_scheme_get SS_RSA_PKCS1_SHA1 = 0x0201"
| "signature_scheme_get SS_ECDSA_SHA1_Legacy = 0x0203"
| "signature_scheme_get SS_RSA_PKCS1_SHA256 = 0x0401"
| "signature_scheme_get SS_ECDSA_NISTP256_SHA256 = 0x0403"
| "signature_scheme_get SS_RSA_PKCS1_SHA384 = 0x0501"
| "signature_scheme_get SS_ECDSA_NISTP384_SHA384 = 0x0503"
| "signature_scheme_get SS_RSA_PKCS1_SHA512 = 0x0601"
| "signature_scheme_get SS_ECDSA_NISTP521_SHA512 = 0x0603"
| "signature_scheme_get SS_RSA_PSS_SHA256 = 0x0804"
| "signature_scheme_get SS_RSA_PSS_SHA384 = 0x0805"
| "signature_scheme_get SS_RSA_PSS_SHA512 = 0x0806"
| "signature_scheme_get SS_ED25519 = 0x0807"
| "signature_scheme_get SS_ED448 = 0x0808"
| "signature_scheme_get (SS_Unknown x) = x"

definition signature_scheme_from :: "u16 \<Rightarrow> signature_scheme" where
  "signature_scheme_from x =
     (if x = 0x0201 then SS_RSA_PKCS1_SHA1
      else if x = 0x0203 then SS_ECDSA_SHA1_Legacy
      else if x = 0x0401 then SS_RSA_PKCS1_SHA256
      else if x = 0x0403 then SS_ECDSA_NISTP256_SHA256
      else if x = 0x0501 then SS_RSA_PKCS1_SHA384
      else if x = 0x0503 then SS_ECDSA_NISTP384_SHA384
      else if x = 0x0601 then SS_RSA_PKCS1_SHA512
      else if x = 0x0603 then SS_ECDSA_NISTP521_SHA512
      else if x = 0x0804 then SS_RSA_PSS_SHA256
      else if x = 0x0805 then SS_RSA_PSS_SHA384
      else if x = 0x0806 then SS_RSA_PSS_SHA512
      else if x = 0x0807 then SS_ED25519
      else if x = 0x0808 then SS_ED448
      else SS_Unknown x)"

interpretation signature_scheme: enum16 "''SignatureScheme''" signature_scheme_get signature_scheme_from
  by unfold_locales (simp add: signature_scheme_from_def)

text \<open>\<open>SignatureAlgorithm\<close>.\<close>

datatype signature_algorithm =
    SA_Anonymous | SA_RSA | SA_DSA | SA_ECDSA | SA_ED25519 | SA_ED448 | SA_Unknown u8

primrec signature_algorithm_get :: "signature_algorithm \<Rightarrow> u8" where
  "signature_algorithm_get SA_Anonymous = 0x00"
| "signature_algorithm_get SA_RSA = 0x01"
| "signature_algorithm_get SA_DSA = 0x02"
| "signature_algorithm_get SA_ECDSA = 0x03"
| "signature_algorithm_get SA_ED25519 = 0x07"
| "signature_algorithm_get SA_ED448 = 0x08"
| "signature_algorithm_get (SA_Unknown x) = x"

definition signature_algorithm_from :: "u8 \<Rightarrow> signature_algorithm" where
  "signature_algorithm_from x =
     (if x = 0x00 then SA_Anonymous
      else if x = 0x01 then SA_RSA
      else if x = 0x02 then SA_DSA
      else if x = 0x03 then SA_ECDSA
      else if x = 0x07 then SA_ED25519
      else if x = 0x08 then SA_ED448
      else SA_Unknown x)"

interpretation signature_algorithm: enum8 "''SignatureAlgorithm''" signature_algorithm_get signature_algorithm_from
  by unfold_locales (simp add: signature_algorithm_from_def)

text \<open>\<open>HashAlgorithm\<close>.\<close>

datatype hash_algorithm =
    HA_NONE | HA_MD5 | HA_SHA1 | HA_SHA224 | HA_SHA256 | HA_SHA384 | HA_SHA512
  | HA_Unknown u8

primrec hash_algorithm_get :: "hash_algorithm \<Rightarrow> u8" where
  "hash_algorithm_get HA_NONE = 0x00"
| "hash_algorithm_get HA_MD5 = 0x01"
| "hash_algorithm_get HA_SHA1 = 0x02"
| "hash_algorithm_get HA_SHA224 = 0x03"
| "hash_algorithm_get HA_SHA256 = 0x04"
| "hash_algorithm_get HA_SHA384 = 0x05"
| "hash_algorithm_get HA_SHA512 = 0x06"
| "hash_algorithm_get (HA_Unknown x) = x"

definition hash_algorithm_from :: "u8 \<Rightarrow> hash_algorithm" where
  "hash_algorithm_from x =
     (if x = 0x00 then HA_NONE
      else if x = 0x01 then HA_MD5
      else if x = 0x02 then HA_SHA1
      else if x = 0x03 then HA_SHA224
      else if x = 0x04 then HA_SHA256
      else if x = 0x05 then HA_SHA384
      else if x = 0x06 then HA_SHA512
      else HA_Unknown x)"

interpretation hash_algorithm: enum8 "''HashAlgorithm''" hash_algorithm_get hash_algorithm_from
  by unfold_locales (simp add: hash_algorithm_from_def)

text \<open>\<open>ClientCertificateType\<close>.\<close>

datatype client_certificate_type =
    CCT_RSASign | CCT_DSSSign | CCT_RSAFixedDH | CCT_DSSFixedDH | CCT_RSAEphemeralDH
  | CCT_DSSEphemeralDH | CCT_FortezzaDMS | CCT_ECDSASign | CCT_RSAFixedECDH
  | CCT_ECDSAFixedECDH | CCT_Unknown u8

primrec client_certificate_type_get :: "client_certificate_type \<Rightarrow> u8" where
  "client_certificate_type_get CCT_RSASign = 0x01"
| "client_certificate_type_get CCT_DSSSign = 0x02"
| "client_certificate_type_get CCT_RSAFixedDH = 0x03"
| "client_certificate_type_get CCT_DSSFixedDH = 0x04"
| "client_certificate_type_get CCT_RSAEphemeralDH = 0x05"
| "client_certificate_type_get CCT_DSSEphemeralDH = 0x06"
| "client_certificate_type_get CCT_FortezzaDMS = 0x14"
| "client_certificate_type_get CCT_ECDSASign = 0x40"
| "client_certificate_type_get CCT_RSAFixedECDH = 0x41"
| "client_certificate_type_get CCT_ECDSAFixedECDH = 0x42"
| "client_certificate_type_get (CCT_Unknown x) = x"

definition client_certificate_type_from :: "u8 \<Rightarrow> client_certificate_type" where
  "client_certificate_type_from x =
     (if x = 0x01 then CCT_RSASign
      else if x = 0x02 then CCT_DSSSign
      else if x = 0x03 then CCT_RSAFixedDH
      else if x = 0x04 then CCT_DSSFixedDH
      else if x = 0x05 then CCT_RSAEphemeralDH
      else if x = 0x06 then CCT_DSSEphemeralDH
      else if x = 0x14 then CCT_FortezzaDMS
      else if x = 0x40 then CCT_ECDSASign
      else if x = 0x41 then CCT_RSAFixedECDH
      else if x = 0x42 then CCT_ECDSAFixedECDH
      else CCT_Unknown x)"

interpretation client_certificate_type: enum8 "''ClientCertificateType''" client_certificate_type_get client_certificate_type_from
  by unfold_locales (simp add: client_certificate_type_from_def)

text \<open>\<open>Compression\<close>.\<close>

datatype compression =
    COMP_Null | COMP_Deflate | COMP_LSZ | COMP_Unknown u8

primrec compression_get :: "compression \<Rightarrow> u8" where
  "compression_get COMP_Null = 0x00"
| "compression_get COMP_Deflate = 0x01"
| "compression_get COMP_LSZ = 0x40"
| "compression_get (COMP_Unknown x) = x"

definition compression_from :: "u8 \<Rightarrow> compression" where
  "compression_from x =
     (if x = 0x00 then COMP_Null
      else if x = 0x01 then COMP_Deflate
      else if x = 0x40 then COMP_LSZ
      else COMP_Unknown x)"

interpretation compression: enum8 "''Compression''" compression_get compression_from
  by unfold_locales (simp add: compression_from_def)

text \<open>\<open>AlertLevel\<close>.\<close>

datatype alert_level =
    AL_Warning | AL_Fatal | AL_Unknown u8

primrec alert_level_get :: "alert_level \<Rightarrow> u8" where
  "alert_level_get AL_Warning = 0x01"
| "alert_level_get AL_Fatal = 0x02"
| "alert_level_get (AL_Unknown x) = x"

definition alert_level_from :: "u8 \<Rightarrow> alert_level" where
  "alert_level_from x =
     (if x = 0x01 then AL_Warning
      else if x = 0x02 then AL_Fatal
      else AL_Unknown x)"

interpretation alert_level: enum8 "''AlertLevel''" alert_level_get alert_level_from
  by unfold_locales (simp add: alert_level_from_def)

text \<open>\<open>HeartbeatMessageType\<close>.\<close>

datatype heartbeat_message_type =
    HBT_Request | HBT_Response | HBT_Unknown u8

primrec heartbeat_message_type_get :: "heartbeat_message_type \<Rightarrow> u8" where
  "heartbeat_message_type_get HBT_Request = 0x01"
| "heartbeat_message_type_get HBT_Response = 0x02"
| "heartbeat_message_type_get (HBT_Unknown x) = x"

definition heartbeat_message_type_from :: "u8 \<Rightarrow> heartbeat_message_type" where
  "heartbeat_message_type_from x =
     (if x = 0x01 then HBT_Request
      else if x = 0x02 then HBT_Response
      else HBT_Unknown x)"

interpretation heartbeat_message_type: enum8 "''HeartbeatMessageType''" heartbeat_message_type_get heartbeat_message_type_from
  by unfold_locales (simp add: heartbeat_message_type_from_def)

text \<open>\<open>ExtensionType\<close>.\<close>

datatype (plugins only: code size) extension_type =
    EXT_ServerName | EXT_MaxFragmentLength | EXT_ClientCertificateUrl | EXT_TrustedCAKeys
  | EXT_TruncatedHMAC | EXT_StatusRequest | EXT_UserMapping | EXT_ClientAuthz
  | EXT_ServerAuthz | EXT_CertificateType | EXT_EllipticCurves | EXT_ECPointFormats
  | EXT_SRP | EXT_SignatureAlgorithms | EXT_UseSRTP | EXT_Heartbeat
  | EXT_ALProtocolNegotiation | EXT_SCT | EXT_Padding | EXT_ExtendedMasterSecret
  | EXT_SessionTicket | EXT_PreSharedKey | EXT_EarlyData | EXT_SupportedVersions
  | EXT_Cookie | EXT_PSKKeyExchangeModes | EXT_TicketEarlyDataInfo
  | EXT_CertificateAuthorities | EXT_OIDFilters | EXT_PostHandshakeAuth
  | EXT_SignatureAlgorithmsCert | EXT_KeyShare | EXT_TransportParameters
  | EXT_NextProtocolNegotiation | EXT_ChannelId | EXT_RenegotiationInfo
  | EXT_TransportParametersDraft | EXT_Unknown u16

primrec extension_type_get :: "extension_type \<Rightarrow> u16" where
  "extension_type_get EXT_ServerName = 0x0000"
| "extension_type_get EXT_MaxFragmentLength = 0x0001"
| "extension_type_get EXT_ClientCertificateUrl = 0x0002"
| "extension_type_get EXT_TrustedCAKeys = 0x0003"
| "extension_type_get EXT_TruncatedHMAC = 0x0004"
| "extension_type_get EXT_StatusRequest = 0x0005"
| "extension_type_get EXT_UserMapping = 0x0006"
| "extension_type_get EXT_ClientAuthz = 0x0007"
| "extension_type_get EXT_ServerAuthz = 0x0008"
| "extension_type_get EXT_CertificateType = 0x0009"
| "extension_type_get EXT_EllipticCurves = 0x000a"
| "extension_type_get EXT_ECPointFormats = 0x000b"
| "extension_type_get EXT_SRP = 0x000c"
| "extension_type_get EXT_SignatureAlgorithms = 0x000d"
| "extension_type_get EXT_UseSRTP = 0x000e"
| "extension_type_get EXT_Heartbeat = 0x000f"
| "extension_type_get EXT_ALProtocolNegotiation = 0x0010"
| "extension_type_get EXT_SCT = 0x0012"
| "extension_type_get EXT_Padding = 0x0015"
| "extension_type_get EXT_ExtendedMasterSecret = 0x0017"
| "extension_type_get EXT_SessionTicket = 0x0023"
| "extension_type_get EXT_PreSharedKey = 0x0029"
| "extension_type_get EXT_EarlyData = 0x002a"
| "extension_type_get EXT_SupportedVersions = 0x002b"
| "extension_type_get EXT_Cookie = 0x002c"
| "extension_type_get EXT_PSKKeyExchangeModes = 0x002d"
| "extension_type_get EXT_TicketEarlyDataInfo = 0x002e"
| "extension_type_get EXT_CertificateAuthorities = 0x002f"
| "extension_type_get EXT_OIDFilters = 0x0030"
| "extension_type_get EXT_PostHandshakeAuth = 0x0031"
| "extension_type_get EXT_SignatureAlgorithmsCert = 0x0032"
| "extension_type_get EXT_KeyShare = 0x0033"
| "extension_type_get EXT_TransportParameters = 0x0039"
| "extension_type_get EXT_NextProtocolNegotiation = 0x3374"
| "extension_type_get EXT_ChannelId = 0x754f"
| "extension_type_get EXT_RenegotiationInfo = 0xff01"
| "extension_type_get EXT_TransportParametersDraft = 0xffa5"
| "extension_type_get (EXT_Unknown x) = x"

definition extension_type_from :: "u16 \<Rightarrow> extension_type" where
  "extension_type_from x =
     (if x = 0x0000 then EXT_ServerName
      else if x = 0x0001 then EXT_MaxFragmentLength
      else if x = 0x0002 then EXT_ClientCertificateUrl
      else if x = 0x0003 then EXT_TrustedCAKeys
      else if x = 0x0004 then EXT_TruncatedHMAC
      else if x = 0x0005 then EXT_StatusRequest
      else if x = 0x0006 then EXT_UserMapping
      else if x = 0x0007 then EXT_ClientAuthz
      else if x = 0x0008 then EXT_ServerAuthz
      else if x = 0x0009 then EXT_CertificateType
      else if x = 0x000a then EXT_EllipticCurves
      else if x = 0x000b then EXT_ECPointFormats
      else if x = 0x000c then EXT_SRP
      else if x = 0x000d then EXT_SignatureAlgorithms
      else if x = 0x000e then EXT_UseSRTP
      else if x = 0x000f then EXT_Heartbeat
      else if x = 0x0010 then EXT_ALProtocolNegotiation
      else if x = 0x0012 then EXT_SCT
      else if x = 0x0015 then EXT_Padding
      else if x = 0x0017 then EXT_ExtendedMasterSecret
      else if x = 0x0023 then EXT_SessionTicket
      else if x = 0x0029 then EXT_PreSharedKey
      else if x = 0x002a then EXT_EarlyData
      else if x = 0x002b then EXT_SupportedVersions
      else if x = 0x002c then EXT_Cookie
      else if x = 0x002d then EXT_PSKKeyExchangeModes
      else if x = 0x002e then EXT_TicketEarlyDataInfo
      else if x = 0x002f then EXT_CertificateAuthorities
      else if x = 0x0030 then EXT_OIDFilters
      else if x = 0x0031 then EXT_PostHandshakeAuth
      else if x = 0x0032 then EXT_SignatureAlgorithmsCert
      else if x = 0x0033 then EXT_KeyShare
      else if x = 0x0039 then EXT_TransportParameters
      else if x = 0x3374 then EXT_NextProtocolNegotiation
      else if x = 0x754f then EXT_ChannelId
      else if x = 0xff01 then EXT_RenegotiationInfo
      else if x = 0xffa5 then EXT_TransportParametersDraft
      else EXT_Unknown x)"

interpretation extension_type: enum16 "''ExtensionType''" extension_type_get extension_type_from
  by unfold_locales (simp add: extension_type_from_def)

text \<open>\<open>ServerNameType\<close>.\<close>

datatype server_name_type =
    SNT_HostName | SNT_Unknown u8

primrec server_name_type_get :: "server_name_type \<Rightarrow> u8" where
  "server_name_type_get SNT_HostName = 0x00"
| "server_name_type_get (SNT_Unknown x) = x"

definition server_name_type_from :: "u8 \<Rightarrow> server_name_type" where
  "server_name_type_from x =
     (if x = 0x00 then SNT_HostName
      else SNT_Unknown x)"

interpretation server_name_type: enum8 "''ServerNameType''" server_name_type_get server_name_type_from
  by unfold_locales (simp add: server_name_type_from_def)

text \<open>\<open>NamedCurve\<close>.\<close>

datatype (plugins only: code size) named_curve =
    NC_sect163k1 | NC_sect163r1 | NC_sect163r2 | NC_sect193r1 | NC_sect193r2 | NC_sect233k1
  | NC_sect233r1 | NC_sect239k1 | NC_sect283k1 | NC_sect283r1 | NC_sect409k1 | NC_sect409r1
  | NC_sect571k1 | NC_sect571r1 | NC_secp160k1 | NC_secp160r1 | NC_secp160r2 | NC_secp192k1
  | NC_secp192r1 | NC_secp224k1 | NC_secp224r1 | NC_secp256k1 | NC_secp256r1 | NC_secp384r1
  | NC_secp521r1 | NC_brainpoolp256r1 | NC_brainpoolp384r1 | NC_brainpoolp512r1 | NC_X25519
  | NC_X448 | NC_arbitrary_explicit_prime_curves | NC_arbitrary_explicit_char2_curves
  | NC_Unknown u16

primrec named_curve_get :: "named_curve \<Rightarrow> u16" where
  "named_curve_get NC_sect163k1 = 0x0001"
| "named_curve_get NC_sect163r1 = 0x0002"
| "named_curve_get NC_sect163r2 = 0x0003"
| "named_curve_get NC_sect193r1 = 0x0004"
| "named_curve_get NC_sect193r2 = 0x0005"
| "named_curve_get NC_sect233k1 = 0x0006"
| "named_curve_get NC_sect233r1 = 0x0007"
| "named_curve_get NC_sect239k1 = 0x0008"
| "named_curve_get NC_sect283k1 = 0x0009"
| "named_curve_get NC_sect283r1 = 0x000a"
| "named_curve_get NC_sect409k1 = 0x000b"
| "named_curve_get NC_sect409r1 = 0x000c"
| "named_curve_get NC_sect571k1 = 0x000d"
| "named_curve_get NC_sect571r1 = 0x000e"
| "named_curve_get NC_secp160k1 = 0x000f"
| "named_curve_get NC_secp160r1 = 0x0010"
| "named_curve_get NC_secp160r2 = 0x0011"
| "named_curve_get NC_secp192k1 = 0x0012"
| "named_curve_get NC_secp192r1 = 0x0013"
| "named_curve_get NC_secp224k1 = 0x0014"
| "named_curve_get NC_secp224r1 = 0x0015"
| "named_curve_get NC_secp256k1 = 0x0016"
| "named_curve_get NC_secp256r1 = 0x0017"
| "named_curve_get NC_secp384r1 = 0x0018"
| "named_curve_get NC_secp521r1 = 0x0019"
| "named_curve_get NC_brainpoolp256r1 = 0x001a"
| "named_curve_get NC_brainpoolp384r1 = 0x001b"
| "named_curve_get NC_brainpoolp512r1 = 0x001c"
| "named_curve_get NC_X25519 = 0x001d"
| "named_curve_get NC_X448 = 0x001e"
| "named_curve_get NC_arbitrary_explicit_prime_curves = 0xff01"
| "named_curve_get NC_arbitrary_explicit_char2_curves = 0xff02"
| "named_curve_get (NC_Unknown x) = x"

definition named_curve_from :: "u16 \<Rightarrow> named_curve" where
  "named_curve_from x =
     (if x = 0x0001 then NC_sect163k1
      else if x = 0x0002 then NC_sect163r1
      else if x = 0x0003 then NC_sect163r2
      else if x = 0x0004 then NC_sect193r1
      else if x = 0x0005 then NC_sect193r2
      else if x = 0x0006 then NC_sect233k1
      else if x = 0x0007 then NC_sect233r1
      else if x = 0x0008 then NC_sect239k1
      else if x = 0x0009 then NC_sect283k1
      else if x = 0x000a then NC_sect283r1
      else if x = 0x000b then NC_sect409k1
      else if x = 0x000c then NC_sect409r1
      else if x = 0x000d then NC_sect571k1
      else if x = 0x000e then NC_sect571r1
      else if x = 0x000f then NC_secp160k1
      else if x = 0x0010 then NC_secp160r1
      else if x = 0x0011 then NC_secp160r2
      else if x = 0x0012 then NC_secp192k1
      else if x = 0x0013 then NC_secp192r1
      else if x = 0x0014 then NC_secp224k1
      else if x = 0x0015 then NC_secp224r1
      else if x = 0x0016 then NC_secp256k1
      else if x = 0x0017 then NC_secp256r1
      else if x = 0x0018 then NC_secp384r1
      else if x = 0x0019 then NC_secp521r1
      else if x = 0x001a then NC_brainpoolp256r1
      else if x = 0x001b then NC_brainpoolp384r1
      else if x = 0x001c then NC_brainpoolp512r1
      else if x = 0x001d then NC_X25519
      else if x = 0x001e then NC_X448
      else if x = 0xff01 then NC_arbitrary_explicit_prime_curves
      else if x = 0xff02 then NC_arbitrary_explicit_char2_curves
      else NC_Unknown x)"

interpretation named_curve: enum16 "''NamedCurve''" named_curve_get named_curve_from
  by unfold_locales (simp add: named_curve_from_def)

text \<open>\<open>NamedGroup\<close>.\<close>

datatype named_group =
    NG_secp256r1 | NG_secp384r1 | NG_secp521r1 | NG_X25519 | NG_X448 | NG_FFDHE2048
  | NG_FFDHE3072 | NG_FFDHE4096 | NG_FFDHE6144 | NG_FFDHE8192 | NG_Unknown u16

primrec named_group_get :: "named_group \<Rightarrow> u16" where
  "named_group_get NG_secp256r1 = 0x0017"
| "named_group_get NG_secp384r1 = 0x0018"
| "named_group_get NG_secp521r1 = 0x0019"
| "named_group_get NG_X25519 = 0x001d"
| "named_group_get NG_X448 = 0x001e"
| "named_group_get NG_FFDHE2048 = 0x0100"
| "named_group_get NG_FFDHE3072 = 0x0101"
| "named_group_get NG_FFDHE4096 = 0x0102"
| "named_group_get NG_FFDHE6144 = 0x0103"
| "named_group_get NG_FFDHE8192 = 0x0104"
| "named_group_get (NG_Unknown x) = x"

definition named_group_from :: "u16 \<Rightarrow> named_group" where
  "named_group_from x =
     (if x = 0x0017 then NG_secp256r1
      else if x = 0x0018 then NG_secp384r1
      else if x = 0x0019 then NG_secp521r1
      else if x = 0x001d then NG_X25519
      else if x = 0x001e then NG_X448
      else if x = 0x0100 then NG_FFDHE2048
      else if x = 0x0101 then NG_FFDHE3072
      else if x = 0x0102 then NG_FFDHE4096
      else if x = 0x0103 then NG_FFDHE6144
      else if x = 0x0104 then NG_FFDHE8192
      else NG_Unknown x)"

interpretation named_group: enum16 "''NamedGroup''" named_group_get named_group_from
  by unfold_locales (simp add: named_group_from_def)

text \<open>\<open>ECPointFormat\<close>.\<close>

datatype ec_point_format =
    ECP_Uncompressed | ECP_ANSIX962CompressedPrime | ECP_ANSIX962CompressedChar2
  | ECP_Unknown u8

primrec ec_point_format_get :: "ec_point_format \<Rightarrow> u8" where
  "ec_point_format_get ECP_Uncompressed = 0x00"
| "ec_point_format_get ECP_ANSIX962CompressedPrime = 0x01"
| "ec_point_format_get ECP_ANSIX962CompressedChar2 = 0x02"
| "ec_point_format_get (ECP_Unknown x) = x"

definition ec_point_format_from :: "u8 \<Rightarrow> ec_point_format" where
  "ec_point_format_from x =
     (if x = 0x00 then ECP_Uncompressed
      else if x = 0x01 then ECP_ANSIX962CompressedPrime
      else if x = 0x02 then ECP_ANSIX962CompressedChar2
      else ECP_Unknown x)"

interpretation ec_point_format: enum8 "''ECPointFormat''" ec_point_format_get ec_point_format_from
  by unfold_locales (simp add: ec_point_format_from_def)

text \<open>\<open>HeartbeatMode\<close>.\<close>

datatype heartbeat_mode =
    HBM_PeerAllowedToSend | HBM_PeerNotAllowedToSend | HBM_Unknown u8

primrec heartbeat_mode_get :: "heartbeat_mode \<Rightarrow> u8" where
  "heartbeat_mode_get HBM_PeerAllowedToSend = 0x01"
| "heartbeat_mode_get HBM_PeerNotAllowedToSend = 0x02"
| "heartbeat_mode_get (HBM_Unknown x) = x"

definition heartbeat_mode_from :: "u8 \<Rightarrow> heartbeat_mode" where
  "heartbeat_mode_from x =
     (if x = 0x01 then HBM_PeerAllowedToSend
      else if x = 0x02 then HBM_PeerNotAllowedToSend
      else HBM_Unknown x)"

interpretation heartbeat_mode: enum8 "''HeartbeatMode''" heartbeat_mode_get heartbeat_mode_from
  by unfold_locales (simp add: heartbeat_mode_from_def)

text \<open>\<open>ECCurveType\<close>.\<close>

datatype ec_curve_type =
    ECT_ExplicitPrime | ECT_ExplicitChar2 | ECT_NamedCurve | ECT_Unknown u8

primrec ec_curve_type_get :: "ec_curve_type \<Rightarrow> u8" where
  "ec_curve_type_get ECT_ExplicitPrime = 0x01"
| "ec_curve_type_get ECT_ExplicitChar2 = 0x02"
| "ec_curve_type_get ECT_NamedCurve = 0x03"
| "ec_curve_type_get (ECT_Unknown x) = x"

definition ec_curve_type_from :: "u8 \<Rightarrow> ec_curve_type" where
  "ec_curve_type_from x =
     (if x = 0x01 then ECT_ExplicitPrime
      else if x = 0x02 then ECT_ExplicitChar2
      else if x = 0x03 then ECT_NamedCurve
      else ECT_Unknown x)"

interpretation ec_curve_type: enum8 "''ECCurveType''" ec_curve_type_get ec_curve_type_from
  by unfold_locales (simp add: ec_curve_type_from_def)

text \<open>\<open>PSKKeyExchangeMode\<close>.\<close>

datatype psk_key_exchange_mode =
    PSKM_PSK_KE | PSKM_PSK_DHE_KE | PSKM_Unknown u8

primrec psk_key_exchange_mode_get :: "psk_key_exchange_mode \<Rightarrow> u8" where
  "psk_key_exchange_mode_get PSKM_PSK_KE = 0x00"
| "psk_key_exchange_mode_get PSKM_PSK_DHE_KE = 0x01"
| "psk_key_exchange_mode_get (PSKM_Unknown x) = x"

definition psk_key_exchange_mode_from :: "u8 \<Rightarrow> psk_key_exchange_mode" where
  "psk_key_exchange_mode_from x =
     (if x = 0x00 then PSKM_PSK_KE
      else if x = 0x01 then PSKM_PSK_DHE_KE
      else PSKM_Unknown x)"

interpretation psk_key_exchange_mode: enum8 "''PSKKeyExchangeMode''" psk_key_exchange_mode_get psk_key_exchange_mode_from
  by unfold_locales (simp add: psk_key_exchange_mode_from_def)

text \<open>\<open>KeyUpdateRequest\<close>.\<close>

datatype key_update_request =
    KUR_UpdateNotRequested | KUR_UpdateRequested | KUR_Unknown u8

primrec key_update_request_get :: "key_update_request \<Rightarrow> u8" where
  "key_update_request_get KUR_UpdateNotRequested = 0x00"
| "key_update_request_get KUR_UpdateRequested = 0x01"
| "key_update_request_get (KUR_Unknown x) = x"

definition key_update_request_from :: "u8 \<Rightarrow> key_update_request" where
  "key_update_request_from x =
     (if x = 0x00 then KUR_UpdateNotRequested
      else if x = 0x01 then KUR_UpdateRequested
      else KUR_Unknown x)"

interpretation key_update_request: enum8 "''KeyUpdateRequest''" key_update_request_get key_update_request_from
  by unfold_locales (simp add: key_update_request_from_def)

text \<open>\<open>CertificateStatusType\<close>.\<close>

datatype certificate_status_type =
    CST_OCSP | CST_Unknown u8

primrec certificate_status_type_get :: "certificate_status_type \<Rightarrow> u8" where
  "certificate_status_type_get CST_OCSP = 0x01"
| "certificate_status_type_get (CST_Unknown x) = x"

definition certificate_status_type_from :: "u8 \<Rightarrow> certificate_status_type" where
  "certificate_status_type_from x =
     (if x = 0x01 then CST_OCSP
      else CST_Unknown x)"

interpretation certificate_status_type: enum8 "''CertificateStatusType''" certificate_status_type_get certificate_status_type_from
  by unfold_locales (simp add: certificate_status_type_from_def)

text \<open>\<open>HpkeKem\<close>.\<close>

datatype hpke_kem =
    KEM_DHKEM_P256_HKDF_SHA256 | KEM_DHKEM_P384_HKDF_SHA384 | KEM_DHKEM_P521_HKDF_SHA512
  | KEM_DHKEM_X25519_HKDF_SHA256 | KEM_DHKEM_X448_HKDF_SHA512 | KEM_Unknown u16

primrec hpke_kem_get :: "hpke_kem \<Rightarrow> u16" where
  "hpke_kem_get KEM_DHKEM_P256_HKDF_SHA256 = 0x0010"
| "hpke_kem_get KEM_DHKEM_P384_HKDF_SHA384 = 0x0011"
| "hpke_kem_get KEM_DHKEM_P521_HKDF_SHA512 = 0x0012"
| "hpke_kem_get KEM_DHKEM_X25519_HKDF_SHA256 = 0x0020"
| "hpke_kem_get KEM_DHKEM_X448_HKDF_SHA512 = 0x0021"
| "hpke_kem_get (KEM_Unknown x) = x"

definition hpke_kem_from :: "u16 \<Rightarrow> hpke_kem" where
  "hpke_kem_from x =
     (if x = 0x0010 then KEM_DHKEM_P256_HKDF_SHA256
      else if x = 0x0011 then KEM_DHKEM_P384_HKDF_SHA384
      else if x = 0x0012 then KEM_DHKEM_P521_HKDF_SHA512
      else if x = 0x0020 then KEM_DHKEM_X25519_HKDF_SHA256
      else if x = 0x0021 then KEM_DHKEM_X448_HKDF_SHA512
      else KEM_Unknown x)"

interpretation hpke_kem: enum16 "''HpkeKem''" hpke_kem_get hpke_kem_from
  by unfold_locales (simp add: hpke_kem_from_def)

text \<open>\<open>HpkeKdf\<close>.\<close>

datatype hpke_kdf =
    KDF_HKDF_SHA256 | KDF_HKDF_SHA384 | KDF_HKDF_SHA512 | KDF_Unknown u16

primrec hpke_kdf_get :: "hpke_kdf \<Rightarrow> u16" where
  "hpke_kdf_get KDF_HKDF_SHA256 = 0x0001"
| "hpke_kdf_get KDF_HKDF_SHA384 = 0x0002"
| "hpke_kdf_get KDF_HKDF_SHA512 = 0x0003"
| "hpke_kdf_get (KDF_Unknown x) = x"

definition hpke_kdf_from :: "u16 \<Rightarrow> hpke_kdf" where
  "hpke_kdf_from x =
     (if x = 0x0001 then KDF_HKDF_SHA256
      else if x = 0x0002 then KDF_HKDF_SHA384
      else if x = 0x0003 then KDF_HKDF_SHA512
      else KDF_Unknown x)"

interpretation hpke_kdf: enum16 "''HpkeKdf''" hpke_kdf_get hpke_kdf_from
  by unfold_locales (simp add: hpke_kdf_from_def)

text \<open>\<open>HpkeAead\<close>.\<close>

datatype hpke_aead =
    AEAD_AES_128_GCM | AEAD_AES_256_GCM | AEAD_CHACHA20_POLY_1305 | AEAD_EXPORT_ONLY
  | AEAD_Unknown u16

primrec hpke_aead_get :: "hpke_aead \<Rightarrow> u16" where
  "hpke_aead_get AEAD_AES_128_GCM = 0x0001"
| "hpke_aead_get AEAD_AES_256_GCM = 0x0002"
| "hpke_aead_get AEAD_CHACHA20_POLY_1305 = 0x0003"
| "hpke_aead_get AEAD_EXPORT_ONLY = 0xFFFF"
| "hpke_aead_get (AEAD_Unknown x) = x"

definition hpke_aead_from :: "u16 \<Rightarrow> hpke_aead" where
  "hpke_aead_from x =
     (if x = 0x0001 then AEAD_AES_128_GCM
      else if x = 0x0002 then AEAD_AES_256_GCM
      else if x = 0x0003 then AEAD_CHACHA20_POLY_1305
      else if x = 0xFFFF then AEAD_EXPORT_ONLY
      else AEAD_Unknown x)"

interpretation hpke_aead: enum16 "''HpkeAead''" hpke_aead_get hpke_aead_from
  by unfold_locales (simp add: hpke_aead_from_def)

text \<open>\<open>EchVersion\<close>.\<close>

datatype ech_version =
    ECHV_V14 | ECHV_Unknown u16

primrec ech_version_get :: "ech_version \<Rightarrow> u16" where
  "ech_version_get ECHV_V14 = 0xfe0d"
| "ech_version_get (ECHV_Unknown x) = x"

definition ech_version_from :: "u16 \<Rightarrow> ech_version" where
  "ech_version_from x =
     (if x = 0xfe0d then ECHV_V14
      else ECHV_Unknown x)"

interpretation ech_version: enum16 "''EchVersion''" ech_version_get ech_version_from
  by unfold_locales (simp add: ech_version_from_def)

text \<open>
  \<open>CipherSuite\<close> has 376 named code points. It is represented by the code point itself: every
  variant of the source, \<open>Unknown\<close> included, stands for exactly one.
\<close>

type_synonym cipher_suite = u16

interpretation cipher_suite: enum16 "''CipherSuite''" "\<lambda>x. x" "\<lambda>x. x"
  by unfold_locales simp

definition sign_algorithm :: "signature_scheme \<Rightarrow> signature_algorithm" where
  "sign_algorithm s =
     (if s \<in> {SS_RSA_PKCS1_SHA1, SS_RSA_PKCS1_SHA256, SS_RSA_PKCS1_SHA384, SS_RSA_PKCS1_SHA512,
               SS_RSA_PSS_SHA256, SS_RSA_PSS_SHA384, SS_RSA_PSS_SHA512} then SA_RSA
      else if s \<in> {SS_ECDSA_NISTP256_SHA256, SS_ECDSA_NISTP384_SHA384, SS_ECDSA_NISTP521_SHA512} then SA_ECDSA
      else if s = SS_ED25519 then SA_ED25519
      else SA_Unknown 0)"

definition supported_in_tls13 :: "signature_scheme \<Rightarrow> bool" where
  "supported_in_tls13 s \<longleftrightarrow>
     s \<in> {SS_ECDSA_NISTP384_SHA384, SS_ECDSA_NISTP256_SHA256, SS_RSA_PSS_SHA512, SS_RSA_PSS_SHA384,
          SS_RSA_PSS_SHA256, SS_ED25519}"

text \<open>No scheme allowed in TLS 1.3 has an unknown algorithm.\<close>

lemma supported_in_tls13_sign: "supported_in_tls13 s \<Longrightarrow> sign_algorithm s \<in> {SA_RSA, SA_ECDSA, SA_ED25519}"
  by (auto simp: supported_in_tls13_def sign_algorithm_def)

end
