(* ===== verification/Rustls_Message.thy ===== *)
theory Rustls_Message
  imports Rustls_Enums
begin

text \<open>
  \<open>orcax/rustls-fork/rustls/src/msgs/message.rs\<close>, \<open>msgs/alert.rs\<close>, \<open>msgs/ccs.rs\<close> and
  \<open>msgs/fragmenter.rs\<close>: the TLS record as it is on the wire (\<open>OpaqueMessage\<close>), its decrypted form
  (\<open>PlainMessage\<close>), alerts, and the splitting of messages into records.
\<close>

section \<open>Errors\<close>

text \<open>The misbehaviours the modelled code reports.\<close>

datatype peer_misbehaved =
    DuplicateNewSessionTicketExtensions
  | IllegalMiddleboxChangeCipherSpec
  | IllegalTlsInnerPlaintext
  | InvalidMaxEarlyDataSize
  | KeyEpochWithPendingFragment
  | KeyUpdateReceivedInQuicConnection
  | MessageInterleavedWithHandshakeMessage
  | RejectedEarlyDataInterleavedWithHandshakeMessage
  | TooMuchEarlyDataReceived

text \<open>Likewise the errors; those of certificate verifiers and of custom providers are left out.\<close>

datatype tls_error =
    InappropriateMessage "content_type list" content_type
  | InappropriateHandshakeMessage "handshake_type list" handshake_type
  | InvalidMessage invalid_message
  | DecryptError
  | EncryptError
  | PeerMisbehaved peer_misbehaved
  | AlertReceived alert_description
  | General string
  | HandshakeNotComplete
  | PeerSentOversizedRecord
  | BadMaxFragmentSize

datatype message_error =
    TooShortForHeader
  | TooShortForLength
  | EmptyPayload
  | PayloadTooLarge
  | ContentTypeInvalid
  | ProtocolVersionUnknown

section \<open>Records\<close>

record opaque_message =
  om_typ :: content_type
  om_version :: protocol_version
  om_payload :: bytes

text \<open>\<open>PlainMessage\<close>, and \<open>BorrowedPlainMessage\<close>, which has the same fields.\<close>

record plain_message =
  pm_typ :: content_type
  pm_version :: protocol_version
  pm_payload :: bytes

abbreviation content_type_read :: "content_type rd" where
  "content_type_read \<equiv> enum8_read ''ContentType'' content_type_from"

abbreviation content_type_encode :: "content_type \<Rightarrow> bytes \<Rightarrow> bytes" where
  "content_type_encode \<equiv> enum8_encode content_type_get"

abbreviation protocol_version_read :: "protocol_version rd" where
  "protocol_version_read \<equiv> enum16_read ''ProtocolVersion'' protocol_version_from"

abbreviation protocol_version_encode :: "protocol_version \<Rightarrow> bytes \<Rightarrow> bytes" where
  "protocol_version_encode \<equiv> enum16_encode protocol_version_get"

definition MAX_PAYLOAD :: u16 where "MAX_PAYLOAD = 16384 + 2048"

definition HEADER_SIZE :: u16 where "HEADER_SIZE = 1 + 2 + 2"

definition MAX_WIRE_SIZE :: nat where "MAX_WIRE_SIZE = unat (MAX_PAYLOAD + HEADER_SIZE)"

definition acceptable_version :: "protocol_version \<Rightarrow> bool" where
  "acceptable_version ver = (case ver of PV_Unknown v \<Rightarrow> v AND 0xff00 = 0x0300 | _ \<Rightarrow> True)"

definition unknown_content :: "content_type \<Rightarrow> bool" where
  "unknown_content typ = (case typ of CT_Unknown _ \<Rightarrow> True | _ \<Rightarrow> False)"

text \<open>The length and the body, after the type and the version.\<close>

definition om_read_body ::
    "content_type \<Rightarrow> protocol_version \<Rightarrow> reader \<Rightarrow> (message_error, opaque_message \<times> reader) outcome" where
  "om_read_body typ version r =
     outcome_bind (map_err (\<lambda>_. TooShortForHeader) (u16_read r)) (\<lambda>(len, r).
     if typ \<noteq> CT_ApplicationData \<and> len = 0 then Err EmptyPayload
     else if len \<ge> MAX_PAYLOAD then Err PayloadTooLarge
     else outcome_bind (map_err (\<lambda>_. TooShortForLength) (r_sub (unat len) r)) (\<lambda>(sr, r).
     Ok (\<lparr>om_typ = typ, om_version = version, om_payload = fst (r_rest sr)\<rparr>, r)))"

definition om_read :: "reader \<Rightarrow> (message_error, opaque_message \<times> reader) outcome" where
  "om_read r =
     outcome_bind (map_err (\<lambda>_. TooShortForHeader) (content_type_read r)) (\<lambda>(typ, r).
     if unknown_content typ then Err ContentTypeInvalid
     else outcome_bind (map_err (\<lambda>_. TooShortForHeader) (protocol_version_read r)) (\<lambda>(version, r).
     if \<not> acceptable_version version then Err ProtocolVersionUnknown
     else om_read_body typ version r))"

definition om_encode :: "opaque_message \<Rightarrow> bytes" where
  "om_encode m =
     payload_encode (om_payload m)
       (u16_encode (of_nat (length (om_payload m)))
          (protocol_version_encode (om_version m)
             (content_type_encode (om_typ m) [])))"

definition into_plain_message :: "opaque_message \<Rightarrow> plain_message" where
  "into_plain_message m = \<lparr>pm_typ = om_typ m, pm_version = om_version m, pm_payload = om_payload m\<rparr>"

definition into_unencrypted_opaque :: "plain_message \<Rightarrow> opaque_message" where
  "into_unencrypted_opaque m = \<lparr>om_typ = pm_typ m, om_version = pm_version m, om_payload = pm_payload m\<rparr>"

text \<open>
  \<open>unpad_tls13\<close> pops bytes from the end until a non-zero one, which is the content type. The list
  is processed from its last byte.
\<close>

function unpad_tls13 :: "bytes \<Rightarrow> content_type \<times> bytes" where
  "unpad_tls13 v =
     (if v = [] then (CT_Unknown 0, [])
      else if last v = 0 then unpad_tls13 (butlast v)
      else (content_type_from (last v), butlast v))"
  by pat_completeness auto
termination
  by (relation "measure length") auto

declare unpad_tls13.simps [simp del]

definition MAX_FRAGMENT_LEN :: nat where "MAX_FRAGMENT_LEN = 16384"

definition into_tls13_unpadded_message :: "opaque_message \<Rightarrow> (tls_error, plain_message) outcome" where
  "into_tls13_unpadded_message m =
     (if length (om_payload m) > MAX_FRAGMENT_LEN + 1 then Err PeerSentOversizedRecord
      else case unpad_tls13 (om_payload m) of (typ, payload) \<Rightarrow>
        if typ = CT_Unknown 0 then Err (PeerMisbehaved IllegalTlsInnerPlaintext)
        else if length payload > MAX_FRAGMENT_LEN then Err PeerSentOversizedRecord
        else Ok (into_plain_message \<lparr>om_typ = typ, om_version = PV_TLSv1_3, om_payload = payload\<rparr>))"

section \<open>Alerts and change cipher spec\<close>

record alert_message_payload =
  level :: alert_level
  description :: alert_description

definition alert_encode :: "alert_message_payload \<Rightarrow> bytes \<Rightarrow> bytes" where
  "alert_encode a out =
     enum8_encode alert_description_get (description a) (enum8_encode alert_level_get (level a) out)"

definition alert_read :: "alert_message_payload rd" where
  "alert_read r =
     outcome_bind (enum8_read ''AlertLevel'' alert_level_from r) (\<lambda>(l, r).
     outcome_bind (enum8_read ''AlertDescription'' alert_description_from r) (\<lambda>(d, r).
     outcome_bind (expect_empty ''AlertMessagePayload'' r) (\<lambda>_.
     Ok (\<lparr>level = l, description = d\<rparr>, r))))"

definition ccs_encode :: "unit \<Rightarrow> bytes \<Rightarrow> bytes" where
  "ccs_encode u out = u8_encode 1 out"

definition ccs_read :: "unit rd" where
  "ccs_read r =
     outcome_bind (u8_read r) (\<lambda>(typ, r).
     if typ \<noteq> 1 then Err InvalidCcs
     else outcome_bind (expect_empty ''ChangeCipherSpecPayload'' r) (\<lambda>_. Ok ((), r)))"

section \<open>Fragmenting\<close>

definition PACKET_OVERHEAD :: nat where "PACKET_OVERHEAD = 1 + 2 + 2"

definition MAX_FRAGMENT_SIZE :: nat where "MAX_FRAGMENT_SIZE = MAX_FRAGMENT_LEN + PACKET_OVERHEAD"

record message_fragmenter =
  max_frag :: nat

definition fragmenter_default :: message_fragmenter where
  "fragmenter_default = \<lparr>max_frag = MAX_FRAGMENT_LEN\<rparr>"

text \<open>\<open>slice::chunks(n)\<close>; it panics for \<open>n = 0\<close>, which no fragmenter has.\<close>

function chunks :: "nat \<Rightarrow> bytes \<Rightarrow> bytes list" where
  "chunks n bs = (if n = 0 \<or> bs = [] then [] else take n bs # chunks n (drop n bs))"
  by pat_completeness auto
termination
  by (relation "measure (\<lambda>(n, bs). length bs)") auto

declare chunks.simps [simp del]

definition fragment_slice ::
    "message_fragmenter \<Rightarrow> content_type \<Rightarrow> protocol_version \<Rightarrow> bytes \<Rightarrow> plain_message list" where
  "fragment_slice fr typ version payload =
     map (\<lambda>c. \<lparr>pm_typ = typ, pm_version = version, pm_payload = c\<rparr>) (chunks (max_frag fr) payload)"

definition fragment_message :: "message_fragmenter \<Rightarrow> plain_message \<Rightarrow> plain_message list" where
  "fragment_message fr m = fragment_slice fr (pm_typ m) (pm_version m) (pm_payload m)"

definition set_max_fragment_size ::
    "message_fragmenter \<Rightarrow> nat option \<Rightarrow> (tls_error, message_fragmenter) outcome" where
  "set_max_fragment_size fr max_fragment_size =
     (case max_fragment_size of
        Some sz \<Rightarrow>
          if 32 \<le> sz \<and> sz \<le> MAX_FRAGMENT_SIZE then Ok (fr\<lparr>max_frag := sz - PACKET_OVERHEAD\<rparr>)
          else Err BadMaxFragmentSize
      | None \<Rightarrow> Ok (fr\<lparr>max_frag := MAX_FRAGMENT_LEN\<rparr>))"

section \<open>Properties of records\<close>

definition om_wf :: "opaque_message \<Rightarrow> bool" where
  "om_wf m \<longleftrightarrow>
     \<not> unknown_content (om_typ m)
     \<and> known protocol_version_get protocol_version_from (om_version m)
     \<and> acceptable_version (om_version m)
     \<and> length (om_payload m) < 18432
     \<and> (om_typ m = CT_ApplicationData \<or> om_payload m \<noteq> [])"

lemma om_encode_eq:
  "om_encode m = content_type_encode (om_typ m) [] @ protocol_version_encode (om_version m) []
     @ be16 (of_nat (length (om_payload m))) @ om_payload m"
  by (simp add: om_encode_def payload_encode_def u16_encode_def enum8_encode_def enum16_encode_def u8_encode_def)

lemma length_om_encode [simp]: "length (om_encode m) = 5 + length (om_payload m)"
  by (simp add: om_encode_eq enum8_encode_def enum16_encode_def u8_encode_def u16_encode_def)

lemma MAX_PAYLOAD_unat: "unat MAX_PAYLOAD = 18432"
  by (simp add: MAX_PAYLOAD_def)

lemma payload_len_ok:
  assumes "n < 18432"
  shows "\<not> (of_nat n :: u16) \<ge> MAX_PAYLOAD" "unat (of_nat n :: u16) = n" "((of_nat n :: u16) = 0) = (n = 0)"
proof -
  show u: "unat (of_nat n :: u16) = n" using assms by (simp add: unat_of_nat_u16)
  show "\<not> (of_nat n :: u16) \<ge> MAX_PAYLOAD" using assms u by (simp add: word_le_nat_alt MAX_PAYLOAD_unat)
  show "((of_nat n :: u16) = 0) = (n = 0)" proof
    assume "(of_nat n :: u16) = 0"
    then have "unat (of_nat n :: u16) = 0" by (simp only: unsigned_0)
    with u show "n = 0" by simp
  qed simp
qed

lemma known_content: "\<not> unknown_content t \<Longrightarrow> known content_type_get content_type_from t"
  by (cases t) (simp_all add: unknown_content_def known_def content_type_from_def)

lemma om_read_body_reads:
  assumes "length p < 18432" "typ = CT_ApplicationData \<or> p \<noteq> []"
  shows "reads w (om_read_body typ version) (be16 (of_nat (length p)) @ p)
    \<lparr>om_typ = typ, om_version = version, om_payload = p\<rparr>"
  unfolding om_read_body_def [abs_def]
proof (rule reads_bind [OF reads_map_err [OF u16_reads]])
  have "reads w (\<lambda>r. outcome_bind (map_err (\<lambda>_. TooShortForLength) (r_sub (length p) r)) (\<lambda>(sr, r).
     Ok (\<lparr>om_typ = typ, om_version = version, om_payload = fst (r_rest sr)\<rparr>, r))) (p @ [])
     \<lparr>om_typ = typ, om_version = version, om_payload = p\<rparr>"
    by (rule reads_bind [OF reads_map_err [OF r_sub_reads]]) (auto intro!: reads_Ok simp: rest_init)
  with assms payload_len_ok [OF assms(1)]
  show "reads w (\<lambda>r. if typ \<noteq> CT_ApplicationData \<and> (of_nat (length p) :: u16) = 0 then Err EmptyPayload
     else if (of_nat (length p) :: u16) \<ge> MAX_PAYLOAD then Err PayloadTooLarge
     else outcome_bind (map_err (\<lambda>_. TooShortForLength) (r_sub (unat (of_nat (length p) :: u16)) r)) (\<lambda>(sr, r).
     Ok (\<lparr>om_typ = typ, om_version = version, om_payload = fst (r_rest sr)\<rparr>, r))) p
     \<lparr>om_typ = typ, om_version = version, om_payload = p\<rparr>" by auto
qed

lemma om_read_reads:
  assumes "om_wf m"
  shows "reads w om_read (om_encode m) m"
proof -
  have wf: "\<not> unknown_content (om_typ m)" "known protocol_version_get protocol_version_from (om_version m)"
    "acceptable_version (om_version m)" "length (om_payload m) < 18432"
    "om_typ m = CT_ApplicationData \<or> om_payload m \<noteq> []"
    using assms by (simp_all add: om_wf_def)
  have m: "\<lparr>om_typ = om_typ m, om_version = om_version m, om_payload = om_payload m\<rparr> = m"
    by (cases m) simp
  have v: "reads w (\<lambda>r. outcome_bind (map_err (\<lambda>_. TooShortForHeader) (protocol_version_read r)) (\<lambda>(version, r).
     if \<not> acceptable_version version then Err ProtocolVersionUnknown
     else om_read_body (om_typ m) version r))
     (protocol_version_encode (om_version m) [] @ be16 (of_nat (length (om_payload m))) @ om_payload m) m"
    using om_read_body_reads [OF wf(4,5), of w "om_version m", unfolded m] wf(3)
    by (intro reads_bind [OF reads_map_err [OF protocol_version.rd_enc [OF wf(2)]]]) simp
  show ?thesis
    unfolding om_encode_eq om_read_def [abs_def]
    using v wf(1)
    by (intro reads_bind [OF reads_map_err [OF content_type.rd_enc [OF known_content [OF wf(1)]]]]) simp
qed

lemma om_read_body_gives:
  "gives (\<lambda>m bs. om_typ m = typ \<and> om_version m = version \<and> length (om_payload m) < 18432
       \<and> (typ = CT_ApplicationData \<or> om_payload m \<noteq> [])
       \<and> bs = be16 (of_nat (length (om_payload m))) @ om_payload m)
     (om_read_body typ version)"
  unfolding om_read_body_def [abs_def]
proof (intro gives_bind [OF gives_map_err [OF u16_gives]] gives_if gives_Err
    gives_bind [OF gives_map_err [OF r_sub_gives]] gives_Ok)
  fix len :: u16 and bs sr cs
  assume "bs = be16 len" "\<not> (typ \<noteq> CT_ApplicationData \<and> len = 0)" "\<not> MAX_PAYLOAD \<le> len"
    and "sr = reader_init cs \<and> length cs = unat len"
  moreover from this have "unat len < 18432" by (simp add: word_le_nat_alt MAX_PAYLOAD_unat)
  moreover have "of_nat (unat len) = len" by simp
  moreover have "unat len = 0 \<longleftrightarrow> len = 0" by (rule unsigned_eq_0_iff)
  ultimately show "om_typ \<lparr>om_typ = typ, om_version = version, om_payload = fst (r_rest sr)\<rparr> = typ
      \<and> om_version \<lparr>om_typ = typ, om_version = version, om_payload = fst (r_rest sr)\<rparr> = version
      \<and> length (om_payload \<lparr>om_typ = typ, om_version = version, om_payload = fst (r_rest sr)\<rparr>) < 18432
      \<and> (typ = CT_ApplicationData \<or> om_payload \<lparr>om_typ = typ, om_version = version, om_payload = fst (r_rest sr)\<rparr> \<noteq> [])
      \<and> bs @ cs @ [] = be16 (of_nat (length (om_payload \<lparr>om_typ = typ, om_version = version, om_payload = fst (r_rest sr)\<rparr>)))
          @ om_payload \<lparr>om_typ = typ, om_version = version, om_payload = fst (r_rest sr)\<rparr>"
    by (auto simp: rest_init)
qed

lemma om_read_gives: "gives (\<lambda>m bs. om_wf m \<and> bs = om_encode m) om_read"
  unfolding om_read_def [abs_def]
proof (intro gives_bind [OF gives_map_err [OF content_type.rd_exact]] gives_if gives_Err
    gives_bind [OF gives_map_err [OF protocol_version.rd_exact]])
  fix ty ver and bs cs :: bytes
  assume a: "known content_type_get content_type_from ty \<and> bs = content_type_encode ty []"
    "\<not> unknown_content ty" "\<not> \<not> acceptable_version ver"
    "known protocol_version_get protocol_version_from ver \<and> cs = protocol_version_encode ver []"
  show "gives (\<lambda>m ds. om_wf m \<and> bs @ cs @ ds = om_encode m) (om_read_body ty ver)"
    by (rule gives_mono [OF om_read_body_gives]) (use a in \<open>auto simp: om_wf_def om_encode_eq\<close>)
qed

text \<open>Reading one record from a buffer, and what happens when it is not complete yet.\<close>

lemma om_read_init:
  "om_read (reader_init bs) = Ok (m, r) \<longleftrightarrow>
     om_wf m \<and> (\<exists>t. bs = om_encode m @ t \<and> r = \<lparr>rbuf = bs, cursor = length (om_encode m)\<rparr>)"
proof
  assume "om_read (reader_init bs) = Ok (m, r)"
  from givesD [OF om_read_gives _ this] have
    sb: "same_buf (reader_init bs) r" and wf: "om_wf m" and bs: "bs = om_encode m @ rem r" by auto
  have "cursor r = length (om_encode m)" using same_buf_cursor [OF sb] arg_cong [OF bs, of length] by simp
  moreover have "rbuf r = bs" using sb by (auto simp: reader_init_def)
  ultimately show "om_wf m \<and> (\<exists>t. bs = om_encode m @ t \<and> r = \<lparr>rbuf = bs, cursor = length (om_encode m)\<rparr>)"
    using wf bs by (intro conjI exI [of _ "rem r"]) simp_all
next
  assume "om_wf m \<and> (\<exists>t. bs = om_encode m @ t \<and> r = \<lparr>rbuf = bs, cursor = length (om_encode m)\<rparr>)"
  then obtain t where wf: "om_wf m" and bs: "bs = om_encode m @ t"
    and r: "r = \<lparr>rbuf = bs, cursor = length (om_encode m)\<rparr>" by blast
  from readsD [OF om_read_reads [OF wf, of False], of "reader_init bs" t] bs obtain r' where
    r': "om_read (reader_init bs) = Ok (m, r')" "rem r' = t" by auto
  from givesD [OF om_read_gives reader_init_simps(1) r'(1)] have sb: "same_buf (reader_init bs) r'" by blast
  have "cursor r' = length (om_encode m)" using same_buf_cursor [OF sb] r'(2) bs by simp
  moreover have "rbuf r' = bs" using sb by (auto simp: reader_init_def)
  ultimately have "r' = r" using r by simp
  then show "om_read (reader_init bs) = Ok (m, r)" using r' by simp
qed

lemma r_take_short: "length (rem r) < n \<Longrightarrow> r_take n r = (None, r)"
  by (simp add: r_take_def r_left_rem)

lemma enum8_short: "rem r = [] \<Longrightarrow> enum8_read name frm r = Err (MissingData name)"
  by (simp add: enum8_read_def u8_read_def r_take_short)

lemma u16_short: "length (rem r) < 2 \<Longrightarrow> u16_read r = Err (MissingData ''u8'')"
  by (simp add: u16_read_def r_take_short)

lemma enum16_short: "length (rem r) < 2 \<Longrightarrow> enum16_read name frm r = Err (MissingData name)"
  by (simp add: enum16_read_def u16_short)

lemma r_sub_short: "length (rem r) < n \<Longrightarrow> r_sub n r = Err MessageTooShort"
  by (simp add: r_sub_def r_take_short)

lemma prefix_split: "a @ s = h @ p \<Longrightarrow> length h \<le> length a \<Longrightarrow> \<exists>q. a = h @ q \<and> q @ s = p"
  by (auto simp: append_eq_append_conv2)

lemma om_read_body_short:
  assumes "reader_inv r" "rem r @ s = be16 (of_nat (length p)) @ p" "s \<noteq> []"
    and "length p < 18432" "typ = CT_ApplicationData \<or> p \<noteq> []"
  shows "om_read_body typ ver r \<in> {Err TooShortForHeader, Err TooShortForLength}"
proof (cases "length (rem r) < 2")
  case True
  then show ?thesis by (simp add: om_read_body_def u16_short)
next
  case False
  then obtain q where q: "rem r = be16 (of_nat (length p)) @ q" "q @ s = p"
    using prefix_split [OF assms(2)] by auto
  from readsD [OF u16_reads [of False] assms(1) q(1)] obtain r1 where
    r1: "u16_read r = Ok (of_nat (length p), r1)" "rem r1 = q" by auto
  have "length q < length p" using q(2) assms(3) by auto
  with r1 assms(5) payload_len_ok [OF assms(4)] show ?thesis
    by (auto simp: om_read_body_def r_sub_short)
qed

lemma om_read_prefix:
  assumes wf: "om_wf m" and pre: "bs @ s = om_encode m" "s \<noteq> []"
  shows "om_read (reader_init bs) \<in> {Err TooShortForHeader, Err TooShortForLength}"
proof (cases bs)
  case Nil
  then show ?thesis by (simp add: om_read_def enum8_short)
next
  case (Cons b bs')
  let ?body = "be16 (of_nat (length (om_payload m))) @ om_payload m"
  have k: "\<not> unknown_content (om_typ m)" "known protocol_version_get protocol_version_from (om_version m)"
    "acceptable_version (om_version m)" "length (om_payload m) < 18432"
    "om_typ m = CT_ApplicationData \<or> om_payload m \<noteq> []" using wf by (simp_all add: om_wf_def)
  have bs: "bs = content_type_encode (om_typ m) [] @ bs'"
    and tl: "bs' @ s = protocol_version_encode (om_version m) [] @ ?body"
    using pre(1) Cons by (simp_all add: om_encode_eq enum8_encode_def u8_encode_def)
  from readsD [OF content_type.rd_enc [OF known_content [OF k(1)], of False] reader_init_simps(1), of bs bs'] bs
  obtain r1 where r1: "content_type_read (reader_init bs) = Ok (om_typ m, r1)" "reader_inv r1" "rem r1 = bs'" by auto
  show ?thesis
  proof (cases "length bs' < 2")
    case True
    then show ?thesis using r1 k by (simp add: om_read_def enum16_short)
  next
    case False
    then obtain q where q: "bs' = protocol_version_encode (om_version m) [] @ q" "q @ s = ?body"
      using prefix_split [OF tl] by (auto simp: enum16_encode_def u16_encode_def)
    from readsD [OF protocol_version.rd_enc [OF k(2), of False] r1(2), of q] r1(3) q(1) obtain r2 where
      r2: "protocol_version_read r1 = Ok (om_version m, r2)" "reader_inv r2" "rem r2 = q" by auto
    from om_read_body_short [OF r2(2) _ pre(2) k(4,5)] q(2) r2(3)
    show ?thesis using r1 r2 k by (simp add: om_read_def)
  qed
qed

section \<open>Padding\<close>

lemma unpad_zeros: "unpad_tls13 (v @ replicate k 0) = unpad_tls13 v"
proof (induction k)
  case (Suc k)
  have "unpad_tls13 ((v @ replicate k 0) @ [0]) = unpad_tls13 (v @ replicate k 0)"
    by (subst unpad_tls13.simps) (simp del: append_assoc)
  with Suc show ?case by (simp add: replicate_append_same)
qed simp

lemma unpad_content: "t \<noteq> 0 \<Longrightarrow> unpad_tls13 (p @ [t] @ replicate k 0) = (content_type_from t, p)"
  using unpad_zeros [of "p @ [t]" k] by (simp add: unpad_tls13.simps [of "p @ [t]"])

lemma unpad_shorter: "length (snd (unpad_tls13 v)) \<le> length v - 1"
proof (induction v rule: unpad_tls13.induct)
  case (1 v)
  show ?case
  proof (cases "v \<noteq> [] \<and> last v = 0")
    case True
    then have "unpad_tls13 v = unpad_tls13 (butlast v)" by (simp add: unpad_tls13.simps [of v])
    with 1 True show ?thesis by simp
  next
    case False
    then show ?thesis by (auto simp: unpad_tls13.simps [of v])
  qed
qed

lemma content_type_nonzero: "\<not> unknown_content t \<Longrightarrow> content_type_get t \<noteq> 0"
  by (cases t) (simp_all add: unknown_content_def)

section \<open>Alerts\<close>

definition alert_wf :: "alert_message_payload \<Rightarrow> bool" where
  "alert_wf a \<longleftrightarrow> known alert_level_get alert_level_from (level a)
     \<and> known alert_description_get alert_description_from (description a)"

lemma expect_empty_reads: "reads True (\<lambda>r. outcome_bind (expect_empty name r) (\<lambda>_. Ok (v, r))) [] v"
  by (rule readsI) (simp add: expect_empty_def any_left_rem)

lemma expect_empty_gives:
  "P v [] \<Longrightarrow> gives P (\<lambda>r. outcome_bind (expect_empty name r) (\<lambda>_. Ok (v, r)))"
  by (rule givesI) (auto simp: expect_empty_def split: if_splits)

interpretation alert: whole_codec alert_encode alert_read alert_wf
proof
  show "alert_encode a out = out @ alert_encode a []" for a out
    by (simp add: alert_encode_def enum8_encode_def u8_encode_def)
  show "reads True alert_read (alert_encode a []) a" if "alert_wf a" for a
  proof -
    have k: "known alert_level_get alert_level_from (level a)"
      "known alert_description_get alert_description_from (description a)" using that by (simp_all add: alert_wf_def)
    have "reads True alert_read
        (enum8_encode alert_level_get (level a) [] @ enum8_encode alert_description_get (description a) [] @ [])
        \<lparr>level = level a, description = description a\<rparr>"
      unfolding alert_read_def [abs_def]
      by (intro reads_bind [OF alert_level.rd_enc [OF k(1)]] reads_bind [OF alert_description.rd_enc [OF k(2)]]
          expect_empty_reads)
    moreover have "\<lparr>level = level a, description = description a\<rparr> = a" by (cases a) simp
    ultimately show ?thesis by (simp only: alert_encode_def enum8_encode_def u8_encode_def) simp
  qed
  show "gives (\<lambda>a bs. alert_wf a \<and> length (alert_encode a []) \<le> length bs) alert_read"
    unfolding alert_read_def [abs_def]
    by (intro gives_bind [OF alert_level.rd_exact] gives_bind [OF alert_description.rd_exact] expect_empty_gives)
      (auto simp: alert_wf_def alert_encode_def enum8_encode_def u8_encode_def)
qed

interpretation ccs: whole_codec ccs_encode ccs_read "\<lambda>_. True"
proof
  show "reads True ccs_read (ccs_encode u []) u" for u :: unit
  proof -
    have "reads True ccs_read ([1] @ []) ()"
      unfolding ccs_read_def [abs_def]
      by (rule reads_bind [OF u8_reads]) (simp add: expect_empty_reads)
    then show ?thesis by (simp add: ccs_encode_def u8_encode_def)
  qed
  show "gives (\<lambda>u bs. True \<and> length (ccs_encode u []) \<le> length bs) ccs_read"
    unfolding ccs_read_def [abs_def]
    by (intro gives_bind [OF u8_gives] gives_if gives_Err expect_empty_gives) (auto simp: ccs_encode_def u8_encode_def)
qed (simp add: ccs_encode_def u8_encode_def)

section \<open>Properties of the fragmenter\<close>

lemma chunks_Nil [simp]: "chunks n [] = []"
  by (simp add: chunks.simps)

lemma chunks_step: "0 < n \<Longrightarrow> bs \<noteq> [] \<Longrightarrow> chunks n bs = take n bs # chunks n (drop n bs)"
  by (subst chunks.simps) simp

lemma chunks_single: "bs \<noteq> [] \<Longrightarrow> length bs \<le> n \<Longrightarrow> chunks n bs = [bs]"
  by (subst chunks_step) (auto intro: Nat.gr0I)

lemma concat_chunks: "0 < n \<Longrightarrow> concat (chunks n bs) = bs"
proof (induction n bs rule: chunks.induct)
  case (1 n bs)
  then show ?case by (cases "bs = []") (simp_all add: chunks_step)
qed

lemma chunks_sizes: "c \<in> set (chunks n bs) \<Longrightarrow> c \<noteq> [] \<and> length c \<le> n"
proof (induction n bs rule: chunks.induct)
  case (1 n bs)
  then show ?case by (cases "n = 0 \<or> bs = []") (auto simp: chunks.simps [of n bs])
qed

lemma length_chunks: "0 < n \<Longrightarrow> length (chunks n bs) = (length bs + n - 1) div n"
proof (induction n bs rule: chunks.induct)
  case (1 n bs)
  show ?case
  proof (cases "bs = []")
    case False
    then have "0 < length bs" by simp
    have "length (chunks n bs) = Suc ((length bs - n + n - 1) div n)"
      using 1 False by (simp add: chunks_step)
    also have "\<dots> = (length bs + n - 1) div n"
    proof (cases "length bs \<le> n")
      case True
      have "(l + n - 1) div n = 1" if "0 < l" "l \<le> n" for l :: nat
        using that by (intro div_nat_eqI) auto
      then have "(length bs + n - 1) div n = 1" using True \<open>0 < length bs\<close> by blast
      with True "1.prems" show ?thesis by (simp add: div_less)
    next
      case False
      then have "length bs + n - 1 = (length bs - 1) + n" "length bs - n + n - 1 = length bs - 1" by simp_all
      then show ?thesis using "1.prems" by (simp only: div_add_self2)
    qed
    finally show ?thesis .
  qed (use "1.prems" in simp)
qed

definition fragmenter_wf :: "message_fragmenter \<Rightarrow> bool" where
  "fragmenter_wf fr \<longleftrightarrow> 27 \<le> max_frag fr \<and> max_frag fr \<le> MAX_FRAGMENT_LEN"

lemma fragmenter_default_wf: "fragmenter_wf fragmenter_default"
  by (simp add: fragmenter_wf_def fragmenter_default_def MAX_FRAGMENT_LEN_def)

lemma set_max_fragment_size_wf:
  "set_max_fragment_size fr sz = Ok fr' \<Longrightarrow> fragmenter_wf fr'"
  by (auto simp: set_max_fragment_size_def fragmenter_wf_def MAX_FRAGMENT_SIZE_def MAX_FRAGMENT_LEN_def
      PACKET_OVERHEAD_def split: option.splits if_splits)

lemma fragment_message_concat:
  "fragmenter_wf fr \<Longrightarrow> concat (map pm_payload (fragment_message fr m)) = pm_payload m"
  by (simp add: fragment_message_def fragment_slice_def fragmenter_wf_def concat_chunks comp_def)

end
