(* ===== verification/Rustls_Fields.thy ===== *)
theory Rustls_Fields
  imports Rustls_Message
begin

text \<open>
  Codecs of structures: two, three or four fields written one after the other, and the extension
  shape that six enumerations of \<open>orcax/rustls-fork/rustls/src/msgs/handshake.rs\<close> share (type,
  length, and a body that depends on the type). The rest of the theory are the small structures
  of \<open>handshake.rs\<close> and \<open>verify.rs\<close> that appear in extensions and messages.
\<close>

section \<open>Sequences of fields\<close>

lemma codec_pair:
  assumes A: "codec ea ra oa" and B: "codec eb rb ob"
    and enc: "\<And>v out. enc v out = eb (g v) (ea (f v) out)"
    and rd: "\<And>r. rd r = outcome_bind (ra r) (\<lambda>(a, r). outcome_bind (rb r) (\<lambda>(b, r). Ok (mk a b, r)))"
    and iso: "\<And>a b. f (mk a b) = a" "\<And>a b. g (mk a b) = b" "\<And>v. mk (f v) (g v) = v"
    and ok: "\<And>v. ok v \<longleftrightarrow> oa (f v) \<and> ob (g v)"
  shows "codec enc rd ok"
proof (rule codecI)
  note appA = whole_codec.enc_app [OF codec.axioms(1) [OF A]] and appB = whole_codec.enc_app [OF codec.axioms(1) [OF B]]
  have e: "enc v out = out @ ea (f v) [] @ eb (g v) []" for v out
    unfolding enc by (subst appB, subst appA) simp
  show "enc v out = out @ enc v []" for v out by (simp add: e)
  show "enc v [] \<noteq> []" if "ok v" for v using codec.enc_nonempty [OF A, of "f v"] that ok by (simp add: e)
  have rd': "rd = (\<lambda>r. outcome_bind (ra r) (\<lambda>(a, r). outcome_bind (rb r) (\<lambda>(b, r). Ok (mk a b, r))))"
    using rd by (rule ext)
  show "reads w rd (enc v []) v" if "ok v" for w v
  proof -
    have "reads w rd (ea (f v) [] @ eb (g v) [] @ []) v"
      unfolding rd' using that ok iso(3)
      by (intro reads_bind [OF codec.rd_enc [OF A]] reads_bind [OF codec.rd_enc [OF B]] reads_Ok) simp_all
    then show ?thesis by (simp add: e)
  qed
  show "gives (\<lambda>v bs. ok v \<and> length (enc v []) \<le> length bs) rd"
    unfolding rd'
    by (intro gives_bind [OF whole_codec.rd_wf [OF codec.axioms(1) [OF A]]]
        gives_bind [OF whole_codec.rd_wf [OF codec.axioms(1) [OF B]]] gives_Ok)
      (simp add: ok iso e)
qed

lemma reads_last:
  assumes "reads w p bs b" "mk b = v"
  shows "reads w (\<lambda>r. outcome_bind (p r) (\<lambda>(b, r). Ok (mk b, r))) bs v"
proof (rule readsI)
  fix r t assume "reader_inv r" "rem r = bs @ t" "w \<Longrightarrow> t = []"
  from readsD [OF assms(1) this] assms(2)
  show "\<exists>r'. outcome_bind (p r) (\<lambda>(b, r). Ok (mk b, r)) = Ok (v, r') \<and> reader_inv r' \<and> rem r' = t" by auto
qed

text \<open>The last field may extend to the end of the input.\<close>

lemma whole_codec_pair:
  assumes A: "codec ea ra oa" and B: "whole_codec eb rb ob"
    and enc: "\<And>v out. enc v out = eb (g v) (ea (f v) out)"
    and rd: "\<And>r. rd r = outcome_bind (ra r) (\<lambda>(a, r). outcome_bind (rb r) (\<lambda>(b, r). Ok (mk a b, r)))"
    and iso: "\<And>a b. f (mk a b) = a" "\<And>a b. g (mk a b) = b" "\<And>v. mk (f v) (g v) = v"
    and ok: "\<And>v. ok v \<longleftrightarrow> oa (f v) \<and> ob (g v)"
  shows "whole_codec enc rd ok"
proof
  note appA = whole_codec.enc_app [OF codec.axioms(1) [OF A]] and appB = whole_codec.enc_app [OF B]
  have e: "enc v out = out @ ea (f v) [] @ eb (g v) []" for v out
    unfolding enc by (subst appB, subst appA) simp
  show "enc v out = out @ enc v []" for v out by (simp add: e)
  have rd': "rd = (\<lambda>r. outcome_bind (ra r) (\<lambda>(a, r). outcome_bind (rb r) (\<lambda>(b, r). Ok (mk a b, r))))"
    using rd by (rule ext)
  show "gives (\<lambda>v bs. ok v \<and> length (enc v []) \<le> length bs) rd"
    unfolding rd'
    by (intro gives_bind [OF whole_codec.rd_wf [OF codec.axioms(1) [OF A]]]
        gives_bind [OF whole_codec.rd_wf [OF B]] gives_Ok)
      (simp add: ok iso e)
  fix v assume v: "ok v"
  show "reads True rd (enc v []) v"
    unfolding e append_Nil rd'
  proof (rule reads_bind [OF codec.rd_enc [OF A]])
    show "oa (f v)" using v ok by simp
    have "reads True rb (eb (g v) []) (g v)" using whole_codec.rd_all [OF B] v ok by simp
    then show "reads True (\<lambda>r. outcome_bind (rb r) (\<lambda>(b, r). Ok (mk (f v) b, r))) (eb (g v) []) v"
      by (rule reads_last) (simp add: iso)
  qed
qed

lemma outcome_bind_assoc:
  "outcome_bind (outcome_bind m f) g = outcome_bind m (\<lambda>x. outcome_bind (f x) g)"
  by (simp add: outcome_bind_def split: outcome.splits)

lemma codec_triple:
  assumes A: "codec ea ra oa" and B: "codec eb rb ob" and C: "codec ec rc oc"
    and enc: "\<And>v out. enc v out = ec (h v) (eb (g v) (ea (f v) out))"
    and rd: "\<And>r. rd r = outcome_bind (ra r) (\<lambda>(a, r). outcome_bind (rb r) (\<lambda>(b, r).
       outcome_bind (rc r) (\<lambda>(c, r). Ok (mk a b c, r))))"
    and iso: "\<And>a b c. f (mk a b c) = a" "\<And>a b c. g (mk a b c) = b" "\<And>a b c. h (mk a b c) = c"
      "\<And>v. mk (f v) (g v) (h v) = v"
    and ok: "\<And>v. ok v \<longleftrightarrow> oa (f v) \<and> ob (g v) \<and> oc (h v)"
  shows "codec enc rd ok"
proof -
  have BC: "codec (\<lambda>p. ec (snd p) \<circ> eb (fst p))
      (\<lambda>r. outcome_bind (rb r) (\<lambda>(b, r). outcome_bind (rc r) (\<lambda>(c, r). Ok ((b, c), r)))) (\<lambda>p. ob (fst p) \<and> oc (snd p))"
    by (rule codec_pair [OF B C, of _ snd fst _ Pair]) simp_all
  show ?thesis
    by (rule codec_pair [OF A BC, of enc "\<lambda>v. (g v, h v)" f rd "\<lambda>a p. mk a (fst p) (snd p)"])
      (simp_all add: enc rd iso ok outcome_bind_assoc split_def)
qed

lemma codec_quad:
  assumes A: "codec ea ra oa" and B: "codec eb rb ob" and C: "codec ec rc oc" and D: "codec ed rd' od"
    and enc: "\<And>v out. enc v out = ed (k v) (ec (h v) (eb (g v) (ea (f v) out)))"
    and rd: "\<And>r. rd r = outcome_bind (ra r) (\<lambda>(a, r). outcome_bind (rb r) (\<lambda>(b, r).
       outcome_bind (rc r) (\<lambda>(c, r). outcome_bind (rd' r) (\<lambda>(d, r). Ok (mk a b c d, r)))))"
    and iso: "\<And>a b c d. f (mk a b c d) = a" "\<And>a b c d. g (mk a b c d) = b" "\<And>a b c d. h (mk a b c d) = c"
      "\<And>a b c d. k (mk a b c d) = d" "\<And>v. mk (f v) (g v) (h v) (k v) = v"
    and ok: "\<And>v. ok v \<longleftrightarrow> oa (f v) \<and> ob (g v) \<and> oc (h v) \<and> od (k v)"
  shows "codec enc rd ok"
proof -
  have BCD: "codec (\<lambda>p out. ed (snd (snd p)) (ec (fst (snd p)) (eb (fst p) out)))
      (\<lambda>r. outcome_bind (rb r) (\<lambda>(b, r). outcome_bind (rc r) (\<lambda>(c, r). outcome_bind (rd' r) (\<lambda>(d, r). Ok ((b, c, d), r)))))
      (\<lambda>p. ob (fst p) \<and> oc (fst (snd p)) \<and> od (snd (snd p)))"
    by (rule codec_triple [OF B C D, of _ "snd \<circ> snd" "fst \<circ> snd" fst _ "\<lambda>b c d. (b, c, d)"]) simp_all
  show ?thesis
    by (rule codec_pair [OF A BCD, of enc "\<lambda>v. (g v, h v, k v)" f rd "\<lambda>a p. mk a (fst p) (fst (snd p)) (snd (snd p))"])
      (simp_all add: enc rd iso ok outcome_bind_assoc split_def)
qed

text \<open>A decoder whose result is wrapped in a constructor: \<open>Self::C(T::read(r)?)\<close>.\<close>

definition wrap :: "('a \<Rightarrow> 'b) \<Rightarrow> 'a rd \<Rightarrow> 'b rd" where
  "wrap c p r = outcome_bind (p r) (\<lambda>(v, r). Ok (c v, r))"

lemma reads_wrap: "reads w p bs v \<Longrightarrow> reads w (wrap c p) bs (c v)"
  unfolding wrap_def [abs_def] by (rule reads_last) simp_all

lemma gives_wrap: "gives P p \<Longrightarrow> (\<And>v bs. P v bs \<Longrightarrow> Q (c v) bs) \<Longrightarrow> gives Q (wrap c p)"
  unfolding wrap_def [abs_def] by (rule gives_bind, assumption, rule gives_Ok) simp

text \<open>A decoder whose result is checked: \<open>if !ok(v) { return Err(e) }\<close>.\<close>

definition require :: "('a \<Rightarrow> bool) \<Rightarrow> invalid_message \<Rightarrow> 'a rd \<Rightarrow> 'a rd" where
  "require P e p r = outcome_bind (p r) (\<lambda>(v, r). if P v then Ok (v, r) else Err e)"

lemma reads_require: "reads w p bs v \<Longrightarrow> P v \<Longrightarrow> reads w (require P e p) bs v"
  using readsD [of w p bs v] by (intro readsI) (fastforce simp: require_def)

lemma gives_require: "gives Q p \<Longrightarrow> gives (\<lambda>v bs. Q v bs \<and> P v) (require P e p)"
  unfolding require_def [abs_def] by (rule gives_bind, assumption) (intro gives_if gives_Ok gives_Err; simp)

lemma codec_require:
  assumes "codec enc rd ok"
  shows "codec enc (require P e rd) (\<lambda>v. ok v \<and> P v)"
proof (rule codecI)
  show "gives (\<lambda>v bs. (ok v \<and> P v) \<and> length (enc v []) \<le> length bs) (require P e rd)"
    by (rule gives_mono [OF gives_require [OF whole_codec.rd_wf [OF codec.axioms(1) [OF assms]]]]) simp
  show "enc v out = out @ enc v []" for v out by (rule whole_codec.enc_app [OF codec.axioms(1) [OF assms]])
qed (auto intro: reads_require codec.rd_enc [OF assms] dest: codec.enc_nonempty [OF assms])

section \<open>The codecs of the enumerations\<close>

abbreviation "extension_type_encode \<equiv> enum16_encode extension_type_get"
abbreviation "extension_type_read \<equiv> enum16_read ''ExtensionType'' extension_type_from"
abbreviation "named_group_encode \<equiv> enum16_encode named_group_get"
abbreviation "named_group_read \<equiv> enum16_read ''NamedGroup'' named_group_from"
abbreviation "signature_scheme_encode \<equiv> enum16_encode signature_scheme_get"
abbreviation "signature_scheme_read \<equiv> enum16_read ''SignatureScheme'' signature_scheme_from"
abbreviation "ec_point_format_encode \<equiv> enum8_encode ec_point_format_get"
abbreviation "ec_point_format_read \<equiv> enum8_read ''ECPointFormat'' ec_point_format_from"
abbreviation "server_name_type_encode \<equiv> enum8_encode server_name_type_get"
abbreviation "server_name_type_read \<equiv> enum8_read ''ServerNameType'' server_name_type_from"
abbreviation "psk_key_exchange_mode_encode \<equiv> enum8_encode psk_key_exchange_mode_get"
abbreviation "psk_key_exchange_mode_read \<equiv> enum8_read ''PSKKeyExchangeMode'' psk_key_exchange_mode_from"
abbreviation "certificate_status_type_encode \<equiv> enum8_encode certificate_status_type_get"
abbreviation "certificate_status_type_read \<equiv> enum8_read ''CertificateStatusType'' certificate_status_type_from"
abbreviation "cipher_suite_encode \<equiv> enum16_encode (\<lambda>x :: cipher_suite. x)"
abbreviation "cipher_suite_read \<equiv> enum16_read ''CipherSuite'' (\<lambda>x :: cipher_suite. x)"
abbreviation "compression_encode \<equiv> enum8_encode compression_get"
abbreviation "compression_read \<equiv> enum8_read ''Compression'' compression_from"

section \<open>Random and session id\<close>

definition HELLO_RETRY_REQUEST_RANDOM :: bytes where
  "HELLO_RETRY_REQUEST_RANDOM =
     [0xcf, 0x21, 0xad, 0x74, 0xe5, 0x9a, 0x61, 0x11, 0xbe, 0x1d, 0x8c, 0x02, 0x1e, 0x65, 0xb8, 0x91,
      0xc2, 0xa2, 0x11, 0x16, 0x7a, 0xbb, 0x8c, 0x5e, 0x07, 0x9e, 0x09, 0xe2, 0xc8, 0xa8, 0x33, 0x9c]"

definition ZERO_RANDOM :: bytes where "ZERO_RANDOM = replicate 32 0"

definition random_encode :: "bytes \<Rightarrow> bytes \<Rightarrow> bytes" where
  "random_encode v out = out @ v"

definition random_read :: "bytes rd" where
  "random_read r =
     (case r_take 32 r of (Some bs, r') \<Rightarrow> Ok (bs, r') | (None, _) \<Rightarrow> Err (MissingData ''Random''))"

record session_id =
  sid_len :: nat
  sid_data :: bytes

definition session_id_eq :: "session_id \<Rightarrow> session_id \<Rightarrow> bool" where
  "session_id_eq a b \<longleftrightarrow>
     sid_len a = sid_len b
     \<and> fold (\<lambda>i diff. diff OR (sid_data a ! i XOR sid_data b ! i)) [0..<sid_len a] 0 = 0"

definition session_id_encode :: "session_id \<Rightarrow> bytes \<Rightarrow> bytes" where
  "session_id_encode s out = out @ [of_nat (sid_len s)] @ take (sid_len s) (sid_data s)"

definition session_id_read :: "session_id rd" where
  "session_id_read r =
     outcome_bind (u8_read r) (\<lambda>(len, r).
     if unat len > 32 then Err (TrailingData ''SessionID'')
     else case r_take (unat len) r of
       (Some bs, r') \<Rightarrow> Ok (\<lparr>sid_len = unat len, sid_data = bs @ replicate (32 - unat len) 0\<rparr>, r')
     | (None, _) \<Rightarrow> Err (MissingData ''SessionID''))"

definition session_id_random :: "bytes \<Rightarrow> session_id" where
  "session_id_random rnd = \<lparr>sid_len = 32, sid_data = rnd\<rparr>"

definition session_id_empty :: session_id where
  "session_id_empty = \<lparr>sid_len = 0, sid_data = replicate 32 0\<rparr>"

definition session_id_is_empty :: "session_id \<Rightarrow> bool" where
  "session_id_is_empty s \<longleftrightarrow> sid_len s = 0"

definition session_id_wf :: "session_id \<Rightarrow> bool" where
  "session_id_wf s \<longleftrightarrow> sid_len s \<le> 32 \<and> length (sid_data s) = 32
     \<and> drop (sid_len s) (sid_data s) = replicate (32 - sid_len s) 0"

definition random_wf :: "bytes \<Rightarrow> bool" where
  "random_wf v \<longleftrightarrow> length v = 32"

interpretation random: codec random_encode random_read random_wf
proof (rule codecI)
  show "reads w random_read (random_encode v []) v" if "random_wf v" for w v
    using that by (intro reads_take [of _ 32]) (simp_all add: random_wf_def random_encode_def random_read_def)
  show "gives (\<lambda>v bs. random_wf v \<and> length (random_encode v []) \<le> length bs) random_read"
  proof (rule givesI)
    show "random_read r \<noteq> Panic" for r by (simp add: random_read_def split: prod.splits option.splits)
    fix r v r' assume r: "reader_inv r" and d: "random_read r = Ok (v, r')"
    then have "r_take 32 r = (Some v, r')" by (auto simp: random_read_def split: prod.splits option.splits)
    from r_take_Some [OF r this] show "same_buf r r' \<and> (\<exists>bs. rem r = bs @ rem r' \<and> random_wf v \<and> length (random_encode v []) \<le> length bs)"
      by (auto simp: random_wf_def random_encode_def)
  qed
qed (auto simp: random_encode_def random_wf_def)

lemma take_reads:
  fixes f :: "bytes \<Rightarrow> 'a" and e :: 'e
  assumes "length bs = n"
  shows "reads w (\<lambda>r. case r_take n r of (Some bs, r') \<Rightarrow> Ok (f bs, r') | (None, _) \<Rightarrow> Err e) bs (f bs)"
  by (rule reads_take [OF assms]) simp

lemma take_gives:
  "gives (\<lambda>v bs. v = f bs \<and> length bs = n) (\<lambda>r. case r_take n r of (Some bs, r') \<Rightarrow> Ok (f bs, r') | (None, _) \<Rightarrow> Err e)"
  by (rule givesI) (auto dest: r_take_Some split: prod.splits option.splits)

interpretation session_id: codec session_id_encode session_id_read session_id_wf
proof (rule codecI)
  show "reads w session_id_read (session_id_encode s []) s" if "session_id_wf s" for w s
  proof -
    have l: "sid_len s \<le> 32" "length (take (sid_len s) (sid_data s)) = sid_len s"
      "unat (of_nat (sid_len s) :: u8) = sid_len s"
      using that by (simp_all add: session_id_wf_def unat_of_nat_u8)
    have d: "\<lparr>sid_len = sid_len s, sid_data = take (sid_len s) (sid_data s) @ replicate (32 - sid_len s) 0\<rparr> = s"
      using that append_take_drop_id [of "sid_len s" "sid_data s"] by (cases s) (simp add: session_id_wf_def)
    note t = take_reads [OF l(2), where w = w and f = "\<lambda>bs. \<lparr>sid_len = sid_len s, sid_data = bs @ replicate (32 - sid_len s) 0\<rparr>"
        and e = "MissingData ''SessionID''", unfolded d]
    have "reads w session_id_read ([of_nat (sid_len s)] @ take (sid_len s) (sid_data s)) s"
      unfolding session_id_read_def [abs_def]
      by (rule reads_bind [OF u8_reads]) (unfold l(3), use l(1) t in simp)
    then show ?thesis by (simp add: session_id_encode_def)
  qed
  show "gives (\<lambda>v bs. session_id_wf v \<and> length (session_id_encode v []) \<le> length bs) session_id_read"
    unfolding session_id_read_def [abs_def]
  proof (intro gives_bind [OF u8_gives] gives_if gives_Err)
    fix len :: u8 and bs assume b: "bs = [len]" "\<not> 32 < unat len"
    show "gives (\<lambda>u cs. session_id_wf u \<and> length (session_id_encode u []) \<le> length (bs @ cs))
      (\<lambda>r. case r_take (unat len) r of
         (Some bs, r') \<Rightarrow> Ok (\<lparr>sid_len = unat len, sid_data = bs @ replicate (32 - unat len) 0\<rparr>, r')
       | (None, _) \<Rightarrow> Err (MissingData ''SessionID''))"
      by (rule gives_mono [OF take_gives]) (use b in \<open>auto simp: session_id_wf_def session_id_encode_def\<close>)
  qed
qed (simp_all add: session_id_encode_def)

text \<open>Equality of session ids, which the source computes in constant time, is equality of the ids.\<close>

lemma or_zero: "a OR b = 0 \<longleftrightarrow> a = 0 \<and> b = 0" for a b :: u8
  by (auto simp: bit_eq_iff bit_or_iff)

lemma xor_zero: "a XOR b = 0 \<longleftrightarrow> a = b" for a b :: u8
  by (auto simp: bit_eq_iff bit_xor_iff)

lemma fold_or_zero: "fold (\<lambda>i d. d OR f i) xs (d :: u8) = 0 \<longleftrightarrow> d = 0 \<and> (\<forall>i\<in>set xs. f i = 0)"
  by (induction xs arbitrary: d) (auto simp: or_zero)

lemma session_id_eq_iff:
  assumes "session_id_wf a" "session_id_wf b"
  shows "session_id_eq a b \<longleftrightarrow> a = b"
proof
  assume "session_id_eq a b"
  then have l: "sid_len a = sid_len b" and i: "\<And>k. k < sid_len a \<Longrightarrow> sid_data a ! k = sid_data b ! k"
    by (auto simp: session_id_eq_def fold_or_zero xor_zero)
  have "take (sid_len a) (sid_data a) = take (sid_len a) (sid_data b)"
    by (rule nth_equalityI) (use assms i l in \<open>auto simp: session_id_wf_def\<close>)
  moreover have "drop (sid_len a) (sid_data a) = drop (sid_len a) (sid_data b)"
    using assms l by (simp add: session_id_wf_def)
  ultimately have "sid_data a = sid_data b" by (metis append_take_drop_id)
  with l show "a = b" by simp
qed (unfold session_id_eq_def fold_or_zero, simp)

section \<open>Small structures\<close>

text \<open>\<open>wrapped_payload!\<close>: \<open>ProtocolName\<close> and \<open>PresharedKeyBinder\<close> are a \<open>PayloadU8\<close>, \<open>ResponderId\<close>
  and \<open>DistinguishedName\<close> a \<open>PayloadU16\<close>.\<close>

type_synonym protocol_name = bytes
type_synonym preshared_key_binder = bytes
type_synonym responder_id = bytes
type_synonym distinguished_name = bytes

record key_share_entry =
  kse_group :: named_group
  kse_payload :: bytes

definition key_share_entry_encode :: "key_share_entry \<Rightarrow> bytes \<Rightarrow> bytes" where
  "key_share_entry_encode e out = payload_u16_encode (kse_payload e) (named_group_encode (kse_group e) out)"

definition key_share_entry_read :: "key_share_entry rd" where
  "key_share_entry_read r =
     outcome_bind (named_group_read r) (\<lambda>(group, r).
     outcome_bind (payload_u16_read r) (\<lambda>(payload, r).
     Ok (\<lparr>kse_group = group, kse_payload = payload\<rparr>, r)))"

definition key_share_entry_wf :: "key_share_entry \<Rightarrow> bool" where
  "key_share_entry_wf e \<longleftrightarrow> known named_group_get named_group_from (kse_group e) \<and> sized 65536 (kse_payload e)"

interpretation key_share_entry: codec key_share_entry_encode key_share_entry_read key_share_entry_wf
  by (rule codec_pair [OF named_group.codec_axioms payload_u16.codec_axioms, of _ kse_payload kse_group _
        "\<lambda>g p. \<lparr>kse_group = g, kse_payload = p\<rparr>"])
    (simp_all add: key_share_entry_encode_def key_share_entry_read_def key_share_entry_wf_def)

record preshared_key_identity =
  identity :: bytes
  obfuscated_ticket_age :: u32

definition preshared_key_identity_encode :: "preshared_key_identity \<Rightarrow> bytes \<Rightarrow> bytes" where
  "preshared_key_identity_encode i out = u32_encode (obfuscated_ticket_age i) (payload_u16_encode (identity i) out)"

definition preshared_key_identity_read :: "preshared_key_identity rd" where
  "preshared_key_identity_read r =
     outcome_bind (payload_u16_read r) (\<lambda>(i, r).
     outcome_bind (u32_read r) (\<lambda>(age, r).
     Ok (\<lparr>identity = i, obfuscated_ticket_age = age\<rparr>, r)))"

definition preshared_key_identity_wf :: "preshared_key_identity \<Rightarrow> bool" where
  "preshared_key_identity_wf i \<longleftrightarrow> sized 65536 (identity i)"

interpretation preshared_key_identity:
  codec preshared_key_identity_encode preshared_key_identity_read preshared_key_identity_wf
  by (rule codec_pair [OF payload_u16.codec_axioms u32.codec_axioms, of _ obfuscated_ticket_age identity _
        "\<lambda>i a. \<lparr>identity = i, obfuscated_ticket_age = a\<rparr>"])
    (simp_all add: preshared_key_identity_encode_def preshared_key_identity_read_def preshared_key_identity_wf_def)

record preshared_key_offer =
  identities :: "preshared_key_identity list"
  binders :: "preshared_key_binder list"

definition identities_encode :: "preshared_key_identity list \<Rightarrow> bytes \<Rightarrow> bytes" where
  "identities_encode = vec_encode LenU16 preshared_key_identity_encode"

definition binders_encode :: "preshared_key_binder list \<Rightarrow> bytes \<Rightarrow> bytes" where
  "binders_encode = vec_encode LenU16 payload_u8_encode"

definition preshared_key_offer_encode :: "preshared_key_offer \<Rightarrow> bytes \<Rightarrow> bytes" where
  "preshared_key_offer_encode o' out = binders_encode (binders o') (identities_encode (identities o') out)"

definition preshared_key_offer_read :: "preshared_key_offer rd" where
  "preshared_key_offer_read r =
     outcome_bind (vec_read LenU16 preshared_key_identity_read r) (\<lambda>(is, r).
     outcome_bind (vec_read LenU16 payload_u8_read r) (\<lambda>(bs, r).
     Ok (\<lparr>identities = is, binders = bs\<rparr>, r)))"

definition preshared_key_offer_wf :: "preshared_key_offer \<Rightarrow> bool" where
  "preshared_key_offer_wf o' \<longleftrightarrow>
     vec_wf LenU16 preshared_key_identity_encode preshared_key_identity_wf (identities o')
     \<and> vec_wf LenU16 payload_u8_encode (sized 256) (binders o')"

interpretation preshared_key_offer: codec preshared_key_offer_encode preshared_key_offer_read preshared_key_offer_wf
  by (rule codec_pair [OF preshared_key_identity.vec_codec [of LenU16] payload_u8.vec_codec [of LenU16],
        of _ binders identities _ "\<lambda>i b. \<lparr>identities = i, binders = b\<rparr>"])
    (simp_all add: preshared_key_offer_encode_def preshared_key_offer_read_def preshared_key_offer_wf_def
      identities_encode_def binders_encode_def)

text \<open>The status type in front of an OCSP request is written here and read by the caller.\<close>

record ocsp_request =
  responder_ids :: "responder_id list"
  ocsp_extensions :: bytes

definition ocsp_request_encode :: "ocsp_request \<Rightarrow> bytes \<Rightarrow> bytes" where
  "ocsp_request_encode q out =
     payload_u16_encode (ocsp_extensions q)
       (vec_encode LenU16 payload_u16_encode (responder_ids q)
          (certificate_status_type_encode CST_OCSP out))"

definition ocsp_request_read :: "ocsp_request rd" where
  "ocsp_request_read r =
     outcome_bind (vec_read LenU16 payload_u16_read r) (\<lambda>(ids, r).
     outcome_bind (payload_u16_read r) (\<lambda>(ext, r).
     Ok (\<lparr>responder_ids = ids, ocsp_extensions = ext\<rparr>, r)))"

datatype certificate_status_request =
    CSR_Ocsp ocsp_request
  | CSR_Unknown certificate_status_type bytes

primrec certificate_status_request_encode :: "certificate_status_request \<Rightarrow> bytes \<Rightarrow> bytes" where
  "certificate_status_request_encode (CSR_Ocsp q) out = ocsp_request_encode q out"
| "certificate_status_request_encode (CSR_Unknown t p) out = payload_encode p (certificate_status_type_encode t out)"

definition certificate_status_request_read :: "certificate_status_request rd" where
  "certificate_status_request_read r =
     outcome_bind (certificate_status_type_read r) (\<lambda>(typ, r).
     case typ of
       CST_OCSP \<Rightarrow> wrap CSR_Ocsp ocsp_request_read r
     | _ \<Rightarrow> wrap (CSR_Unknown typ) payload_read r)"

definition build_ocsp :: certificate_status_request where
  "build_ocsp = CSR_Ocsp \<lparr>responder_ids = [], ocsp_extensions = []\<rparr>"

primrec certificate_status_request_wf :: "certificate_status_request \<Rightarrow> bool" where
  "certificate_status_request_wf (CSR_Ocsp q) \<longleftrightarrow>
     vec_wf LenU16 payload_u16_encode (sized 65536) (responder_ids q) \<and> sized 65536 (ocsp_extensions q)"
| "certificate_status_request_wf (CSR_Unknown t p) \<longleftrightarrow>
     known certificate_status_type_get certificate_status_type_from t \<and> t \<noteq> CST_OCSP"

text \<open>The request without its status type.\<close>

definition ocsp_body_encode :: "ocsp_request \<Rightarrow> bytes \<Rightarrow> bytes" where
  "ocsp_body_encode q out =
     payload_u16_encode (ocsp_extensions q) (vec_encode LenU16 payload_u16_encode (responder_ids q) out)"

definition ocsp_request_wf :: "ocsp_request \<Rightarrow> bool" where
  "ocsp_request_wf q \<longleftrightarrow>
     vec_wf LenU16 payload_u16_encode (sized 65536) (responder_ids q) \<and> sized 65536 (ocsp_extensions q)"

interpretation ocsp_body: codec ocsp_body_encode ocsp_request_read ocsp_request_wf
  by (rule codec_pair [OF payload_u16.vec_codec [of LenU16] payload_u16.codec_axioms,
        of _ ocsp_extensions responder_ids _ "\<lambda>i e. \<lparr>responder_ids = i, ocsp_extensions = e\<rparr>"])
    (simp_all add: ocsp_body_encode_def ocsp_request_read_def ocsp_request_wf_def)

lemma ocsp_request_encode_eq:
  "ocsp_request_encode q out = out @ certificate_status_type_encode CST_OCSP [] @ ocsp_body_encode q []"
proof -
  have "ocsp_request_encode q out = ocsp_body_encode q (certificate_status_type_encode CST_OCSP out)"
    by (simp add: ocsp_request_encode_def ocsp_body_encode_def)
  then show ?thesis
    by (metis ocsp_body.enc_app certificate_status_type.enc_app append.assoc)
qed

interpretation certificate_status_request:
  whole_codec certificate_status_request_encode certificate_status_request_read certificate_status_request_wf
proof
  have e: "certificate_status_request_encode v out = out @
    (case v of CSR_Ocsp q \<Rightarrow> certificate_status_type_encode CST_OCSP [] @ ocsp_body_encode q []
     | CSR_Unknown t p \<Rightarrow> certificate_status_type_encode t [] @ p)" for v out
    by (cases v) (simp_all add: ocsp_request_encode_eq payload_encode_def enum8_encode_def u8_encode_def)
  show "certificate_status_request_encode v out = out @ certificate_status_request_encode v []" for v out
    by (simp add: e)
  show "gives (\<lambda>v bs. certificate_status_request_wf v \<and> length (certificate_status_request_encode v []) \<le> length bs)
    certificate_status_request_read"
    unfolding certificate_status_request_read_def [abs_def]
  proof (rule gives_bind [OF certificate_status_type.rd_exact])
    fix t bs assume t: "known certificate_status_type_get certificate_status_type_from t
      \<and> bs = certificate_status_type_encode t []"
    show "gives (\<lambda>u cs. certificate_status_request_wf u \<and> length (certificate_status_request_encode u []) \<le> length (bs @ cs))
      (\<lambda>r. case t of CST_OCSP \<Rightarrow> wrap CSR_Ocsp ocsp_request_read r | _ \<Rightarrow> wrap (CSR_Unknown t) payload_read r)"
    proof (cases "t = CST_OCSP")
      case True
      have "gives (\<lambda>u cs. certificate_status_request_wf u \<and> length (certificate_status_request_encode u []) \<le> length (bs @ cs))
        (wrap CSR_Ocsp ocsp_request_read)"
        by (rule gives_wrap [OF ocsp_body.rd_wf]) (use t True in \<open>simp add: e ocsp_request_wf_def\<close>)
      then show ?thesis using True by simp
    next
      case False
      have "gives (\<lambda>u cs. certificate_status_request_wf u \<and> length (certificate_status_request_encode u []) \<le> length (bs @ cs))
        (wrap (CSR_Unknown t) payload_read)"
        by (rule gives_wrap [OF payload_gives]) (use t False in \<open>simp add: e\<close>)
      then show ?thesis using False by (cases t) simp_all
    qed
  qed
  fix v assume v: "certificate_status_request_wf v"
  show "reads True certificate_status_request_read (certificate_status_request_encode v []) v"
  proof (cases v)
    case (CSR_Ocsp q)
    have "reads True certificate_status_request_read (certificate_status_type_encode CST_OCSP [] @ ocsp_body_encode q []) v"
      unfolding certificate_status_request_read_def [abs_def] CSR_Ocsp
      by (rule reads_bind [OF certificate_status_type.rd_enc])
        (use v CSR_Ocsp in \<open>simp_all add: known_def certificate_status_type_from_def ocsp_request_wf_def reads_wrap [OF ocsp_body.rd_enc]\<close>)
    then show ?thesis by (simp add: CSR_Ocsp e)
  next
    case (CSR_Unknown t p)
    have "reads True certificate_status_request_read (certificate_status_type_encode t [] @ p) v"
      unfolding certificate_status_request_read_def [abs_def] CSR_Unknown
      by (rule reads_bind [OF certificate_status_type.rd_enc])
        (use v CSR_Unknown in \<open>cases t; simp add: reads_wrap [OF payload_reads]\<close>)+
    then show ?thesis by (simp add: CSR_Unknown e)
  qed
qed

end
