(* ===== verification/Rustls_Extensions.thy ===== *)
theory Rustls_Extensions
  imports Rustls_Fields
begin

text \<open>
  The extensions of \<open>orcax/rustls-fork/rustls/src/msgs/handshake.rs\<close>. Six enumerations
  (\<open>ClientExtension\<close>, \<open>ServerExtension\<close>, \<open>HelloRetryExtension\<close>, \<open>CertificateExtension\<close>,
  \<open>CertReqExtension\<close>, \<open>NewSessionTicketExtension\<close>) share one wire format, a type, a length and a body
  whose decoder depends on the type. The format is proved once in the locale \<open>extension\<close>, which
  every enumeration interprets.

  \<open>DnsName\<close> is a type of another crate: \<open>dns\<close> is the set of byte strings that its \<open>try_from\<close>
  accepts.
\<close>

named_theorems ext_reads \<open>decoders of extension bodies on encoded bodies\<close>
named_theorems ext_gives \<open>what decoders of extension bodies return\<close>

section \<open>Repeated elements\<close>

text \<open>The loop over a \<open>BTreeSet\<close> of keys that five checks of the source share.\<close>

fun repeated :: "('a \<Rightarrow> 'k) \<Rightarrow> 'k set \<Rightarrow> 'a list \<Rightarrow> bool" where
  "repeated key seen [] \<longleftrightarrow> False"
| "repeated key seen (x # xs) \<longleftrightarrow> key x \<in> seen \<or> repeated key (insert (key x) seen) xs"

lemma repeated_iff:
  "repeated key seen xs \<longleftrightarrow> \<not> distinct (map key xs) \<or> set (map key xs) \<inter> seen \<noteq> {}"
proof (induction xs arbitrary: seen)
  case (Cons x xs)
  show ?case unfolding repeated.simps Cons.IH by auto
qed simp

text \<open>Without repetition, the first element with a key is the only one.\<close>

lemma find_unique:
  assumes "\<not> repeated key {} xs"
  shows "List.find (\<lambda>x. key x = k) xs = Some x \<longleftrightarrow> x \<in> set xs \<and> key x = k"
  using assms by (induction xs) (auto simp: repeated_iff image_iff)

section \<open>The shared format\<close>

definition ext_encode :: "('e \<Rightarrow> extension_type) \<Rightarrow> ('e \<Rightarrow> bytes \<Rightarrow> bytes) \<Rightarrow> 'e \<Rightarrow> bytes \<Rightarrow> bytes" where
  "ext_encode get_type body v out = nested LenU16 (body v) (extension_type_encode (get_type v) out)"

definition ext_read :: "string \<Rightarrow> (extension_type \<Rightarrow> 'e rd) \<Rightarrow> 'e rd" where
  "ext_read name read_body r =
     outcome_bind (extension_type_read r) (\<lambda>(typ, r).
     outcome_bind (u16_read r) (\<lambda>(len, r).
     in_sub (unat len) (all_of name (read_body typ)) r))"

abbreviation "known_ext \<equiv> known extension_type_get extension_type_from"

definition ext_wf :: "('e \<Rightarrow> bool) \<Rightarrow> ('e \<Rightarrow> bytes \<Rightarrow> bytes) \<Rightarrow> 'e \<Rightarrow> bool" where
  "ext_wf ok body v \<longleftrightarrow> ok v \<and> sized 65536 (body v [])"

locale extension =
  fixes name :: string and get_type :: "'e \<Rightarrow> extension_type" and body :: "'e \<Rightarrow> bytes \<Rightarrow> bytes"
    and read_body :: "extension_type \<Rightarrow> 'e rd" and ok :: "'e \<Rightarrow> bool"
  assumes body_app: "body v out = out @ body v []"
    and type_known: "ok v \<Longrightarrow> known_ext (get_type v)"
    and body_reads: "ok v \<Longrightarrow> reads True (read_body (get_type v)) (body v []) v"
    and body_gives: "known_ext t \<Longrightarrow>
      gives (\<lambda>v bs. ok v \<and> get_type v = t \<and> length (body v []) \<le> length bs) (read_body t)"
begin

lemma ext_encode_eq:
  "ext_encode get_type body v out =
     out @ extension_type_encode (get_type v) [] @ be16 (of_nat (length (body v []))) @ body v []"
  unfolding ext_encode_def
  by (subst nested_eq [OF body_app], subst extension_type.enc_app) (simp add: len_prefix_def)

end

sublocale extension \<subseteq> codec "ext_encode get_type body" "ext_read name read_body" "ext_wf ok body"
proof (rule codecI)
  show "ext_encode get_type body v out = out @ ext_encode get_type body v []" for v out
    by (simp add: ext_encode_eq)
  show "ext_encode get_type body v [] \<noteq> []" for v
    by (simp add: ext_encode_eq)
  show "reads w (ext_read name read_body) (ext_encode get_type body v []) v" if "ext_wf ok body v" for w v
    unfolding ext_encode_eq append_Nil ext_read_def [abs_def]
  proof (rule reads_bind [OF extension_type.rd_enc], use that type_known in \<open>simp add: ext_wf_def\<close>,
      rule reads_bind [OF u16_reads], rule reads_in_sub)
    show "all_of name (read_body (get_type v)) (reader_init (body v [])) = Ok v"
      using that by (intro all_of_reads body_reads) (simp add: ext_wf_def)
    show "length (body v []) = unat (of_nat (length (body v [])) :: u16)"
      using that by (simp add: ext_wf_def sized_def unat_of_nat_u16)
  qed
  show "gives (\<lambda>v bs. ext_wf ok body v \<and> length (ext_encode get_type body v []) \<le> length bs) (ext_read name read_body)"
    unfolding ext_read_def [abs_def]
  proof (rule gives_bind [OF extension_type.rd_exact], rule gives_bind [OF u16_gives], rule gives_in_sub)
    fix t and ts ns bs :: bytes and n :: u16
    assume t: "known_ext t \<and> ts = extension_type_encode t []" and n: "ns = be16 n" and l: "length bs = unat n"
    note g = all_of_gives [OF body_gives [OF t [THEN conjunct1]]]
    show "all_of name (read_body t) (reader_init bs) \<noteq> Panic" by (rule g)
    fix v assume "all_of name (read_body t) (reader_init bs) = Ok v"
    note v = g(2) [OF this]
    have "length (body v []) < 65536" by (rule le_less_trans [of _ "unat n"]) (use v l in simp_all)
    with v t n l show "ext_wf ok body v \<and> length (ext_encode get_type body v []) \<le> length (ts @ ns @ bs)"
      by (simp add: ext_wf_def sized_def ext_encode_eq)
  qed
qed

text \<open>
  The bodies that are a payload or nothing at all: \<open>if sub.any_left()\<close> picks the variant.
\<close>

definition payload_or :: "(bytes \<Rightarrow> 'e) \<Rightarrow> 'e \<Rightarrow> 'e rd" where
  "payload_or c d r = (if any_left r then wrap c payload_read r else Ok (d, r))"

lemma payload_or_reads [ext_reads]:
  "reads True (payload_or c d) [] d" "p \<noteq> [] \<Longrightarrow> reads True (payload_or c d) p (c p)"
proof -
  show "reads True (payload_or c d) [] d"
    by (rule readsI) (simp add: payload_or_def any_left_rem)
  assume "p \<noteq> []"
  then show "reads True (payload_or c d) p (c p)"
    by (intro readsI) (simp add: payload_or_def any_left_rem readsD [OF reads_wrap [OF payload_reads]])
qed

lemma payload_or_gives [ext_gives]:
  assumes "\<And>p. p \<noteq> [] \<Longrightarrow> Q (c p) p" "Q d []"
  shows "gives Q (payload_or c d)"
proof (rule givesI)
  have g: "gives (\<lambda>v bs. v = c bs) (wrap c payload_read)"
    by (rule gives_wrap [OF payload_gives]) simp
  fix r assume r: "reader_inv r"
  show "payload_or c d r \<noteq> Panic" using gives_no_panic [OF g r] by (simp add: payload_or_def)
  fix v r' assume p: "payload_or c d r = Ok (v, r')"
  show "same_buf r r' \<and> (\<exists>bs. rem r = bs @ rem r' \<and> Q v bs)"
  proof (cases "any_left r")
    case True
    with p have w: "wrap c payload_read r = Ok (v, r')" by (simp add: payload_or_def)
    have "rem r' = []"
      using w r by (auto simp: wrap_def payload_read_def r_rest_def rem_def outcome_bind_Ok_iff)
    with givesD [OF g r w] True assms(1) show ?thesis by (auto simp: any_left_rem)
  next
    case False
    with p assms(2) r show ?thesis by (auto simp: payload_or_def)
  qed
qed

lemma constant_reads [ext_reads]: "reads True (\<lambda>r. Ok (v, r)) [] v"
  by (rule reads_Ok) simp_all

declare gives_Ok [ext_gives]

lemma payload_wrap [ext_reads]: "reads True (wrap c payload_read) p (c p)"
  by (rule reads_wrap [OF payload_reads])

lemma payload_wrap_gives [ext_gives]: "(\<And>p. Q (c p) p) \<Longrightarrow> gives Q (wrap c payload_read)"
  by (rule gives_wrap [OF payload_gives]) simp

section \<open>Server names\<close>

datatype server_name_payload =
    SNP_HostName bytes
  | SNP_Unknown bytes

record server_name =
  sn_typ :: server_name_type
  sn_payload :: server_name_payload

definition read_hostname :: "(bytes \<Rightarrow> bool) \<Rightarrow> server_name_payload rd" where
  "read_hostname dns r =
     outcome_bind (payload_u16_read r) (\<lambda>(raw, r).
     if dns raw then Ok (SNP_HostName raw, r) else Err InvalidServerName)"

primrec server_name_payload_encode :: "server_name_payload \<Rightarrow> bytes \<Rightarrow> bytes" where
  "server_name_payload_encode (SNP_HostName name) out = u16_encode (of_nat (length name)) out @ name"
| "server_name_payload_encode (SNP_Unknown r) out = payload_encode r out"

definition server_name_encode :: "server_name \<Rightarrow> bytes \<Rightarrow> bytes" where
  "server_name_encode s out =
     server_name_payload_encode (sn_payload s) (server_name_type_encode (sn_typ s) out)"

definition server_name_read :: "(bytes \<Rightarrow> bool) \<Rightarrow> server_name rd" where
  "server_name_read dns r =
     outcome_bind (server_name_type_read r) (\<lambda>(typ, r).
     outcome_bind (case typ of
         SNT_HostName \<Rightarrow> read_hostname dns r
       | _ \<Rightarrow> wrap SNP_Unknown payload_read r) (\<lambda>(payload, r).
     Ok (\<lparr>sn_typ = typ, sn_payload = payload\<rparr>, r)))"

definition has_duplicate_names_for_type :: "server_name list \<Rightarrow> bool" where
  "has_duplicate_names_for_type = repeated (\<lambda>n. server_name_type_get (sn_typ n)) {}"

definition get_single_hostname :: "server_name list \<Rightarrow> bytes option" where
  "get_single_hostname ns =
     (case List.map_filter (\<lambda>n. case sn_payload n of SNP_HostName d \<Rightarrow> Some d | _ \<Rightarrow> None) ns of
        [] \<Rightarrow> None
      | d # _ \<Rightarrow> Some d)"

primrec server_name_wf :: "(bytes \<Rightarrow> bool) \<Rightarrow> server_name_type \<Rightarrow> server_name_payload \<Rightarrow> bool" where
  "server_name_wf dns t (SNP_HostName n) \<longleftrightarrow> t = SNT_HostName \<and> dns n \<and> sized 65536 n"
| "server_name_wf dns t (SNP_Unknown p) \<longleftrightarrow>
     t \<noteq> SNT_HostName \<and> known server_name_type_get server_name_type_from t"

definition sn_wf :: "(bytes \<Rightarrow> bool) \<Rightarrow> server_name \<Rightarrow> bool" where
  "sn_wf dns s \<longleftrightarrow> server_name_wf dns (sn_typ s) (sn_payload s)"

definition is_hostname :: "server_name \<Rightarrow> bool" where
  "is_hostname s \<longleftrightarrow> (\<exists>n. sn_payload s = SNP_HostName n)"

lemma is_hostname_code [code]: "is_hostname s = (case sn_payload s of SNP_HostName _ \<Rightarrow> True | _ \<Rightarrow> False)"
  by (simp add: is_hostname_def split: server_name_payload.splits)

lemma server_name_encode_eq:
  "server_name_encode s out = out @ server_name_type_encode (sn_typ s) []
     @ (case sn_payload s of SNP_HostName n \<Rightarrow> be16 (of_nat (length n)) @ n | SNP_Unknown p \<Rightarrow> p)"
  by (simp add: server_name_encode_def enum8_encode_def u8_encode_def u16_encode_def payload_encode_def
      split: server_name_payload.splits)

lemma read_hostname_reads:
  assumes "dns n" "sized 65536 n"
  shows "reads w (read_hostname dns) (payload_u16_encode n []) (SNP_HostName n)"
proof (rule readsI)
  fix r t assume "reader_inv r" "rem r = payload_u16_encode n [] @ t"
  with readsD [OF payload_u16.rd_enc [OF assms(2), of False], of r t] assms(1)
  show "\<exists>r'. read_hostname dns r = Ok (SNP_HostName n, r') \<and> reader_inv r' \<and> rem r' = t"
    by (auto simp: read_hostname_def)
qed

lemma server_name_reads:
  assumes "sn_wf dns s" "w \<or> is_hostname s"
  shows "reads w (server_name_read dns) (server_name_encode s []) s"
  unfolding server_name_encode_eq append_Nil server_name_read_def [abs_def]
proof (rule reads_bind [OF server_name_type.rd_enc])
  show "known server_name_type_get server_name_type_from (sn_typ s)"
    using assms(1) by (cases "sn_payload s") (auto simp: sn_wf_def known_def server_name_type_from_def)
  have w: "w" if "sn_payload s = SNP_Unknown p" for p using assms(2) that by (auto simp: is_hostname_def)
  have "reads w (\<lambda>r. case sn_typ s of SNT_HostName \<Rightarrow> read_hostname dns r | _ \<Rightarrow> wrap SNP_Unknown payload_read r)
    (case sn_payload s of SNP_HostName n \<Rightarrow> be16 (of_nat (length n)) @ n | SNP_Unknown p \<Rightarrow> p) (sn_payload s)"
    using assms(1) w payload_wrap read_hostname_reads [of dns]
    by (cases "sn_payload s"; cases "sn_typ s") (auto simp: sn_wf_def payload_u16_encode_def u16_encode_def)
  then show "reads w (\<lambda>r. outcome_bind (case sn_typ s of SNT_HostName \<Rightarrow> read_hostname dns r | _ \<Rightarrow> wrap SNP_Unknown payload_read r)
      (\<lambda>(payload, r). Ok (\<lparr>sn_typ = sn_typ s, sn_payload = payload\<rparr>, r)))
    (case sn_payload s of SNP_HostName n \<Rightarrow> be16 (of_nat (length n)) @ n | SNP_Unknown p \<Rightarrow> p) s"
    by (rule reads_last) simp
qed

lemma server_name_gives:
  "gives (\<lambda>s bs. sn_wf dns s \<and> length (server_name_encode s []) \<le> length bs \<and> bs \<noteq> []) (server_name_read dns)"
  unfolding server_name_read_def [abs_def]
proof (rule gives_bind [OF server_name_type.rd_exact])
  fix t bs assume t: "known server_name_type_get server_name_type_from t \<and> bs = server_name_type_encode t []"
  have h: "gives (\<lambda>p cs. server_name_wf dns SNT_HostName p \<and> length (server_name_encode \<lparr>sn_typ = t, sn_payload = p\<rparr> []) \<le> length (bs @ cs))
    (read_hostname dns)"
    unfolding read_hostname_def [abs_def]
    by (intro gives_bind [OF payload_u16.rd_wf] gives_if gives_Ok gives_Err)
      (use t in \<open>auto simp: server_name_encode_eq payload_u16_encode_def u16_encode_def\<close>)
  have "gives (\<lambda>p cs. server_name_wf dns t p \<and> length (server_name_encode \<lparr>sn_typ = t, sn_payload = p\<rparr> []) \<le> length (bs @ cs))
    (\<lambda>r. case t of SNT_HostName \<Rightarrow> read_hostname dns r | _ \<Rightarrow> wrap SNP_Unknown payload_read r)"
    using t h by (cases t) (auto intro!: payload_wrap_gives simp: server_name_encode_eq)
  then show "gives (\<lambda>s cs. sn_wf dns s \<and> length (server_name_encode s []) \<le> length (bs @ cs) \<and> bs @ cs \<noteq> [])
    (\<lambda>r. outcome_bind (case t of SNT_HostName \<Rightarrow> read_hostname dns r | _ \<Rightarrow> wrap SNP_Unknown payload_read r)
      (\<lambda>(payload, r). Ok (\<lparr>sn_typ = t, sn_payload = payload\<rparr>, r)))"
    by (rule gives_bind, intro gives_Ok) (use t in \<open>simp add: sn_wf_def enum8_encode_def u8_encode_def\<close>)
qed

text \<open>A name of another type takes the rest of the list, so only the last name can have one.\<close>

lemma server_name_rest:
  assumes "server_name_read dns r = Ok (s, r')" "any_left r'"
  shows "is_hostname s"
proof -
  obtain t q p where "(case t of SNT_HostName \<Rightarrow> read_hostname dns q | _ \<Rightarrow> wrap SNP_Unknown payload_read q) = Ok (p, r')"
    and s: "s = \<lparr>sn_typ = t, sn_payload = p\<rparr>"
    using assms(1) by (auto simp: server_name_read_def outcome_bind_Ok_iff)
  then show ?thesis
    using assms(2) by (cases t)
      (auto simp: read_hostname_def outcome_bind_Ok_iff wrap_def payload_read_def r_rest_def any_left_def
        is_hostname_def split: if_splits)
qed

lemma vec_loop_last:
  assumes "\<forall>r v r'. rd r = Ok (v, r') \<longrightarrow> any_left r' \<longrightarrow> P v"
  shows "vec_loop rd r ret = Ok ys \<Longrightarrow> \<exists>xs. ys = ret @ xs \<and> list_all P (butlast xs) \<and> (any_left r \<longleftrightarrow> xs \<noteq> [])"
  using assms
proof (induction rd r ret arbitrary: ys rule: vec_loop.induct)
  case (1 rd r ret)
  note rest = "1.prems"(2)
  show ?case
  proof (cases "any_left r")
    case False
    with "1.prems"(1) show ?thesis by (simp add: vec_loop.simps [of rd r])
  next
    case True
    with "1.prems"(1) obtain v r' where r': "rd r = Ok (v, r')" "r_left r' < r_left r"
      and ys: "vec_loop rd r' (ret @ [v]) = Ok ys"
      by (auto simp: vec_loop.simps [of rd r] split: outcome.splits if_splits)
    from "1.IH" [OF True r'(1) refl r'(2) ys rest] obtain xs where
      xs: "ys = (ret @ [v]) @ xs" "list_all P (butlast xs)" "any_left r' \<longleftrightarrow> xs \<noteq> []" by blast
    with rest r'(1) True show ?thesis by (intro exI [of _ "v # xs"]) auto
  qed
qed

definition server_names_wf :: "(bytes \<Rightarrow> bool) \<Rightarrow> server_name list \<Rightarrow> bool" where
  "server_names_wf dns ns \<longleftrightarrow>
     vec_wf LenU16 server_name_encode (sn_wf dns) ns \<and> list_all is_hostname (butlast ns)"

interpretation server_names: codec "vec_encode LenU16 server_name_encode" "vec_read LenU16 (server_name_read dns)"
  "server_names_wf dns" for dns
proof (rule codecI)
  have app: "server_name_encode s out = out @ server_name_encode s []" for s out
    by (simp add: server_name_encode_eq)
  have ne: "server_name_encode s [] \<noteq> []" for s by (simp add: server_name_encode_eq enum8_encode_def u8_encode_def)
  show "vec_encode LenU16 server_name_encode xs out = out @ vec_encode LenU16 server_name_encode xs []" for xs out
    by (simp add: vec_encode_eq [OF app])
  show "vec_encode LenU16 server_name_encode xs [] \<noteq> []" for xs by (simp add: vec_encode_eq [OF app])
  show "reads w (vec_read LenU16 (server_name_read dns)) (vec_encode LenU16 server_name_encode ns []) ns"
    if "server_names_wf dns ns" for w ns
    using that ne
    by (intro vec_read_reads [OF app] ballI server_name_reads)
      (auto simp: server_names_wf_def vec_wf_def list_all_iff dest: in_set_butlastD)
  have l: "list_all is_hostname (butlast ns)" if "vec_read LenU16 (server_name_read dns) r = Ok (ns, r')" for ns r r'
  proof -
    from that obtain sr where "vec_loop (server_name_read dns) sr [] = Ok ns"
      by (auto simp: vec_read_def in_sub_def outcome_bind_Ok_iff)
    with vec_loop_last [of "server_name_read dns" is_hostname sr "[]" ns] server_name_rest show ?thesis by auto
  qed
  note g = vec_read_gives [OF app server_name_gives, of LenU16 dns]
  show "gives (\<lambda>ns bs. server_names_wf dns ns \<and> length (vec_encode LenU16 server_name_encode ns []) \<le> length bs)
    (vec_read LenU16 (server_name_read dns))"
  proof (rule givesI)
    show "vec_read LenU16 (server_name_read dns) r \<noteq> Panic" if "reader_inv r" for r by (rule gives_no_panic [OF g that])
    fix r ns r' assume "reader_inv r" and o: "vec_read LenU16 (server_name_read dns) r = Ok (ns, r')"
    from givesD [OF g this] l [OF o] show "same_buf r r' \<and> (\<exists>bs. rem r = bs @ rem r' \<and> server_names_wf dns ns
      \<and> length (vec_encode LenU16 server_name_encode ns []) \<le> length bs)"
      by (auto simp: server_names_wf_def)
  qed
qed

section \<open>Client extensions\<close>

datatype client_session_ticket =
    CST_Request
  | CST_Offer bytes

datatype (plugins only: code size) client_extension =
    CE_EcPointFormats "ec_point_format list"
  | CE_NamedGroups "named_group list"
  | CE_SignatureAlgorithms "signature_scheme list"
  | CE_ServerName "server_name list"
  | CE_SessionTicket client_session_ticket
  | CE_Protocols "protocol_name list"
  | CE_SupportedVersions "protocol_version list"
  | CE_KeyShare "key_share_entry list"
  | CE_PresharedKeyModes "psk_key_exchange_mode list"
  | CE_PresharedKey preshared_key_offer
  | CE_Cookie bytes
  | CE_ExtendedMasterSecretRequest
  | CE_CertificateStatusRequest certificate_status_request
  | CE_TransportParameters bytes
  | CE_TransportParametersDraft bytes
  | CE_EarlyData
  | CE_Unknown extension_type bytes

primrec ce_get_type :: "client_extension \<Rightarrow> extension_type" where
  "ce_get_type (CE_EcPointFormats _) = EXT_ECPointFormats"
| "ce_get_type (CE_NamedGroups _) = EXT_EllipticCurves"
| "ce_get_type (CE_SignatureAlgorithms _) = EXT_SignatureAlgorithms"
| "ce_get_type (CE_ServerName _) = EXT_ServerName"
| "ce_get_type (CE_SessionTicket _) = EXT_SessionTicket"
| "ce_get_type (CE_Protocols _) = EXT_ALProtocolNegotiation"
| "ce_get_type (CE_SupportedVersions _) = EXT_SupportedVersions"
| "ce_get_type (CE_KeyShare _) = EXT_KeyShare"
| "ce_get_type (CE_PresharedKeyModes _) = EXT_PSKKeyExchangeModes"
| "ce_get_type (CE_PresharedKey _) = EXT_PreSharedKey"
| "ce_get_type (CE_Cookie _) = EXT_Cookie"
| "ce_get_type CE_ExtendedMasterSecretRequest = EXT_ExtendedMasterSecret"
| "ce_get_type (CE_CertificateStatusRequest _) = EXT_StatusRequest"
| "ce_get_type (CE_TransportParameters _) = EXT_TransportParameters"
| "ce_get_type (CE_TransportParametersDraft _) = EXT_TransportParametersDraft"
| "ce_get_type CE_EarlyData = EXT_EarlyData"
| "ce_get_type (CE_Unknown t _) = t"

primrec ce_body :: "client_extension \<Rightarrow> bytes \<Rightarrow> bytes" where
  "ce_body (CE_EcPointFormats r) buf = vec_encode LenU8 ec_point_format_encode r buf"
| "ce_body (CE_NamedGroups r) buf = vec_encode LenU16 named_group_encode r buf"
| "ce_body (CE_SignatureAlgorithms r) buf = vec_encode LenU16 signature_scheme_encode r buf"
| "ce_body (CE_ServerName r) buf = vec_encode LenU16 server_name_encode r buf"
| "ce_body (CE_SessionTicket t) buf = (case t of CST_Request \<Rightarrow> buf | CST_Offer r \<Rightarrow> payload_encode r buf)"
| "ce_body (CE_Protocols r) buf = vec_encode LenU16 payload_u8_encode r buf"
| "ce_body (CE_SupportedVersions r) buf = vec_encode LenU8 protocol_version_encode r buf"
| "ce_body (CE_KeyShare r) buf = vec_encode LenU16 key_share_entry_encode r buf"
| "ce_body (CE_PresharedKeyModes r) buf = vec_encode LenU8 psk_key_exchange_mode_encode r buf"
| "ce_body (CE_PresharedKey r) buf = preshared_key_offer_encode r buf"
| "ce_body (CE_Cookie r) buf = payload_u16_encode r buf"
| "ce_body CE_ExtendedMasterSecretRequest buf = buf"
| "ce_body (CE_CertificateStatusRequest r) buf = certificate_status_request_encode r buf"
| "ce_body (CE_TransportParameters r) buf = buf @ r"
| "ce_body (CE_TransportParametersDraft r) buf = buf @ r"
| "ce_body CE_EarlyData buf = buf"
| "ce_body (CE_Unknown t r) buf = payload_encode r buf"

definition client_extension_encode :: "client_extension \<Rightarrow> bytes \<Rightarrow> bytes" where
  "client_extension_encode = ext_encode ce_get_type ce_body"

definition ce_read_body :: "(bytes \<Rightarrow> bool) \<Rightarrow> extension_type \<Rightarrow> client_extension rd" where
  "ce_read_body dns typ =
     (case typ of
        EXT_ECPointFormats \<Rightarrow> wrap CE_EcPointFormats (vec_read LenU8 ec_point_format_read)
      | EXT_EllipticCurves \<Rightarrow> wrap CE_NamedGroups (vec_read LenU16 named_group_read)
      | EXT_SignatureAlgorithms \<Rightarrow> wrap CE_SignatureAlgorithms (vec_read LenU16 signature_scheme_read)
      | EXT_ServerName \<Rightarrow> wrap CE_ServerName (vec_read LenU16 (server_name_read dns))
      | EXT_SessionTicket \<Rightarrow> payload_or (\<lambda>c. CE_SessionTicket (CST_Offer c)) (CE_SessionTicket CST_Request)
      | EXT_ALProtocolNegotiation \<Rightarrow> wrap CE_Protocols (vec_read LenU16 payload_u8_read)
      | EXT_SupportedVersions \<Rightarrow> wrap CE_SupportedVersions (vec_read LenU8 protocol_version_read)
      | EXT_KeyShare \<Rightarrow> wrap CE_KeyShare (vec_read LenU16 key_share_entry_read)
      | EXT_PSKKeyExchangeModes \<Rightarrow> wrap CE_PresharedKeyModes (vec_read LenU8 psk_key_exchange_mode_read)
      | EXT_PreSharedKey \<Rightarrow> wrap CE_PresharedKey preshared_key_offer_read
      | EXT_Cookie \<Rightarrow> wrap CE_Cookie payload_u16_read
      | EXT_ExtendedMasterSecret \<Rightarrow> payload_or (CE_Unknown typ) CE_ExtendedMasterSecretRequest
      | EXT_StatusRequest \<Rightarrow> wrap CE_CertificateStatusRequest certificate_status_request_read
      | EXT_TransportParameters \<Rightarrow> wrap CE_TransportParameters payload_read
      | EXT_TransportParametersDraft \<Rightarrow> wrap CE_TransportParametersDraft payload_read
      | EXT_EarlyData \<Rightarrow> payload_or (CE_Unknown typ) CE_EarlyData
      | _ \<Rightarrow> wrap (CE_Unknown typ) payload_read)"

definition client_extension_read :: "(bytes \<Rightarrow> bool) \<Rightarrow> client_extension rd" where
  "client_extension_read dns = ext_read ''ClientExtension'' (ce_read_body dns)"

text \<open>
  The values that survive a round trip. A variant for which the type decides is never \<open>Unknown\<close>; the
  two empty ones are \<open>Unknown\<close> exactly with a body.
\<close>

definition CE_TYPES :: "extension_type set" where
  "CE_TYPES = {EXT_ECPointFormats, EXT_EllipticCurves, EXT_SignatureAlgorithms, EXT_ServerName, EXT_SessionTicket,
     EXT_ALProtocolNegotiation, EXT_SupportedVersions, EXT_KeyShare, EXT_PSKKeyExchangeModes, EXT_PreSharedKey,
     EXT_Cookie, EXT_StatusRequest, EXT_TransportParameters, EXT_TransportParametersDraft}"

primrec ce_ok :: "(bytes \<Rightarrow> bool) \<Rightarrow> client_extension \<Rightarrow> bool" where
  "ce_ok dns (CE_EcPointFormats r) \<longleftrightarrow>
     vec_wf LenU8 ec_point_format_encode (known ec_point_format_get ec_point_format_from) r"
| "ce_ok dns (CE_NamedGroups r) \<longleftrightarrow> vec_wf LenU16 named_group_encode (known named_group_get named_group_from) r"
| "ce_ok dns (CE_SignatureAlgorithms r) \<longleftrightarrow>
     vec_wf LenU16 signature_scheme_encode (known signature_scheme_get signature_scheme_from) r"
| "ce_ok dns (CE_ServerName r) \<longleftrightarrow> server_names_wf dns r"
| "ce_ok dns (CE_SessionTicket t) \<longleftrightarrow> t \<noteq> CST_Offer []"
| "ce_ok dns (CE_Protocols r) \<longleftrightarrow> vec_wf LenU16 payload_u8_encode (sized 256) r"
| "ce_ok dns (CE_SupportedVersions r) \<longleftrightarrow>
     vec_wf LenU8 protocol_version_encode (known protocol_version_get protocol_version_from) r"
| "ce_ok dns (CE_KeyShare r) \<longleftrightarrow> vec_wf LenU16 key_share_entry_encode key_share_entry_wf r"
| "ce_ok dns (CE_PresharedKeyModes r) \<longleftrightarrow>
     vec_wf LenU8 psk_key_exchange_mode_encode (known psk_key_exchange_mode_get psk_key_exchange_mode_from) r"
| "ce_ok dns (CE_PresharedKey r) \<longleftrightarrow> preshared_key_offer_wf r"
| "ce_ok dns (CE_Cookie r) \<longleftrightarrow> sized 65536 r"
| "ce_ok dns CE_ExtendedMasterSecretRequest \<longleftrightarrow> True"
| "ce_ok dns (CE_CertificateStatusRequest r) \<longleftrightarrow> certificate_status_request_wf r"
| "ce_ok dns (CE_TransportParameters r) \<longleftrightarrow> True"
| "ce_ok dns (CE_TransportParametersDraft r) \<longleftrightarrow> True"
| "ce_ok dns CE_EarlyData \<longleftrightarrow> True"
| "ce_ok dns (CE_Unknown t r) \<longleftrightarrow> known_ext t \<and> t \<notin> CE_TYPES
     \<and> (t \<in> {EXT_ExtendedMasterSecret, EXT_EarlyData} \<longrightarrow> r \<noteq> [])"

text \<open>The codecs that appear in the bodies, as rules for the two laws of \<open>extension\<close>.\<close>

interpretation ec_point_formats: codec "vec_encode LenU8 ec_point_format_encode" "vec_read LenU8 ec_point_format_read"
  "vec_wf LenU8 ec_point_format_encode (known ec_point_format_get ec_point_format_from)"
  by (rule ec_point_format.vec_codec)

interpretation named_groups: codec "vec_encode LenU16 named_group_encode" "vec_read LenU16 named_group_read"
  "vec_wf LenU16 named_group_encode (known named_group_get named_group_from)"
  by (rule named_group.vec_codec)

interpretation signature_schemes: codec "vec_encode sz signature_scheme_encode" "vec_read sz signature_scheme_read"
  "vec_wf sz signature_scheme_encode (known signature_scheme_get signature_scheme_from)" for sz
  by (rule signature_scheme.vec_codec)

interpretation protocol_names: codec "vec_encode LenU16 payload_u8_encode" "vec_read LenU16 payload_u8_read"
  "vec_wf LenU16 payload_u8_encode (sized 256)"
  by (rule payload_u8.vec_codec)

interpretation protocol_versions: codec "vec_encode LenU8 protocol_version_encode" "vec_read LenU8 protocol_version_read"
  "vec_wf LenU8 protocol_version_encode (known protocol_version_get protocol_version_from)"
  by (rule protocol_version.vec_codec)

interpretation key_share_entries: codec "vec_encode LenU16 key_share_entry_encode" "vec_read LenU16 key_share_entry_read"
  "vec_wf LenU16 key_share_entry_encode key_share_entry_wf"
  by (rule key_share_entry.vec_codec)

interpretation psk_modes: codec "vec_encode LenU8 psk_key_exchange_mode_encode" "vec_read LenU8 psk_key_exchange_mode_read"
  "vec_wf LenU8 psk_key_exchange_mode_encode (known psk_key_exchange_mode_get psk_key_exchange_mode_from)"
  by (rule psk_key_exchange_mode.vec_codec)

lemmas [ext_reads] =
  reads_wrap [OF ec_point_formats.rd_all] reads_wrap [OF named_groups.rd_all] reads_wrap [OF signature_schemes.rd_all]
  reads_wrap [OF server_names.rd_all] reads_wrap [OF protocol_names.rd_all] reads_wrap [OF protocol_versions.rd_all]
  reads_wrap [OF key_share_entries.rd_all] reads_wrap [OF psk_modes.rd_all] reads_wrap [OF preshared_key_offer.rd_all]
  reads_wrap [OF payload_u16.rd_all] reads_wrap [OF certificate_status_request.rd_all]

lemmas [ext_gives] =
  gives_wrap [OF ec_point_formats.rd_wf] gives_wrap [OF named_groups.rd_wf] gives_wrap [OF signature_schemes.rd_wf]
  gives_wrap [OF server_names.rd_wf] gives_wrap [OF protocol_names.rd_wf] gives_wrap [OF protocol_versions.rd_wf]
  gives_wrap [OF key_share_entries.rd_wf] gives_wrap [OF psk_modes.rd_wf] gives_wrap [OF preshared_key_offer.rd_wf]
  gives_wrap [OF payload_u16.rd_wf] gives_wrap [OF certificate_status_request.rd_wf]

lemma ce_body_app: "ce_body v out = out @ ce_body v []"
  by (cases v; simp add: payload_encode_def split: client_session_ticket.split;
      rule ec_point_formats.enc_app named_groups.enc_app signature_schemes.enc_app server_names.enc_app protocol_names.enc_app
        protocol_versions.enc_app key_share_entries.enc_app psk_modes.enc_app preshared_key_offer.enc_app
        payload_u16.enc_app certificate_status_request.enc_app)

interpretation client_extension: extension "''ClientExtension''" ce_get_type ce_body "ce_read_body dns" "ce_ok dns" for dns
proof
  show "ce_body v out = out @ ce_body v []" for v out by (rule ce_body_app)
  show "known_ext (ce_get_type v)" if "ce_ok dns v" for v
    using that by (cases v) (simp_all add: known_def extension_type_from_def)
  show "reads True (ce_read_body dns (ce_get_type v)) (ce_body v []) v" if "ce_ok dns v" for v
  proof (cases v)
    case (CE_Unknown t p)
    with that show ?thesis
      by (cases t) (auto simp: ce_read_body_def CE_TYPES_def payload_encode_def intro: ext_reads)
  qed (use that in \<open>auto simp: ce_read_body_def payload_encode_def split: client_session_ticket.split intro!: ext_reads\<close>)
  show "gives (\<lambda>v bs. ce_ok dns v \<and> ce_get_type v = t \<and> length (ce_body v []) \<le> length bs) (ce_read_body dns t)"
    if "known_ext t" for t
    using that by (cases t; simp add: ce_read_body_def) (rule ext_gives; simp add: CE_TYPES_def payload_encode_def)+
qed

section \<open>Making a server name\<close>

text \<open>\<open>unwrap\<close> of the trimmed name is a panic when it is not a name.\<close>

definition trim_hostname_trailing_dot_for_sni :: "(bytes \<Rightarrow> bool) \<Rightarrow> bytes \<Rightarrow> ('e, bytes) outcome" where
  "trim_hostname_trailing_dot_for_sni dns name =
     (if name \<noteq> [] \<and> last name = 0x2e then
        if dns (butlast name) then Ok (butlast name) else Panic
      else Ok name)"

definition make_sni :: "(bytes \<Rightarrow> bool) \<Rightarrow> bytes \<Rightarrow> ('e, client_extension) outcome" where
  "make_sni dns name =
     outcome_bind (trim_hostname_trailing_dot_for_sni dns name) (\<lambda>n.
     Ok (CE_ServerName [\<lparr>sn_typ = SNT_HostName, sn_payload = SNP_HostName n\<rparr>]))"

text \<open>
  What \<open>DnsName::try_from\<close> documents: a name is at most 253 bytes, and one with a trailing dot is a
  name without it.
\<close>

definition dns_ok :: "(bytes \<Rightarrow> bool) \<Rightarrow> bool" where
  "dns_ok dns \<longleftrightarrow> (\<forall>n. dns n \<longrightarrow> length n \<le> 253 \<and> (n \<noteq> [] \<and> last n = 0x2e \<longrightarrow> dns (butlast n)))"

lemma make_sni_ok:
  assumes "dns_ok dns" "dns name"
  shows "\<exists>n. make_sni dns name = Ok (CE_ServerName [\<lparr>sn_typ = SNT_HostName, sn_payload = SNP_HostName n\<rparr>])
    \<and> dns n \<and> (name = n \<or> name = n @ [0x2e])
    \<and> ext_wf (ce_ok dns) ce_body (CE_ServerName [\<lparr>sn_typ = SNT_HostName, sn_payload = SNP_HostName n\<rparr>])"
proof -
  define n where "n = (if name \<noteq> [] \<and> last name = 0x2e then butlast name else name)"
  have "name = n \<or> name = n @ [0x2e]"
  proof (cases "name \<noteq> [] \<and> last name = 0x2e")
    case True
    then have "name = butlast name @ [0x2e]" using append_butlast_last_id [of name] by argo
    then show ?thesis using True by (simp add: n_def)
  qed (auto simp: n_def)
  with assms have n: "dns n" "length n \<le> 253" "name = n \<or> name = n @ [0x2e]"
    by (auto simp: n_def dns_ok_def)
  have m: "make_sni dns name = Ok (CE_ServerName [\<lparr>sn_typ = SNT_HostName, sn_payload = SNP_HostName n\<rparr>])"
    using assms n by (auto simp: make_sni_def trim_hostname_trailing_dot_for_sni_def n_def)
  have app: "server_name_encode s out = out @ server_name_encode s []" for s out
    by (simp add: server_name_encode_eq)
  have "ext_wf (ce_ok dns) ce_body (CE_ServerName [\<lparr>sn_typ = SNT_HostName, sn_payload = SNP_HostName n\<rparr>])"
    using n by (simp add: ext_wf_def server_names_wf_def vec_wf_def sn_wf_def sized_def fits_def
      server_name_encode_eq vec_encode_eq [OF app] len_prefix_def enum8_encode_def u8_encode_def)
  with m n show ?thesis by blast
qed

section \<open>Server extensions\<close>

datatype (plugins only: code size) server_extension =
    SE_EcPointFormats "ec_point_format list"
  | SE_ServerNameAck
  | SE_SessionTicketAck
  | SE_RenegotiationInfo bytes
  | SE_Protocols "protocol_name list"
  | SE_KeyShare key_share_entry
  | SE_PresharedKey u16
  | SE_ExtendedMasterSecretAck
  | SE_CertificateStatusAck
  | SE_SupportedVersions protocol_version
  | SE_TransportParameters bytes
  | SE_TransportParametersDraft bytes
  | SE_EarlyData
  | SE_Unknown extension_type bytes

primrec se_get_type :: "server_extension \<Rightarrow> extension_type" where
  "se_get_type (SE_EcPointFormats _) = EXT_ECPointFormats"
| "se_get_type SE_ServerNameAck = EXT_ServerName"
| "se_get_type SE_SessionTicketAck = EXT_SessionTicket"
| "se_get_type (SE_RenegotiationInfo _) = EXT_RenegotiationInfo"
| "se_get_type (SE_Protocols _) = EXT_ALProtocolNegotiation"
| "se_get_type (SE_KeyShare _) = EXT_KeyShare"
| "se_get_type (SE_PresharedKey _) = EXT_PreSharedKey"
| "se_get_type SE_ExtendedMasterSecretAck = EXT_ExtendedMasterSecret"
| "se_get_type SE_CertificateStatusAck = EXT_StatusRequest"
| "se_get_type (SE_SupportedVersions _) = EXT_SupportedVersions"
| "se_get_type (SE_TransportParameters _) = EXT_TransportParameters"
| "se_get_type (SE_TransportParametersDraft _) = EXT_TransportParametersDraft"
| "se_get_type SE_EarlyData = EXT_EarlyData"
| "se_get_type (SE_Unknown t _) = t"

primrec se_body :: "server_extension \<Rightarrow> bytes \<Rightarrow> bytes" where
  "se_body (SE_EcPointFormats r) buf = vec_encode LenU8 ec_point_format_encode r buf"
| "se_body SE_ServerNameAck buf = buf"
| "se_body SE_SessionTicketAck buf = buf"
| "se_body (SE_RenegotiationInfo r) buf = payload_u8_encode r buf"
| "se_body (SE_Protocols r) buf = vec_encode LenU16 payload_u8_encode r buf"
| "se_body (SE_KeyShare r) buf = key_share_entry_encode r buf"
| "se_body (SE_PresharedKey r) buf = u16_encode r buf"
| "se_body SE_ExtendedMasterSecretAck buf = buf"
| "se_body SE_CertificateStatusAck buf = buf"
| "se_body (SE_SupportedVersions r) buf = protocol_version_encode r buf"
| "se_body (SE_TransportParameters r) buf = buf @ r"
| "se_body (SE_TransportParametersDraft r) buf = buf @ r"
| "se_body SE_EarlyData buf = buf"
| "se_body (SE_Unknown t r) buf = payload_encode r buf"

definition server_extension_encode :: "server_extension \<Rightarrow> bytes \<Rightarrow> bytes" where
  "server_extension_encode = ext_encode se_get_type se_body"

definition se_read_body :: "extension_type \<Rightarrow> server_extension rd" where
  "se_read_body typ =
     (case typ of
        EXT_ECPointFormats \<Rightarrow> wrap SE_EcPointFormats (vec_read LenU8 ec_point_format_read)
      | EXT_ServerName \<Rightarrow> (\<lambda>r. Ok (SE_ServerNameAck, r))
      | EXT_SessionTicket \<Rightarrow> (\<lambda>r. Ok (SE_SessionTicketAck, r))
      | EXT_StatusRequest \<Rightarrow> (\<lambda>r. Ok (SE_CertificateStatusAck, r))
      | EXT_RenegotiationInfo \<Rightarrow> wrap SE_RenegotiationInfo payload_u8_read
      | EXT_ALProtocolNegotiation \<Rightarrow> wrap SE_Protocols (vec_read LenU16 payload_u8_read)
      | EXT_KeyShare \<Rightarrow> wrap SE_KeyShare key_share_entry_read
      | EXT_PreSharedKey \<Rightarrow> wrap SE_PresharedKey u16_read
      | EXT_ExtendedMasterSecret \<Rightarrow> (\<lambda>r. Ok (SE_ExtendedMasterSecretAck, r))
      | EXT_SupportedVersions \<Rightarrow> wrap SE_SupportedVersions protocol_version_read
      | EXT_TransportParameters \<Rightarrow> wrap SE_TransportParameters payload_read
      | EXT_TransportParametersDraft \<Rightarrow> wrap SE_TransportParametersDraft payload_read
      | EXT_EarlyData \<Rightarrow> (\<lambda>r. Ok (SE_EarlyData, r))
      | _ \<Rightarrow> wrap (SE_Unknown typ) payload_read)"

definition server_extension_read :: "server_extension rd" where
  "server_extension_read = ext_read ''ServerExtension'' se_read_body"

definition make_alpn :: "bytes list \<Rightarrow> server_extension" where
  "make_alpn proto = SE_Protocols proto"

definition make_empty_renegotiation_info :: server_extension where
  "make_empty_renegotiation_info = SE_RenegotiationInfo []"

definition SE_TYPES :: "extension_type set" where
  "SE_TYPES = {EXT_ECPointFormats, EXT_ServerName, EXT_SessionTicket, EXT_StatusRequest, EXT_RenegotiationInfo,
     EXT_ALProtocolNegotiation, EXT_KeyShare, EXT_PreSharedKey, EXT_ExtendedMasterSecret, EXT_SupportedVersions,
     EXT_TransportParameters, EXT_TransportParametersDraft, EXT_EarlyData}"

primrec se_ok :: "server_extension \<Rightarrow> bool" where
  "se_ok (SE_EcPointFormats r) \<longleftrightarrow>
     vec_wf LenU8 ec_point_format_encode (known ec_point_format_get ec_point_format_from) r"
| "se_ok SE_ServerNameAck \<longleftrightarrow> True"
| "se_ok SE_SessionTicketAck \<longleftrightarrow> True"
| "se_ok (SE_RenegotiationInfo r) \<longleftrightarrow> sized 256 r"
| "se_ok (SE_Protocols r) \<longleftrightarrow> vec_wf LenU16 payload_u8_encode (sized 256) r"
| "se_ok (SE_KeyShare r) \<longleftrightarrow> key_share_entry_wf r"
| "se_ok (SE_PresharedKey r) \<longleftrightarrow> True"
| "se_ok SE_ExtendedMasterSecretAck \<longleftrightarrow> True"
| "se_ok SE_CertificateStatusAck \<longleftrightarrow> True"
| "se_ok (SE_SupportedVersions r) \<longleftrightarrow> known protocol_version_get protocol_version_from r"
| "se_ok (SE_TransportParameters r) \<longleftrightarrow> True"
| "se_ok (SE_TransportParametersDraft r) \<longleftrightarrow> True"
| "se_ok SE_EarlyData \<longleftrightarrow> True"
| "se_ok (SE_Unknown t r) \<longleftrightarrow> known_ext t \<and> t \<notin> SE_TYPES"

lemmas [ext_reads] =
  reads_wrap [OF payload_u8.rd_all] reads_wrap [OF key_share_entry.rd_all]
  reads_wrap [OF u16.rd_all] reads_wrap [OF protocol_version.rd_all]

lemmas [ext_gives] =
  gives_wrap [OF payload_u8.rd_wf] gives_wrap [OF key_share_entry.rd_wf]
  gives_wrap [OF u16.rd_wf] gives_wrap [OF protocol_version.rd_wf]

lemma se_body_app: "se_body v out = out @ se_body v []"
  by (cases v; simp add: payload_encode_def;
      rule ec_point_formats.enc_app payload_u8.enc_app protocol_names.enc_app key_share_entry.enc_app u16.enc_app
        protocol_version.enc_app)

interpretation server_extension: extension "''ServerExtension''" se_get_type se_body se_read_body se_ok
proof
  show "se_body v out = out @ se_body v []" for v out by (rule se_body_app)
  show "known_ext (se_get_type v)" if "se_ok v" for v
    using that by (cases v) (simp_all add: known_def extension_type_from_def)
  show "reads True (se_read_body (se_get_type v)) (se_body v []) v" if "se_ok v" for v
  proof (cases v)
    case (SE_Unknown t p)
    with that show ?thesis
      by (cases t) (auto simp: se_read_body_def SE_TYPES_def payload_encode_def intro: ext_reads)
  qed (use that in \<open>auto simp: se_read_body_def intro!: ext_reads\<close>)
  show "gives (\<lambda>v bs. se_ok v \<and> se_get_type v = t \<and> length (se_body v []) \<le> length bs) (se_read_body t)"
    if "known_ext t" for t
    using that by (cases t; simp add: se_read_body_def) (rule ext_gives; simp add: SE_TYPES_def payload_encode_def)+
qed

section \<open>Extensions of a hello retry request\<close>

datatype hello_retry_extension =
    HRE_KeyShare named_group
  | HRE_Cookie bytes
  | HRE_SupportedVersions protocol_version
  | HRE_Unknown extension_type bytes

primrec hre_get_type :: "hello_retry_extension \<Rightarrow> extension_type" where
  "hre_get_type (HRE_KeyShare _) = EXT_KeyShare"
| "hre_get_type (HRE_Cookie _) = EXT_Cookie"
| "hre_get_type (HRE_SupportedVersions _) = EXT_SupportedVersions"
| "hre_get_type (HRE_Unknown t _) = t"

primrec hre_body :: "hello_retry_extension \<Rightarrow> bytes \<Rightarrow> bytes" where
  "hre_body (HRE_KeyShare r) buf = named_group_encode r buf"
| "hre_body (HRE_Cookie r) buf = payload_u16_encode r buf"
| "hre_body (HRE_SupportedVersions r) buf = protocol_version_encode r buf"
| "hre_body (HRE_Unknown t r) buf = payload_encode r buf"

definition hello_retry_extension_encode :: "hello_retry_extension \<Rightarrow> bytes \<Rightarrow> bytes" where
  "hello_retry_extension_encode = ext_encode hre_get_type hre_body"

definition hre_read_body :: "extension_type \<Rightarrow> hello_retry_extension rd" where
  "hre_read_body typ =
     (case typ of
        EXT_KeyShare \<Rightarrow> wrap HRE_KeyShare named_group_read
      | EXT_Cookie \<Rightarrow> wrap HRE_Cookie payload_u16_read
      | EXT_SupportedVersions \<Rightarrow> wrap HRE_SupportedVersions protocol_version_read
      | _ \<Rightarrow> wrap (HRE_Unknown typ) payload_read)"

definition hello_retry_extension_read :: "hello_retry_extension rd" where
  "hello_retry_extension_read = ext_read ''HelloRetryExtension'' hre_read_body"

primrec hre_ok :: "hello_retry_extension \<Rightarrow> bool" where
  "hre_ok (HRE_KeyShare r) \<longleftrightarrow> known named_group_get named_group_from r"
| "hre_ok (HRE_Cookie r) \<longleftrightarrow> sized 65536 r"
| "hre_ok (HRE_SupportedVersions r) \<longleftrightarrow> known protocol_version_get protocol_version_from r"
| "hre_ok (HRE_Unknown t r) \<longleftrightarrow> known_ext t \<and> t \<notin> {EXT_KeyShare, EXT_Cookie, EXT_SupportedVersions}"

lemmas [ext_reads] = reads_wrap [OF named_group.rd_all]
lemmas [ext_gives] = gives_wrap [OF named_group.rd_wf]

interpretation hello_retry_extension: extension "''HelloRetryExtension''" hre_get_type hre_body hre_read_body hre_ok
proof
  show "hre_body v out = out @ hre_body v []" for v out
    by (cases v; simp add: payload_encode_def; rule named_group.enc_app payload_u16.enc_app protocol_version.enc_app)
  show "known_ext (hre_get_type v)" if "hre_ok v" for v
    using that by (cases v) (simp_all add: known_def extension_type_from_def)
  show "reads True (hre_read_body (hre_get_type v)) (hre_body v []) v" if "hre_ok v" for v
  proof (cases v)
    case (HRE_Unknown t p)
    with that show ?thesis by (cases t) (auto simp: hre_read_body_def payload_encode_def intro: ext_reads)
  qed (use that in \<open>auto simp: hre_read_body_def intro!: ext_reads\<close>)
  show "gives (\<lambda>v bs. hre_ok v \<and> hre_get_type v = t \<and> length (hre_body v []) \<le> length bs) (hre_read_body t)"
    if "known_ext t" for t
    using that by (cases t; simp add: hre_read_body_def) (rule ext_gives; simp add: payload_encode_def)+
qed

section \<open>Extensions of a certificate\<close>

text \<open>\<open>CertificateStatus\<close> is the OCSP response; its type is checked by the decoder.\<close>

definition certificate_status_encode :: "bytes \<Rightarrow> bytes \<Rightarrow> bytes" where
  "certificate_status_encode ocsp_response out =
     payload_u24_encode ocsp_response (certificate_status_type_encode CST_OCSP out)"

definition certificate_status_read :: "bytes rd" where
  "certificate_status_read r =
     outcome_bind (certificate_status_type_read r) (\<lambda>(typ, r).
     case typ of
       CST_OCSP \<Rightarrow> payload_u24_read r
     | _ \<Rightarrow> Err InvalidCertificateStatusType)"

lemma certificate_status_encode_eq:
  "certificate_status_encode p out = out @ certificate_status_type_encode CST_OCSP [] @ payload_u24_encode p []"
  unfolding certificate_status_encode_def by (metis append.assoc certificate_status_type.enc_app payload_u24.enc_app)

interpretation certificate_status: codec certificate_status_encode certificate_status_read "sized (2 ^ 24)"
proof (rule codecI)
  show "certificate_status_encode p out = out @ certificate_status_encode p []" for p out
    by (simp add: certificate_status_encode_eq)
  show "certificate_status_encode p [] \<noteq> []" for p
    by (simp add: certificate_status_encode_eq enum8_encode_def u8_encode_def)
  show "reads w certificate_status_read (certificate_status_encode p []) p" if "sized (2 ^ 24) p" for w p
    unfolding certificate_status_encode_eq append_Nil certificate_status_read_def [abs_def]
    by (rule reads_bind [OF certificate_status_type.rd_enc])
      (use that in \<open>simp_all add: payload_u24.rd_enc known_def certificate_status_type_from_def\<close>)
  show "gives (\<lambda>p bs. sized (2 ^ 24) p \<and> length (certificate_status_encode p []) \<le> length bs) certificate_status_read"
    unfolding certificate_status_read_def [abs_def]
  proof (rule gives_bind [OF certificate_status_type.rd_exact])
    fix t bs assume t: "known certificate_status_type_get certificate_status_type_from t
      \<and> bs = certificate_status_type_encode t []"
    show "gives (\<lambda>p cs. sized (2 ^ 24) p \<and> length (certificate_status_encode p []) \<le> length (bs @ cs))
      (\<lambda>r. case t of CST_OCSP \<Rightarrow> payload_u24_read r | _ \<Rightarrow> Err InvalidCertificateStatusType)"
    proof (cases t)
      case CST_OCSP
      have "gives (\<lambda>p cs. sized (2 ^ 24) p \<and> length (certificate_status_encode p []) \<le> length (bs @ cs)) payload_u24_read"
        by (rule gives_mono [OF payload_u24.rd_wf]) (use t CST_OCSP in \<open>simp add: certificate_status_encode_eq\<close>)
      then show ?thesis using CST_OCSP by simp
    qed (simp add: gives_Err)
  qed
qed

datatype certificate_extension =
    CertE_CertificateStatus bytes
  | CertE_Unknown extension_type bytes

primrec certe_get_type :: "certificate_extension \<Rightarrow> extension_type" where
  "certe_get_type (CertE_CertificateStatus _) = EXT_StatusRequest"
| "certe_get_type (CertE_Unknown t _) = t"

primrec get_cert_status :: "certificate_extension \<Rightarrow> bytes option" where
  "get_cert_status (CertE_CertificateStatus cs) = Some cs"
| "get_cert_status (CertE_Unknown _ _) = None"

primrec certe_body :: "certificate_extension \<Rightarrow> bytes \<Rightarrow> bytes" where
  "certe_body (CertE_CertificateStatus r) buf = certificate_status_encode r buf"
| "certe_body (CertE_Unknown t r) buf = payload_encode r buf"

definition certificate_extension_encode :: "certificate_extension \<Rightarrow> bytes \<Rightarrow> bytes" where
  "certificate_extension_encode = ext_encode certe_get_type certe_body"

definition certe_read_body :: "extension_type \<Rightarrow> certificate_extension rd" where
  "certe_read_body typ =
     (case typ of
        EXT_StatusRequest \<Rightarrow> wrap CertE_CertificateStatus certificate_status_read
      | _ \<Rightarrow> wrap (CertE_Unknown typ) payload_read)"

definition certificate_extension_read :: "certificate_extension rd" where
  "certificate_extension_read = ext_read ''CertificateExtension'' certe_read_body"

primrec certe_ok :: "certificate_extension \<Rightarrow> bool" where
  "certe_ok (CertE_CertificateStatus r) \<longleftrightarrow> sized (2 ^ 24) r"
| "certe_ok (CertE_Unknown t r) \<longleftrightarrow> known_ext t \<and> t \<noteq> EXT_StatusRequest"

lemmas [ext_reads] = reads_wrap [OF certificate_status.rd_all]
lemmas [ext_gives] = gives_wrap [OF certificate_status.rd_wf]

interpretation certificate_extension: extension "''CertificateExtension''" certe_get_type certe_body certe_read_body certe_ok
proof
  show "certe_body v out = out @ certe_body v []" for v out
    by (cases v; simp add: payload_encode_def; rule certificate_status.enc_app)
  show "known_ext (certe_get_type v)" if "certe_ok v" for v
    using that by (cases v) (simp_all add: known_def extension_type_from_def)
  show "reads True (certe_read_body (certe_get_type v)) (certe_body v []) v" if "certe_ok v" for v
  proof (cases v)
    case (CertE_Unknown t p)
    with that show ?thesis by (cases t) (auto simp: certe_read_body_def payload_encode_def intro: ext_reads)
  qed (use that in \<open>auto simp: certe_read_body_def intro!: ext_reads\<close>)
  show "gives (\<lambda>v bs. certe_ok v \<and> certe_get_type v = t \<and> length (certe_body v []) \<le> length bs) (certe_read_body t)"
    if "known_ext t" for t
    using that by (cases t; simp add: certe_read_body_def) (rule ext_gives; simp add: payload_encode_def)+
qed

section \<open>Extensions of a certificate request\<close>

datatype cert_req_extension =
    CRE_SignatureAlgorithms "signature_scheme list"
  | CRE_AuthorityNames "distinguished_name list"
  | CRE_Unknown extension_type bytes

primrec cre_get_type :: "cert_req_extension \<Rightarrow> extension_type" where
  "cre_get_type (CRE_SignatureAlgorithms _) = EXT_SignatureAlgorithms"
| "cre_get_type (CRE_AuthorityNames _) = EXT_CertificateAuthorities"
| "cre_get_type (CRE_Unknown t _) = t"

primrec cre_body :: "cert_req_extension \<Rightarrow> bytes \<Rightarrow> bytes" where
  "cre_body (CRE_SignatureAlgorithms r) buf = vec_encode LenU16 signature_scheme_encode r buf"
| "cre_body (CRE_AuthorityNames r) buf = vec_encode LenU16 payload_u16_encode r buf"
| "cre_body (CRE_Unknown t r) buf = payload_encode r buf"

definition cert_req_extension_encode :: "cert_req_extension \<Rightarrow> bytes \<Rightarrow> bytes" where
  "cert_req_extension_encode = ext_encode cre_get_type cre_body"

definition schemes_read :: "signature_scheme list rd" where
  "schemes_read = require (\<lambda>schemes. schemes \<noteq> []) NoSignatureSchemes (vec_read LenU16 signature_scheme_read)"

definition cre_read_body :: "extension_type \<Rightarrow> cert_req_extension rd" where
  "cre_read_body typ =
     (case typ of
        EXT_SignatureAlgorithms \<Rightarrow> wrap CRE_SignatureAlgorithms schemes_read
      | EXT_CertificateAuthorities \<Rightarrow> wrap CRE_AuthorityNames (vec_read LenU16 payload_u16_read)
      | _ \<Rightarrow> wrap (CRE_Unknown typ) payload_read)"

definition cert_req_extension_read :: "cert_req_extension rd" where
  "cert_req_extension_read = ext_read ''CertReqExtension'' cre_read_body"

definition schemes_wf :: "signature_scheme list \<Rightarrow> bool" where
  "schemes_wf r \<longleftrightarrow>
     vec_wf LenU16 signature_scheme_encode (known signature_scheme_get signature_scheme_from) r \<and> r \<noteq> []"

primrec cre_ok :: "cert_req_extension \<Rightarrow> bool" where
  "cre_ok (CRE_SignatureAlgorithms r) \<longleftrightarrow> schemes_wf r"
| "cre_ok (CRE_AuthorityNames r) \<longleftrightarrow> vec_wf LenU16 payload_u16_encode (sized 65536) r"
| "cre_ok (CRE_Unknown t r) \<longleftrightarrow> known_ext t \<and> t \<notin> {EXT_SignatureAlgorithms, EXT_CertificateAuthorities}"

interpretation distinguished_names: codec "vec_encode LenU16 payload_u16_encode" "vec_read LenU16 payload_u16_read"
  "vec_wf LenU16 payload_u16_encode (sized 65536)"
  by (rule payload_u16.vec_codec)

interpretation schemes: codec "vec_encode LenU16 signature_scheme_encode" schemes_read schemes_wf
  unfolding schemes_read_def schemes_wf_def [abs_def] by (rule codec_require) (rule signature_schemes.codec_axioms)

lemmas [ext_reads] = reads_wrap [OF distinguished_names.rd_all] reads_wrap [OF schemes.rd_all]
lemmas [ext_gives] = gives_wrap [OF distinguished_names.rd_wf] gives_wrap [OF schemes.rd_wf]

interpretation cert_req_extension: extension "''CertReqExtension''" cre_get_type cre_body cre_read_body cre_ok
proof
  show "cre_body v out = out @ cre_body v []" for v out
    by (cases v; simp add: payload_encode_def; rule signature_schemes.enc_app distinguished_names.enc_app)
  show "known_ext (cre_get_type v)" if "cre_ok v" for v
    using that by (cases v) (simp_all add: known_def extension_type_from_def)
  show "reads True (cre_read_body (cre_get_type v)) (cre_body v []) v" if "cre_ok v" for v
  proof (cases v)
    case (CRE_Unknown t p)
    with that show ?thesis by (cases t) (auto simp: cre_read_body_def payload_encode_def intro: ext_reads)
  qed (use that in \<open>auto simp: cre_read_body_def intro!: ext_reads\<close>)
  show "gives (\<lambda>v bs. cre_ok v \<and> cre_get_type v = t \<and> length (cre_body v []) \<le> length bs) (cre_read_body t)"
    if "known_ext t" for t
    using that by (cases t; simp add: cre_read_body_def) (rule ext_gives; simp add: payload_encode_def)+
qed

section \<open>Extensions of a session ticket\<close>

datatype new_session_ticket_extension =
    NSTE_EarlyData u32
  | NSTE_Unknown extension_type bytes

primrec nste_get_type :: "new_session_ticket_extension \<Rightarrow> extension_type" where
  "nste_get_type (NSTE_EarlyData _) = EXT_EarlyData"
| "nste_get_type (NSTE_Unknown t _) = t"

primrec nste_body :: "new_session_ticket_extension \<Rightarrow> bytes \<Rightarrow> bytes" where
  "nste_body (NSTE_EarlyData r) buf = u32_encode r buf"
| "nste_body (NSTE_Unknown t r) buf = payload_encode r buf"

definition new_session_ticket_extension_encode :: "new_session_ticket_extension \<Rightarrow> bytes \<Rightarrow> bytes" where
  "new_session_ticket_extension_encode = ext_encode nste_get_type nste_body"

definition nste_read_body :: "extension_type \<Rightarrow> new_session_ticket_extension rd" where
  "nste_read_body typ =
     (case typ of
        EXT_EarlyData \<Rightarrow> wrap NSTE_EarlyData u32_read
      | _ \<Rightarrow> wrap (NSTE_Unknown typ) payload_read)"

definition new_session_ticket_extension_read :: "new_session_ticket_extension rd" where
  "new_session_ticket_extension_read = ext_read ''NewSessionTicketExtension'' nste_read_body"

primrec nste_ok :: "new_session_ticket_extension \<Rightarrow> bool" where
  "nste_ok (NSTE_EarlyData r) \<longleftrightarrow> True"
| "nste_ok (NSTE_Unknown t r) \<longleftrightarrow> known_ext t \<and> t \<noteq> EXT_EarlyData"

lemmas [ext_reads] = reads_wrap [OF u32.rd_all]
lemmas [ext_gives] = gives_wrap [OF u32.rd_wf]

interpretation new_session_ticket_extension:
  extension "''NewSessionTicketExtension''" nste_get_type nste_body nste_read_body nste_ok
proof
  show "nste_body v out = out @ nste_body v []" for v out
    by (cases v; simp add: payload_encode_def; rule u32.enc_app)
  show "known_ext (nste_get_type v)" if "nste_ok v" for v
    using that by (cases v) (simp_all add: known_def extension_type_from_def)
  show "reads True (nste_read_body (nste_get_type v)) (nste_body v []) v" if "nste_ok v" for v
  proof (cases v)
    case (NSTE_Unknown t p)
    with that show ?thesis by (cases t) (auto simp: nste_read_body_def payload_encode_def intro: ext_reads)
  qed (use that in \<open>auto simp: nste_read_body_def intro!: ext_reads\<close>)
  show "gives (\<lambda>v bs. nste_ok v \<and> nste_get_type v = t \<and> length (nste_body v []) \<le> length bs) (nste_read_body t)"
    if "known_ext t" for t
    using that by (cases t; simp add: nste_read_body_def) (rule ext_gives; simp add: payload_encode_def)+
qed

end
