(* ===== verification/Rustls_Handshake.thy ===== *)
theory Rustls_Handshake
  imports Rustls_Extensions
begin

text \<open>
  The bodies of the handshake messages of \<open>orcax/rustls-fork/rustls/src/msgs/handshake.rs\<close>, with
  \<open>DigitallySignedStruct\<close> of \<open>verify.rs\<close>: their structures, encoders, decoders and the functions
  that look extensions up. Every body is an instance of \<open>codec\<close> or, when it extends to the end of
  the message, of \<open>whole_codec\<close>.
\<close>

section \<open>Trailing fields\<close>

text \<open>\<open>if r.any_left() { Vec::read(r)? } else { vec![] }\<close>, and \<open>expect_empty\<close> after a decoder.\<close>

definition opt_list :: "'a list rd \<Rightarrow> 'a list rd" where
  "opt_list rd r = (if any_left r then rd r else Ok ([], r))"

definition opt_list_encode :: "('a list \<Rightarrow> bytes \<Rightarrow> bytes) \<Rightarrow> 'a list \<Rightarrow> bytes \<Rightarrow> bytes" where
  "opt_list_encode enc xs out = (if xs \<noteq> [] then enc xs out else out)"

definition at_end :: "string \<Rightarrow> 'a rd \<Rightarrow> 'a rd" where
  "at_end name p r =
     outcome_bind (p r) (\<lambda>(v, r).
     outcome_bind (expect_empty name r) (\<lambda>_. Ok (v, r)))"

lemma opt_list_reads:
  assumes "codec enc rd ok" "ok xs"
  shows "reads True (opt_list rd) (opt_list_encode enc xs []) xs"
proof (cases "xs = []")
  case True
  then show ?thesis by (auto intro!: readsI simp: opt_list_def opt_list_encode_def any_left_rem)
next
  case False
  show ?thesis
  proof (rule readsI)
    fix r t assume r: "reader_inv r" "rem r = opt_list_encode enc xs [] @ t" "True \<Longrightarrow> t = []"
    with False codec.enc_nonempty [OF assms] readsD [OF codec.rd_enc [OF assms, of True], of r t]
    show "\<exists>r'. opt_list rd r = Ok (xs, r') \<and> reader_inv r' \<and> rem r' = t"
      by (auto simp: opt_list_def opt_list_encode_def any_left_rem)
  qed
qed

lemma opt_list_gives:
  assumes "codec enc rd ok" "ok []"
  shows "gives (\<lambda>xs bs. ok xs \<and> length (opt_list_encode enc xs []) \<le> length bs) (opt_list rd)"
proof (rule givesI)
  note g = whole_codec.rd_wf [OF codec.axioms(1) [OF assms(1)]]
  fix r assume r: "reader_inv r"
  show "opt_list rd r \<noteq> Panic" using gives_no_panic [OF g r] by (simp add: opt_list_def)
  fix xs r' assume "opt_list rd r = Ok (xs, r')"
  then show "same_buf r r' \<and> (\<exists>bs. rem r = bs @ rem r' \<and> ok xs \<and> length (opt_list_encode enc xs []) \<le> length bs)"
    using givesD [OF g r, of xs r'] r assms(2)
    by (auto simp: opt_list_def opt_list_encode_def split: if_splits)
qed

lemma at_end_reads: "reads True p bs v \<Longrightarrow> reads True (at_end name p) bs v"
  using readsD [of True p bs v]
  by (intro readsI) (fastforce simp: at_end_def expect_empty_def any_left_rem)

lemma at_end_gives:
  assumes "gives P p"
  shows "gives P (at_end name p)"
proof (rule givesI)
  fix r assume r: "reader_inv r"
  show "at_end name p r \<noteq> Panic"
    using gives_no_panic [OF assms r] by (auto simp: at_end_def expect_empty_def outcome_bind_Panic_iff)
  fix v r' assume "at_end name p r = Ok (v, r')"
  then have "p r = Ok (v, r')" by (auto simp: at_end_def outcome_bind_Ok_iff)
  from givesD [OF assms r this] show "same_buf r r' \<and> (\<exists>bs. rem r = bs @ rem r' \<and> P v bs)" .
qed

lemma codec_quint:
  assumes A: "codec ea ra oa" and B: "codec eb rb ob" and C: "codec ec rc oc" and D: "codec ed rd od" and E: "codec ee re oe"
  shows "codec (\<lambda>(a, b, c, d, e) out. ee e (ed d (ec c (eb b (ea a out)))))
    (\<lambda>r. outcome_bind (ra r) (\<lambda>(a, r). outcome_bind (rb r) (\<lambda>(b, r). outcome_bind (rc r) (\<lambda>(c, r).
       outcome_bind (rd r) (\<lambda>(d, r). outcome_bind (re r) (\<lambda>(e, r). Ok ((a, b, c, d, e), r)))))))
    (\<lambda>(a, b, c, d, e). oa a \<and> ob b \<and> oc c \<and> od d \<and> oe e)"
proof -
  have BCDE: "codec (\<lambda>(b, c, d, e) out. ee e (ed d (ec c (eb b out))))
    (\<lambda>r. outcome_bind (rb r) (\<lambda>(b, r). outcome_bind (rc r) (\<lambda>(c, r).
       outcome_bind (rd r) (\<lambda>(d, r). outcome_bind (re r) (\<lambda>(e, r). Ok ((b, c, d, e), r))))))
    (\<lambda>(b, c, d, e). ob b \<and> oc c \<and> od d \<and> oe e)"
    by (rule codec_quad [OF B C D E, of _ "\<lambda>(b, c, d, e). e" "\<lambda>(b, c, d, e). d" "\<lambda>(b, c, d, e). c" fst
          _ "\<lambda>b c d e. (b, c, d, e)"]) (simp_all add: split_def)
  show ?thesis
    by (rule codec_pair [OF A BCDE, of _ snd fst _ "\<lambda>a (b, c, d, e). (a, b, c, d, e)"])
      (simp_all add: outcome_bind_assoc split_def)
qed

lemma if_neq_swap: "(if x \<noteq> y then a else b) = (if x = y then b else a)"
  by simp

lemma reads_wrap_eq: "reads w p bs v \<Longrightarrow> c v = u \<Longrightarrow> reads w (wrap c p) bs u"
  using reads_wrap by metis

section \<open>Client hello\<close>

record client_hello_payload =
  client_version :: protocol_version
  ch_random :: bytes
  ch_session_id :: session_id
  cipher_suites :: "cipher_suite list"
  compression_methods :: "compression list"
  ch_extensions :: "client_extension list"

definition client_hello_encode :: "client_hello_payload \<Rightarrow> bytes \<Rightarrow> bytes" where
  "client_hello_encode ch out =
     (let out = protocol_version_encode (client_version ch) out;
          out = random_encode (ch_random ch) out;
          out = session_id_encode (ch_session_id ch) out;
          out = vec_encode LenU16 cipher_suite_encode (cipher_suites ch) out;
          out = vec_encode LenU8 compression_encode (compression_methods ch) out
      in if ch_extensions ch \<noteq> [] then vec_encode LenU16 client_extension_encode (ch_extensions ch) out
         else out)"

definition client_hello_read :: "(bytes \<Rightarrow> bool) \<Rightarrow> client_hello_payload rd" where
  "client_hello_read dns r =
     outcome_bind (protocol_version_read r) (\<lambda>(v, r).
     outcome_bind (random_read r) (\<lambda>(rnd, r).
     outcome_bind (session_id_read r) (\<lambda>(sid, r).
     outcome_bind (vec_read LenU16 cipher_suite_read r) (\<lambda>(suites, r).
     outcome_bind (vec_read LenU8 compression_read r) (\<lambda>(comps, r).
     outcome_bind (if any_left r then vec_read LenU16 (client_extension_read dns) r else Ok ([], r)) (\<lambda>(exts, r).
     if any_left r then Err (TrailingData ''ClientHelloPayload'')
     else if exts = [] then Err (MissingData ''ClientHelloPayload'')
     else Ok (\<lparr>client_version = v, ch_random = rnd, ch_session_id = sid, cipher_suites = suites,
                compression_methods = comps, ch_extensions = exts\<rparr>, r)))))))"

definition client_extensions_wf :: "(bytes \<Rightarrow> bool) \<Rightarrow> client_extension list \<Rightarrow> bool" where
  "client_extensions_wf dns = vec_wf LenU16 client_extension_encode (ext_wf (ce_ok dns) ce_body)"

definition client_hello_wf :: "(bytes \<Rightarrow> bool) \<Rightarrow> client_hello_payload \<Rightarrow> bool" where
  "client_hello_wf dns ch \<longleftrightarrow>
     known protocol_version_get protocol_version_from (client_version ch)
     \<and> random_wf (ch_random ch)
     \<and> session_id_wf (ch_session_id ch)
     \<and> vec_wf LenU16 cipher_suite_encode (\<lambda>_. True) (cipher_suites ch)
     \<and> vec_wf LenU8 compression_encode (known compression_get compression_from) (compression_methods ch)
     \<and> ch_extensions ch \<noteq> [] \<and> client_extensions_wf dns (ch_extensions ch)"

interpretation cipher_suites: codec "vec_encode LenU16 cipher_suite_encode" "vec_read LenU16 cipher_suite_read"
  "vec_wf LenU16 cipher_suite_encode (\<lambda>_. True)"
proof -
  have "known (\<lambda>x :: cipher_suite. x) (\<lambda>x. x) = (\<lambda>_. True)" by (simp add: known_def fun_eq_iff)
  then show "codec (vec_encode LenU16 cipher_suite_encode) (vec_read LenU16 cipher_suite_read)
    (vec_wf LenU16 cipher_suite_encode (\<lambda>_. True))"
    using cipher_suite.vec_codec [of LenU16] by simp
qed

interpretation compressions: codec "vec_encode LenU8 compression_encode" "vec_read LenU8 compression_read"
  "vec_wf LenU8 compression_encode (known compression_get compression_from)"
  by (rule compression.vec_codec)

interpretation client_extensions: codec "vec_encode LenU16 client_extension_encode" "vec_read LenU16 (client_extension_read dns)"
  "client_extensions_wf dns" for dns
  unfolding client_extensions_wf_def client_extension_encode_def client_extension_read_def
  by (rule client_extension.vec_codec)

text \<open>The extensions of a client hello, with the checks after them.\<close>

definition ch_tail_read :: "(bytes \<Rightarrow> bool) \<Rightarrow> client_extension list rd" where
  "ch_tail_read dns =
     require (\<lambda>exts. exts \<noteq> []) (MissingData ''ClientHelloPayload'')
       (at_end ''ClientHelloPayload'' (opt_list (vec_read LenU16 (client_extension_read dns))))"

lemma vec_wf_Nil [simp]: "vec_wf sz enc ok []"
  by (cases sz) (simp_all add: vec_wf_def fits_def)

interpretation ch_tail: whole_codec "opt_list_encode (vec_encode LenU16 client_extension_encode)" "ch_tail_read dns"
  "\<lambda>exts. exts \<noteq> [] \<and> client_extensions_wf dns exts" for dns
proof
  let ?enc = "opt_list_encode (vec_encode LenU16 client_extension_encode)"
  show "?enc v out = out @ ?enc v []" for v out
    using client_extensions.enc_app [of v out] by (simp add: opt_list_encode_def)
  have "gives (\<lambda>v bs. client_extensions_wf dns v \<and> length (?enc v []) \<le> length bs)
    (at_end ''ClientHelloPayload'' (opt_list (vec_read LenU16 (client_extension_read dns))))"
    by (intro at_end_gives opt_list_gives [OF client_extensions.codec_axioms]) (simp add: client_extensions_wf_def)
  from gives_require [OF this]
  show "gives (\<lambda>v bs. (v \<noteq> [] \<and> client_extensions_wf dns v) \<and> length (?enc v []) \<le> length bs) (ch_tail_read dns)"
    unfolding ch_tail_read_def by (rule gives_mono) simp
  show "reads True (ch_tail_read dns) (?enc v []) v" if "v \<noteq> [] \<and> client_extensions_wf dns v" for v
    unfolding ch_tail_read_def using that
    by (intro reads_require at_end_reads opt_list_reads [OF client_extensions.codec_axioms]) simp_all
qed

lemmas ch_fields = codec_quint [OF protocol_version.codec_axioms random.codec_axioms session_id.codec_axioms
  cipher_suites.codec_axioms compressions.codec_axioms]

interpretation client_hello: whole_codec client_hello_encode "client_hello_read dns" "client_hello_wf dns" for dns
proof (rule whole_codec_pair [OF ch_fields ch_tail.whole_codec_axioms [of dns], of _ ch_extensions
      "\<lambda>ch. (client_version ch, ch_random ch, ch_session_id ch, cipher_suites ch, compression_methods ch)" _
      "\<lambda>(v, rnd, sid, suites, comps) exts. \<lparr>client_version = v, ch_random = rnd, ch_session_id = sid,
         cipher_suites = suites, compression_methods = comps, ch_extensions = exts\<rparr>"])
  let ?f = "\<lambda>ch. (client_version ch, ch_random ch, ch_session_id ch, cipher_suites ch, compression_methods ch)"
  let ?mk = "\<lambda>(v, rnd, sid, suites, comps) exts. \<lparr>client_version = v, ch_random = rnd, ch_session_id = sid,
    cipher_suites = suites, compression_methods = comps, ch_extensions = exts\<rparr>"
  show "client_hello_encode ch out = opt_list_encode (vec_encode LenU16 client_extension_encode) (ch_extensions ch)
    ((\<lambda>(a, b, c, d, e) out. vec_encode LenU8 compression_encode e (vec_encode LenU16 cipher_suite_encode d
       (session_id_encode c (random_encode b (protocol_version_encode a out))))) (?f ch) out)" for ch out
    by (simp add: client_hello_encode_def opt_list_encode_def Let_def)
  show "client_hello_read dns r =
    outcome_bind (outcome_bind (protocol_version_read r) (\<lambda>(a, r). outcome_bind (random_read r) (\<lambda>(b, r).
      outcome_bind (session_id_read r) (\<lambda>(c, r). outcome_bind (vec_read LenU16 cipher_suite_read r) (\<lambda>(d, r).
      outcome_bind (vec_read LenU8 compression_read r) (\<lambda>(e, r). Ok ((a, b, c, d, e), r)))))))
    (\<lambda>(a, r). outcome_bind (ch_tail_read dns r) (\<lambda>(b, r). Ok (?mk a b, r)))" for r
    by (simp add: if_neq_swap client_hello_read_def ch_tail_read_def require_def at_end_def expect_empty_def opt_list_def outcome_bind_assoc
        split_def if_distrib [of "\<lambda>m. outcome_bind m _"] cong: if_cong)
  show "?f (?mk a es) = a" "ch_extensions (?mk a es) = es" "?mk (?f v) (ch_extensions v) = v" for a es v
    by (cases a; simp)+
qed (auto simp: client_hello_wf_def)

section \<open>Looking up extensions of a client hello\<close>

definition ch_has_duplicate_extension :: "client_hello_payload \<Rightarrow> bool" where
  "ch_has_duplicate_extension ch = repeated (\<lambda>e. extension_type_get (ce_get_type e)) {} (ch_extensions ch)"

definition ch_find_extension :: "client_hello_payload \<Rightarrow> extension_type \<Rightarrow> client_extension option" where
  "ch_find_extension ch ext = List.find (\<lambda>x. ce_get_type x = ext) (ch_extensions ch)"

definition get_sni_extension :: "client_hello_payload \<Rightarrow> server_name list option" where
  "get_sni_extension ch =
     (case ch_find_extension ch EXT_ServerName of Some (CE_ServerName req) \<Rightarrow> Some req | _ \<Rightarrow> None)"

definition get_sigalgs_extension :: "client_hello_payload \<Rightarrow> signature_scheme list option" where
  "get_sigalgs_extension ch =
     (case ch_find_extension ch EXT_SignatureAlgorithms of Some (CE_SignatureAlgorithms req) \<Rightarrow> Some req | _ \<Rightarrow> None)"

definition get_namedgroups_extension :: "client_hello_payload \<Rightarrow> named_group list option" where
  "get_namedgroups_extension ch =
     (case ch_find_extension ch EXT_EllipticCurves of Some (CE_NamedGroups req) \<Rightarrow> Some req | _ \<Rightarrow> None)"

definition ch_get_ecpoints_extension :: "client_hello_payload \<Rightarrow> ec_point_format list option" where
  "ch_get_ecpoints_extension ch =
     (case ch_find_extension ch EXT_ECPointFormats of Some (CE_EcPointFormats req) \<Rightarrow> Some req | _ \<Rightarrow> None)"

definition get_alpn_extension :: "client_hello_payload \<Rightarrow> protocol_name list option" where
  "get_alpn_extension ch =
     (case ch_find_extension ch EXT_ALProtocolNegotiation of Some (CE_Protocols req) \<Rightarrow> Some req | _ \<Rightarrow> None)"

definition ch_get_quic_params_extension :: "client_hello_payload \<Rightarrow> bytes option" where
  "ch_get_quic_params_extension ch =
     (case (case ch_find_extension ch EXT_TransportParameters of
              Some e \<Rightarrow> Some e
            | None \<Rightarrow> ch_find_extension ch EXT_TransportParametersDraft) of
        Some (CE_TransportParameters bs) \<Rightarrow> Some bs
      | Some (CE_TransportParametersDraft bs) \<Rightarrow> Some bs
      | _ \<Rightarrow> None)"

definition get_ticket_extension :: "client_hello_payload \<Rightarrow> client_extension option" where
  "get_ticket_extension ch = ch_find_extension ch EXT_SessionTicket"

definition get_versions_extension :: "client_hello_payload \<Rightarrow> protocol_version list option" where
  "get_versions_extension ch =
     (case ch_find_extension ch EXT_SupportedVersions of Some (CE_SupportedVersions vers) \<Rightarrow> Some vers | _ \<Rightarrow> None)"

definition get_keyshare_extension :: "client_hello_payload \<Rightarrow> key_share_entry list option" where
  "get_keyshare_extension ch =
     (case ch_find_extension ch EXT_KeyShare of Some (CE_KeyShare shares) \<Rightarrow> Some shares | _ \<Rightarrow> None)"

definition has_keyshare_extension_with_duplicates :: "client_hello_payload \<Rightarrow> bool" where
  "has_keyshare_extension_with_duplicates ch =
     (case get_keyshare_extension ch of
        Some entries \<Rightarrow> repeated (\<lambda>kse. named_group_get (kse_group kse)) {} entries
      | None \<Rightarrow> False)"

definition get_psk :: "client_hello_payload \<Rightarrow> preshared_key_offer option" where
  "get_psk ch = (case ch_find_extension ch EXT_PreSharedKey of Some (CE_PresharedKey psk) \<Rightarrow> Some psk | _ \<Rightarrow> None)"

definition check_psk_ext_is_last :: "client_hello_payload \<Rightarrow> bool" where
  "check_psk_ext_is_last ch \<longleftrightarrow>
     ch_extensions ch \<noteq> [] \<and> ce_get_type (last (ch_extensions ch)) = EXT_PreSharedKey"

definition get_psk_modes :: "client_hello_payload \<Rightarrow> psk_key_exchange_mode list option" where
  "get_psk_modes ch =
     (case ch_find_extension ch EXT_PSKKeyExchangeModes of Some (CE_PresharedKeyModes modes) \<Rightarrow> Some modes | _ \<Rightarrow> None)"

definition psk_mode_offered :: "client_hello_payload \<Rightarrow> psk_key_exchange_mode \<Rightarrow> bool" where
  "psk_mode_offered ch mode = (case get_psk_modes ch of Some modes \<Rightarrow> mode \<in> set modes | None \<Rightarrow> False)"

text \<open>\<open>offer.binders[0] = ...\<close> panics when the offer has no binders.\<close>

definition set_psk_binder :: "client_hello_payload \<Rightarrow> bytes \<Rightarrow> ('e, client_hello_payload) outcome" where
  "set_psk_binder ch binder =
     (if ch_extensions ch = [] then Ok ch
      else case last (ch_extensions ch) of
             CE_PresharedKey offer \<Rightarrow>
               if binders offer = [] then Panic
               else Ok (ch\<lparr>ch_extensions := butlast (ch_extensions ch)
                          @ [CE_PresharedKey (offer\<lparr>binders := (binders offer)[0 := binder]\<rparr>)]\<rparr>)
           | _ \<Rightarrow> Ok ch)"

definition ems_support_offered :: "client_hello_payload \<Rightarrow> bool" where
  "ems_support_offered ch \<longleftrightarrow> ch_find_extension ch EXT_ExtendedMasterSecret \<noteq> None"

definition ch_early_data_extension_offered :: "client_hello_payload \<Rightarrow> bool" where
  "ch_early_data_extension_offered ch \<longleftrightarrow> ch_find_extension ch EXT_EarlyData \<noteq> None"

text \<open>In a hello without repeated extensions every lookup finds the extension wherever it stands.\<close>

lemma ch_find_iff:
  assumes "\<not> ch_has_duplicate_extension ch"
  shows "ch_find_extension ch t = Some e \<longleftrightarrow> e \<in> set (ch_extensions ch) \<and> ce_get_type e = t"
proof -
  have "\<not> repeated ce_get_type {} (ch_extensions ch)"
    using assms distinct_map [of extension_type_get "map ce_get_type (ch_extensions ch)"]
    by (simp add: ch_has_duplicate_extension_def repeated_iff comp_def)
  from find_unique [OF this] show ?thesis by (simp add: ch_find_extension_def)
qed

lemma ch_lookups:
  assumes ch: "\<not> ch_has_duplicate_extension ch"
  shows "get_sni_extension ch = Some a \<longleftrightarrow> CE_ServerName a \<in> set (ch_extensions ch)"
    "get_keyshare_extension ch = Some b \<longleftrightarrow> CE_KeyShare b \<in> set (ch_extensions ch)"
    "get_versions_extension ch = Some c \<longleftrightarrow> CE_SupportedVersions c \<in> set (ch_extensions ch)"
    "get_psk ch = Some d \<longleftrightarrow> CE_PresharedKey d \<in> set (ch_extensions ch)"
    "get_psk_modes ch = Some m \<longleftrightarrow> CE_PresharedKeyModes m \<in> set (ch_extensions ch)"
    "get_alpn_extension ch = Some p \<longleftrightarrow> CE_Protocols p \<in> set (ch_extensions ch)"
    "get_sigalgs_extension ch = Some s \<longleftrightarrow> CE_SignatureAlgorithms s \<in> set (ch_extensions ch)"
    "get_namedgroups_extension ch = Some g \<longleftrightarrow> CE_NamedGroups g \<in> set (ch_extensions ch)"
proof -
  note f = ch_find_iff [OF ch]
  have l: "(case ch_find_extension ch t of None \<Rightarrow> None | Some e \<Rightarrow> sel e) = Some v \<longleftrightarrow> C v \<in> set (ch_extensions ch)"
    if sel: "\<And>e. ce_get_type e = t \<Longrightarrow> sel e = Some v \<longleftrightarrow> e = C v" and t: "ce_get_type (C v) = t"
    for t sel C and v :: 'v
  proof -
    have "(case ch_find_extension ch t of None \<Rightarrow> None | Some e \<Rightarrow> sel e) = Some v
      \<longleftrightarrow> (\<exists>e. ch_find_extension ch t = Some e \<and> sel e = Some v)"
      by (simp split: option.split)
    also have "\<dots> \<longleftrightarrow> C v \<in> set (ch_extensions ch)" using f sel t by auto
    finally show ?thesis .
  qed
  show "get_sni_extension ch = Some a \<longleftrightarrow> CE_ServerName a \<in> set (ch_extensions ch)"
    unfolding get_sni_extension_def by (rule l) (auto split: client_extension.splits)
  show "get_keyshare_extension ch = Some b \<longleftrightarrow> CE_KeyShare b \<in> set (ch_extensions ch)"
    unfolding get_keyshare_extension_def by (rule l) (auto split: client_extension.splits)
  show "get_versions_extension ch = Some c \<longleftrightarrow> CE_SupportedVersions c \<in> set (ch_extensions ch)"
    unfolding get_versions_extension_def by (rule l) (auto split: client_extension.splits)
  show "get_psk ch = Some d \<longleftrightarrow> CE_PresharedKey d \<in> set (ch_extensions ch)"
    unfolding get_psk_def by (rule l) (auto split: client_extension.splits)
  show "get_psk_modes ch = Some m \<longleftrightarrow> CE_PresharedKeyModes m \<in> set (ch_extensions ch)"
    unfolding get_psk_modes_def by (rule l) (auto split: client_extension.splits)
  show "get_alpn_extension ch = Some p \<longleftrightarrow> CE_Protocols p \<in> set (ch_extensions ch)"
    unfolding get_alpn_extension_def by (rule l) (auto split: client_extension.splits)
  show "get_sigalgs_extension ch = Some s \<longleftrightarrow> CE_SignatureAlgorithms s \<in> set (ch_extensions ch)"
    unfolding get_sigalgs_extension_def by (rule l) (auto split: client_extension.splits)
  show "get_namedgroups_extension ch = Some g \<longleftrightarrow> CE_NamedGroups g \<in> set (ch_extensions ch)"
    unfolding get_namedgroups_extension_def by (rule l) (auto split: client_extension.splits)
qed

section \<open>Hello retry request\<close>

record hello_retry_request =
  hrr_legacy_version :: protocol_version
  hrr_session_id :: session_id
  hrr_cipher_suite :: cipher_suite
  hrr_extensions :: "hello_retry_extension list"

definition hello_retry_request_encode :: "hello_retry_request \<Rightarrow> bytes \<Rightarrow> bytes" where
  "hello_retry_request_encode h out =
     (let out = protocol_version_encode (hrr_legacy_version h) out;
          out = random_encode HELLO_RETRY_REQUEST_RANDOM out;
          out = session_id_encode (hrr_session_id h) out;
          out = cipher_suite_encode (hrr_cipher_suite h) out;
          out = compression_encode COMP_Null out
      in vec_encode LenU16 hello_retry_extension_encode (hrr_extensions h) out)"

definition hello_retry_request_read :: "hello_retry_request rd" where
  "hello_retry_request_read r =
     outcome_bind (session_id_read r) (\<lambda>(sid, r).
     outcome_bind (cipher_suite_read r) (\<lambda>(suite, r).
     outcome_bind (compression_read r) (\<lambda>(compression, r).
     if compression \<noteq> COMP_Null then Err UnsupportedCompression
     else outcome_bind (vec_read LenU16 hello_retry_extension_read r) (\<lambda>(exts, r).
     Ok (\<lparr>hrr_legacy_version = PV_Unknown 0, hrr_session_id = sid, hrr_cipher_suite = suite,
           hrr_extensions = exts\<rparr>, r)))))"

definition hrr_has_duplicate_extension :: "hello_retry_request \<Rightarrow> bool" where
  "hrr_has_duplicate_extension h = repeated (\<lambda>e. extension_type_get (hre_get_type e)) {} (hrr_extensions h)"

definition hrr_has_unknown_extension :: "hello_retry_request \<Rightarrow> bool" where
  "hrr_has_unknown_extension h =
     list_ex (\<lambda>e. hre_get_type e \<noteq> EXT_KeyShare \<and> hre_get_type e \<noteq> EXT_SupportedVersions
                 \<and> hre_get_type e \<noteq> EXT_Cookie) (hrr_extensions h)"

definition hrr_find_extension :: "hello_retry_request \<Rightarrow> extension_type \<Rightarrow> hello_retry_extension option" where
  "hrr_find_extension h ext = List.find (\<lambda>x. hre_get_type x = ext) (hrr_extensions h)"

definition get_requested_key_share_group :: "hello_retry_request \<Rightarrow> named_group option" where
  "get_requested_key_share_group h =
     (case hrr_find_extension h EXT_KeyShare of Some (HRE_KeyShare grp) \<Rightarrow> Some grp | _ \<Rightarrow> None)"

definition get_cookie :: "hello_retry_request \<Rightarrow> bytes option" where
  "get_cookie h = (case hrr_find_extension h EXT_Cookie of Some (HRE_Cookie ck) \<Rightarrow> Some ck | _ \<Rightarrow> None)"

definition hrr_get_supported_versions :: "hello_retry_request \<Rightarrow> protocol_version option" where
  "hrr_get_supported_versions h =
     (case hrr_find_extension h EXT_SupportedVersions of Some (HRE_SupportedVersions ver) \<Rightarrow> Some ver | _ \<Rightarrow> None)"

definition hello_retry_extensions_wf :: "hello_retry_extension list \<Rightarrow> bool" where
  "hello_retry_extensions_wf = vec_wf LenU16 hello_retry_extension_encode (ext_wf hre_ok hre_body)"

definition hello_retry_request_wf :: "hello_retry_request \<Rightarrow> bool" where
  "hello_retry_request_wf h \<longleftrightarrow>
     known protocol_version_get protocol_version_from (hrr_legacy_version h)
     \<and> session_id_wf (hrr_session_id h) \<and> hello_retry_extensions_wf (hrr_extensions h)"

interpretation hello_retry_extensions: codec "vec_encode LenU16 hello_retry_extension_encode"
  "vec_read LenU16 hello_retry_extension_read" hello_retry_extensions_wf
  unfolding hello_retry_extensions_wf_def hello_retry_extension_encode_def hello_retry_extension_read_def
  by (rule hello_retry_extension.vec_codec)

text \<open>What follows the version and the random.\<close>

definition hrr_fields :: "hello_retry_request \<Rightarrow> session_id \<times> cipher_suite \<times> compression \<times> hello_retry_extension list" where
  "hrr_fields h = (hrr_session_id h, hrr_cipher_suite h, COMP_Null, hrr_extensions h)"

definition hrr_fields_encode ::
    "session_id \<times> cipher_suite \<times> compression \<times> hello_retry_extension list \<Rightarrow> bytes \<Rightarrow> bytes" where
  "hrr_fields_encode = (\<lambda>(sid, suite, comp, exts) out. vec_encode LenU16 hello_retry_extension_encode exts
     (compression_encode comp (cipher_suite_encode suite (session_id_encode sid out))))"

definition hrr_fields_read :: "(session_id \<times> cipher_suite \<times> compression \<times> hello_retry_extension list) rd" where
  "hrr_fields_read r =
     outcome_bind (session_id_read r) (\<lambda>(sid, r).
     outcome_bind (cipher_suite_read r) (\<lambda>(suite, r).
     outcome_bind (require (\<lambda>c. c = COMP_Null) UnsupportedCompression compression_read r) (\<lambda>(comp, r).
     outcome_bind (vec_read LenU16 hello_retry_extension_read r) (\<lambda>(exts, r).
     Ok ((sid, suite, comp, exts), r)))))"

lemma hrr_fields_codec:
  "codec hrr_fields_encode hrr_fields_read
     (\<lambda>(sid, suite, comp, exts). session_id_wf sid \<and> known (\<lambda>x. x) (\<lambda>x. x) suite
        \<and> (known compression_get compression_from comp \<and> comp = COMP_Null) \<and> hello_retry_extensions_wf exts)"
  by (rule codec_quad [OF session_id.codec_axioms cipher_suite.codec_axioms codec_require [OF compression.codec_axioms,
          of "\<lambda>c. c = COMP_Null" UnsupportedCompression] hello_retry_extensions.codec_axioms, of _ "\<lambda>(b, c, d, e). e" "\<lambda>(b, c, d, e). d" "\<lambda>(b, c, d, e). c" fst
          _ "\<lambda>b c d e. (b, c, d, e)"])
    (simp_all add: hrr_fields_encode_def hrr_fields_read_def split_def)

lemma hello_retry_request_read_eq:
  "hello_retry_request_read =
     wrap (\<lambda>(sid, suite, comp, exts). \<lparr>hrr_legacy_version = PV_Unknown 0, hrr_session_id = sid,
       hrr_cipher_suite = suite, hrr_extensions = exts\<rparr>) hrr_fields_read"
  by (simp add: if_neq_swap fun_eq_iff hello_retry_request_read_def wrap_def hrr_fields_read_def require_def outcome_bind_assoc
      split_def if_distrib [of "\<lambda>m. outcome_bind m _"] cong: if_cong)

lemma hello_retry_request_encode_eq:
  "hello_retry_request_encode h out =
     out @ protocol_version_encode (hrr_legacy_version h) [] @ HELLO_RETRY_REQUEST_RANDOM @ hrr_fields_encode (hrr_fields h) []"
proof -
  have "hello_retry_request_encode h out = hrr_fields_encode (hrr_fields h)
    (random_encode HELLO_RETRY_REQUEST_RANDOM (protocol_version_encode (hrr_legacy_version h) out))"
    by (simp add: hello_retry_request_encode_def hrr_fields_encode_def hrr_fields_def Let_def)
  also have "\<dots> = random_encode HELLO_RETRY_REQUEST_RANDOM (protocol_version_encode (hrr_legacy_version h) out)
    @ hrr_fields_encode (hrr_fields h) []"
    by (rule whole_codec.enc_app [OF codec.axioms(1) [OF hrr_fields_codec]])
  finally show ?thesis by (simp add: random_encode_def protocol_version.enc_app [of _ out])
qed

lemma hello_retry_request_reads:
  assumes "hello_retry_request_wf h"
  shows "reads w hello_retry_request_read (hrr_fields_encode (hrr_fields h) []) (h\<lparr>hrr_legacy_version := PV_Unknown 0\<rparr>)"
proof -
  have "reads w hrr_fields_read (hrr_fields_encode (hrr_fields h) []) (hrr_fields h)"
    using assms by (intro codec.rd_enc [OF hrr_fields_codec])
      (simp add: hrr_fields_def hello_retry_request_wf_def known_def compression_from_def)
  then show ?thesis unfolding hello_retry_request_read_eq by (rule reads_wrap_eq) (simp add: hrr_fields_def)
qed

lemma hello_retry_request_gives:
  "gives (\<lambda>h bs. known protocol_version_get protocol_version_from v \<longrightarrow> hello_retry_request_wf (h\<lparr>hrr_legacy_version := v\<rparr>)
      \<and> length (hrr_fields_encode (hrr_fields h) []) \<le> length bs) hello_retry_request_read"
  unfolding hello_retry_request_read_eq
  by (rule gives_wrap [OF whole_codec.rd_wf [OF codec.axioms(1) [OF hrr_fields_codec]]])
    (auto simp: hello_retry_request_wf_def hrr_fields_def)

section \<open>Server hello\<close>

record server_hello_payload =
  legacy_version :: protocol_version
  sh_random :: bytes
  sh_session_id :: session_id
  sh_cipher_suite :: cipher_suite
  compression_method :: compression
  sh_extensions :: "server_extension list"

definition server_hello_encode :: "server_hello_payload \<Rightarrow> bytes \<Rightarrow> bytes" where
  "server_hello_encode sh out =
     (let out = protocol_version_encode (legacy_version sh) out;
          out = random_encode (sh_random sh) out;
          out = session_id_encode (sh_session_id sh) out;
          out = cipher_suite_encode (sh_cipher_suite sh) out;
          out = compression_encode (compression_method sh) out
      in if sh_extensions sh \<noteq> [] then vec_encode LenU16 server_extension_encode (sh_extensions sh) out
         else out)"

definition server_hello_read :: "server_hello_payload rd" where
  "server_hello_read r =
     outcome_bind (session_id_read r) (\<lambda>(sid, r).
     outcome_bind (cipher_suite_read r) (\<lambda>(suite, r).
     outcome_bind (compression_read r) (\<lambda>(compression, r).
     outcome_bind (if any_left r then vec_read LenU16 server_extension_read r else Ok ([], r)) (\<lambda>(exts, r).
     outcome_bind (expect_empty ''ServerHelloPayload'' r) (\<lambda>_.
     Ok (\<lparr>legacy_version = PV_Unknown 0, sh_random = ZERO_RANDOM, sh_session_id = sid, sh_cipher_suite = suite,
           compression_method = compression, sh_extensions = exts\<rparr>, r))))))"

definition server_extensions_wf :: "server_extension list \<Rightarrow> bool" where
  "server_extensions_wf = vec_wf LenU16 server_extension_encode (ext_wf se_ok se_body)"

definition server_hello_wf :: "server_hello_payload \<Rightarrow> bool" where
  "server_hello_wf sh \<longleftrightarrow>
     known protocol_version_get protocol_version_from (legacy_version sh)
     \<and> random_wf (sh_random sh) \<and> session_id_wf (sh_session_id sh)
     \<and> known compression_get compression_from (compression_method sh)
     \<and> server_extensions_wf (sh_extensions sh)"

interpretation server_extensions: codec "vec_encode LenU16 server_extension_encode" "vec_read LenU16 server_extension_read"
  server_extensions_wf
  unfolding server_extensions_wf_def server_extension_encode_def server_extension_read_def
  by (rule server_extension.vec_codec)

definition sh_fields :: "server_hello_payload \<Rightarrow> (session_id \<times> cipher_suite \<times> compression) \<times> server_extension list" where
  "sh_fields sh = ((sh_session_id sh, sh_cipher_suite sh, compression_method sh), sh_extensions sh)"

definition sh_fields_encode ::
    "(session_id \<times> cipher_suite \<times> compression) \<times> server_extension list \<Rightarrow> bytes \<Rightarrow> bytes" where
  "sh_fields_encode = (\<lambda>((sid, suite, comp), exts) out.
     opt_list_encode (vec_encode LenU16 server_extension_encode) exts
       (compression_encode comp (cipher_suite_encode suite (session_id_encode sid out))))"

definition sh_fields_read :: "((session_id \<times> cipher_suite \<times> compression) \<times> server_extension list) rd" where
  "sh_fields_read r =
     outcome_bind (session_id_read r) (\<lambda>(sid, r).
     outcome_bind (cipher_suite_read r) (\<lambda>(suite, r).
     outcome_bind (compression_read r) (\<lambda>(comp, r).
     outcome_bind (at_end ''ServerHelloPayload'' (opt_list (vec_read LenU16 server_extension_read)) r) (\<lambda>(exts, r).
     Ok (((sid, suite, comp), exts), r)))))"

interpretation sh_tail: whole_codec "opt_list_encode (vec_encode LenU16 server_extension_encode)"
  "at_end ''ServerHelloPayload'' (opt_list (vec_read LenU16 server_extension_read))" server_extensions_wf
proof
  let ?enc = "opt_list_encode (vec_encode LenU16 server_extension_encode)"
  show "?enc v out = out @ ?enc v []" for v out
    using server_extensions.enc_app [of v out] by (simp add: opt_list_encode_def)
  show "gives (\<lambda>v bs. server_extensions_wf v \<and> length (?enc v []) \<le> length bs)
    (at_end ''ServerHelloPayload'' (opt_list (vec_read LenU16 server_extension_read)))"
    by (intro at_end_gives opt_list_gives [OF server_extensions.codec_axioms]) (simp add: server_extensions_wf_def)
  show "reads True (at_end ''ServerHelloPayload'' (opt_list (vec_read LenU16 server_extension_read))) (?enc v []) v"
    if "server_extensions_wf v" for v
    using that by (intro at_end_reads opt_list_reads [OF server_extensions.codec_axioms])
qed

lemma sh_fields_codec:
  "whole_codec sh_fields_encode sh_fields_read
     (\<lambda>((sid, suite, comp), exts). (session_id_wf sid \<and> known (\<lambda>x. x) (\<lambda>x. x) suite
        \<and> known compression_get compression_from comp) \<and> server_extensions_wf exts)"
proof -
  have t: "codec (\<lambda>(sid, suite, comp) out. compression_encode comp (cipher_suite_encode suite (session_id_encode sid out)))
    (\<lambda>r. outcome_bind (session_id_read r) (\<lambda>(sid, r). outcome_bind (cipher_suite_read r) (\<lambda>(suite, r).
       outcome_bind (compression_read r) (\<lambda>(comp, r). Ok ((sid, suite, comp), r)))))
    (\<lambda>(sid, suite, comp). session_id_wf sid \<and> known (\<lambda>x. x) (\<lambda>x. x) suite \<and> known compression_get compression_from comp)"
    by (rule codec_triple [OF session_id.codec_axioms cipher_suite.codec_axioms compression.codec_axioms,
          of _ "\<lambda>(a, b, c). c" "\<lambda>(a, b, c). b" fst _ "\<lambda>a b c. (a, b, c)"]) (simp_all add: split_def)
  show ?thesis
    by (rule whole_codec_pair [OF t sh_tail.whole_codec_axioms, of _ snd fst _ Pair])
      (simp_all add: sh_fields_encode_def sh_fields_read_def split_def outcome_bind_assoc)
qed

lemma server_hello_read_eq:
  "server_hello_read =
     wrap (\<lambda>((sid, suite, comp), exts). \<lparr>legacy_version = PV_Unknown 0, sh_random = ZERO_RANDOM, sh_session_id = sid,
       sh_cipher_suite = suite, compression_method = comp, sh_extensions = exts\<rparr>) sh_fields_read"
  by (simp add: fun_eq_iff server_hello_read_def wrap_def sh_fields_read_def at_end_def opt_list_def outcome_bind_assoc
      split_def)

lemma server_hello_encode_eq:
  "server_hello_encode sh out =
     out @ protocol_version_encode (legacy_version sh) [] @ sh_random sh @ sh_fields_encode (sh_fields sh) []"
proof -
  have "server_hello_encode sh out = sh_fields_encode (sh_fields sh)
    (random_encode (sh_random sh) (protocol_version_encode (legacy_version sh) out))"
    by (simp add: server_hello_encode_def sh_fields_encode_def sh_fields_def opt_list_encode_def Let_def)
  also have "\<dots> = random_encode (sh_random sh) (protocol_version_encode (legacy_version sh) out)
    @ sh_fields_encode (sh_fields sh) []"
    by (rule whole_codec.enc_app [OF sh_fields_codec])
  finally show ?thesis by (simp add: random_encode_def protocol_version.enc_app [of _ out])
qed

lemma server_hello_reads:
  assumes "server_hello_wf sh"
  shows "reads True server_hello_read (sh_fields_encode (sh_fields sh) [])
    (sh\<lparr>legacy_version := PV_Unknown 0, sh_random := ZERO_RANDOM\<rparr>)"
proof -
  have "reads True sh_fields_read (sh_fields_encode (sh_fields sh) []) (sh_fields sh)"
    using assms by (intro whole_codec.rd_all [OF sh_fields_codec]) (simp add: sh_fields_def server_hello_wf_def known_def)
  then show ?thesis unfolding server_hello_read_eq by (rule reads_wrap_eq) (simp add: sh_fields_def)
qed

lemma server_hello_gives:
  "gives (\<lambda>sh bs. known protocol_version_get protocol_version_from v \<and> random_wf rnd
        \<longrightarrow> server_hello_wf (sh\<lparr>legacy_version := v, sh_random := rnd\<rparr>)
      \<and> length (sh_fields_encode (sh_fields sh) []) \<le> length bs) server_hello_read"
  unfolding server_hello_read_eq
  by (rule gives_wrap [OF whole_codec.rd_wf [OF sh_fields_codec]]) (auto simp: server_hello_wf_def sh_fields_def)

section \<open>Looking up server extensions\<close>

definition se_has_duplicate_extension :: "server_extension list \<Rightarrow> bool" where
  "se_has_duplicate_extension exts = repeated (\<lambda>e. extension_type_get (se_get_type e)) {} exts"

definition se_find_extension :: "server_extension list \<Rightarrow> extension_type \<Rightarrow> server_extension option" where
  "se_find_extension exts ext = List.find (\<lambda>x. se_get_type x = ext) exts"

definition as_single_slice :: "protocol_name list \<Rightarrow> bytes option" where
  "as_single_slice ps = (if length ps = 1 then Some (ps ! 0) else None)"

definition get_alpn_protocol :: "server_extension list \<Rightarrow> bytes option" where
  "get_alpn_protocol exts =
     (case se_find_extension exts EXT_ALProtocolNegotiation of
        Some (SE_Protocols protos) \<Rightarrow> as_single_slice protos
      | _ \<Rightarrow> None)"

definition se_get_quic_params_extension :: "server_extension list \<Rightarrow> bytes option" where
  "se_get_quic_params_extension exts =
     (case (case se_find_extension exts EXT_TransportParameters of
              Some e \<Rightarrow> Some e
            | None \<Rightarrow> se_find_extension exts EXT_TransportParametersDraft) of
        Some (SE_TransportParameters bs) \<Rightarrow> Some bs
      | Some (SE_TransportParametersDraft bs) \<Rightarrow> Some bs
      | _ \<Rightarrow> None)"

definition se_early_data_extension_offered :: "server_extension list \<Rightarrow> bool" where
  "se_early_data_extension_offered exts \<longleftrightarrow> se_find_extension exts EXT_EarlyData \<noteq> None"

definition get_key_share :: "server_hello_payload \<Rightarrow> key_share_entry option" where
  "get_key_share sh =
     (case se_find_extension (sh_extensions sh) EXT_KeyShare of Some (SE_KeyShare share) \<Rightarrow> Some share | _ \<Rightarrow> None)"

definition get_psk_index :: "server_hello_payload \<Rightarrow> u16 option" where
  "get_psk_index sh =
     (case se_find_extension (sh_extensions sh) EXT_PreSharedKey of Some (SE_PresharedKey index) \<Rightarrow> Some index | _ \<Rightarrow> None)"

definition sh_get_ecpoints_extension :: "server_hello_payload \<Rightarrow> ec_point_format list option" where
  "sh_get_ecpoints_extension sh =
     (case se_find_extension (sh_extensions sh) EXT_ECPointFormats of Some (SE_EcPointFormats fmts) \<Rightarrow> Some fmts | _ \<Rightarrow> None)"

definition ems_support_acked :: "server_hello_payload \<Rightarrow> bool" where
  "ems_support_acked sh \<longleftrightarrow> se_find_extension (sh_extensions sh) EXT_ExtendedMasterSecret \<noteq> None"

definition sh_get_supported_versions :: "server_hello_payload \<Rightarrow> protocol_version option" where
  "sh_get_supported_versions sh =
     (case se_find_extension (sh_extensions sh) EXT_SupportedVersions of Some (SE_SupportedVersions vers) \<Rightarrow> Some vers | _ \<Rightarrow> None)"

section \<open>Certificates\<close>

text \<open>\<open>ListLength::U24 { max: 0x1_0000 }\<close>: the length that is read is capped.\<close>

abbreviation "CERT_LIST \<equiv> LenU24 0x10000"

interpretation certificate_chain: codec "vec_encode CERT_LIST certificate_der_encode" "vec_read CERT_LIST certificate_der_read"
  "vec_wf CERT_LIST certificate_der_encode (sized (2 ^ 24))"
  by (rule certificate_der.vec_codec)

record certificate_entry =
  cert :: bytes
  cert_exts :: "certificate_extension list"

definition certificate_entry_encode :: "certificate_entry \<Rightarrow> bytes \<Rightarrow> bytes" where
  "certificate_entry_encode e out =
     vec_encode LenU16 certificate_extension_encode (cert_exts e) (certificate_der_encode (cert e) out)"

definition certificate_entry_read :: "certificate_entry rd" where
  "certificate_entry_read r =
     outcome_bind (certificate_der_read r) (\<lambda>(c, r).
     outcome_bind (vec_read LenU16 certificate_extension_read r) (\<lambda>(exts, r).
     Ok (\<lparr>cert = c, cert_exts = exts\<rparr>, r)))"

definition certificate_entry_new :: "bytes \<Rightarrow> certificate_entry" where
  "certificate_entry_new c = \<lparr>cert = c, cert_exts = []\<rparr>"

definition entry_has_duplicate_extension :: "certificate_entry \<Rightarrow> bool" where
  "entry_has_duplicate_extension e = repeated (\<lambda>x. extension_type_get (certe_get_type x)) {} (cert_exts e)"

definition entry_has_unknown_extension :: "certificate_entry \<Rightarrow> bool" where
  "entry_has_unknown_extension e = list_ex (\<lambda>x. certe_get_type x \<noteq> EXT_StatusRequest) (cert_exts e)"

definition get_ocsp_response :: "certificate_entry \<Rightarrow> bytes option" where
  "get_ocsp_response e =
     (case List.find (\<lambda>x. certe_get_type x = EXT_StatusRequest) (cert_exts e) of
        Some x \<Rightarrow> get_cert_status x
      | None \<Rightarrow> None)"

definition certificate_entry_wf :: "certificate_entry \<Rightarrow> bool" where
  "certificate_entry_wf e \<longleftrightarrow>
     sized (2 ^ 24) (cert e) \<and> vec_wf LenU16 certificate_extension_encode (ext_wf certe_ok certe_body) (cert_exts e)"

interpretation certificate_entry: codec certificate_entry_encode certificate_entry_read certificate_entry_wf
  by (rule codec_pair [OF certificate_der.codec_axioms certificate_extension.vec_codec [of LenU16], of _ cert_exts cert _
        "\<lambda>c x. \<lparr>cert = c, cert_exts = x\<rparr>"])
    (simp_all add: certificate_entry_encode_def certificate_entry_read_def certificate_entry_wf_def
      certificate_extension_encode_def certificate_extension_read_def)

record certificate_payload_tls13 =
  cert_context :: bytes
  cert_entries :: "certificate_entry list"

definition certificate_tls13_encode :: "certificate_payload_tls13 \<Rightarrow> bytes \<Rightarrow> bytes" where
  "certificate_tls13_encode p out =
     vec_encode CERT_LIST certificate_entry_encode (cert_entries p) (payload_u8_encode (cert_context p) out)"

definition certificate_tls13_read :: "certificate_payload_tls13 rd" where
  "certificate_tls13_read r =
     outcome_bind (payload_u8_read r) (\<lambda>(c, r).
     outcome_bind (vec_read CERT_LIST certificate_entry_read r) (\<lambda>(es, r).
     Ok (\<lparr>cert_context = c, cert_entries = es\<rparr>, r)))"

definition certificate_tls13_new :: "certificate_entry list \<Rightarrow> certificate_payload_tls13" where
  "certificate_tls13_new es = \<lparr>cert_context = [], cert_entries = es\<rparr>"

definition any_entry_has_duplicate_extension :: "certificate_payload_tls13 \<Rightarrow> bool" where
  "any_entry_has_duplicate_extension p = list_ex entry_has_duplicate_extension (cert_entries p)"

definition any_entry_has_unknown_extension :: "certificate_payload_tls13 \<Rightarrow> bool" where
  "any_entry_has_unknown_extension p = list_ex entry_has_unknown_extension (cert_entries p)"

definition any_entry_has_extension :: "certificate_payload_tls13 \<Rightarrow> bool" where
  "any_entry_has_extension p = list_ex (\<lambda>e. cert_exts e \<noteq> []) (cert_entries p)"

definition get_end_entity_ocsp :: "certificate_payload_tls13 \<Rightarrow> bytes" where
  "get_end_entity_ocsp p =
     (case cert_entries p of
        [] \<Rightarrow> []
      | e # _ \<Rightarrow> (case get_ocsp_response e of Some r \<Rightarrow> r | None \<Rightarrow> []))"

definition convert :: "certificate_payload_tls13 \<Rightarrow> bytes list" where
  "convert p = map cert (cert_entries p)"

definition certificate_tls13_wf :: "certificate_payload_tls13 \<Rightarrow> bool" where
  "certificate_tls13_wf p \<longleftrightarrow>
     sized 256 (cert_context p) \<and> vec_wf CERT_LIST certificate_entry_encode certificate_entry_wf (cert_entries p)"

interpretation certificate_tls13: codec certificate_tls13_encode certificate_tls13_read certificate_tls13_wf
  by (rule codec_pair [OF payload_u8.codec_axioms certificate_entry.vec_codec [of CERT_LIST], of _ cert_entries cert_context _
        "\<lambda>c x. \<lparr>cert_context = c, cert_entries = x\<rparr>"])
    (simp_all add: certificate_tls13_encode_def certificate_tls13_read_def certificate_tls13_wf_def)

section \<open>Key exchange of TLS 1.2\<close>

abbreviation "ec_curve_type_encode \<equiv> enum8_encode ec_curve_type_get"
abbreviation "ec_curve_type_read \<equiv> enum8_read ''ECCurveType'' ec_curve_type_from"

record digitally_signed_struct =
  dss_scheme :: signature_scheme
  dss_sig :: bytes

definition dss_encode :: "digitally_signed_struct \<Rightarrow> bytes \<Rightarrow> bytes" where
  "dss_encode d out = payload_u16_encode (dss_sig d) (signature_scheme_encode (dss_scheme d) out)"

definition dss_read :: "digitally_signed_struct rd" where
  "dss_read r =
     outcome_bind (signature_scheme_read r) (\<lambda>(s, r).
     outcome_bind (payload_u16_read r) (\<lambda>(p, r).
     Ok (\<lparr>dss_scheme = s, dss_sig = p\<rparr>, r)))"

definition dss_wf :: "digitally_signed_struct \<Rightarrow> bool" where
  "dss_wf d \<longleftrightarrow> known signature_scheme_get signature_scheme_from (dss_scheme d) \<and> sized 65536 (dss_sig d)"

interpretation dss: codec dss_encode dss_read dss_wf
  by (rule codec_pair [OF signature_scheme.codec_axioms payload_u16.codec_axioms, of _ dss_sig dss_scheme _
        "\<lambda>s p. \<lparr>dss_scheme = s, dss_sig = p\<rparr>"])
    (simp_all add: dss_encode_def dss_read_def dss_wf_def)

record ec_parameters =
  curve_type :: ec_curve_type
  ec_named_group :: named_group

definition ec_parameters_encode :: "ec_parameters \<Rightarrow> bytes \<Rightarrow> bytes" where
  "ec_parameters_encode e out = named_group_encode (ec_named_group e) (ec_curve_type_encode (curve_type e) out)"

definition ec_parameters_read :: "ec_parameters rd" where
  "ec_parameters_read r =
     outcome_bind (ec_curve_type_read r) (\<lambda>(ct, r).
     if ct \<noteq> ECT_NamedCurve then Err UnsupportedCurveType
     else outcome_bind (named_group_read r) (\<lambda>(grp, r).
     Ok (\<lparr>curve_type = ct, ec_named_group = grp\<rparr>, r)))"

definition ec_parameters_wf :: "ec_parameters \<Rightarrow> bool" where
  "ec_parameters_wf e \<longleftrightarrow>
     curve_type e = ECT_NamedCurve \<and> known named_group_get named_group_from (ec_named_group e)"

interpretation ec_parameters: codec ec_parameters_encode ec_parameters_read ec_parameters_wf
  by (rule codec_pair [OF codec_require [OF ec_curve_type.codec_axioms, of "\<lambda>c. c = ECT_NamedCurve" UnsupportedCurveType]
        named_group.codec_axioms, of _ ec_named_group curve_type _ "\<lambda>c g. \<lparr>curve_type = c, ec_named_group = g\<rparr>"])
    (auto simp: ec_parameters_encode_def ec_parameters_read_def ec_parameters_wf_def require_def if_neq_swap known_def
      ec_curve_type_from_def split_def outcome_bind_assoc if_distrib [of "\<lambda>m. outcome_bind m _"] cong: if_cong)

record server_ecdh_params =
  curve_params :: ec_parameters
  sep_public :: bytes

definition server_ecdh_params_new :: "named_group \<Rightarrow> bytes \<Rightarrow> server_ecdh_params" where
  "server_ecdh_params_new grp pub_key =
     \<lparr>curve_params = \<lparr>curve_type = ECT_NamedCurve, ec_named_group = grp\<rparr>, sep_public = pub_key\<rparr>"

definition server_ecdh_params_encode :: "server_ecdh_params \<Rightarrow> bytes \<Rightarrow> bytes" where
  "server_ecdh_params_encode p out = payload_u8_encode (sep_public p) (ec_parameters_encode (curve_params p) out)"

definition server_ecdh_params_read :: "server_ecdh_params rd" where
  "server_ecdh_params_read r =
     outcome_bind (ec_parameters_read r) (\<lambda>(cp, r).
     outcome_bind (payload_u8_read r) (\<lambda>(pb, r).
     Ok (\<lparr>curve_params = cp, sep_public = pb\<rparr>, r)))"

definition server_ecdh_params_wf :: "server_ecdh_params \<Rightarrow> bool" where
  "server_ecdh_params_wf p \<longleftrightarrow> ec_parameters_wf (curve_params p) \<and> sized 256 (sep_public p)"

interpretation server_ecdh_params: codec server_ecdh_params_encode server_ecdh_params_read server_ecdh_params_wf
  by (rule codec_pair [OF ec_parameters.codec_axioms payload_u8.codec_axioms, of _ sep_public curve_params _
        "\<lambda>c p. \<lparr>curve_params = c, sep_public = p\<rparr>"])
    (simp_all add: server_ecdh_params_encode_def server_ecdh_params_read_def server_ecdh_params_wf_def)

record ecdhe_server_key_exchange =
  ske_params :: server_ecdh_params
  ske_dss :: digitally_signed_struct

definition ecdhe_ske_encode :: "ecdhe_server_key_exchange \<Rightarrow> bytes \<Rightarrow> bytes" where
  "ecdhe_ske_encode x out = dss_encode (ske_dss x) (server_ecdh_params_encode (ske_params x) out)"

definition ecdhe_ske_read :: "ecdhe_server_key_exchange rd" where
  "ecdhe_ske_read r =
     outcome_bind (server_ecdh_params_read r) (\<lambda>(ps, r).
     outcome_bind (dss_read r) (\<lambda>(d, r).
     Ok (\<lparr>ske_params = ps, ske_dss = d\<rparr>, r)))"

definition ecdhe_ske_wf :: "ecdhe_server_key_exchange \<Rightarrow> bool" where
  "ecdhe_ske_wf x \<longleftrightarrow> server_ecdh_params_wf (ske_params x) \<and> dss_wf (ske_dss x)"

interpretation ecdhe_ske: codec ecdhe_ske_encode ecdhe_ske_read ecdhe_ske_wf
  by (rule codec_pair [OF server_ecdh_params.codec_axioms dss.codec_axioms, of _ ske_dss ske_params _
        "\<lambda>p d. \<lparr>ske_params = p, ske_dss = d\<rparr>"])
    (simp_all add: ecdhe_ske_encode_def ecdhe_ske_read_def ecdhe_ske_wf_def)

datatype server_key_exchange_payload =
    SKE_Ecdhe ecdhe_server_key_exchange
  | SKE_Unknown bytes

primrec server_key_exchange_encode :: "server_key_exchange_payload \<Rightarrow> bytes \<Rightarrow> bytes" where
  "server_key_exchange_encode (SKE_Ecdhe x) out = ecdhe_ske_encode x out"
| "server_key_exchange_encode (SKE_Unknown x) out = payload_encode x out"

definition server_key_exchange_read :: "server_key_exchange_payload rd" where
  "server_key_exchange_read = wrap SKE_Unknown payload_read"

text \<open>
  The reader is inspected after the decoder whether it failed or not: with an error the answer is
  \<open>None\<close> either way.
\<close>

definition unwrap_given_kxa ::
    "server_key_exchange_payload \<Rightarrow> key_exchange_algorithm \<Rightarrow> ecdhe_server_key_exchange option" where
  "unwrap_given_kxa p kxa =
     (case p of
        SKE_Unknown unk \<Rightarrow>
          (case kxa of ECDHE \<Rightarrow>
            (case ecdhe_ske_read (reader_init unk) of
               Ok (x, rd) \<Rightarrow> if \<not> any_left rd then Some x else None
             | _ \<Rightarrow> None))
      | SKE_Ecdhe _ \<Rightarrow> None)"

text \<open>A key exchange survives the wire, where it is opaque until the algorithm is known.\<close>

lemma unwrap_given_kxa_roundtrip:
  assumes "ecdhe_ske_wf x"
  shows "unwrap_given_kxa (SKE_Unknown (server_key_exchange_encode (SKE_Ecdhe x) [])) ECDHE = Some x"
  using readsD [OF ecdhe_ske.rd_all [OF assms], of "reader_init (ecdhe_ske_encode x [])" "[]"]
  by (auto simp: unwrap_given_kxa_def any_left_rem)

section \<open>Certificate requests\<close>

abbreviation "client_certificate_type_encode \<equiv> enum8_encode client_certificate_type_get"
abbreviation "client_certificate_type_read \<equiv> enum8_read ''ClientCertificateType'' client_certificate_type_from"

record certificate_request_payload =
  certtypes :: "client_certificate_type list"
  sigschemes :: "signature_scheme list"
  canames :: "distinguished_name list"

definition certificate_request_encode :: "certificate_request_payload \<Rightarrow> bytes \<Rightarrow> bytes" where
  "certificate_request_encode p out =
     vec_encode LenU16 payload_u16_encode (canames p)
       (vec_encode LenU16 signature_scheme_encode (sigschemes p)
         (vec_encode LenU8 client_certificate_type_encode (certtypes p) out))"

definition certificate_request_read :: "certificate_request_payload rd" where
  "certificate_request_read r =
     outcome_bind (vec_read LenU8 client_certificate_type_read r) (\<lambda>(ts, r).
     outcome_bind (vec_read LenU16 signature_scheme_read r) (\<lambda>(ss, r).
     outcome_bind (vec_read LenU16 payload_u16_read r) (\<lambda>(ns, r).
     if ss = [] then Err NoSignatureSchemes
     else Ok (\<lparr>certtypes = ts, sigschemes = ss, canames = ns\<rparr>, r))))"

definition certificate_request_wf :: "certificate_request_payload \<Rightarrow> bool" where
  "certificate_request_wf p \<longleftrightarrow>
     (vec_wf LenU8 client_certificate_type_encode (known client_certificate_type_get client_certificate_type_from) (certtypes p)
      \<and> vec_wf LenU16 signature_scheme_encode (known signature_scheme_get signature_scheme_from) (sigschemes p)
      \<and> vec_wf LenU16 payload_u16_encode (sized 65536) (canames p))
     \<and> sigschemes p \<noteq> []"

interpretation certificate_request: codec certificate_request_encode certificate_request_read certificate_request_wf
proof -
  let ?rd = "\<lambda>r. outcome_bind (vec_read LenU8 client_certificate_type_read r) (\<lambda>(ts, r).
     outcome_bind (vec_read LenU16 signature_scheme_read r) (\<lambda>(ss, r). outcome_bind (vec_read LenU16 payload_u16_read r) (\<lambda>(ns, r).
     Ok (\<lparr>certtypes = ts, sigschemes = ss, canames = ns\<rparr>, r))))"
  have c: "codec certificate_request_encode ?rd (\<lambda>p.
      vec_wf LenU8 client_certificate_type_encode (known client_certificate_type_get client_certificate_type_from) (certtypes p)
      \<and> vec_wf LenU16 signature_scheme_encode (known signature_scheme_get signature_scheme_from) (sigschemes p)
      \<and> vec_wf LenU16 payload_u16_encode (sized 65536) (canames p))"
    by (rule codec_triple [OF client_certificate_type.vec_codec [of LenU8] signature_schemes.codec_axioms [of LenU16]
          distinguished_names.codec_axioms, of _ canames sigschemes certtypes _
          "\<lambda>t s n. \<lparr>certtypes = t, sigschemes = s, canames = n\<rparr>"])
      (simp_all add: certificate_request_encode_def)
  have "certificate_request_read = require (\<lambda>p. sigschemes p \<noteq> []) NoSignatureSchemes ?rd"
    by (simp add: fun_eq_iff certificate_request_read_def require_def outcome_bind_assoc split_def if_neq_swap
        cong: if_cong)
  with codec_require [OF c, of "\<lambda>p. sigschemes p \<noteq> []" NoSignatureSchemes]
  show "codec certificate_request_encode certificate_request_read certificate_request_wf"
    by (simp add: certificate_request_wf_def [abs_def])
qed

record certificate_request_tls13 =
  cr_context :: bytes
  cr_extensions :: "cert_req_extension list"

definition certificate_request_tls13_encode :: "certificate_request_tls13 \<Rightarrow> bytes \<Rightarrow> bytes" where
  "certificate_request_tls13_encode p out =
     vec_encode LenU16 cert_req_extension_encode (cr_extensions p) (payload_u8_encode (cr_context p) out)"

definition certificate_request_tls13_read :: "certificate_request_tls13 rd" where
  "certificate_request_tls13_read r =
     outcome_bind (payload_u8_read r) (\<lambda>(c, r).
     outcome_bind (vec_read LenU16 cert_req_extension_read r) (\<lambda>(es, r).
     Ok (\<lparr>cr_context = c, cr_extensions = es\<rparr>, r)))"

definition cr_find_extension :: "certificate_request_tls13 \<Rightarrow> extension_type \<Rightarrow> cert_req_extension option" where
  "cr_find_extension p ext = List.find (\<lambda>x. cre_get_type x = ext) (cr_extensions p)"

definition cr_get_sigalgs_extension :: "certificate_request_tls13 \<Rightarrow> signature_scheme list option" where
  "cr_get_sigalgs_extension p =
     (case cr_find_extension p EXT_SignatureAlgorithms of Some (CRE_SignatureAlgorithms sa) \<Rightarrow> Some sa | _ \<Rightarrow> None)"

definition get_authorities_extension :: "certificate_request_tls13 \<Rightarrow> distinguished_name list option" where
  "get_authorities_extension p =
     (case cr_find_extension p EXT_CertificateAuthorities of Some (CRE_AuthorityNames an) \<Rightarrow> Some an | _ \<Rightarrow> None)"

definition certificate_request_tls13_wf :: "certificate_request_tls13 \<Rightarrow> bool" where
  "certificate_request_tls13_wf p \<longleftrightarrow>
     sized 256 (cr_context p) \<and> vec_wf LenU16 cert_req_extension_encode (ext_wf cre_ok cre_body) (cr_extensions p)"

interpretation certificate_request_tls13:
  codec certificate_request_tls13_encode certificate_request_tls13_read certificate_request_tls13_wf
  by (rule codec_pair [OF payload_u8.codec_axioms cert_req_extension.vec_codec [of LenU16], of _ cr_extensions cr_context _
        "\<lambda>c x. \<lparr>cr_context = c, cr_extensions = x\<rparr>"])
    (simp_all add: certificate_request_tls13_encode_def certificate_request_tls13_read_def certificate_request_tls13_wf_def
      cert_req_extension_encode_def cert_req_extension_read_def)

section \<open>Session tickets\<close>

record new_session_ticket_payload =
  lifetime_hint :: u32
  nst_ticket :: bytes

definition new_session_ticket_encode :: "new_session_ticket_payload \<Rightarrow> bytes \<Rightarrow> bytes" where
  "new_session_ticket_encode p out = payload_u16_encode (nst_ticket p) (u32_encode (lifetime_hint p) out)"

definition new_session_ticket_read :: "new_session_ticket_payload rd" where
  "new_session_ticket_read r =
     outcome_bind (u32_read r) (\<lambda>(l, r).
     outcome_bind (payload_u16_read r) (\<lambda>(t, r).
     Ok (\<lparr>lifetime_hint = l, nst_ticket = t\<rparr>, r)))"

definition new_session_ticket_wf :: "new_session_ticket_payload \<Rightarrow> bool" where
  "new_session_ticket_wf p \<longleftrightarrow> sized 65536 (nst_ticket p)"

interpretation new_session_ticket: codec new_session_ticket_encode new_session_ticket_read new_session_ticket_wf
  by (rule codec_pair [OF u32.codec_axioms payload_u16.codec_axioms, of _ nst_ticket lifetime_hint _
        "\<lambda>l t. \<lparr>lifetime_hint = l, nst_ticket = t\<rparr>"])
    (simp_all add: new_session_ticket_encode_def new_session_ticket_read_def new_session_ticket_wf_def)

record new_session_ticket_tls13 =
  t13_lifetime :: u32
  t13_age_add :: u32
  t13_nonce :: bytes
  t13_ticket :: bytes
  t13_exts :: "new_session_ticket_extension list"

definition new_session_ticket_tls13_new :: "u32 \<Rightarrow> u32 \<Rightarrow> bytes \<Rightarrow> bytes \<Rightarrow> new_session_ticket_tls13" where
  "new_session_ticket_tls13_new lifetime age_add nonce ticket =
     \<lparr>t13_lifetime = lifetime, t13_age_add = age_add, t13_nonce = nonce, t13_ticket = ticket, t13_exts = []\<rparr>"

definition t13_has_duplicate_extension :: "new_session_ticket_tls13 \<Rightarrow> bool" where
  "t13_has_duplicate_extension t = repeated (\<lambda>e. extension_type_get (nste_get_type e)) {} (t13_exts t)"

definition t13_find_extension :: "new_session_ticket_tls13 \<Rightarrow> extension_type \<Rightarrow> new_session_ticket_extension option" where
  "t13_find_extension t ext = List.find (\<lambda>x. nste_get_type x = ext) (t13_exts t)"

definition get_max_early_data_size :: "new_session_ticket_tls13 \<Rightarrow> u32 option" where
  "get_max_early_data_size t =
     (case t13_find_extension t EXT_EarlyData of Some (NSTE_EarlyData sz) \<Rightarrow> Some sz | _ \<Rightarrow> None)"

definition new_session_ticket_tls13_encode :: "new_session_ticket_tls13 \<Rightarrow> bytes \<Rightarrow> bytes" where
  "new_session_ticket_tls13_encode t out =
     (let out = u32_encode (t13_lifetime t) out;
          out = u32_encode (t13_age_add t) out;
          out = payload_u8_encode (t13_nonce t) out;
          out = payload_u16_encode (t13_ticket t) out
      in vec_encode LenU16 new_session_ticket_extension_encode (t13_exts t) out)"

definition new_session_ticket_tls13_read :: "new_session_ticket_tls13 rd" where
  "new_session_ticket_tls13_read r =
     outcome_bind (u32_read r) (\<lambda>(l, r).
     outcome_bind (u32_read r) (\<lambda>(a, r).
     outcome_bind (payload_u8_read r) (\<lambda>(n, r).
     outcome_bind (payload_u16_read r) (\<lambda>(t, r).
     outcome_bind (vec_read LenU16 new_session_ticket_extension_read r) (\<lambda>(es, r).
     Ok (\<lparr>t13_lifetime = l, t13_age_add = a, t13_nonce = n, t13_ticket = t, t13_exts = es\<rparr>, r))))))"

definition new_session_ticket_tls13_wf :: "new_session_ticket_tls13 \<Rightarrow> bool" where
  "new_session_ticket_tls13_wf t \<longleftrightarrow>
     sized 256 (t13_nonce t) \<and> sized 65536 (t13_ticket t)
     \<and> vec_wf LenU16 new_session_ticket_extension_encode (ext_wf nste_ok nste_body) (t13_exts t)"

lemma codec_sub:
  assumes "codec e r k" "\<And>x. f (mk x) = x" "\<And>v out. enc v out = e (f v) out" "rd = wrap mk r"
    and "\<And>v. ok v \<longleftrightarrow> k (f v) \<and> mk (f v) = v"
  shows "codec enc rd ok"
proof (rule codecI)
  note app = whole_codec.enc_app [OF codec.axioms(1) [OF assms(1)]] and rd = codec.rd_enc [OF assms(1)]
    and wf = whole_codec.rd_wf [OF codec.axioms(1) [OF assms(1)]]
  show "enc v out = out @ enc v []" for v out unfolding assms(3) by (rule app)
  show "reads w rd (enc v []) v" if "ok v" for v w
    unfolding assms(3,4) by (rule reads_wrap_eq [OF rd]) (use that assms(5) in auto)
  show "gives (\<lambda>v bs. ok v \<and> length (enc v []) \<le> length bs) rd"
    unfolding assms(4) by (rule gives_wrap [OF wf]) (simp add: assms(2,3,5))
  show "enc v [] \<noteq> []" if "ok v" for v
    unfolding assms(3) by (rule codec.enc_nonempty [OF assms(1)]) (use that assms(5) in auto)
qed

lemma codec_iso:
  assumes "codec e r k" "\<And>v. mk (f v) = v" "\<And>x. f (mk x) = x"
    and "\<And>v out. enc v out = e (f v) out" "rd = wrap mk r" "\<And>v. ok v \<longleftrightarrow> k (f v)"
  shows "codec enc rd ok"
  by (rule codec_sub [OF assms(1,3,4,5)]) (simp add: assms)

interpretation new_session_ticket_tls13:
  codec new_session_ticket_tls13_encode new_session_ticket_tls13_read new_session_ticket_tls13_wf
  by (rule codec_iso [OF codec_quint [OF u32.codec_axioms u32.codec_axioms payload_u8.codec_axioms payload_u16.codec_axioms
          new_session_ticket_extension.vec_codec [of LenU16]],
        of "\<lambda>(l, a, n, t, es). \<lparr>t13_lifetime = l, t13_age_add = a, t13_nonce = n, t13_ticket = t, t13_exts = es\<rparr>"
          "\<lambda>v. (t13_lifetime v, t13_age_add v, t13_nonce v, t13_ticket v, t13_exts v)"])
    (auto simp: new_session_ticket_tls13_encode_def new_session_ticket_tls13_read_def new_session_ticket_tls13_wf_def
      new_session_ticket_extension_encode_def new_session_ticket_extension_read_def fun_eq_iff wrap_def split_def outcome_bind_assoc)

end
