(* ===== verification/Rustls_Handshake_Message.thy ===== *)
theory Rustls_Handshake_Message
  imports Rustls_Handshake
begin

text \<open>
  \<open>HandshakePayload\<close> and \<open>HandshakeMessagePayload\<close> of
  \<open>orcax/rustls-fork/rustls/src/msgs/handshake.rs\<close>: the type byte, the 24-bit length and the body
  that the type and the protocol version select. The decoder is total, returns only well-formed
  messages and inverts the encoder; the hello that is signed for a pre-shared key is the encoding
  without its binders.
\<close>

section \<open>Messages\<close>

abbreviation "handshake_type_encode \<equiv> enum8_encode handshake_type_get"
abbreviation "handshake_type_read \<equiv> enum8_read ''HandshakeType'' handshake_type_from"
abbreviation "key_update_request_encode \<equiv> enum8_encode key_update_request_get"
abbreviation "key_update_request_read \<equiv> enum8_read ''KeyUpdateRequest'' key_update_request_from"
abbreviation "known_version \<equiv> known protocol_version_get protocol_version_from"

datatype (plugins only: code size) handshake_payload =
    HP_HelloRequest
  | HP_ClientHello client_hello_payload
  | HP_ServerHello server_hello_payload
  | HP_HelloRetryRequest hello_retry_request
  | HP_Certificate "bytes list"
  | HP_CertificateTls13 certificate_payload_tls13
  | HP_ServerKeyExchange server_key_exchange_payload
  | HP_CertificateRequest certificate_request_payload
  | HP_CertificateRequestTls13 certificate_request_tls13
  | HP_CertificateVerify digitally_signed_struct
  | HP_ServerHelloDone
  | HP_EndOfEarlyData
  | HP_ClientKeyExchange bytes
  | HP_NewSessionTicket new_session_ticket_payload
  | HP_NewSessionTicketTls13 new_session_ticket_tls13
  | HP_EncryptedExtensions "server_extension list"
  | HP_KeyUpdate key_update_request
  | HP_Finished bytes
  | HP_CertificateStatus bytes
  | HP_MessageHash bytes
  | HP_Unknown bytes

primrec handshake_payload_encode :: "handshake_payload \<Rightarrow> bytes \<Rightarrow> bytes" where
  "handshake_payload_encode HP_HelloRequest out = out"
| "handshake_payload_encode HP_ServerHelloDone out = out"
| "handshake_payload_encode HP_EndOfEarlyData out = out"
| "handshake_payload_encode (HP_ClientHello x) out = client_hello_encode x out"
| "handshake_payload_encode (HP_ServerHello x) out = server_hello_encode x out"
| "handshake_payload_encode (HP_HelloRetryRequest x) out = hello_retry_request_encode x out"
| "handshake_payload_encode (HP_Certificate x) out = vec_encode CERT_LIST certificate_der_encode x out"
| "handshake_payload_encode (HP_CertificateTls13 x) out = certificate_tls13_encode x out"
| "handshake_payload_encode (HP_ServerKeyExchange x) out = server_key_exchange_encode x out"
| "handshake_payload_encode (HP_ClientKeyExchange x) out = payload_encode x out"
| "handshake_payload_encode (HP_CertificateRequest x) out = certificate_request_encode x out"
| "handshake_payload_encode (HP_CertificateRequestTls13 x) out = certificate_request_tls13_encode x out"
| "handshake_payload_encode (HP_CertificateVerify x) out = dss_encode x out"
| "handshake_payload_encode (HP_NewSessionTicket x) out = new_session_ticket_encode x out"
| "handshake_payload_encode (HP_NewSessionTicketTls13 x) out = new_session_ticket_tls13_encode x out"
| "handshake_payload_encode (HP_EncryptedExtensions x) out = vec_encode LenU16 server_extension_encode x out"
| "handshake_payload_encode (HP_KeyUpdate x) out = key_update_request_encode x out"
| "handshake_payload_encode (HP_Finished x) out = payload_encode x out"
| "handshake_payload_encode (HP_CertificateStatus x) out = certificate_status_encode x out"
| "handshake_payload_encode (HP_MessageHash x) out = payload_encode x out"
| "handshake_payload_encode (HP_Unknown x) out = payload_encode x out"

record handshake_message_payload =
  hmp_typ :: handshake_type
  hmp_payload :: handshake_payload

definition wire_type :: "handshake_type \<Rightarrow> handshake_type" where
  "wire_type t = (case t of HT_HelloRetryRequest \<Rightarrow> HT_ServerHello | _ \<Rightarrow> t)"

text \<open>\<open>ListLength::U24 { max: usize::MAX }\<close>.\<close>

abbreviation "HS_LEN \<equiv> LenU24 0xffffffffffffffff"

definition handshake_message_encode :: "handshake_message_payload \<Rightarrow> bytes \<Rightarrow> bytes" where
  "handshake_message_encode m out =
     nested HS_LEN (handshake_payload_encode (hmp_payload m)) (handshake_type_encode (wire_type (hmp_typ m)) out)"

text \<open>The branch for a server hello: the random tells a hello retry request apart.\<close>

definition server_hello_branch :: "handshake_message_payload rd" where
  "server_hello_branch r =
     outcome_bind (protocol_version_read r) (\<lambda>(version, r).
     outcome_bind (random_read r) (\<lambda>(random, r).
     if random = HELLO_RETRY_REQUEST_RANDOM then
       wrap (\<lambda>hrr. \<lparr>hmp_typ = HT_HelloRetryRequest,
                   hmp_payload = HP_HelloRetryRequest (hrr\<lparr>hrr_legacy_version := version\<rparr>)\<rparr>)
         hello_retry_request_read r
     else
       wrap (\<lambda>shp. \<lparr>hmp_typ = HT_ServerHello,
                   hmp_payload = HP_ServerHello (shp\<lparr>legacy_version := version, sh_random := random\<rparr>)\<rparr>)
         server_hello_read r))"

abbreviation keep :: "handshake_type \<Rightarrow> ('a \<Rightarrow> handshake_payload) \<Rightarrow> 'a rd \<Rightarrow> handshake_message_payload rd" where
  "keep typ c rd \<equiv> wrap (\<lambda>p. \<lparr>hmp_typ = typ, hmp_payload = c p\<rparr>) rd"

definition hs_read_body :: "(bytes \<Rightarrow> bool) \<Rightarrow> protocol_version \<Rightarrow> handshake_type \<Rightarrow> handshake_message_payload rd" where
  "hs_read_body dns vers typ =
     (case typ of
        HT_HelloRequest \<Rightarrow> payload_or (\<lambda>p. \<lparr>hmp_typ = typ, hmp_payload = HP_Unknown p\<rparr>)
          \<lparr>hmp_typ = typ, hmp_payload = HP_HelloRequest\<rparr>
      | HT_ClientHello \<Rightarrow> keep typ HP_ClientHello (client_hello_read dns)
      | HT_ServerHello \<Rightarrow> server_hello_branch
      | HT_Certificate \<Rightarrow>
          if vers = PV_TLSv1_3 then keep typ HP_CertificateTls13 certificate_tls13_read
          else keep typ HP_Certificate (vec_read CERT_LIST certificate_der_read)
      | HT_ServerKeyExchange \<Rightarrow> keep typ HP_ServerKeyExchange server_key_exchange_read
      | HT_ServerHelloDone \<Rightarrow> at_end ''ServerHelloDone'' (\<lambda>r. Ok (\<lparr>hmp_typ = typ, hmp_payload = HP_ServerHelloDone\<rparr>, r))
      | HT_ClientKeyExchange \<Rightarrow> keep typ HP_ClientKeyExchange payload_read
      | HT_CertificateRequest \<Rightarrow>
          if vers = PV_TLSv1_3 then keep typ HP_CertificateRequestTls13 certificate_request_tls13_read
          else keep typ HP_CertificateRequest certificate_request_read
      | HT_CertificateVerify \<Rightarrow> keep typ HP_CertificateVerify dss_read
      | HT_NewSessionTicket \<Rightarrow>
          if vers = PV_TLSv1_3 then keep typ HP_NewSessionTicketTls13 new_session_ticket_tls13_read
          else keep typ HP_NewSessionTicket new_session_ticket_read
      | HT_EncryptedExtensions \<Rightarrow> keep typ HP_EncryptedExtensions (vec_read LenU16 server_extension_read)
      | HT_KeyUpdate \<Rightarrow> keep typ HP_KeyUpdate key_update_request_read
      | HT_EndOfEarlyData \<Rightarrow> at_end ''EndOfEarlyData'' (\<lambda>r. Ok (\<lparr>hmp_typ = typ, hmp_payload = HP_EndOfEarlyData\<rparr>, r))
      | HT_Finished \<Rightarrow> keep typ HP_Finished payload_read
      | HT_CertificateStatus \<Rightarrow> keep typ HP_CertificateStatus certificate_status_read
      | HT_MessageHash \<Rightarrow> (\<lambda>r. Err (UnexpectedMessage ''MessageHash''))
      | HT_HelloRetryRequest \<Rightarrow> (\<lambda>r. Err (UnexpectedMessage ''HelloRetryRequest''))
      | _ \<Rightarrow> keep typ HP_Unknown payload_read)"

definition read_version :: "(bytes \<Rightarrow> bool) \<Rightarrow> protocol_version \<Rightarrow> handshake_message_payload rd" where
  "read_version dns vers r =
     outcome_bind (handshake_type_read r) (\<lambda>(typ, r).
     outcome_bind (u24_read r) (\<lambda>(len, r).
     in_sub (u24_usize len) (all_of ''HandshakeMessagePayload'' (hs_read_body dns vers typ)) r))"

definition handshake_message_read :: "(bytes \<Rightarrow> bool) \<Rightarrow> handshake_message_payload rd" where
  "handshake_message_read dns = read_version dns PV_TLSv1_2"

definition build_key_update_notify :: handshake_message_payload where
  "build_key_update_notify = \<lparr>hmp_typ = HT_KeyUpdate, hmp_payload = HP_KeyUpdate KUR_UpdateNotRequested\<rparr>"

definition build_handshake_hash :: "bytes \<Rightarrow> handshake_message_payload" where
  "build_handshake_hash hash = \<lparr>hmp_typ = HT_MessageHash, hmp_payload = HP_MessageHash hash\<rparr>"

text \<open>\<open>truncate\<close> never enlarges; the subtraction of two lengths would panic below zero.\<close>

definition binder_len :: "handshake_payload \<Rightarrow> nat" where
  "binder_len p =
     (case p of
        HP_ClientHello ch \<Rightarrow>
          if ch_extensions ch = [] then 0
          else (case last (ch_extensions ch) of
                  CE_PresharedKey offer \<Rightarrow> length (binders_encode (binders offer) [])
                | _ \<Rightarrow> 0)
      | _ \<Rightarrow> 0)"

definition get_encoding_for_binder_signing :: "handshake_message_payload \<Rightarrow> ('e, bytes) outcome" where
  "get_encoding_for_binder_signing m =
     (let ret = handshake_message_encode m [];
          n = binder_len (hmp_payload m)
      in if n \<le> length ret then Ok (take (length ret - n) ret) else Panic)"

section \<open>Well-formed messages\<close>

text \<open>The messages that the decoder for a version returns.\<close>

definition HS_TYPES :: "handshake_type set" where
  "HS_TYPES = {HT_HelloRequest, HT_ClientHello, HT_ServerHello, HT_Certificate, HT_ServerKeyExchange, HT_ServerHelloDone,
     HT_ClientKeyExchange, HT_CertificateRequest, HT_CertificateVerify, HT_NewSessionTicket, HT_EncryptedExtensions,
     HT_KeyUpdate, HT_EndOfEarlyData, HT_Finished, HT_CertificateStatus, HT_MessageHash, HT_HelloRetryRequest}"

primrec hs_ok :: "(bytes \<Rightarrow> bool) \<Rightarrow> protocol_version \<Rightarrow> handshake_type \<Rightarrow> handshake_payload \<Rightarrow> bool" where
  "hs_ok dns vers t HP_HelloRequest \<longleftrightarrow> t = HT_HelloRequest"
| "hs_ok dns vers t (HP_ClientHello x) \<longleftrightarrow> t = HT_ClientHello \<and> client_hello_wf dns x"
| "hs_ok dns vers t (HP_ServerHello x) \<longleftrightarrow>
     t = HT_ServerHello \<and> server_hello_wf x \<and> sh_random x \<noteq> HELLO_RETRY_REQUEST_RANDOM"
| "hs_ok dns vers t (HP_HelloRetryRequest x) \<longleftrightarrow> t = HT_HelloRetryRequest \<and> hello_retry_request_wf x"
| "hs_ok dns vers t (HP_Certificate x) \<longleftrightarrow>
     t = HT_Certificate \<and> vers \<noteq> PV_TLSv1_3 \<and> vec_wf CERT_LIST certificate_der_encode (sized (2 ^ 24)) x"
| "hs_ok dns vers t (HP_CertificateTls13 x) \<longleftrightarrow> t = HT_Certificate \<and> vers = PV_TLSv1_3 \<and> certificate_tls13_wf x"
| "hs_ok dns vers t (HP_ServerKeyExchange x) \<longleftrightarrow> t = HT_ServerKeyExchange \<and> (\<forall>e. x \<noteq> SKE_Ecdhe e)"
| "hs_ok dns vers t (HP_CertificateRequest x) \<longleftrightarrow>
     t = HT_CertificateRequest \<and> vers \<noteq> PV_TLSv1_3 \<and> certificate_request_wf x"
| "hs_ok dns vers t (HP_CertificateRequestTls13 x) \<longleftrightarrow>
     t = HT_CertificateRequest \<and> vers = PV_TLSv1_3 \<and> certificate_request_tls13_wf x"
| "hs_ok dns vers t (HP_CertificateVerify x) \<longleftrightarrow> t = HT_CertificateVerify \<and> dss_wf x"
| "hs_ok dns vers t HP_ServerHelloDone \<longleftrightarrow> t = HT_ServerHelloDone"
| "hs_ok dns vers t HP_EndOfEarlyData \<longleftrightarrow> t = HT_EndOfEarlyData"
| "hs_ok dns vers t (HP_ClientKeyExchange x) \<longleftrightarrow> t = HT_ClientKeyExchange"
| "hs_ok dns vers t (HP_NewSessionTicket x) \<longleftrightarrow>
     t = HT_NewSessionTicket \<and> vers \<noteq> PV_TLSv1_3 \<and> new_session_ticket_wf x"
| "hs_ok dns vers t (HP_NewSessionTicketTls13 x) \<longleftrightarrow>
     t = HT_NewSessionTicket \<and> vers = PV_TLSv1_3 \<and> new_session_ticket_tls13_wf x"
| "hs_ok dns vers t (HP_EncryptedExtensions x) \<longleftrightarrow> t = HT_EncryptedExtensions \<and> server_extensions_wf x"
| "hs_ok dns vers t (HP_KeyUpdate x) \<longleftrightarrow> t = HT_KeyUpdate \<and> known key_update_request_get key_update_request_from x"
| "hs_ok dns vers t (HP_Finished x) \<longleftrightarrow> t = HT_Finished"
| "hs_ok dns vers t (HP_CertificateStatus x) \<longleftrightarrow> t = HT_CertificateStatus \<and> sized (2 ^ 24) x"
| "hs_ok dns vers t (HP_MessageHash x) \<longleftrightarrow> False"
| "hs_ok dns vers t (HP_Unknown x) \<longleftrightarrow>
     known handshake_type_get handshake_type_from t \<and> (t \<notin> HS_TYPES \<or> t = HT_HelloRequest \<and> x \<noteq> [])"

definition handshake_message_wf :: "(bytes \<Rightarrow> bool) \<Rightarrow> protocol_version \<Rightarrow> handshake_message_payload \<Rightarrow> bool" where
  "handshake_message_wf dns vers m \<longleftrightarrow>
     hs_ok dns vers (hmp_typ m) (hmp_payload m) \<and> sized (2 ^ 24) (handshake_payload_encode (hmp_payload m) [])"

section \<open>Round trip\<close>

lemma server_key_exchange_app: "server_key_exchange_encode x out = out @ server_key_exchange_encode x []"
  by (cases x) (simp_all add: payload_encode_def ecdhe_ske.enc_app [of _ out])

lemma server_hello_app: "server_hello_encode x out = out @ server_hello_encode x []"
  by (simp add: server_hello_encode_eq)

lemma hello_retry_request_app: "hello_retry_request_encode x out = out @ hello_retry_request_encode x []"
  by (simp add: hello_retry_request_encode_eq)

lemma handshake_payload_app: "handshake_payload_encode p out = out @ handshake_payload_encode p []"
  by (cases p; simp add: payload_encode_def;
      rule client_hello.enc_app server_hello_app hello_retry_request_app certificate_chain.enc_app certificate_tls13.enc_app
        server_key_exchange_app certificate_request.enc_app certificate_request_tls13.enc_app dss.enc_app
        new_session_ticket.enc_app new_session_ticket_tls13.enc_app server_extensions.enc_app key_update_request.enc_app
        certificate_status.enc_app)

lemma handshake_message_encode_eq:
  "handshake_message_encode m out =
     out @ handshake_type_encode (wire_type (hmp_typ m)) []
       @ be24 (length (handshake_payload_encode (hmp_payload m) [])) @ handshake_payload_encode (hmp_payload m) []"
  unfolding handshake_message_encode_def
  by (subst nested_eq [OF handshake_payload_app], subst handshake_type.enc_app) (simp add: len_prefix_def)

lemma server_hello_branch_reads:
  assumes "server_hello_wf sh" "sh_random sh \<noteq> HELLO_RETRY_REQUEST_RANDOM"
  shows "reads True server_hello_branch (server_hello_encode sh []) \<lparr>hmp_typ = HT_ServerHello, hmp_payload = HP_ServerHello sh\<rparr>"
  unfolding server_hello_encode_eq append_Nil server_hello_branch_def [abs_def]
proof (rule reads_bind [OF protocol_version.rd_enc])
  show "known_version (legacy_version sh)" using assms by (simp add: server_hello_wf_def)
  have "random_wf (sh_random sh)" using assms by (simp add: server_hello_wf_def)
  note r = random.rd_enc [OF this, unfolded random_encode_def append_Nil]
  show "reads True (\<lambda>r. outcome_bind (random_read r) (\<lambda>(random, r).
     if random = HELLO_RETRY_REQUEST_RANDOM then
       wrap (\<lambda>hrr. \<lparr>hmp_typ = HT_HelloRetryRequest,
                   hmp_payload = HP_HelloRetryRequest (hrr\<lparr>hrr_legacy_version := legacy_version sh\<rparr>)\<rparr>)
         hello_retry_request_read r
     else
       wrap (\<lambda>shp. \<lparr>hmp_typ = HT_ServerHello,
                   hmp_payload = HP_ServerHello (shp\<lparr>legacy_version := legacy_version sh, sh_random := random\<rparr>)\<rparr>)
         server_hello_read r)) (sh_random sh @ sh_fields_encode (sh_fields sh) []) \<lparr>hmp_typ = HT_ServerHello, hmp_payload = HP_ServerHello sh\<rparr>"
    by (rule reads_bind [OF r]) (use assms in \<open>simp add: reads_wrap_eq [OF server_hello_reads]\<close>)
qed

lemma HELLO_RETRY_REQUEST_RANDOM_wf: "random_wf HELLO_RETRY_REQUEST_RANDOM"
  by (simp add: random_wf_def HELLO_RETRY_REQUEST_RANDOM_def)

lemma hello_retry_branch_reads:
  assumes "hello_retry_request_wf h"
  shows "reads True server_hello_branch (hello_retry_request_encode h [])
    \<lparr>hmp_typ = HT_HelloRetryRequest, hmp_payload = HP_HelloRetryRequest h\<rparr>"
  unfolding hello_retry_request_encode_eq append_Nil server_hello_branch_def [abs_def]
proof (rule reads_bind [OF protocol_version.rd_enc])
  show "known_version (hrr_legacy_version h)" using assms by (simp add: hello_retry_request_wf_def)
  note r = random.rd_enc [OF HELLO_RETRY_REQUEST_RANDOM_wf, unfolded random_encode_def append_Nil]
  show "reads True (\<lambda>r. outcome_bind (random_read r) (\<lambda>(random, r).
     if random = HELLO_RETRY_REQUEST_RANDOM then
       wrap (\<lambda>hrr. \<lparr>hmp_typ = HT_HelloRetryRequest,
                   hmp_payload = HP_HelloRetryRequest (hrr\<lparr>hrr_legacy_version := hrr_legacy_version h\<rparr>)\<rparr>)
         hello_retry_request_read r
     else
       wrap (\<lambda>shp. \<lparr>hmp_typ = HT_ServerHello,
                   hmp_payload = HP_ServerHello (shp\<lparr>legacy_version := hrr_legacy_version h, sh_random := random\<rparr>)\<rparr>)
         server_hello_read r)) (HELLO_RETRY_REQUEST_RANDOM @ hrr_fields_encode (hrr_fields h) [])
     \<lparr>hmp_typ = HT_HelloRetryRequest, hmp_payload = HP_HelloRetryRequest h\<rparr>"
    by (rule reads_bind [OF r]) (use assms in \<open>simp add: reads_wrap_eq [OF hello_retry_request_reads]\<close>)
qed

text \<open>What a decoder of a body of wire type \<open>t\<close> may return.\<close>

definition decoded ::
    "(bytes \<Rightarrow> bool) \<Rightarrow> protocol_version \<Rightarrow> handshake_type \<Rightarrow> handshake_message_payload \<Rightarrow> bytes \<Rightarrow> bool" where
  "decoded dns vers t m bs \<longleftrightarrow>
     hs_ok dns vers (hmp_typ m) (hmp_payload m) \<and> wire_type (hmp_typ m) = t
     \<and> length (handshake_payload_encode (hmp_payload m) []) \<le> length bs"

lemma server_hello_branch_gives: "gives (decoded dns vers HT_ServerHello) server_hello_branch"
  unfolding server_hello_branch_def [abs_def]
proof (rule gives_bind [OF protocol_version.rd_exact], rule gives_bind [OF random.rd_wf], rule gives_if)
  fix v vs rnd and rs :: bytes assume v: "known_version v \<and> vs = protocol_version_encode v []"
    and rnd: "random_wf rnd \<and> length (random_encode rnd []) \<le> length rs"
  show "gives (\<lambda>m cs. decoded dns vers HT_ServerHello m (vs @ rs @ cs))
    (wrap (\<lambda>hrr. \<lparr>hmp_typ = HT_HelloRetryRequest, hmp_payload = HP_HelloRetryRequest (hrr\<lparr>hrr_legacy_version := v\<rparr>)\<rparr>)
      hello_retry_request_read)" if "rnd = HELLO_RETRY_REQUEST_RANDOM"
    by (rule gives_wrap [OF hello_retry_request_gives [of v]])
      (use v rnd that in \<open>simp add: decoded_def wire_type_def hello_retry_request_encode_eq hrr_fields_def random_encode_def\<close>)
  show "gives (\<lambda>m cs. decoded dns vers HT_ServerHello m (vs @ rs @ cs))
    (wrap (\<lambda>shp. \<lparr>hmp_typ = HT_ServerHello, hmp_payload = HP_ServerHello (shp\<lparr>legacy_version := v, sh_random := rnd\<rparr>)\<rparr>)
      server_hello_read)" if "rnd \<noteq> HELLO_RETRY_REQUEST_RANDOM"
    by (rule gives_wrap [OF server_hello_gives [of v rnd]])
      (use v rnd that in \<open>simp add: decoded_def wire_type_def server_hello_encode_eq sh_fields_def random_encode_def\<close>)
qed

lemma hs_body_reads:
  assumes "hs_ok dns vers t p"
  shows "reads True (hs_read_body dns vers (wire_type t)) (handshake_payload_encode p []) \<lparr>hmp_typ = t, hmp_payload = p\<rparr>"
proof (cases p)
  case (HP_Unknown x)
  then show ?thesis using assms
    by (cases t) (auto simp: hs_read_body_def wire_type_def HS_TYPES_def payload_encode_def intro: ext_reads)
next
  case (HP_ServerKeyExchange x)
  then show ?thesis using assms
    by (cases x) (auto simp: hs_read_body_def wire_type_def payload_encode_def server_key_exchange_read_def
        intro!: reads_wrap_eq [OF reads_wrap [OF payload_reads]])
qed (use assms in \<open>auto simp: hs_read_body_def wire_type_def payload_encode_def
    intro!: ext_reads at_end_reads server_hello_branch_reads hello_retry_branch_reads
      reads_wrap_eq [OF client_hello.rd_all] reads_wrap_eq [OF certificate_tls13.rd_all] reads_wrap_eq [OF certificate_chain.rd_all]
      reads_wrap_eq [OF certificate_request.rd_all] reads_wrap_eq [OF certificate_request_tls13.rd_all]
      reads_wrap_eq [OF dss.rd_all] reads_wrap_eq [OF new_session_ticket.rd_all] reads_wrap_eq [OF new_session_ticket_tls13.rd_all]
      reads_wrap_eq [OF server_extensions.rd_all] reads_wrap_eq [OF key_update_request.rd_all]
      reads_wrap_eq [OF certificate_status.rd_all] reads_wrap_eq [OF payload_reads]\<close>)

lemma hs_body_gives:
  assumes "known handshake_type_get handshake_type_from t"
  shows "gives (decoded dns vers t) (hs_read_body dns vers t)"
proof -
  note d = decoded_def wire_type_def payload_encode_def HS_TYPES_def
  note k = gives_wrap [OF client_hello.rd_wf] gives_wrap [OF certificate_tls13.rd_wf] gives_wrap [OF certificate_chain.rd_wf]
    gives_wrap [OF certificate_request.rd_wf] gives_wrap [OF certificate_request_tls13.rd_wf] gives_wrap [OF dss.rd_wf]
    gives_wrap [OF new_session_ticket.rd_wf] gives_wrap [OF new_session_ticket_tls13.rd_wf]
    gives_wrap [OF server_extensions.rd_wf] gives_wrap [OF key_update_request.rd_wf] gives_wrap [OF certificate_status.rd_wf]
    payload_wrap_gives payload_or_gives
  have ske: "gives (\<lambda>x bs. (\<forall>e. x \<noteq> SKE_Ecdhe e) \<and> length (server_key_exchange_encode x []) \<le> length bs) server_key_exchange_read"
    unfolding server_key_exchange_read_def by (rule payload_wrap_gives) (simp add: payload_encode_def)
  show ?thesis
    using assms server_hello_branch_gives [of dns vers]
    by (cases t; simp add: hs_read_body_def gives_Err)
      (auto simp: d intro!: k gives_wrap [OF ske] at_end_gives gives_Ok)
qed

interpretation handshake_message: codec handshake_message_encode "read_version dns vers" "handshake_message_wf dns vers"
  for dns vers
proof (rule codecI)
  show "handshake_message_encode m out = out @ handshake_message_encode m []" for m out
    by (simp add: handshake_message_encode_eq)
  show "handshake_message_encode m [] \<noteq> []" for m
    by (simp add: handshake_message_encode_eq enum8_encode_def u8_encode_def)
  show "reads w (read_version dns vers) (handshake_message_encode m []) m" if m: "handshake_message_wf dns vers m" for w m
  proof -
    let ?b = "handshake_payload_encode (hmp_payload m) []"
    have n: "length ?b < 2 ^ 24" using m by (simp add: handshake_message_wf_def sized_def)
    have k: "known handshake_type_get handshake_type_from (wire_type (hmp_typ m))"
      using m by (cases "hmp_payload m"; cases "hmp_typ m")
        (auto simp: handshake_message_wf_def known_def handshake_type_from_def wire_type_def)
    have b: "reads True (hs_read_body dns vers (wire_type (hmp_typ m))) ?b m"
      using hs_body_reads [of dns vers "hmp_typ m" "hmp_payload m"] m by (cases m) (simp add: handshake_message_wf_def)
    have "reads w (\<lambda>r. outcome_bind (handshake_type_read r) (\<lambda>(typ, r). outcome_bind (u24_read r) (\<lambda>(len, r).
        in_sub (u24_usize len) (all_of ''HandshakeMessagePayload'' (hs_read_body dns vers typ)) r)))
      (handshake_type_encode (wire_type (hmp_typ m)) [] @ u24_encode (U24 (of_nat (length ?b))) [] @ ?b) m"
      using n k u24_of_nat [OF n] b
      by (intro reads_bind [OF handshake_type.rd_enc] reads_bind [OF u24_reads] reads_in_sub all_of_reads) simp_all
    then show ?thesis by (simp add: read_version_def [abs_def] handshake_message_encode_eq u24_encode_def be24_def)
  qed
  show "gives (\<lambda>m bs. handshake_message_wf dns vers m \<and> length (handshake_message_encode m []) \<le> length bs) (read_version dns vers)"
    unfolding read_version_def [abs_def]
  proof (rule gives_bind [OF handshake_type.rd_exact], rule gives_bind [OF u24_gives], rule gives_in_sub)
    fix t ts n ns and bs :: bytes
    assume t: "known handshake_type_get handshake_type_from t \<and> ts = handshake_type_encode t []"
      and n: "u24_wf n \<and> ns = u24_encode n []" and l: "length bs = u24_usize n"
    note g = all_of_gives [OF hs_body_gives [OF t [THEN conjunct1], of dns vers]]
    show "all_of ''HandshakeMessagePayload'' (hs_read_body dns vers t) (reader_init bs) \<noteq> Panic" by (rule g)
    fix m assume "all_of ''HandshakeMessagePayload'' (hs_read_body dns vers t) (reader_init bs) = Ok m"
    from g(2) [OF this] t n l show "handshake_message_wf dns vers m \<and> length (handshake_message_encode m []) \<le> length (ts @ ns @ bs)"
      by (cases n) (simp add: decoded_def handshake_message_wf_def sized_def handshake_message_encode_eq u24_wf_def
          u24_usize_def u24_encode_def)
  qed
qed

section \<open>Binders\<close>

text \<open>
  The extension with the pre-shared keys ends with the binders, and so does a hello in which it is
  the last.
\<close>

lemma ext_encode_ce_eq:
  "client_extension_encode e out =
     out @ extension_type_encode (ce_get_type e) [] @ be16 (of_nat (length (ce_body e []))) @ ce_body e []"
  unfolding client_extension_encode_def by (rule client_extension.ext_encode_eq)

lemma enc_list_app: "enc_list enc (xs @ ys) = enc_list enc xs @ enc_list enc ys"
  by (simp add: enc_list_def)

lemma offer_encode_eq:
  "preshared_key_offer_encode ofr out = out @ identities_encode (identities ofr) [] @ binders_encode (binders ofr) []"
proof -
  have "identities_encode is out = out @ identities_encode is []" for "is" out
    unfolding identities_encode_def
    by (rule whole_codec.enc_app [OF codec.axioms(1) [OF preshared_key_identity.vec_codec]])
  moreover have "binders_encode bs out = out @ binders_encode bs []" for bs out
    unfolding binders_encode_def by (rule protocol_names.enc_app)
  ultimately show ?thesis unfolding preshared_key_offer_encode_def by (metis append.assoc)
qed

definition hello_head :: "client_hello_payload \<Rightarrow> bytes" where
  "hello_head ch = client_hello_encode (ch\<lparr>ch_extensions := []\<rparr>) []"

lemma client_hello_encode_exts:
  assumes "ch_extensions ch \<noteq> []"
  shows "client_hello_encode ch [] = hello_head ch
    @ be16 (of_nat (length (enc_list client_extension_encode (ch_extensions ch))))
    @ enc_list client_extension_encode (ch_extensions ch)"
proof -
  have app: "client_extension_encode e out = out @ client_extension_encode e []" for e out
    by (simp add: ext_encode_ce_eq)
  have "client_hello_encode ch [] = vec_encode LenU16 client_extension_encode (ch_extensions ch) (hello_head ch)"
    using assms by (simp add: client_hello_encode_def hello_head_def Let_def)
  then show ?thesis by (simp add: vec_encode_eq [OF app] len_prefix_def)
qed

text \<open>The encoding of a message in which a pre-shared key comes last, cut before the binders.\<close>

definition psk_prefix :: "client_hello_payload \<Rightarrow> client_extension list \<Rightarrow> preshared_key_offer \<Rightarrow> bytes" where
  "psk_prefix ch es ofr =
     (let n = length (binders_encode (binders ofr) []);
          ids = identities_encode (identities ofr) [];
          ext = extension_type_encode EXT_PreSharedKey [] @ be16 (of_nat (length ids + n)) @ ids;
          exts = enc_list client_extension_encode es @ ext;
          body = hello_head ch @ be16 (of_nat (length exts + n)) @ exts
      in handshake_type_encode HT_ClientHello [] @ be24 (length body + n) @ body)"

lemma encode_psk_split:
  assumes "ch_extensions ch = es @ [CE_PresharedKey ofr]"
  shows "handshake_message_encode \<lparr>hmp_typ = HT_ClientHello, hmp_payload = HP_ClientHello ch\<rparr> []
    = psk_prefix ch es ofr @ binders_encode (binders ofr) []"
  using assms
  by (simp add: handshake_message_encode_eq client_hello_encode_exts enc_list_app ext_encode_ce_eq offer_encode_eq
      psk_prefix_def Let_def wire_type_def ac_simps)

lemma binder_signing_prefix:
  assumes "ch_extensions ch = es @ [CE_PresharedKey ofr]"
  shows "get_encoding_for_binder_signing \<lparr>hmp_typ = HT_ClientHello, hmp_payload = HP_ClientHello ch\<rparr>
    = Ok (psk_prefix ch es ofr)"
  using assms
  by (simp add: get_encoding_for_binder_signing_def encode_psk_split binder_len_def Let_def)

lemma binder_signing_total: "get_encoding_for_binder_signing m \<noteq> Panic"
proof (cases "binder_len (hmp_payload m) = 0")
  case False
  then obtain ch where ch: "hmp_payload m = HP_ClientHello ch" "ch_extensions ch \<noteq> []"
    by (auto simp: binder_len_def split: handshake_payload.splits if_splits)
  with False obtain ofr where "last (ch_extensions ch) = CE_PresharedKey ofr"
    by (auto simp: binder_len_def split: client_extension.splits)
  with ch have e: "ch_extensions ch = butlast (ch_extensions ch) @ [CE_PresharedKey ofr]"
    by (metis append_butlast_last_id)
  have "handshake_message_encode m [] = handshake_type_encode (wire_type (hmp_typ m)) []
    @ be24 (length (client_hello_encode ch [])) @ client_hello_encode ch []"
    by (simp add: handshake_message_encode_eq ch)
  moreover have "length (binders_encode (binders ofr) []) \<le> length (client_hello_encode ch [])"
    using client_hello_encode_exts [OF ch(2)]
    by (subst (asm) (2) e) (simp add: enc_list_app ext_encode_ce_eq offer_encode_eq)
  ultimately show ?thesis
    using ch e by (simp add: get_encoding_for_binder_signing_def binder_len_def Let_def \<open>last _ = _\<close>)
qed (simp add: get_encoding_for_binder_signing_def)

text \<open>
  Filling in a binder of the length that the placeholder had does not change what is signed.
\<close>

lemma length_binders_encode: "length (binders_encode bs []) = 2 + sum_list (map (\<lambda>b. 1 + length b) bs)"
proof -
  have "length (enc_list payload_u8_encode bs) = sum_list (map (\<lambda>b. 1 + length b) bs)"
    by (induction bs) (simp_all add: payload_u8_encode_def u8_encode_def)
  then show ?thesis
    by (simp add: binders_encode_def vec_encode_eq [OF payload_u8.enc_app] len_prefix_def)
qed

lemma set_psk_binder_signing:
  assumes "ch_extensions ch = es @ [CE_PresharedKey ofr]" "binders ofr = old # bs" "length binder = length old"
  shows "set_psk_binder ch binder = Ok (ch\<lparr>ch_extensions := es @ [CE_PresharedKey (ofr\<lparr>binders := binder # bs\<rparr>)]\<rparr>)"
    "psk_prefix (ch\<lparr>ch_extensions := es @ [CE_PresharedKey (ofr\<lparr>binders := binder # bs\<rparr>)]\<rparr>) es (ofr\<lparr>binders := binder # bs\<rparr>)
      = psk_prefix ch es ofr"
proof -
  show "set_psk_binder ch binder = Ok (ch\<lparr>ch_extensions := es @ [CE_PresharedKey (ofr\<lparr>binders := binder # bs\<rparr>)]\<rparr>)"
    using assms by (simp add: set_psk_binder_def)
  have "length (binders_encode (binder # bs) []) = length (binders_encode (old # bs) [])"
    using assms(3) by (simp add: length_binders_encode)
  then show "psk_prefix (ch\<lparr>ch_extensions := es @ [CE_PresharedKey (ofr\<lparr>binders := binder # bs\<rparr>)]\<rparr>) es (ofr\<lparr>binders := binder # bs\<rparr>)
      = psk_prefix ch es ofr"
    using assms(2) by (simp add: psk_prefix_def hello_head_def)
qed

end
