(* ===== verification/Rustls_Cipher.thy ===== *)
theory Rustls_Cipher
  imports Rustls_Message
begin

text \<open>
  \<open>orcax/rustls-fork/rustls/src/crypto/cipher.rs\<close>, \<open>crypto/ring/tls13.rs\<close> and
  \<open>crypto/ring/tls12.rs\<close>: nonces, additional data, and the encryption of one record.

  The authenticated ciphers of the crate ring are parameters: for each algorithm a pair of
  functions \<open>aead_seal\<close>, \<open>aead_open\<close> over key, nonce, additional data and text. What is relied on
  is \<open>aead_ok\<close>: sealing adds a tag of 16 bytes, and opening accepts exactly what sealing produces.
\<close>

section \<open>The ciphers of ring\<close>

datatype aead_alg = AES_128_GCM | AES_256_GCM | CHACHA20_POLY1305

record aead =
  aead_seal :: "aead_alg \<Rightarrow> bytes \<Rightarrow> bytes \<Rightarrow> bytes \<Rightarrow> bytes \<Rightarrow> bytes option"
  aead_open :: "aead_alg \<Rightarrow> bytes \<Rightarrow> bytes \<Rightarrow> bytes \<Rightarrow> bytes \<Rightarrow> bytes option"

definition tag_len :: nat where "tag_len = 16"

definition aead_ok :: "aead \<Rightarrow> bool" where
  "aead_ok ae \<longleftrightarrow>
     (\<forall>al k n a p. length p \<le> 2 ^ 16 \<longrightarrow>
        (\<exists>c. aead_seal ae al k n a p = Some c \<and> length c = length p + tag_len))
     \<and> (\<forall>al k n a p c. aead_open ae al k n a c = Some p \<longleftrightarrow> aead_seal ae al k n a p = Some c)"

text \<open>An instance of the parameter on which the predicate holds; it is not a model of ring.\<close>

definition plain_aead :: aead where
  "plain_aead = \<lparr>
     aead_seal = (\<lambda>al k n a p. Some (p @ replicate 16 0)),
     aead_open = (\<lambda>al k n a c. if 16 \<le> length c \<and> drop (length c - 16) c = replicate 16 0
       then Some (take (length c - 16) c) else None)\<rparr>"

lemma plain_aead_ok: "aead_ok plain_aead"
proof -
  have "aead_open plain_aead al k n a c = Some p \<longleftrightarrow> aead_seal plain_aead al k n a p = Some c" for al k n a p c
  proof
    assume "aead_open plain_aead al k n a c = Some p"
    then have "drop (length c - 16) c = replicate 16 0" "take (length c - 16) c = p"
      by (auto simp: plain_aead_def split: if_splits)
    then show "aead_seal plain_aead al k n a p = Some c"
      using append_take_drop_id [of "length c - 16" c] by (simp add: plain_aead_def)
  qed (auto simp: plain_aead_def)
  moreover have "\<exists>c. aead_seal plain_aead al k n a p = Some c \<and> length c = length p + tag_len" for al k n a p
    by (simp add: plain_aead_def tag_len_def)
  ultimately show ?thesis unfolding aead_ok_def by blast
qed

section \<open>Nonces and additional data\<close>

definition NONCE_LEN :: nat where "NONCE_LEN = 12"

definition nonce_new :: "bytes \<Rightarrow> u64 \<Rightarrow> bytes" where
  "nonce_new iv seq = map2 (XOR) (replicate 4 0 @ be64 seq) iv"

definition make_tls13_aad :: "nat \<Rightarrow> bytes" where
  "make_tls13_aad payload_len =
     [content_type_get CT_ApplicationData,
      ucast (drop_bit 8 (protocol_version_get PV_TLSv1_2)),
      ucast (protocol_version_get PV_TLSv1_2 AND 0xff),
      of_nat (payload_len div 256),
      of_nat (payload_len mod 256)]"

definition make_tls12_aad :: "u64 \<Rightarrow> content_type \<Rightarrow> protocol_version \<Rightarrow> nat \<Rightarrow> bytes" where
  "make_tls12_aad seq typ vers len =
     be64 seq @ [content_type_get typ] @ be16 (protocol_version_get vers) @ be16 (of_nat len)"

definition gcm_iv :: "bytes \<Rightarrow> bytes \<Rightarrow> bytes" where
  "gcm_iv write_iv explicit = write_iv @ explicit"

section \<open>Encrypters and decrypters\<close>

text \<open>
  The trait objects of the source are a datatype with one constructor per implementation. The
  second component of a decrypter for GCM in TLS 1.2 is the salt of four bytes.
\<close>

datatype message_encrypter =
    InvalidMessageEncrypter
  | Tls13MessageEncrypter aead_alg (enc_key: bytes) (enc_iv: bytes)
  | GcmMessageEncrypter aead_alg (enc_key: bytes) (enc_iv: bytes)
  | ChaCha20Poly1305MessageEncrypter (enc_key: bytes) (enc_iv: bytes)

datatype message_decrypter =
    InvalidMessageDecrypter
  | Tls13MessageDecrypter aead_alg bytes bytes
  | GcmMessageDecrypter aead_alg bytes bytes
  | ChaCha20Poly1305MessageDecrypter bytes bytes

definition GCM_EXPLICIT_NONCE_LEN :: nat where "GCM_EXPLICIT_NONCE_LEN = 8"

definition GCM_OVERHEAD :: nat where "GCM_OVERHEAD = GCM_EXPLICIT_NONCE_LEN + 16"

definition CHACHAPOLY1305_OVERHEAD :: nat where "CHACHAPOLY1305_OVERHEAD = 16"

primrec encrypted_payload_len :: "message_encrypter \<Rightarrow> nat \<Rightarrow> nat" where
  "encrypted_payload_len InvalidMessageEncrypter n = n"
| "encrypted_payload_len (Tls13MessageEncrypter al k iv) n = n + 1 + tag_len"
| "encrypted_payload_len (GcmMessageEncrypter al k iv) n = n + GCM_EXPLICIT_NONCE_LEN + tag_len"
| "encrypted_payload_len (ChaCha20Poly1305MessageEncrypter k iv) n = n + tag_len"

definition tls13_encrypt :: "aead \<Rightarrow> aead_alg \<Rightarrow> bytes \<Rightarrow> bytes \<Rightarrow> plain_message \<Rightarrow> u64 \<Rightarrow> (tls_error, opaque_message) outcome" where
  "tls13_encrypt ae al k iv msg seq =
     (let total_len = encrypted_payload_len (Tls13MessageEncrypter al k iv) (length (pm_payload msg));
          payload = content_type_encode (pm_typ msg) (pm_payload msg)
      in outcome_bind (ok_or EncryptError (aead_seal ae al k (nonce_new iv seq) (make_tls13_aad total_len) payload))
        (\<lambda>sealed. Ok \<lparr>om_typ = CT_ApplicationData, om_version = PV_TLSv1_2, om_payload = sealed\<rparr>))"

definition tls13_decrypt :: "aead \<Rightarrow> aead_alg \<Rightarrow> bytes \<Rightarrow> bytes \<Rightarrow> opaque_message \<Rightarrow> u64 \<Rightarrow> (tls_error, plain_message) outcome" where
  "tls13_decrypt ae al k iv msg seq =
     (if length (om_payload msg) < tag_len then Err DecryptError
      else outcome_bind (ok_or DecryptError
          (aead_open ae al k (nonce_new iv seq) (make_tls13_aad (length (om_payload msg))) (om_payload msg)))
        (\<lambda>plain. into_tls13_unpadded_message (msg\<lparr>om_payload := plain\<rparr>)))"

definition gcm_encrypt :: "aead \<Rightarrow> aead_alg \<Rightarrow> bytes \<Rightarrow> bytes \<Rightarrow> plain_message \<Rightarrow> u64 \<Rightarrow> (tls_error, opaque_message) outcome" where
  "gcm_encrypt ae al k iv msg seq =
     (let nonce = nonce_new iv seq;
          aad = make_tls12_aad seq (pm_typ msg) (pm_version msg) (length (pm_payload msg))
      in outcome_bind (ok_or EncryptError (aead_seal ae al k nonce aad (pm_payload msg)))
        (\<lambda>sealed. Ok \<lparr>om_typ = pm_typ msg, om_version = pm_version msg, om_payload = drop 4 nonce @ sealed\<rparr>))"

definition gcm_decrypt :: "aead \<Rightarrow> aead_alg \<Rightarrow> bytes \<Rightarrow> bytes \<Rightarrow> opaque_message \<Rightarrow> u64 \<Rightarrow> (tls_error, plain_message) outcome" where
  "gcm_decrypt ae al k dec_salt msg seq =
     (if length (om_payload msg) < GCM_OVERHEAD then Err DecryptError
      else let nonce = dec_salt @ take 8 (om_payload msg);
               aad = make_tls12_aad seq (om_typ msg) (om_version msg) (length (om_payload msg) - GCM_OVERHEAD)
      in outcome_bind (ok_or DecryptError (aead_open ae al k nonce aad (drop GCM_EXPLICIT_NONCE_LEN (om_payload msg))))
        (\<lambda>plain. if length plain > MAX_FRAGMENT_LEN then Err PeerSentOversizedRecord
          else Ok (into_plain_message (msg\<lparr>om_payload := plain\<rparr>))))"

definition chacha_encrypt :: "aead \<Rightarrow> bytes \<Rightarrow> bytes \<Rightarrow> plain_message \<Rightarrow> u64 \<Rightarrow> (tls_error, opaque_message) outcome" where
  "chacha_encrypt ae k iv msg seq =
     (let nonce = nonce_new iv seq;
          aad = make_tls12_aad seq (pm_typ msg) (pm_version msg) (length (pm_payload msg))
      in outcome_bind (ok_or EncryptError (aead_seal ae CHACHA20_POLY1305 k nonce aad (pm_payload msg)))
        (\<lambda>sealed. Ok \<lparr>om_typ = pm_typ msg, om_version = pm_version msg, om_payload = sealed\<rparr>))"

definition chacha_decrypt :: "aead \<Rightarrow> bytes \<Rightarrow> bytes \<Rightarrow> opaque_message \<Rightarrow> u64 \<Rightarrow> (tls_error, plain_message) outcome" where
  "chacha_decrypt ae k iv msg seq =
     (if length (om_payload msg) < CHACHAPOLY1305_OVERHEAD then Err DecryptError
      else let nonce = nonce_new iv seq;
               aad = make_tls12_aad seq (om_typ msg) (om_version msg) (length (om_payload msg) - CHACHAPOLY1305_OVERHEAD)
      in outcome_bind (ok_or DecryptError (aead_open ae CHACHA20_POLY1305 k nonce aad (om_payload msg)))
        (\<lambda>plain. if length plain > MAX_FRAGMENT_LEN then Err PeerSentOversizedRecord
          else Ok (into_plain_message (msg\<lparr>om_payload := plain\<rparr>))))"

primrec encrypt :: "aead \<Rightarrow> message_encrypter \<Rightarrow> plain_message \<Rightarrow> u64 \<Rightarrow> (tls_error, opaque_message) outcome" where
  "encrypt ae InvalidMessageEncrypter msg seq = Err EncryptError"
| "encrypt ae (Tls13MessageEncrypter al k iv) msg seq = tls13_encrypt ae al k iv msg seq"
| "encrypt ae (GcmMessageEncrypter al k iv) msg seq = gcm_encrypt ae al k iv msg seq"
| "encrypt ae (ChaCha20Poly1305MessageEncrypter k iv) msg seq = chacha_encrypt ae k iv msg seq"

primrec decrypt :: "aead \<Rightarrow> message_decrypter \<Rightarrow> opaque_message \<Rightarrow> u64 \<Rightarrow> (tls_error, plain_message) outcome" where
  "decrypt ae InvalidMessageDecrypter msg seq = Err DecryptError"
| "decrypt ae (Tls13MessageDecrypter al k iv) msg seq = tls13_decrypt ae al k iv msg seq"
| "decrypt ae (GcmMessageDecrypter al k salt) msg seq = gcm_decrypt ae al k salt msg seq"
| "decrypt ae (ChaCha20Poly1305MessageDecrypter k iv) msg seq = chacha_decrypt ae k iv msg seq"

section \<open>Nonces are distinct\<close>

lemma length_nonce [simp]: "length iv = 12 \<Longrightarrow> length (nonce_new iv seq) = 12"
  by (simp add: nonce_new_def)

lemma xor_cancel: "x XOR y = z XOR y \<Longrightarrow> x = z" for x y z :: u8
proof (rule bit_word_eqI)
  fix n assume "x XOR y = z XOR y"
  then have "bit (x XOR y) n = bit (z XOR y) n" by simp
  then show "bit x n = bit z n" by (auto simp: bit_xor_iff)
qed

lemma map2_xor_inj: "length a = length iv \<Longrightarrow> length b = length iv \<Longrightarrow> map2 (XOR) a iv = map2 (XOR) b iv \<Longrightarrow> a = b"
  for a b iv :: bytes
proof (induction a iv arbitrary: b rule: list_induct2)
  case (Cons x xs y ys)
  obtain z zs where b: "b = z # zs" using Cons.prems(1) by (cases b) auto
  then have "map2 (XOR) xs ys = map2 (XOR) zs ys" "x XOR y = z XOR y" "length zs = length ys"
    using Cons.prems by simp_all
  then show ?case using Cons.IH [of zs] xor_cancel b by blast
qed simp

lemma be64_inj: "be64 a = be64 b \<Longrightarrow> a = b"
  by (metis from_be64_be64)

lemma nonce_new_inj: "length iv = 12 \<Longrightarrow> nonce_new iv a = nonce_new iv b \<Longrightarrow> a = b"
  unfolding nonce_new_def by (drule map2_xor_inj [rotated 2]) (auto dest: be64_inj)

lemma nonce_split: "length iv = 12 \<Longrightarrow> nonce_new iv seq = take 4 iv @ drop 4 (nonce_new iv seq)"
proof -
  assume l: "length iv = 12"
  have "take 4 (nonce_new iv seq) = map2 (XOR) (replicate 4 0) (take 4 iv)"
    by (simp add: nonce_new_def take_map take_zip)
  also have "\<dots> = take 4 iv"
    using l by (intro nth_equalityI) simp_all
  finally show ?thesis by (metis append_take_drop_id)
qed

section \<open>What one encrypted record gives\<close>

text \<open>
  The contract of a cipher for records: sealing a message the fragmenter produces succeeds and
  gives a record that may be put on the wire, unsealing it with the same sequence number gives the
  message as the receiver sees it, and nothing that was not sealed unseals. It is stated under
  \<open>aead_ok\<close> and met by all three implementations.
\<close>

definition pm_ok :: "plain_message \<Rightarrow> bool" where
  "pm_ok m \<longleftrightarrow> \<not> unknown_content (pm_typ m)
     \<and> known protocol_version_get protocol_version_from (pm_version m) \<and> acceptable_version (pm_version m)
     \<and> length (pm_payload m) \<le> MAX_FRAGMENT_LEN"

locale record_cipher =
  fixes seal :: "aead \<Rightarrow> plain_message \<Rightarrow> u64 \<Rightarrow> (tls_error, opaque_message) outcome"
    and unseal :: "aead \<Rightarrow> opaque_message \<Rightarrow> u64 \<Rightarrow> (tls_error, plain_message) outcome"
    and received :: "plain_message \<Rightarrow> plain_message"
  assumes seal_total: "aead_ok ae \<Longrightarrow> pm_ok m \<Longrightarrow> \<exists>c. seal ae m seq = Ok c \<and> om_wf c"
    and unseal_seal: "aead_ok ae \<Longrightarrow> pm_ok m \<Longrightarrow> seal ae m seq = Ok c \<Longrightarrow> unseal ae c seq = Ok (received m)"
    and unseal_no_panic: "unseal ae c seq \<noteq> Panic"
    and unseal_size: "unseal ae c seq = Ok m \<Longrightarrow> length (pm_payload m) \<le> MAX_FRAGMENT_LEN"
begin

text \<open>A sequence of records, sealed and unsealed with consecutive sequence numbers.\<close>

fun seal_from :: "aead \<Rightarrow> u64 \<Rightarrow> plain_message list \<Rightarrow> opaque_message list" where
  "seal_from ae n [] = []"
| "seal_from ae n (m # ms) = (case seal ae m n of Ok c \<Rightarrow> c # seal_from ae (n + 1) ms | _ \<Rightarrow> [])"

fun unseal_from :: "aead \<Rightarrow> u64 \<Rightarrow> opaque_message list \<Rightarrow> (tls_error, plain_message list) outcome" where
  "unseal_from ae n [] = Ok []"
| "unseal_from ae n (c # cs) =
     outcome_bind (unseal ae c n) (\<lambda>m. outcome_bind (unseal_from ae (n + 1) cs) (\<lambda>ms. Ok (m # ms)))"

lemma unseal_seal_from:
  "aead_ok ae \<Longrightarrow> list_all pm_ok ms \<Longrightarrow>
     unseal_from ae n (seal_from ae n ms) = Ok (map received ms) \<and> list_all om_wf (seal_from ae n ms)
     \<and> length (seal_from ae n ms) = length ms"
proof (induction ms arbitrary: n)
  case (Cons m ms)
  then obtain c where "seal ae m n = Ok c" "om_wf c" using seal_total [of ae m n] by auto
  with Cons unseal_seal [of ae m n c] show ?case by simp
qed simp

end

lemma aead_sealE:
  assumes "aead_ok ae" "length p \<le> 2 ^ 16"
  obtains c where "aead_seal ae al k n a p = Some c" "length c = length p + 16" "aead_open ae al k n a c = Some p"
  using assms unfolding aead_ok_def tag_len_def by metis

lemma known_versions:
  "known protocol_version_get protocol_version_from PV_TLSv1_2" "acceptable_version PV_TLSv1_2"
  by (simp_all add: known_def protocol_version_from_def acceptable_version_def)

lemma unpadded_size:
  "into_tls13_unpadded_message c = Ok m \<Longrightarrow> length (pm_payload m) \<le> MAX_FRAGMENT_LEN"
  by (cases "unpad_tls13 (om_payload c)")
    (auto simp: into_tls13_unpadded_message_def into_plain_message_def split: if_splits)

interpretation tls13: record_cipher "\<lambda>ae. tls13_encrypt ae al k iv" "\<lambda>ae. tls13_decrypt ae al k iv"
    "\<lambda>m. m\<lparr>pm_version := PV_TLSv1_3\<rparr>" for al k iv
proof
  fix ae m seq assume ae: "aead_ok ae" and m: "pm_ok m"
  define p where "p = content_type_encode (pm_typ m) (pm_payload m)"
  have p: "p = pm_payload m @ [content_type_get (pm_typ m)]" by (simp add: p_def enum8_encode_def u8_encode_def)
  have "length p \<le> 2 ^ 16" using m by (simp add: p pm_ok_def MAX_FRAGMENT_LEN_def)
  from aead_sealE [OF ae this, of al k "nonce_new iv seq" "make_tls13_aad (length p + 16)"] obtain c where
    c: "aead_seal ae al k (nonce_new iv seq) (make_tls13_aad (length p + 16)) p = Some c" "length c = length p + 16"
    and o: "aead_open ae al k (nonce_new iv seq) (make_tls13_aad (length p + 16)) c = Some p" by metis
  have tot: "encrypted_payload_len (Tls13MessageEncrypter al k iv) (length (pm_payload m)) = length p + 16"
    by (simp add: p tag_len_def)
  have enc: "tls13_encrypt ae al k iv m seq = Ok \<lparr>om_typ = CT_ApplicationData, om_version = PV_TLSv1_2, om_payload = c\<rparr>"
    unfolding tls13_encrypt_def Let_def tot p_def [symmetric] c(1) by simp
  show "\<exists>c. tls13_encrypt ae al k iv m seq = Ok c \<and> om_wf c"
    using enc c(2) m p known_versions
    by (auto simp: om_wf_def unknown_content_def pm_ok_def MAX_FRAGMENT_LEN_def)
  have "unpad_tls13 p = (pm_typ m, pm_payload m)"
    using m unpad_content [of "content_type_get (pm_typ m)" "pm_payload m" 0] known_content [of "pm_typ m"]
      content_type_nonzero [of "pm_typ m"] by (simp add: p pm_ok_def known_def)
  moreover have "pm_typ m \<noteq> CT_Unknown 0" using m by (auto simp: pm_ok_def unknown_content_def)
  ultimately have "into_tls13_unpadded_message \<lparr>om_typ = ty, om_version = v, om_payload = p\<rparr> = Ok (m\<lparr>pm_version := PV_TLSv1_3\<rparr>)" for ty v
    using m by (simp add: into_tls13_unpadded_message_def p into_plain_message_def pm_ok_def MAX_FRAGMENT_LEN_def)
  moreover fix c' assume "tls13_encrypt ae al k iv m seq = Ok c'"
  ultimately show "tls13_decrypt ae al k iv c' seq = Ok (m\<lparr>pm_version := PV_TLSv1_3\<rparr>)"
    using enc c(2) o by (auto simp: tls13_decrypt_def tag_len_def)
next
  show "tls13_decrypt ae al k iv c seq \<noteq> Panic" for ae c seq
    by (auto simp: tls13_decrypt_def into_tls13_unpadded_message_def outcome_bind_Panic_iff split: prod.splits)
  show "length (pm_payload m) \<le> MAX_FRAGMENT_LEN" if "tls13_decrypt ae al k iv c seq = Ok m" for ae c seq m
    using that by (auto simp: tls13_decrypt_def outcome_bind_Ok_iff unpadded_size split: if_splits)
qed

lemma sealed12_wf:
  assumes "pm_ok m" "p \<noteq> []" "length p < 18432"
  shows "om_wf \<lparr>om_typ = pm_typ m, om_version = pm_version m, om_payload = p\<rparr>"
  using assms by (simp add: pm_ok_def om_wf_def)

lemma opened12:
  assumes "pm_ok m"
  shows "into_plain_message \<lparr>om_typ = pm_typ m, om_version = pm_version m, om_payload = pm_payload m\<rparr> = m"
  by (cases m) (simp add: into_plain_message_def)

interpretation chacha12: record_cipher "\<lambda>ae. chacha_encrypt ae k iv" "\<lambda>ae. chacha_decrypt ae k iv" "\<lambda>m. m" for k iv
proof
  fix ae m seq assume ae: "aead_ok ae" and m: "pm_ok m"
  let ?aad = "make_tls12_aad seq (pm_typ m) (pm_version m) (length (pm_payload m))"
  have l: "length (pm_payload m) \<le> 16384" using m by (simp add: pm_ok_def MAX_FRAGMENT_LEN_def)
  then have "length (pm_payload m) \<le> 2 ^ 16" by simp
  from aead_sealE [OF ae this, of CHACHA20_POLY1305 k "nonce_new iv seq" ?aad] obtain c where
    c: "aead_seal ae CHACHA20_POLY1305 k (nonce_new iv seq) ?aad (pm_payload m) = Some c"
      "length c = length (pm_payload m) + 16"
    and o: "aead_open ae CHACHA20_POLY1305 k (nonce_new iv seq) ?aad c = Some (pm_payload m)" by metis
  have enc: "chacha_encrypt ae k iv m seq = Ok \<lparr>om_typ = pm_typ m, om_version = pm_version m, om_payload = c\<rparr>"
    using c(1) by (simp add: chacha_encrypt_def Let_def)
  have "c \<noteq> []" using c(2) by auto
  then show "\<exists>c. chacha_encrypt ae k iv m seq = Ok c \<and> om_wf c"
    using enc c(2) l sealed12_wf [OF m] by simp
  fix c' assume "chacha_encrypt ae k iv m seq = Ok c'"
  then show "chacha_decrypt ae k iv c' seq = Ok m"
    using enc c(2) o l opened12 [OF m] by (auto simp: chacha_decrypt_def CHACHAPOLY1305_OVERHEAD_def MAX_FRAGMENT_LEN_def)
next
  show "chacha_decrypt ae k iv c seq \<noteq> Panic" for ae c seq
    by (auto simp: chacha_decrypt_def outcome_bind_Panic_iff Let_def)
  show "length (pm_payload m) \<le> MAX_FRAGMENT_LEN" if "chacha_decrypt ae k iv c seq = Ok m" for ae c seq m
    using that by (auto simp: chacha_decrypt_def into_plain_message_def outcome_bind_Ok_iff not_less Let_def split: if_splits)
qed

text \<open>In TLS 1.2 with GCM the sender's initialisation vector starts with the receiver's salt.\<close>

definition gcm_seal12 :: "aead_alg \<Rightarrow> bytes \<Rightarrow> bytes \<Rightarrow> bytes \<Rightarrow> aead \<Rightarrow> plain_message \<Rightarrow> u64 \<Rightarrow> (tls_error, opaque_message) outcome" where
  "gcm_seal12 al k salt explicit ae = gcm_encrypt ae al k (gcm_iv (take 4 (salt @ replicate 4 0)) (take 8 (explicit @ replicate 8 0)))"

interpretation gcm12: record_cipher "gcm_seal12 al k salt explicit"
    "\<lambda>ae. gcm_decrypt ae al k (take 4 (salt @ replicate 4 0))" "\<lambda>m. m" for al k salt explicit
proof
  fix ae m seq assume ae: "aead_ok ae" and m: "pm_ok m"
  define iv where "iv = gcm_iv (take 4 (salt @ replicate 4 0)) (take 8 (explicit @ replicate 8 0))"
  define nonce where "nonce = nonce_new iv seq"
  let ?aad = "make_tls12_aad seq (pm_typ m) (pm_version m) (length (pm_payload m))"
  have iv: "length iv = 12" "take 4 iv = take 4 (salt @ replicate 4 0)" by (simp_all add: iv_def gcm_iv_def)
  have nonce: "nonce = take 4 (salt @ replicate 4 0) @ drop 4 nonce" "length nonce = 12"
    using nonce_split [OF iv(1), of seq] iv by (simp_all add: nonce_def)
  have l: "length (pm_payload m) \<le> 16384" using m by (simp add: pm_ok_def MAX_FRAGMENT_LEN_def)
  then have "length (pm_payload m) \<le> 2 ^ 16" by simp
  from aead_sealE [OF ae this, of al k nonce ?aad] obtain c where
    c: "aead_seal ae al k nonce ?aad (pm_payload m) = Some c" "length c = length (pm_payload m) + 16"
    and o: "aead_open ae al k nonce ?aad c = Some (pm_payload m)" by metis
  have enc: "gcm_seal12 al k salt explicit ae m seq = Ok \<lparr>om_typ = pm_typ m, om_version = pm_version m, om_payload = drop 4 nonce @ c\<rparr>"
    using c(1) by (simp add: gcm_seal12_def gcm_encrypt_def Let_def nonce_def iv_def)
  have "drop 4 nonce @ c \<noteq> []" using c(2) by auto
  then show "\<exists>c. gcm_seal12 al k salt explicit ae m seq = Ok c \<and> om_wf c"
    using enc c(2) l nonce(2) sealed12_wf [OF m] by simp
  fix c' assume "gcm_seal12 al k salt explicit ae m seq = Ok c'"
  then show "gcm_decrypt ae al k (take 4 (salt @ replicate 4 0)) c' seq = Ok m"
    using enc c(2) o l nonce opened12 [OF m]
    by (auto simp: gcm_decrypt_def GCM_OVERHEAD_def GCM_EXPLICIT_NONCE_LEN_def MAX_FRAGMENT_LEN_def Let_def)
next
  show "gcm_decrypt ae al k (take 4 (salt @ replicate 4 0)) c seq \<noteq> Panic" for ae c seq
    by (auto simp: gcm_decrypt_def outcome_bind_Panic_iff Let_def)
  show "length (pm_payload m) \<le> MAX_FRAGMENT_LEN" if "gcm_decrypt ae al k (take 4 (salt @ replicate 4 0)) c seq = Ok m" for ae c seq m
    using that by (auto simp: gcm_decrypt_def into_plain_message_def outcome_bind_Ok_iff not_less Let_def split: if_splits)
qed

section \<open>Size of decrypted records\<close>

lemma unpadded_shorter:
  "into_tls13_unpadded_message c = Ok m \<Longrightarrow>
     length (pm_payload m) \<le> length (om_payload c) \<and> length (om_payload c) \<le> MAX_FRAGMENT_LEN + 1"
  using unpad_shorter [of "om_payload c"]
  by (auto simp: into_tls13_unpadded_message_def into_plain_message_def split: if_splits prod.splits)

lemma aead_open_length:
  assumes "aead_ok ae" "aead_open ae al k n a c = Some p" "length p \<le> 2 ^ 16"
  shows "length p \<le> length c"
proof -
  obtain c' where c': "aead_seal ae al k n a p = Some c'" "length c' = length p + 16"
    using aead_sealE [OF assms(1,3)] by metis
  have "aead_seal ae al k n a p = Some c" using assms(1,2) by (simp add: aead_ok_def)
  with c' show ?thesis by simp
qed

lemma decrypt_shorter:
  assumes ae: "aead_ok ae" and d: "decrypt ae dec c seq = Ok m"
  shows "length (pm_payload m) \<le> length (om_payload c)"
proof (cases dec)
  case (Tls13MessageDecrypter al k iv)
  with d obtain p where p: "aead_open ae al k (nonce_new iv seq) (make_tls13_aad (length (om_payload c))) (om_payload c) = Some p"
    and m: "into_tls13_unpadded_message (c\<lparr>om_payload := p\<rparr>) = Ok m"
    by (auto simp: tls13_decrypt_def ok_or_def split: if_splits option.splits)
  from unpadded_shorter [OF m] have "length (pm_payload m) \<le> length p" "length p \<le> 2 ^ 16"
    by (simp_all add: MAX_FRAGMENT_LEN_def)
  with aead_open_length [OF ae p] show ?thesis by simp
next
  case (GcmMessageDecrypter al k salt)
  with d obtain n a p where p: "aead_open ae al k n a (drop GCM_EXPLICIT_NONCE_LEN (om_payload c)) = Some p"
    and m: "pm_payload m = p" "length p \<le> MAX_FRAGMENT_LEN"
    by (fastforce simp: gcm_decrypt_def ok_or_def into_plain_message_def Let_def split: if_splits option.splits)
  with aead_open_length [OF ae p] show ?thesis by (simp add: MAX_FRAGMENT_LEN_def)
next
  case (ChaCha20Poly1305MessageDecrypter k iv)
  with d obtain n a p where p: "aead_open ae CHACHA20_POLY1305 k n a (om_payload c) = Some p"
    and m: "pm_payload m = p" "length p \<le> MAX_FRAGMENT_LEN"
    by (fastforce simp: chacha_decrypt_def ok_or_def into_plain_message_def Let_def split: if_splits option.splits)
  with aead_open_length [OF ae p] show ?thesis by (simp add: MAX_FRAGMENT_LEN_def)
qed (use d in simp)

lemma decrypt_no_panic: "decrypt ae dec c seq \<noteq> Panic"
  by (cases dec) (simp_all add: tls13.unseal_no_panic chacha12.unseal_no_panic
      gcm_decrypt_def ok_or_def Let_def split: option.splits)

end
