(* ===== verification/Rustls_Record.thy ===== *)
theory Rustls_Record
  imports Rustls_Cipher
begin

text \<open>
  \<open>orcax/rustls-fork/rustls/src/record_layer.rs\<close>: the keys of a connection and the sequence
  numbers. All operations are functions on the record \<open>record_layer\<close>; \<open>rl_run\<close> is the set of
  states they can reach, with the sequence numbers that were used for encryption.

  The assertions of the source that are active in debug builds only are not part of the model.
\<close>

section \<open>State\<close>

definition SEQ_SOFT_LIMIT :: u64 where "SEQ_SOFT_LIMIT = 0xffffffffffff0000"

definition SEQ_HARD_LIMIT :: u64 where "SEQ_HARD_LIMIT = 0xfffffffffffffffe"

datatype direction_state = Invalid | Prepared | Active

record record_layer =
  rl_encrypter :: message_encrypter
  rl_decrypter :: message_decrypter
  write_seq :: u64
  read_seq :: u64
  has_decrypted :: bool
  encrypt_state :: direction_state
  decrypt_state :: direction_state
  trial_decryption_len :: "nat option"

record decrypted =
  want_close_before_decrypt :: bool
  plaintext :: plain_message

definition rl_new :: record_layer where
  "rl_new = \<lparr>rl_encrypter = InvalidMessageEncrypter, rl_decrypter = InvalidMessageDecrypter,
     write_seq = 0, read_seq = 0, has_decrypted = False,
     encrypt_state = Invalid, decrypt_state = Invalid, trial_decryption_len = None\<rparr>"

section \<open>Operations\<close>

definition doing_trial_decryption :: "nat \<Rightarrow> record_layer \<Rightarrow> bool \<times> record_layer" where
  "doing_trial_decryption requested rl =
     (case trial_decryption_len rl of
        Some value \<Rightarrow>
          if requested \<le> value then (True, rl\<lparr>trial_decryption_len := Some (value - requested)\<rparr>)
          else (False, rl)
      | None \<Rightarrow> (False, rl))"

definition decrypt_incoming ::
    "aead \<Rightarrow> opaque_message \<Rightarrow> record_layer \<Rightarrow> (tls_error, decrypted option) outcome \<times> record_layer" where
  "decrypt_incoming ae encr rl =
     (if decrypt_state rl \<noteq> Active then
        (Ok (Some \<lparr>want_close_before_decrypt = False, plaintext = into_plain_message encr\<rparr>), rl)
      else
        let want_close = (read_seq rl = SEQ_SOFT_LIMIT);
            encrypted_len = length (om_payload encr)
        in case decrypt ae (rl_decrypter rl) encr (read_seq rl) of
             Ok plain \<Rightarrow>
               (Ok (Some \<lparr>want_close_before_decrypt = want_close, plaintext = plain\<rparr>),
                rl\<lparr>read_seq := read_seq rl + 1, has_decrypted := True\<rparr>)
           | Err DecryptError \<Rightarrow>
               (case doing_trial_decryption encrypted_len rl of
                  (True, rl') \<Rightarrow> (Ok None, rl')
                | (False, rl') \<Rightarrow> (Err DecryptError, rl'))
           | Err err \<Rightarrow> (Err err, rl)
           | Panic \<Rightarrow> (Panic, rl))"

definition wants_close_before_encrypt :: "record_layer \<Rightarrow> bool" where
  "wants_close_before_encrypt rl \<longleftrightarrow> write_seq rl = SEQ_SOFT_LIMIT"

definition encrypt_exhausted :: "record_layer \<Rightarrow> bool" where
  "encrypt_exhausted rl \<longleftrightarrow> write_seq rl \<ge> SEQ_HARD_LIMIT"

definition encrypt_outgoing ::
    "aead \<Rightarrow> plain_message \<Rightarrow> record_layer \<Rightarrow> ('e, opaque_message \<times> record_layer) outcome" where
  "encrypt_outgoing ae plain rl =
     (if encrypt_exhausted rl then Panic
      else case encrypt ae (rl_encrypter rl) plain (write_seq rl) of
        Ok c \<Rightarrow> Ok (c, rl\<lparr>write_seq := write_seq rl + 1\<rparr>)
      | _ \<Rightarrow> Panic)"

definition prepare_message_encrypter :: "message_encrypter \<Rightarrow> record_layer \<Rightarrow> record_layer" where
  "prepare_message_encrypter cipher rl =
     rl\<lparr>rl_encrypter := cipher, write_seq := 0, encrypt_state := Prepared\<rparr>"

definition prepare_message_decrypter :: "message_decrypter \<Rightarrow> record_layer \<Rightarrow> record_layer" where
  "prepare_message_decrypter cipher rl =
     rl\<lparr>rl_decrypter := cipher, read_seq := 0, decrypt_state := Prepared\<rparr>"

definition start_encrypting :: "record_layer \<Rightarrow> record_layer" where
  "start_encrypting rl = rl\<lparr>encrypt_state := Active\<rparr>"

definition start_decrypting :: "record_layer \<Rightarrow> record_layer" where
  "start_decrypting rl = rl\<lparr>decrypt_state := Active\<rparr>"

definition set_message_encrypter :: "message_encrypter \<Rightarrow> record_layer \<Rightarrow> record_layer" where
  "set_message_encrypter cipher rl = start_encrypting (prepare_message_encrypter cipher rl)"

definition set_message_decrypter :: "message_decrypter \<Rightarrow> record_layer \<Rightarrow> record_layer" where
  "set_message_decrypter cipher rl =
     (start_decrypting (prepare_message_decrypter cipher rl))\<lparr>trial_decryption_len := None\<rparr>"

definition set_message_decrypter_with_trial_decryption ::
    "message_decrypter \<Rightarrow> nat \<Rightarrow> record_layer \<Rightarrow> record_layer" where
  "set_message_decrypter_with_trial_decryption cipher max_length rl =
     (start_decrypting (prepare_message_decrypter cipher rl))\<lparr>trial_decryption_len := Some max_length\<rparr>"

definition finish_trial_decryption :: "record_layer \<Rightarrow> record_layer" where
  "finish_trial_decryption rl = rl\<lparr>trial_decryption_len := None\<rparr>"

definition is_encrypting :: "record_layer \<Rightarrow> bool" where
  "is_encrypting rl \<longleftrightarrow> encrypt_state rl = Active"

section \<open>Reachable states\<close>

text \<open>
  \<open>rl_run ae rl e used\<close>: the record layer \<open>rl\<close> is reachable, \<open>e\<close> keys were installed for sending,
  and \<open>used\<close> lists the encryptions: the number of the key and the sequence number.
\<close>

inductive rl_run :: "aead \<Rightarrow> record_layer \<Rightarrow> nat \<Rightarrow> (nat \<times> u64) list \<Rightarrow> bool" for ae where
  new: "rl_run ae rl_new 0 []"
| encrypter: "rl_run ae rl e used \<Longrightarrow> rl_run ae (prepare_message_encrypter c rl) (Suc e) used"
| encrypting: "rl_run ae rl e used \<Longrightarrow> rl_run ae (start_encrypting rl) e used"
| sealed: "rl_run ae rl e used \<Longrightarrow> encrypt_outgoing ae m rl = (Ok (c, rl') :: (unit, _) outcome) \<Longrightarrow>
    rl_run ae rl' e (used @ [(e, write_seq rl)])"
| decrypter: "rl_run ae rl e used \<Longrightarrow> rl_run ae (prepare_message_decrypter d rl) e used"
| decrypting: "rl_run ae rl e used \<Longrightarrow> rl_run ae (start_decrypting rl) e used"
| trial: "rl_run ae rl e used \<Longrightarrow> rl_run ae (rl\<lparr>trial_decryption_len := t\<rparr>) e used"
| opened: "rl_run ae rl e used \<Longrightarrow> decrypt_incoming ae c rl = (res, rl') \<Longrightarrow> rl_run ae rl' e used"

lemma decrypt_incoming_write: "decrypt_incoming ae c rl = (res, rl') \<Longrightarrow> write_seq rl' = write_seq rl"
  by (auto simp: decrypt_incoming_def doing_trial_decryption_def Let_def
      split: if_splits outcome.splits tls_error.splits option.splits prod.splits bool.splits)

lemma encrypt_outgoing_Ok:
  assumes "encrypt_outgoing ae m rl = Ok (c, rl')"
  shows "rl' = rl\<lparr>write_seq := write_seq rl + 1\<rparr>" "write_seq rl < SEQ_HARD_LIMIT"
    "encrypt ae (rl_encrypter rl) m (write_seq rl) = Ok c"
  using assms by (auto simp: encrypt_outgoing_def encrypt_exhausted_def not_le split: if_splits outcome.splits)

lemma seq_step:
  assumes "(s :: u64) < SEQ_HARD_LIMIT"
  shows "s + 1 \<le> SEQ_HARD_LIMIT" "t < s + 1 \<longleftrightarrow> t \<le> s"
proof -
  have "unat s + 1 < 2 ^ 64" using assms by (simp add: SEQ_HARD_LIMIT_def word_less_nat_alt)
  then have "unat (s + 1) = unat s + 1" by (simp add: unat_word_ariths)
  with assms show "s + 1 \<le> SEQ_HARD_LIMIT" "t < s + 1 \<longleftrightarrow> t \<le> s"
    by (simp_all add: word_less_nat_alt word_le_nat_alt less_Suc_eq_le Suc_le_eq)
qed

definition used_ok :: "record_layer \<Rightarrow> nat \<Rightarrow> (nat \<times> u64) list \<Rightarrow> bool" where
  "used_ok rl e used \<longleftrightarrow> distinct used \<and> write_seq rl \<le> SEQ_HARD_LIMIT
     \<and> list_all (\<lambda>(k, s). k \<le> e \<and> s < SEQ_HARD_LIMIT \<and> (k = e \<longrightarrow> s < write_seq rl)) used"

lemma used_ok_write: "used_ok rl e used \<Longrightarrow> write_seq rl' = write_seq rl \<Longrightarrow> used_ok rl' e used"
  by (simp add: used_ok_def)

lemma used_ok_new_key: "used_ok rl e used \<Longrightarrow> write_seq rl' = 0 \<Longrightarrow> used_ok rl' (Suc e) used"
  by (auto simp: used_ok_def list_all_iff)

lemma used_ok_sealed:
  assumes "used_ok rl e used" "write_seq rl < SEQ_HARD_LIMIT" "write_seq rl' = write_seq rl + 1"
  shows "used_ok rl' e (used @ [(e, write_seq rl)])"
proof -
  have b: "k \<le> e \<and> s < SEQ_HARD_LIMIT \<and> (k = e \<longrightarrow> s < write_seq rl)" if "(k, s) \<in> set used" for k s
    using assms(1) that by (auto simp: used_ok_def list_all_iff)
  then have "(e, write_seq rl) \<notin> set used" by (auto dest: b)
  moreover have "k \<le> e \<and> s < SEQ_HARD_LIMIT \<and> (k = e \<longrightarrow> s < write_seq rl')" if "(k, s) \<in> set used" for k s
    using b [OF that] assms(3) seq_step(2) [OF assms(2), of s] by auto
  ultimately show ?thesis
    using assms seq_step [OF assms(2)] by (auto simp: used_ok_def list_all_iff)
qed

lemma rl_run_used: "rl_run ae rl e used \<Longrightarrow> used_ok rl e used"
proof (induction rule: rl_run.induct)
  case (sealed rl e used m c rl')
  note r = encrypt_outgoing_Ok [OF sealed.hyps(2)]
  show ?case by (rule used_ok_sealed [OF sealed.IH r(2)]) (simp add: r(1))
next
  case (opened rl e used c res rl')
  then show ?case using decrypt_incoming_write by (blast intro: used_ok_write)
next
  case (encrypter rl e used c)
  show ?case by (rule used_ok_new_key [OF encrypter.IH]) (simp add: prepare_message_encrypter_def)
next
  case new
  show ?case by (simp add: used_ok_def rl_new_def)
qed (erule used_ok_write, simp add: start_encrypting_def prepare_message_decrypter_def start_decrypting_def)+

section \<open>Two record layers with the same key\<close>

definition matching :: "message_encrypter \<Rightarrow> message_decrypter \<Rightarrow> bool" where
  "matching enc dec =
     (case (enc, dec) of
        (Tls13MessageEncrypter al k iv, Tls13MessageDecrypter al' k' iv') \<Rightarrow> (al', k', iv') = (al, k, iv)
      | (GcmMessageEncrypter al k iv, GcmMessageDecrypter al' k' salt) \<Rightarrow>
          (al', k', salt) = (al, k, take 4 iv) \<and> length iv = 12
      | (ChaCha20Poly1305MessageEncrypter k iv, ChaCha20Poly1305MessageDecrypter k' iv') \<Rightarrow> (k', iv') = (k, iv)
      | _ \<Rightarrow> False)"

text \<open>The message as the receiver sees it: TLS 1.3 does not transmit the version.\<close>

definition received_as :: "message_encrypter \<Rightarrow> plain_message \<Rightarrow> plain_message" where
  "received_as enc m =
     (case enc of Tls13MessageEncrypter al k iv \<Rightarrow> m\<lparr>pm_version := PV_TLSv1_3\<rparr> | _ \<Rightarrow> m)"

lemma gcm_seal12_iv:
  assumes "length iv = 12"
  shows "gcm_seal12 al k (take 4 iv) (drop 4 iv) ae = gcm_encrypt ae al k iv" "take 4 (take 4 iv @ replicate 4 0) = take 4 iv"
  using assms by (simp_all add: gcm_seal12_def gcm_iv_def)

lemma matching_decrypt:
  assumes "aead_ok ae" "pm_ok m" "matching enc dec"
  shows "\<exists>c. encrypt ae enc m seq = Ok c \<and> om_wf c \<and> decrypt ae dec c seq = Ok (received_as enc m)"
proof (cases enc)
  case (Tls13MessageEncrypter al k iv)
  then show ?thesis
    using assms tls13.seal_total [of ae m al k iv seq] tls13.unseal_seal [of ae m al k iv seq]
    by (auto simp: matching_def received_as_def split: message_decrypter.splits)
next
  case (GcmMessageEncrypter al k iv)
  then have l: "length iv = 12" and d: "dec = GcmMessageDecrypter al k (take 4 iv)"
    using assms(3) by (auto simp: matching_def split: message_decrypter.splits)
  then show ?thesis
    using GcmMessageEncrypter gcm12.seal_total [OF assms(1,2), of al k "take 4 iv" "drop 4 iv" seq]
      gcm12.unseal_seal [OF assms(1,2), of al k "take 4 iv" "drop 4 iv" seq]
    by (auto simp: gcm_seal12_iv [OF l] received_as_def)
next
  case (ChaCha20Poly1305MessageEncrypter k iv)
  then show ?thesis
    using assms chacha12.seal_total [of ae m k iv seq] chacha12.unseal_seal [of ae m k iv seq]
    by (auto simp: matching_def received_as_def split: message_decrypter.splits)
qed (use assms(3) in \<open>simp add: matching_def\<close>)

definition in_step :: "record_layer \<Rightarrow> record_layer \<Rightarrow> bool" where
  "in_step s r \<longleftrightarrow> matching (rl_encrypter s) (rl_decrypter r) \<and> decrypt_state r = Active
     \<and> write_seq s = read_seq r"

lemma in_step_message:
  assumes "aead_ok ae" "pm_ok m" "in_step s r" "\<not> encrypt_exhausted s"
  shows "\<exists>c s' r' d. encrypt_outgoing ae m s = Ok (c, s') \<and> om_wf c
    \<and> decrypt_incoming ae c r = (Ok (Some d), r') \<and> plaintext d = received_as (rl_encrypter s) m
    \<and> in_step s' r' \<and> write_seq s' = write_seq s + 1 \<and> rl_encrypter s' = rl_encrypter s \<and> has_decrypted r'"
proof -
  from matching_decrypt [OF assms(1,2), of "rl_encrypter s" "rl_decrypter r" "write_seq s"] assms(3)
  obtain c where c: "encrypt ae (rl_encrypter s) m (write_seq s) = Ok c" "om_wf c"
    "decrypt ae (rl_decrypter r) c (read_seq r) = Ok (received_as (rl_encrypter s) m)"
    by (auto simp: in_step_def)
  then show ?thesis using assms(3,4)
    by (auto simp: encrypt_outgoing_def decrypt_incoming_def in_step_def Let_def)
qed

section \<open>Trial decryption\<close>

text \<open>
  Records a server skips because they were encrypted with rejected early keys: together at most
  the announced length.
\<close>

fun skip_all :: "aead \<Rightarrow> opaque_message list \<Rightarrow> record_layer \<Rightarrow> nat option" where
  "skip_all ae [] rl = Some 0"
| "skip_all ae (c # cs) rl =
     (case decrypt_incoming ae c rl of
        (Ok None, rl') \<Rightarrow> map_option (\<lambda>n. length (om_payload c) + n) (skip_all ae cs rl')
      | _ \<Rightarrow> None)"

lemma decrypt_incoming_None:
  assumes "decrypt_incoming ae c rl = (Ok None, rl')"
  shows "\<exists>v. trial_decryption_len rl = Some v \<and> length (om_payload c) \<le> v
    \<and> trial_decryption_len rl' = Some (v - length (om_payload c))"
  using assms by (auto simp: decrypt_incoming_def doing_trial_decryption_def Let_def
      split: if_splits outcome.splits tls_error.splits option.splits prod.splits bool.splits)

lemma skip_all_bound:
  "skip_all ae cs rl = Some n \<Longrightarrow> cs \<noteq> [] \<Longrightarrow> \<exists>v. trial_decryption_len rl = Some v \<and> n \<le> v"
proof (induction ae cs rl arbitrary: n rule: skip_all.induct)
  case (2 ae c cs rl)
  obtain rl' k where d: "decrypt_incoming ae c rl = (Ok None, rl')" and k: "skip_all ae cs rl' = Some k"
    "n = length (om_payload c) + k"
    using 2(2) by (auto split: prod.splits outcome.splits option.splits)
  from decrypt_incoming_None [OF d] obtain v where v: "trial_decryption_len rl = Some v" "length (om_payload c) \<le> v"
    "trial_decryption_len rl' = Some (v - length (om_payload c))" by blast
  have "k \<le> v - length (om_payload c)"
  proof (cases "cs = []")
    case False
    with 2(1) d k(1) v(3) show ?thesis by fastforce
  qed (use k in simp)
  with v k show ?case by auto
qed simp

end
