(* ===== verification/Rustls_Deframer.thy ===== *)
theory Rustls_Deframer
  imports Rustls_Record Io
begin

text \<open>
  \<open>orcax/rustls-fork/rustls/src/msgs/deframer.rs\<close>: the buffer in which records are received,
  decrypted and handshake messages are joined.

  The buffer is a list of bytes whose prefix of length \<open>dused\<close> is in use. Joined handshake
  payloads are written over the records they came from, as in the source, so every slice and
  every copy of the model is checked against the length of the buffer.
\<close>

section \<open>State\<close>

definition HANDSHAKE_HEADER_SIZE :: nat where "HANDSHAKE_HEADER_SIZE = 1 + 3"

definition MAX_HANDSHAKE_SIZE :: u32 where "MAX_HANDSHAKE_SIZE = 0xffff"

definition READ_SIZE :: nat where "READ_SIZE = 4096"

record handshake_payload_meta =
  message_start :: nat
  message_end :: nat
  payload_start :: nat
  payload_end :: nat
  hm_version :: protocol_version
  expected_len :: "nat option"
  quic :: bool

record message_deframer =
  last_error :: "tls_error option"
  dbuf :: bytes
  joining_hs :: "handshake_payload_meta option"
  dused :: nat

record deframed =
  df_want_close_before_decrypt :: bool
  aligned :: bool
  trial_decryption_finished :: bool
  df_message :: plain_message

datatype handshake_payload_state = Blocked | Complete nat | Continue

definition deframer_default :: message_deframer where
  "deframer_default = \<lparr>last_error = None, dbuf = [], joining_hs = None, dused = 0\<rparr>"

section \<open>Operations\<close>

definition payload_size :: "bytes \<Rightarrow> (tls_error, nat option) outcome" where
  "payload_size buf =
     (if length buf < HANDSHAKE_HEADER_SIZE then Ok None
      else case read_bytes_with u24_read (slice 1 HANDSHAKE_HEADER_SIZE buf) of
        Ok (U24 len) \<Rightarrow>
          if len > MAX_HANDSHAKE_SIZE then Err (InvalidMessage HandshakePayloadTooLarge)
          else Ok (Some (HANDSHAKE_HEADER_SIZE + u24_usize (U24 len)))
      | _ \<Rightarrow> Ok None)"

definition payload_len :: "handshake_payload_meta \<Rightarrow> nat" where
  "payload_len meta = payload_end meta - payload_start meta"

text \<open>\<open>buf[a..a + bytes.len()].copy_from_slice(bytes)\<close>\<close>

definition copy_at :: "nat \<Rightarrow> bytes \<Rightarrow> bytes \<Rightarrow> ('e, bytes) outcome" where
  "copy_at a bs buf =
     (if a + length bs \<le> length buf then Ok (take a buf @ bs @ drop (a + length bs) buf) else Panic)"

definition hs_state :: "nat \<Rightarrow> handshake_payload_meta \<Rightarrow> handshake_payload_state" where
  "hs_state used meta =
     (let more = (if used > message_end meta then Continue else Blocked)
      in case expected_len meta of
           Some len \<Rightarrow> if len \<le> payload_len meta then Complete len else more
         | None \<Rightarrow> more)"

text \<open>Parse the size of the joined payload when it is not known yet.\<close>

definition join_size :: "bytes \<Rightarrow> handshake_payload_meta \<Rightarrow> (tls_error, handshake_payload_meta) outcome" where
  "join_size buf meta =
     (if expected_len meta = None then
        outcome_bind (sub buf (payload_start meta) (payload_end meta)) (\<lambda>p.
        outcome_bind (payload_size p) (\<lambda>len. Ok (meta\<lparr>expected_len := len\<rparr>)))
      else Ok meta)"

definition append_joined ::
    "bytes \<Rightarrow> nat \<Rightarrow> handshake_payload_meta \<Rightarrow> message_deframer \<Rightarrow>
     (tls_error, handshake_payload_state) outcome \<times> message_deframer" where
  "append_joined bs fin meta df =
     (case copy_at (payload_end meta) bs (dbuf df) of
        Ok buf \<Rightarrow>
          (let meta' = meta\<lparr>message_end := fin, payload_end := payload_end meta + length bs\<rparr>;
              df' = df\<lparr>dbuf := buf, joining_hs := Some meta'\<rparr>
          in case join_size buf meta' of
               Ok meta'' \<Rightarrow> (Ok (hs_state (dused df) meta''), df'\<lparr>joining_hs := Some meta''\<rparr>)
             | Err e \<Rightarrow> (Err e, df')
             | Panic \<Rightarrow> (Panic, df'))
      | Err e \<Rightarrow> (Err e, df)
      | Panic \<Rightarrow> (Panic, df))"

definition append_first ::
    "protocol_version \<Rightarrow> bytes \<Rightarrow> nat \<Rightarrow> bool \<Rightarrow> message_deframer \<Rightarrow>
     (tls_error, handshake_payload_state) outcome \<times> message_deframer" where
  "append_first version bs fin q df =
     (case payload_size bs of
        Ok len \<Rightarrow>
          (case copy_at 0 bs (dbuf df) of
             Ok buf \<Rightarrow>
               (let meta = \<lparr>message_start = 0, message_end = fin, payload_start = 0, payload_end = length bs,
                 hm_version = version, expected_len = len, quic = q\<rparr>
               in (Ok (hs_state (dused df) meta), df\<lparr>dbuf := buf, joining_hs := Some meta\<rparr>))
           | Err e \<Rightarrow> (Err e, df)
           | Panic \<Rightarrow> (Panic, df))
      | Err e \<Rightarrow> (Err e, df)
      | Panic \<Rightarrow> (Panic, df))"

definition append_hs ::
    "protocol_version \<Rightarrow> bytes \<Rightarrow> nat \<Rightarrow> bool \<Rightarrow> message_deframer \<Rightarrow>
     (tls_error, handshake_payload_state) outcome \<times> message_deframer" where
  "append_hs version bs fin q df =
     (case joining_hs df of
        Some meta \<Rightarrow> append_joined bs fin meta df
      | None \<Rightarrow> append_first version bs fin q df)"

definition discard :: "nat \<Rightarrow> message_deframer \<Rightarrow> message_deframer" where
  "discard taken df =
     (if taken < dused df then
        df\<lparr>dbuf := slice taken (dused df) (dbuf df) @ drop (dused df - taken) (dbuf df), dused := dused df - taken\<rparr>
      else if taken = dused df then df\<lparr>dused := 0\<rparr>
      else df)"

definition set_err :: "tls_error \<Rightarrow> message_deframer \<Rightarrow> message_deframer" where
  "set_err e df = df\<lparr>last_error := Some e\<rparr>"

definition prepare_read :: "message_deframer \<Rightarrow> message_deframer option" where
  "prepare_read df =
     (let allow_max = (case joining_hs df of Some _ \<Rightarrow> unat MAX_HANDSHAKE_SIZE | None \<Rightarrow> MAX_WIRE_SIZE);
          need_capacity = min allow_max (dused df + READ_SIZE);
          resized = take need_capacity (dbuf df) @ replicate (need_capacity - length (dbuf df)) 0
      in if dused df \<ge> allow_max then None
         else if need_capacity > length (dbuf df) \<or> dused df = 0 \<or> length (dbuf df) > allow_max
         then Some (df\<lparr>dbuf := resized\<rparr>)
         else Some df)"

text \<open>
  \<open>read\<close> takes the bytes of one read from the socket. The result is None when the buffer is full;
  otherwise the number of bytes read.
\<close>

definition deframer_read :: "segs \<Rightarrow> message_deframer \<Rightarrow> (nat \<times> message_deframer \<times> segs) option" where
  "deframer_read s df =
     (case prepare_read df of
        None \<Rightarrow> None
      | Some df' \<Rightarrow>
          (case read_some (length (dbuf df') - dused df') s of (bs, s') \<Rightarrow>
             Some (length bs,
               df'\<lparr>dbuf := take (dused df') (dbuf df') @ bs @ drop (dused df' + length bs) (dbuf df'),
                   dused := dused df' + length bs\<rparr>, s')))"

definition deframer_push ::
    "protocol_version \<Rightarrow> bytes \<Rightarrow> message_deframer \<Rightarrow> (tls_error, unit) outcome \<times> message_deframer" where
  "deframer_push version payload df =
     (if dused df > 0 \<and> joining_hs df = None
      then (Err (General ''cannot push QUIC messages into unrelated connection''), df)
      else case prepare_read df of
        None \<Rightarrow> (Err (General ''message buffer full''), df)
      | Some df \<Rightarrow>
          (let fin = dused df + length payload
          in case append_hs version payload fin True df of
               (Ok _, df') \<Rightarrow> (Ok (), df'\<lparr>dused := fin\<rparr>)
             | (Err e, df') \<Rightarrow> (Err e, df')
             | (Panic, df') \<Rightarrow> (Panic, df')))"

definition has_pending :: "message_deframer \<Rightarrow> bool" where
  "has_pending df \<longleftrightarrow> dused df > 0"

definition take_pending :: "message_deframer \<Rightarrow> ('e, bytes \<times> message_deframer) outcome" where
  "take_pending df =
     (if dused df = 0 then Ok ([], df)
      else outcome_bind (sub (dbuf df) 0 (dused df)) (\<lambda>data. Ok (data, df\<lparr>dused := 0\<rparr>)))"

section \<open>pop\<close>

datatype pop_flow =
    Return "(tls_error, deframed option) outcome"
  | Go_on
  | Break_with nat

text \<open>The decision at the head of the loop; None when the buffer has to be parsed.\<close>

definition pop_head :: "message_deframer \<Rightarrow> pop_flow option" where
  "pop_head df =
     (case joining_hs df of
        Some meta \<Rightarrow>
          (case expected_len meta of
             Some len \<Rightarrow>
               if len \<le> payload_len meta then Some (Break_with len)
               else if quic meta then Some (Return (Ok None)) else None
           | None \<Rightarrow> if quic meta then Some (Return (Ok None)) else None)
      | None \<Rightarrow> None)"

definition pop_start :: "message_deframer \<Rightarrow> nat" where
  "pop_start df = (case joining_hs df of Some meta \<Rightarrow> message_end meta | None \<Rightarrow> 0)"

primrec record_error :: "message_error \<Rightarrow> invalid_message option" where
  "record_error TooShortForHeader = None"
| "record_error TooShortForLength = None"
| "record_error EmptyPayload = Some InvalidEmptyPayload"
| "record_error PayloadTooLarge = Some MessageTooLarge"
| "record_error ContentTypeInvalid = Some InvalidContentType"
| "record_error ProtocolVersionUnknown = Some UnknownProtocolVersion"

definition allowed_plaintext :: "protocol_version option \<Rightarrow> record_layer \<Rightarrow> opaque_message \<Rightarrow> bool" where
  "allowed_plaintext negotiated_version rl m =
     (case om_typ m of
        CT_ChangeCipherSpec \<Rightarrow> True
      | CT_Alert \<Rightarrow> negotiated_version = Some PV_TLSv1_3 \<and> \<not> has_decrypted rl \<and> length (om_payload m) \<le> 2
      | _ \<Rightarrow> False)"

definition single :: "plain_message \<Rightarrow> deframed" where
  "single m = \<lparr>df_want_close_before_decrypt = False, aligned = True, trial_decryption_finished = False,
     df_message = m\<rparr>"

text \<open>A decrypted record that ends at \<open>fin\<close>.\<close>

definition pop_plain :: "plain_message \<Rightarrow> nat \<Rightarrow> message_deframer \<Rightarrow> pop_flow \<times> message_deframer" where
  "pop_plain msg fin df =
     (if joining_hs df \<noteq> None \<and> pm_typ msg \<noteq> CT_Handshake then
        (Return (Err (PeerMisbehaved MessageInterleavedWithHandshakeMessage)),
         set_err (PeerMisbehaved MessageInterleavedWithHandshakeMessage) df)
      else if pm_typ msg \<noteq> CT_Handshake then (Return (Ok (Some (single msg))), discard fin df)
      else case append_hs (pm_version msg) (pm_payload msg) fin False df of
        (Ok Blocked, df') \<Rightarrow> (Return (Ok None), df')
      | (Ok (Complete len), df') \<Rightarrow> (Break_with len, df')
      | (Ok Continue, df') \<Rightarrow> (Go_on, df')
      | (Err e, df') \<Rightarrow> (Return (Err e), df')
      | (Panic, df') \<Rightarrow> (Return Panic, df'))"

definition pop_record ::
    "aead \<Rightarrow> protocol_version option \<Rightarrow> opaque_message \<Rightarrow> nat \<Rightarrow> message_deframer \<Rightarrow> record_layer \<Rightarrow>
     pop_flow \<times> message_deframer \<times> record_layer" where
  "pop_record ae negotiated_version m fin df rl =
     (if joining_hs df = None \<and> allowed_plaintext negotiated_version rl m then
        (Return (Ok (Some (single (into_plain_message m)))), discard fin df, rl)
      else case decrypt_incoming ae m rl of
        (Ok (Some d), rl') \<Rightarrow> (case pop_plain (plaintext d) fin df of (fl, df') \<Rightarrow> (fl, df', rl'))
      | (Ok None, rl') \<Rightarrow>
          if joining_hs df \<noteq> None then
            (Return (Err (PeerMisbehaved RejectedEarlyDataInterleavedWithHandshakeMessage)),
             set_err (PeerMisbehaved RejectedEarlyDataInterleavedWithHandshakeMessage) df, rl')
          else (Go_on, discard fin df, rl')
      | (Err e, rl') \<Rightarrow> (Return (Err e), df, rl')
      | (Panic, rl') \<Rightarrow> (Return Panic, df, rl'))"

definition pop_iter ::
    "aead \<Rightarrow> protocol_version option \<Rightarrow> message_deframer \<Rightarrow> record_layer \<Rightarrow>
     pop_flow \<times> message_deframer \<times> record_layer" where
  "pop_iter ae negotiated_version df rl =
     (case pop_head df of
        Some fl \<Rightarrow> (fl, df, rl)
      | None \<Rightarrow>
          (case sub (dbuf df) (pop_start df) (dused df) of
             Ok pending \<Rightarrow>
               (case om_read (reader_init pending) of
                  Ok (m, rd) \<Rightarrow> pop_record ae negotiated_version m (pop_start df + r_used rd) df rl
                | Err e \<Rightarrow>
                    (case record_error e of
                       None \<Rightarrow> (Return (Ok None), df, rl)
                     | Some k \<Rightarrow> (Return (Err (InvalidMessage k)), set_err (InvalidMessage k) df, rl))
                | Panic \<Rightarrow> (Return Panic, df, rl))
           | Err e \<Rightarrow> (Return (Err e), df, rl)
           | Panic \<Rightarrow> (Return Panic, df, rl)))"

text \<open>Every iteration consumes a record.\<close>

lemma om_read_used:
  assumes "om_read (reader_init bs) = Ok (m, rd)"
  shows "r_used rd = 5 + length (om_payload m)" "5 + length (om_payload m) \<le> length bs"
  using assms by (auto simp: om_read_init r_used_def)

lemma append_hs_start:
  assumes "append_hs v bs fin q df = (Ok st, df')"
  shows "pop_start df' = fin" "dused df' = dused df"
  using assms
  by (auto simp: append_hs_def append_joined_def append_first_def pop_start_def join_size_def Let_def outcome_bind_Ok_iff
      split: option.splits outcome.splits if_splits)

lemma pop_plain_Go_on:
  assumes "pop_plain m fin df = (Go_on, df')" "dused df \<ge> fin" "fin > pop_start df"
  shows "dused df' - pop_start df' < dused df - pop_start df"
  using assms append_hs_start [of "pm_version m" "pm_payload m" fin False df]
  by (fastforce simp: pop_plain_def split: if_splits prod.splits outcome.splits handshake_payload_state.splits)

lemma discard_measure:
  assumes "0 < fin" "fin \<le> dused df" "joining_hs df = None"
  shows "dused (discard fin df) - pop_start (discard fin df) < dused df - pop_start df"
  using assms by (auto simp: discard_def pop_start_def)

lemma pop_iter_measure:
  assumes "pop_iter ae nv df rl = (Go_on, df', rl')"
  shows "dused df' - pop_start df' < dused df - pop_start df"
proof -
  obtain pending m rd where p: "sub (dbuf df) (pop_start df) (dused df) = (Ok pending :: (tls_error, bytes) outcome)"
    and m: "om_read (reader_init pending) = Ok (m, rd)"
    and r: "pop_record ae nv m (pop_start df + r_used rd) df rl = (Go_on, df', rl')"
    using assms by (auto simp: pop_iter_def pop_head_def split: option.splits outcome.splits if_splits)
  have l: "length pending = dused df - pop_start df" using p by (auto simp: sub_def split: if_splits)
  show ?thesis
    using r om_read_used [OF m] l pop_plain_Go_on [of _ "pop_start df + r_used rd" df df']
      discard_measure [of "pop_start df + r_used rd" df]
    by (fastforce simp: pop_record_def split: if_splits prod.splits outcome.splits option.splits)
qed

function pop_loop ::
    "aead \<Rightarrow> protocol_version option \<Rightarrow> message_deframer \<Rightarrow> record_layer \<Rightarrow>
     ((tls_error, deframed option) outcome + nat) \<times> message_deframer \<times> record_layer" where
  "pop_loop ae nv df rl =
     (case pop_iter ae nv df rl of
        (Return res, df', rl') \<Rightarrow> (Inl res, df', rl')
      | (Break_with len, df', rl') \<Rightarrow> (Inr len, df', rl')
      | (Go_on, df', rl') \<Rightarrow> pop_loop ae nv df' rl')"
  by pat_completeness auto
termination
  by (relation "measure (\<lambda>(ae, nv, df, rl). dused df - pop_start df)") (auto dest: pop_iter_measure [OF sym])

declare pop_loop.simps [simp del]

text \<open>Yield a complete handshake message and move on to the payload after it.\<close>

definition pop_joined ::
    "nat \<Rightarrow> message_deframer \<Rightarrow> (tls_error, deframed option) outcome \<times> message_deframer" where
  "pop_joined len df =
     (case joining_hs df of
        None \<Rightarrow> (Panic, df)
      | Some meta \<Rightarrow>
          (case sub (dbuf df) (payload_start meta) (payload_start meta + len) of
             Ok p \<Rightarrow>
               (let yield = (\<lambda>al. Ok (Some \<lparr>df_want_close_before_decrypt = False, aligned = al,
                   trial_decryption_finished = True,
                   df_message = \<lparr>pm_typ = CT_Handshake, pm_version = hm_version meta, pm_payload = p\<rparr>\<rparr>));
                 meta' = meta\<lparr>payload_start := payload_start meta + len\<rparr>;
                 df' = df\<lparr>joining_hs := Some meta'\<rparr>
               in if payload_len meta > len then
                    (case sub (dbuf df) (payload_start meta') (payload_end meta') of
                       Ok q \<Rightarrow>
                         (case payload_size q of
                            Ok len' \<Rightarrow> (yield False, df'\<lparr>joining_hs := Some (meta'\<lparr>expected_len := len'\<rparr>)\<rparr>)
                          | Err e \<Rightarrow> (Err e, df')
                          | Panic \<Rightarrow> (Panic, df'))
                     | Err e \<Rightarrow> (Err e, df')
                     | Panic \<Rightarrow> (Panic, df'))
                  else (yield True, discard (message_end meta) (df\<lparr>joining_hs := None\<rparr>)))
           | Err e \<Rightarrow> (Err e, df)
           | Panic \<Rightarrow> (Panic, df)))"

definition deframer_pop ::
    "aead \<Rightarrow> protocol_version option \<Rightarrow> message_deframer \<Rightarrow> record_layer \<Rightarrow>
     (tls_error, deframed option) outcome \<times> message_deframer \<times> record_layer" where
  "deframer_pop ae negotiated_version df rl =
     (case last_error df of
        Some e \<Rightarrow> (Err e, df, rl)
      | None \<Rightarrow>
          if dused df = 0 then (Ok None, df, rl)
          else case pop_loop ae negotiated_version df rl of
            (Inl res, df', rl') \<Rightarrow> (res, df', rl')
          | (Inr len, df', rl') \<Rightarrow> (case pop_joined len df' of (res, df'') \<Rightarrow> (res, df'', rl')))"

section \<open>No panics\<close>

definition df_ranges :: "message_deframer \<Rightarrow> bool" where
  "df_ranges df \<longleftrightarrow> dused df \<le> length (dbuf df) \<and> length (dbuf df) \<le> 65535
     \<and> (case joining_hs df of
          None \<Rightarrow> True
        | Some m \<Rightarrow> \<not> quic m \<and> payload_start m \<le> payload_end m \<and> payload_end m \<le> message_end m
            \<and> message_end m \<le> dused df)"

definition joined_len :: "nat \<Rightarrow> message_deframer \<Rightarrow> bool" where
  "joined_len len df \<longleftrightarrow> (\<exists>meta. joining_hs df = Some meta \<and> len \<le> payload_len meta)"

lemma payload_size_no_panic: "payload_size p \<noteq> Panic"
  by (auto simp: payload_size_def split: outcome.splits u24.splits)

lemma copy_at_Ok: "a + length bs \<le> length buf \<Longrightarrow> copy_at a bs buf = Ok (take a buf @ bs @ drop (a + length bs) buf)"
  by (simp add: copy_at_def)

lemma hs_state_Complete: "hs_state n m = Complete len \<Longrightarrow> len \<le> payload_len m"
  by (auto simp: hs_state_def Let_def split: option.splits if_splits)

lemma append_first_ranges:
  assumes "df_ranges df" "joining_hs df = None" "length bs \<le> fin" "fin \<le> dused df"
    and "append_first v bs fin False df = (res, df')"
  shows "df_ranges df' \<and> res \<noteq> Panic \<and> (\<forall>len. res = Ok (Complete len) \<longrightarrow> joined_len len df')"
proof -
  have "copy_at 0 bs (dbuf df) = (Ok (bs @ drop (length bs) (dbuf df)) :: (tls_error, bytes) outcome)"
    using assms(1,3,4) by (simp add: copy_at_def df_ranges_def)
  then show ?thesis using assms payload_size_no_panic [of bs]
    by (auto simp: append_first_def df_ranges_def joined_len_def Let_def
        dest: hs_state_Complete split: outcome.splits)
qed

lemma join_size_Ok:
  assumes "join_size buf m = Ok m'"
  shows "\<exists>e. m' = m\<lparr>expected_len := e\<rparr>"
  using assms by (auto simp: join_size_def outcome_bind_Ok_iff split: if_splits intro: exI [of _ "expected_len m"])

lemma append_joined_ranges:
  assumes "df_ranges df" "joining_hs df = Some m" "message_end m + length bs \<le> fin" "fin \<le> dused df"
    and "append_joined bs fin m df = (res, df')"
  shows "df_ranges df' \<and> res \<noteq> Panic \<and> (\<forall>len. res = Ok (Complete len) \<longrightarrow> joined_len len df')"
proof -
  define buf where "buf = take (payload_end m) (dbuf df) @ bs @ drop (payload_end m + length bs) (dbuf df)"
  define m' where "m' = m\<lparr>message_end := fin, payload_end := payload_end m + length bs\<rparr>"
  have c: "copy_at (payload_end m) bs (dbuf df) = (Ok buf :: (tls_error, bytes) outcome)"
    using assms(1-4) by (simp add: copy_at_def df_ranges_def buf_def)
  have l: "length buf = length (dbuf df)" using assms(1-4) by (simp add: df_ranges_def buf_def)
  have j: "join_size buf m' \<noteq> Panic"
    using assms(1-4) l payload_size_no_panic
    by (auto simp: join_size_def df_ranges_def m'_def outcome_bind_def split: outcome.splits)
  have a: "append_joined bs fin m df =
    (case join_size buf m' of
       Ok m'' \<Rightarrow> (Ok (hs_state (dused df) m''), df\<lparr>dbuf := buf, joining_hs := Some m''\<rparr>)
     | Err e \<Rightarrow> (Err e, df\<lparr>dbuf := buf, joining_hs := Some m'\<rparr>)
     | Panic \<Rightarrow> (Panic, df\<lparr>dbuf := buf, joining_hs := Some m'\<rparr>))"
    using c by (simp add: append_joined_def m'_def Let_def split: outcome.splits)
  show ?thesis
    using assms(1-5) j l join_size_Ok [of buf m'] unfolding a
    by (auto simp: df_ranges_def joined_len_def m'_def payload_len_def dest: hs_state_Complete split: outcome.splits)
qed

lemma append_hs_ranges:
  assumes "df_ranges df" "pop_start df + length bs \<le> fin" "fin \<le> dused df"
    and "append_hs v bs fin False df = (res, df')"
  shows "df_ranges df' \<and> res \<noteq> Panic \<and> (\<forall>len. res = Ok (Complete len) \<longrightarrow> joined_len len df')"
proof (cases "joining_hs df")
  case None
  then show ?thesis using append_first_ranges [OF assms(1) None _ assms(3)] assms(2,4)
    by (simp add: append_hs_def pop_start_def)
next
  case (Some m)
  then show ?thesis using append_joined_ranges [OF assms(1) Some _ assms(3)] assms(2,4)
    by (simp add: append_hs_def pop_start_def)
qed

lemma discard_ranges:
  assumes "df_ranges df" "joining_hs df = None"
  shows "df_ranges (discard fin df)"
  using assms by (auto simp: df_ranges_def discard_def)

definition flow_ok :: "pop_flow \<Rightarrow> message_deframer \<Rightarrow> bool" where
  "flow_ok fl df \<longleftrightarrow> df_ranges df \<and> fl \<noteq> Return Panic \<and> (\<forall>len. fl = Break_with len \<longrightarrow> joined_len len df)"

lemma pop_plain_ok:
  assumes "df_ranges df" "pop_start df + length (pm_payload m) \<le> fin" "fin \<le> dused df"
    and "pop_plain m fin df = (fl, df')"
  shows "flow_ok fl df'"
proof (cases "pm_typ m = CT_Handshake")
  case True
  obtain res df1 where a: "append_hs (pm_version m) (pm_payload m) fin False df = (res, df1)" by fastforce
  show ?thesis using append_hs_ranges [OF assms(1-3) a] a True assms(4)
    by (auto simp: pop_plain_def flow_ok_def split: outcome.splits handshake_payload_state.splits)
next
  case False
  then show ?thesis using assms(1,4) discard_ranges [OF assms(1), of fin]
    by (auto simp: pop_plain_def flow_ok_def set_err_def df_ranges_def split: if_splits)
qed

lemma decrypt_incoming_ok:
  assumes "aead_ok ae" "decrypt_incoming ae c rl = (res, rl')"
  shows "res \<noteq> Panic" "res = Ok (Some d) \<Longrightarrow> length (pm_payload (plaintext d)) \<le> length (om_payload c)"
proof -
  show "res \<noteq> Panic"
    using assms(2) decrypt_no_panic [of ae "rl_decrypter rl" c "read_seq rl"]
    by (auto simp: decrypt_incoming_def Let_def split: if_splits outcome.splits tls_error.splits prod.splits bool.splits)
  show "length (pm_payload (plaintext d)) \<le> length (om_payload c)" if "res = Ok (Some d)"
    using assms(2) that decrypt_shorter [OF assms(1), of "rl_decrypter rl" c "read_seq rl"]
    by (auto simp: decrypt_incoming_def into_plain_message_def Let_def
        split: if_splits outcome.splits tls_error.splits prod.splits bool.splits)
qed

lemma pop_record_ok:
  assumes "aead_ok ae" "df_ranges df" "pop_start df + length (om_payload m) \<le> fin" "fin \<le> dused df"
    and "pop_record ae nv m fin df rl = (fl, df', rl')"
  shows "flow_ok fl df'"
proof (cases "joining_hs df = None \<and> allowed_plaintext nv rl m")
  case True
  then show ?thesis using assms(5) discard_ranges [OF assms(2), of fin] by (auto simp: pop_record_def flow_ok_def)
next
  case False
  obtain res rl1 where d: "decrypt_incoming ae m rl = (res, rl1)" by fastforce
  note ok = decrypt_incoming_ok [OF assms(1) d]
  show ?thesis
  proof (cases "\<exists>x. res = Ok (Some x)")
    case True
    then obtain x where x: "res = Ok (Some x)" by blast
    obtain fl1 df1 where p: "pop_plain (plaintext x) fin df = (fl1, df1)" by fastforce
    have "pop_start df + length (pm_payload (plaintext x)) \<le> fin" using ok(2) [OF x] assms(3) by simp
    from pop_plain_ok [OF assms(2) this assms(4) p] show ?thesis
      using assms(5) False d x p by (auto simp: pop_record_def)
  next
    case nx: False
    show ?thesis using assms(2,5) False d ok(1) nx discard_ranges [OF assms(2), of fin]
      by (auto simp: pop_record_def flow_ok_def set_err_def df_ranges_def
          split: outcome.splits option.splits if_splits)
  qed
qed

lemma pop_iter_ok:
  assumes "aead_ok ae" "df_ranges df" "pop_iter ae nv df rl = (fl, df', rl')"
  shows "flow_ok fl df'"
proof (cases "pop_head df")
  case (Some fl')
  then show ?thesis using assms(2,3)
    by (auto simp: pop_iter_def pop_head_def flow_ok_def joined_len_def split: option.splits if_splits)
next
  case None
  have p: "sub (dbuf df) (pop_start df) (dused df) = (Ok (slice (pop_start df) (dused df) (dbuf df)) :: (tls_error, bytes) outcome)"
    using assms(2) by (auto simp: df_ranges_def pop_start_def split: option.splits)
  have l: "length (slice (pop_start df) (dused df) (dbuf df)) = dused df - pop_start df"
    using assms(2) by (auto simp: df_ranges_def pop_start_def split: option.splits)
  show ?thesis
  proof (cases "om_read (reader_init (slice (pop_start df) (dused df) (dbuf df)))")
    case (Ok mr)
    obtain m rd where mr: "mr = (m, rd)" by (cases mr)
    note u = om_read_used [OF Ok [unfolded mr]]
    show ?thesis
      by (rule pop_record_ok [OF assms(1,2), of m "pop_start df + r_used rd" nv rl fl df' rl'])
        (use u l assms(3) None p Ok mr in \<open>auto simp: pop_iter_def\<close>)
  next
    case (Err e)
    then show ?thesis using assms(2,3) None p
      by (auto simp: pop_iter_def flow_ok_def set_err_def df_ranges_def split: option.splits)
  next
    case Panic
    then show ?thesis using gives_no_panic [OF om_read_gives, of "reader_init (slice (pop_start df) (dused df) (dbuf df))"] by simp
  qed
qed

lemma pop_loop_ok:
  "aead_ok ae \<Longrightarrow> df_ranges df \<Longrightarrow> pop_loop ae nv df rl = (res, df', rl') \<Longrightarrow>
     df_ranges df' \<and> res \<noteq> Inl Panic \<and> (\<forall>len. res = Inr len \<longrightarrow> joined_len len df')"
proof (induction ae nv df rl rule: pop_loop.induct)
  case (1 ae nv df rl)
  obtain fl df1 rl1 where i: "pop_iter ae nv df rl = (fl, df1, rl1)" by (metis surj_pair)
  have ok: "flow_ok fl df1" by (rule pop_iter_ok [OF "1.prems"(1,2) i])
  show ?case
  proof (cases fl)
    case Go_on
    have r: "df_ranges df1" using ok by (simp add: flow_ok_def)
    have "pop_loop ae nv df1 rl1 = (res, df', rl')"
      using "1.prems"(3) i Go_on by (subst (asm) pop_loop.simps) simp
    from "1.IH" [OF i [symmetric] Go_on refl "1.prems"(1) r this] show ?thesis .
  next
    case (Return x)
    then show ?thesis using "1.prems"(3) i ok by (subst (asm) pop_loop.simps) (auto simp: flow_ok_def)
  next
    case (Break_with len)
    then show ?thesis using "1.prems"(3) i ok by (subst (asm) pop_loop.simps) (auto simp: flow_ok_def)
  qed
qed

lemma pop_joined_ok:
  assumes "df_ranges df" "joined_len len df" "pop_joined len df = (res, df')"
  shows "df_ranges df' \<and> res \<noteq> Panic"
proof -
  obtain m where m: "joining_hs df = Some m" "len \<le> payload_len m" using assms(2) by (auto simp: joined_len_def)
  have b: "payload_start m + len \<le> payload_end m" "payload_end m \<le> length (dbuf df)"
    using assms(1) m by (auto simp: df_ranges_def payload_len_def)
  show ?thesis
  proof (cases "payload_len m > len")
    case True
    then show ?thesis using assms(1,3) m b payload_size_no_panic
      by (auto simp: pop_joined_def df_ranges_def Let_def split: outcome.splits)
  next
    case False
    have "df_ranges (df\<lparr>joining_hs := None\<rparr>)" using assms(1) by (simp add: df_ranges_def)
    from discard_ranges [OF this, of "message_end m"] show ?thesis
      using False assms(3) m b by (auto simp: pop_joined_def Let_def)
  qed
qed

lemma deframer_pop_ok:
  assumes "aead_ok ae" "df_ranges df" "deframer_pop ae nv df rl = (res, df', rl')"
  shows "df_ranges df' \<and> res \<noteq> Panic"
proof (cases "last_error df = None \<and> dused df \<noteq> 0")
  case True
  obtain r df1 rl1 where l: "pop_loop ae nv df rl = (r, df1, rl1)" by (metis surj_pair)
  note ok = pop_loop_ok [OF assms(1,2) l]
  show ?thesis
  proof (cases r)
    case (Inl x)
    then show ?thesis using True l ok assms(3) by (simp add: deframer_pop_def)
  next
    case (Inr len)
    then show ?thesis using True l ok assms(3) pop_joined_ok [of df1 len]
      by (auto simp: deframer_pop_def split: prod.splits)
  qed
next
  case False
  then show ?thesis using assms(2,3) by (auto simp: deframer_pop_def split: option.splits)
qed

lemma prepare_read_ok:
  assumes "df_ranges df" "prepare_read df = Some df'"
  shows "df_ranges df'" "dused df' = dused df" "joining_hs df' = joining_hs df" "last_error df' = last_error df"
    "take (dused df) (dbuf df') = take (dused df) (dbuf df)" "dused df < length (dbuf df')"
proof -
  define allow where "allow = (case joining_hs df of Some _ \<Rightarrow> unat MAX_HANDSHAKE_SIZE | None \<Rightarrow> MAX_WIRE_SIZE)"
  define need where "need = min allow (dused df + READ_SIZE)"
  have u: "dused df < allow" "dused df < need" "dused df \<le> length (dbuf df)" using assms
    by (auto simp: prepare_read_def allow_def [symmetric] need_def READ_SIZE_def df_ranges_def Let_def split: if_splits)
  have df': "df' = df \<and> need \<le> length (dbuf df) \<or>
      df' = df\<lparr>dbuf := take need (dbuf df) @ replicate (need - length (dbuf df)) 0\<rparr>"
    using assms(2) u(1) by (auto simp: prepare_read_def allow_def [symmetric] need_def Let_def split: if_splits)
  have "dused df \<le> need" using u by simp
  then have "take (dused df) (take need (dbuf df) @ replicate (need - length (dbuf df)) 0) = take (dused df) (dbuf df)"
    using u(3) by (simp add: min_def)
  then show "dused df' = dused df" "joining_hs df' = joining_hs df" "last_error df' = last_error df"
    "take (dused df) (dbuf df') = take (dused df) (dbuf df)" "dused df < length (dbuf df')"
    using df' u by auto
  moreover have "allow \<le> 65535"
    by (simp add: allow_def MAX_HANDSHAKE_SIZE_def MAX_WIRE_SIZE_def MAX_PAYLOAD_def HEADER_SIZE_def split: option.splits)
  then have "length (dbuf df') \<le> 65535" using df' assms(1) by (auto simp: need_def df_ranges_def)
  ultimately show "df_ranges df'" using assms(1) by (auto simp: df_ranges_def split: option.splits)
qed

lemma deframer_read_ok:
  assumes "df_ranges df" "deframer_read s df = Some (n, df', s')"
  shows "df_ranges df'" "joining_hs df' = joining_hs df" "last_error df' = last_error df"
    "\<exists>bs. take (dused df') (dbuf df') = take (dused df) (dbuf df) @ bs \<and> bs @ concat s' = concat s \<and> length bs = n
       \<and> dused df' = dused df + n \<and> (bs = [] \<longrightarrow> concat s = [])"
proof -
  obtain df1 bs where p: "prepare_read df = Some df1" and r: "read_some (length (dbuf df1) - dused df1) s = (bs, s')"
    and n: "n = length bs"
    and df': "df' = df1\<lparr>dbuf := take (dused df1) (dbuf df1) @ bs @ drop (dused df1 + length bs) (dbuf df1),
       dused := dused df1 + length bs\<rparr>"
    using assms(2) by (auto simp: deframer_read_def split: option.splits prod.splits)
  note ok = prepare_read_ok [OF assms(1) p] and c = read_some_concat [OF r]
  have e: "bs = [] \<longrightarrow> concat s = []" using r ok(2,6) read_some_empty [of "length (dbuf df1) - dused df1" s s'] by auto
  show "df_ranges df'" using ok(1-3) c assms(1) by (auto simp: df' df_ranges_def split: option.splits)
  show "joining_hs df' = joining_hs df" "last_error df' = last_error df" using ok by (simp_all add: df')
  show "\<exists>bs. take (dused df') (dbuf df') = take (dused df) (dbuf df) @ bs \<and> bs @ concat s' = concat s \<and> length bs = n
       \<and> dused df' = dused df + n \<and> (bs = [] \<longrightarrow> concat s = [])"
    using ok c e n assms(1) by (intro exI [of _ bs]) (auto simp: df' df_ranges_def)
qed

text \<open>
  What a connection does with its deframer: read from the socket, and pop with whatever keys and
  version are current.
\<close>

inductive deframer_run :: "aead \<Rightarrow> message_deframer \<Rightarrow> bool" for ae where
  new: "deframer_run ae deframer_default"
| read: "deframer_run ae df \<Longrightarrow> deframer_read s df = Some (n, df', s') \<Longrightarrow> deframer_run ae df'"
| pop: "deframer_run ae df \<Longrightarrow> deframer_pop ae nv df rl = (res, df', rl') \<Longrightarrow> deframer_run ae df'"

lemma deframer_run_ranges: "deframer_run ae df \<Longrightarrow> aead_ok ae \<Longrightarrow> df_ranges df"
proof (induction rule: deframer_run.induct)
  case new
  then show ?case by (simp add: df_ranges_def deframer_default_def)
next
  case (read df s n df' s')
  then show ?case using deframer_read_ok(1) by blast
next
  case (pop df nv rl res df' rl')
  then show ?case using deframer_pop_ok by blast
qed

end
