(* ===== verification/Rustls_Deframer_Spec.thy ===== *)
theory Rustls_Deframer_Spec
  imports Rustls_Deframer
begin

text \<open>
  What \<open>MessageDeframer::pop\<close> (\<open>deframer.rs\<close>) computes: a parser over two byte strings, the
  joined handshake payload and the bytes not parsed yet. \<open>deframer_pop_refines\<close> shows that the
  code, which keeps both in one buffer and overwrites it as it goes, computes the same. The rest
  of the theory is about the parser: its results do not depend on how the bytes arrive, and it
  reads back the records that were sent.
\<close>

section \<open>What pop computes\<close>

text \<open>
  The buffer as two byte strings: the joined handshake payload, with its version, and the bytes
  not parsed yet. On these, \<open>pop\<close> is a simple parser.
\<close>

type_synonym joined = "(protocol_version \<times> bytes) option"

definition pending_bytes :: "message_deframer \<Rightarrow> bytes" where
  "pending_bytes df = slice (pop_start df) (dused df) (dbuf df)"

definition joined_payload :: "message_deframer \<Rightarrow> joined" where
  "joined_payload df =
     map_option (\<lambda>m. (hm_version m, slice (payload_start m) (payload_end m) (dbuf df))) (joining_hs df)"

definition df_ok :: "message_deframer \<Rightarrow> bool" where
  "df_ok df \<longleftrightarrow> df_ranges df \<and> last_error df = None
     \<and> (case joining_hs df of
          None \<Rightarrow> True
        | Some m \<Rightarrow> payload_size (slice (payload_start m) (payload_end m) (dbuf df)) = Ok (expected_len m))"

definition complete_len :: "bytes \<Rightarrow> nat option" where
  "complete_len p =
     (case payload_size p of Ok (Some len) \<Rightarrow> if len \<le> length p then Some len else None | _ \<Rightarrow> None)"

definition handshake_part :: "protocol_version \<Rightarrow> bytes \<Rightarrow> bool \<Rightarrow> deframed" where
  "handshake_part v p al =
     \<lparr>df_want_close_before_decrypt = False, aligned = al, trial_decryption_finished = True,
      df_message = \<lparr>pm_typ = CT_Handshake, pm_version = v, pm_payload = p\<rparr>\<rparr>"

definition spec_yield :: "protocol_version \<Rightarrow> bytes \<Rightarrow> nat \<Rightarrow> (tls_error, deframed option) outcome \<times> joined" where
  "spec_yield v p len =
     (if len < length p then
        (case payload_size (drop len p) of
           Err e \<Rightarrow> (Err e, Some (v, drop len p))
         | _ \<Rightarrow> (Ok (Some (handshake_part v (take len p) False)), Some (v, drop len p)))
      else (Ok (Some (handshake_part v (take len p) True)), None))"

definition spec_join :: "joined \<Rightarrow> plain_message \<Rightarrow> protocol_version \<times> bytes" where
  "spec_join hs m =
     (case hs of None \<Rightarrow> (pm_version m, pm_payload m) | Some (v, p) \<Rightarrow> (v, p @ pm_payload m))"

datatype spec_flow = Answer "(tls_error, deframed option) outcome" joined bytes | Again joined bytes

definition spec_plain :: "joined \<Rightarrow> bytes \<Rightarrow> plain_message \<Rightarrow> spec_flow" where
  "spec_plain hs raw m =
     (if hs \<noteq> None \<and> pm_typ m \<noteq> CT_Handshake
      then Answer (Err (PeerMisbehaved MessageInterleavedWithHandshakeMessage)) hs raw
      else if pm_typ m \<noteq> CT_Handshake then Answer (Ok (Some (single m))) hs raw
      else case payload_size (snd (spec_join hs m)) of
        Err e \<Rightarrow> Answer (Err e) hs raw
      | _ \<Rightarrow> Again (Some (spec_join hs m)) raw)"

definition spec_record ::
    "aead \<Rightarrow> protocol_version option \<Rightarrow> joined \<Rightarrow> bytes \<Rightarrow> record_layer \<Rightarrow> opaque_message \<Rightarrow> spec_flow \<times> record_layer" where
  "spec_record ae nv hs raw rl m =
     (if hs = None \<and> allowed_plaintext nv rl m then (Answer (Ok (Some (single (into_plain_message m)))) hs raw, rl)
      else case decrypt_incoming ae m rl of
        (Ok (Some d), rl') \<Rightarrow> (spec_plain hs raw (plaintext d), rl')
      | (Ok None, rl') \<Rightarrow>
          if hs \<noteq> None
          then (Answer (Err (PeerMisbehaved RejectedEarlyDataInterleavedWithHandshakeMessage)) hs raw, rl')
          else (Again hs raw, rl')
      | (Err e, rl') \<Rightarrow> (Answer (Err e) hs raw, rl')
      | (Panic, rl') \<Rightarrow> (Answer Panic hs raw, rl'))"

definition spec_parse ::
    "aead \<Rightarrow> protocol_version option \<Rightarrow> joined \<Rightarrow> bytes \<Rightarrow> record_layer \<Rightarrow> spec_flow \<times> record_layer" where
  "spec_parse ae nv hs raw rl =
     (case om_read (reader_init raw) of
        Ok (m, rd) \<Rightarrow> spec_record ae nv hs (drop (r_used rd) raw) rl m
      | Err e \<Rightarrow> (Answer (case record_error e of None \<Rightarrow> Ok None | Some k \<Rightarrow> Err (InvalidMessage k)) hs raw, rl)
      | Panic \<Rightarrow> (Answer Panic hs raw, rl))"

definition spec_iter ::
    "aead \<Rightarrow> protocol_version option \<Rightarrow> joined \<Rightarrow> bytes \<Rightarrow> record_layer \<Rightarrow> spec_flow \<times> record_layer" where
  "spec_iter ae nv hs raw rl =
     (case hs of
        Some (v, p) \<Rightarrow>
          (case complete_len p of
             Some len \<Rightarrow> (case spec_yield v p len of (res, hs') \<Rightarrow> (Answer res hs' raw, rl))
           | None \<Rightarrow> spec_parse ae nv hs raw rl)
      | None \<Rightarrow> spec_parse ae nv hs raw rl)"

lemma spec_iter_shorter: "spec_iter ae nv hs raw rl = (Again hs' raw', rl') \<Longrightarrow> length raw' < length raw"
  by (auto simp: spec_iter_def spec_parse_def spec_record_def spec_plain_def om_read_init r_used_def
      split: option.splits prod.splits outcome.splits if_splits)

function spec_pop ::
    "aead \<Rightarrow> protocol_version option \<Rightarrow> joined \<Rightarrow> bytes \<Rightarrow> record_layer \<Rightarrow>
     (tls_error, deframed option) outcome \<times> joined \<times> bytes \<times> record_layer" where
  "spec_pop ae nv hs raw rl =
     (case spec_iter ae nv hs raw rl of
        (Answer res hs' raw', rl') \<Rightarrow> (res, hs', raw', rl')
      | (Again hs' raw', rl') \<Rightarrow> spec_pop ae nv hs' raw' rl')"
  by pat_completeness auto
termination
  by (relation "measure (\<lambda>(ae, nv, hs, raw, rl). length raw)") (auto dest: spec_iter_shorter [OF sym])

declare spec_pop.simps [simp del]

section \<open>pop refines its specification\<close>

lemma drop_slice: "drop n (slice a b xs) = slice (a + n) b xs"
  by (simp add: slice_def drop_take diff_diff_left add.commute)

lemma slice_slice: "b \<le> c \<Longrightarrow> take (b - a) (slice a c xs) = slice a b xs"
  by (simp add: slice_def min_def)

lemma slice_copied:
  assumes "a + length bs \<le> c" "c \<le> d" "a + length bs \<le> length buf"
  shows "slice c d (take a buf @ bs @ drop (a + length bs) buf) = slice c d buf"
proof -
  have "drop c (take a buf @ bs @ drop (a + length bs) buf) = drop c buf" using assms by simp
  then show ?thesis by (simp add: slice_def)
qed

lemma slice_extended:
  assumes "s \<le> a" "a + length bs \<le> length buf"
  shows "slice s (a + length bs) (take a buf @ bs @ drop (a + length bs) buf) = slice s a buf @ bs"
proof -
  define u where "u = slice s a buf @ bs"
  have d: "drop s (take a buf @ bs @ drop (a + length bs) buf) = u @ drop (a + length bs) buf"
    using assms by (simp add: u_def slice_def drop_take)
  have "length u = a + length bs - s" using assms by (simp add: u_def)
  then have "take (a + length bs - s) (u @ drop (a + length bs) buf) = u" by simp
  then show ?thesis unfolding slice_def [of s "a + length bs"] d by (simp add: u_def)
qed

lemma payload_size_append: "payload_size p = Ok (Some n) \<Longrightarrow> payload_size (p @ q) = Ok (Some n)"
proof -
  assume a: "payload_size p = Ok (Some n)"
  then have "4 \<le> length p" by (auto simp: payload_size_def HANDSHAKE_HEADER_SIZE_def split: if_splits)
  then have "slice 1 HANDSHAKE_HEADER_SIZE (p @ q) = slice 1 HANDSHAKE_HEADER_SIZE p"
    by (simp add: slice_def HANDSHAKE_HEADER_SIZE_def)
  with a show ?thesis by (auto simp: payload_size_def split: if_splits)
qed

definition popped :: "joined \<Rightarrow> bytes \<Rightarrow> message_deframer \<Rightarrow> bool" where
  "popped hs raw df \<longleftrightarrow> df_ok df \<and> joined_payload df = hs \<and> pending_bytes df = raw"

definition after_append :: "nat \<Rightarrow> bytes \<Rightarrow> handshake_payload_state" where
  "after_append rest p =
     (case complete_len p of Some len \<Rightarrow> Complete len | None \<Rightarrow> if 0 < rest then Continue else Blocked)"

lemma hs_state_eq:
  assumes "payload_size p = Ok (expected_len m)" "payload_len m = length p"
  shows "hs_state used m = after_append (used - message_end m) p"
  using assms by (auto simp: hs_state_def after_append_def complete_len_def Let_def split: option.splits)

lemma append_first_sim:
  assumes ok: "df_ok df" "joining_hs df = None" and fin: "length bs \<le> fin" "fin \<le> dused df"
  shows "fst (append_first v bs fin False df) =
    (case payload_size bs of Err e \<Rightarrow> Err e | Ok len \<Rightarrow> Ok (after_append (dused df - fin) bs) | Panic \<Rightarrow> Panic)"
    "payload_size bs = Ok len \<Longrightarrow>
       popped (Some (v, bs)) (slice fin (dused df) (dbuf df)) (snd (append_first v bs fin False df))"
proof -
  have l: "dused df \<le> length (dbuf df)" "length (dbuf df) \<le> 65535" "last_error df = None"
    using ok by (auto simp: df_ok_def df_ranges_def)
  define buf where "buf = take 0 (dbuf df) @ bs @ drop (0 + length bs) (dbuf df)"
  have c: "copy_at 0 bs (dbuf df) = (Ok buf :: (tls_error, bytes) outcome)"
    unfolding buf_def by (rule copy_at_Ok) (use fin l in simp)
  have s: "slice fin (dused df) buf = slice fin (dused df) (dbuf df)"
    unfolding buf_def by (rule slice_copied) (use fin l in simp_all)
  have p: "slice 0 (length bs) buf = bs" by (simp add: buf_def slice_def)
  have lb: "length buf = length (dbuf df)" using fin l by (simp add: buf_def)
  show "fst (append_first v bs fin False df) =
    (case payload_size bs of Err e \<Rightarrow> Err e | Ok len \<Rightarrow> Ok (after_append (dused df - fin) bs) | Panic \<Rightarrow> Panic)"
    using c by (auto simp: append_first_def Let_def hs_state_eq [of bs] payload_len_def split: outcome.splits)
  assume "payload_size bs = Ok len"
  then show "popped (Some (v, bs)) (slice fin (dused df) (dbuf df)) (snd (append_first v bs fin False df))"
    using c s p lb l fin
    by (simp add: append_first_def popped_def df_ok_def df_ranges_def joined_payload_def pending_bytes_def pop_start_def Let_def)
qed

lemma append_joined_sim:
  assumes ok: "df_ok df" "joining_hs df = Some m"
    and fin: "message_end m + length bs \<le> fin" "fin \<le> dused df"
    and p: "p = slice (payload_start m) (payload_end m) (dbuf df)"
  shows "fst (append_joined bs fin m df) =
    (case payload_size (p @ bs) of
       Err e \<Rightarrow> Err e | Ok len \<Rightarrow> Ok (after_append (dused df - fin) (p @ bs)) | Panic \<Rightarrow> Panic)"
    "payload_size (p @ bs) = Ok len \<Longrightarrow>
       popped (Some (hm_version m, p @ bs)) (slice fin (dused df) (dbuf df)) (snd (append_joined bs fin m df))"
proof -
  have r: "payload_start m \<le> payload_end m" "payload_end m \<le> message_end m" "message_end m \<le> dused df"
    "dused df \<le> length (dbuf df)" "length (dbuf df) \<le> 65535" "\<not> quic m" "last_error df = None"
    and e: "payload_size p = Ok (expected_len m)"
    using ok by (auto simp: df_ok_def df_ranges_def p)
  define buf where "buf = take (payload_end m) (dbuf df) @ bs @ drop (payload_end m + length bs) (dbuf df)"
  define m' where "m' = m\<lparr>message_end := fin, payload_end := payload_end m + length bs\<rparr>"
  have c: "copy_at (payload_end m) bs (dbuf df) = (Ok buf :: (tls_error, bytes) outcome)"
    unfolding buf_def by (rule copy_at_Ok) (use fin r in simp)
  have s: "slice fin (dused df) buf = slice fin (dused df) (dbuf df)"
    unfolding buf_def by (rule slice_copied) (use fin r in simp_all)
  have q: "slice (payload_start m) (payload_end m + length bs) buf = p @ bs"
    unfolding buf_def p by (rule slice_extended) (use fin r in simp_all)
  have lb: "length buf = length (dbuf df)" using fin r by (simp add: buf_def)
  have lp: "length p = payload_end m - payload_start m" using r by (simp add: p)
  have j: "join_size buf m' = (case payload_size (p @ bs) of
      Ok len \<Rightarrow> Ok (m'\<lparr>expected_len := len\<rparr>) | Err x \<Rightarrow> Err x | Panic \<Rightarrow> Panic)"
  proof (cases "expected_len m")
    case None
    then show ?thesis using q r fin lb by (simp add: join_size_def m'_def outcome_bind_def split: outcome.splits)
  next
    case (Some n)
    then have "payload_size (p @ bs) = Ok (Some n)" using e payload_size_append by simp
    then show ?thesis using Some by (simp add: join_size_def m'_def)
  qed
  have a: "append_joined bs fin m df =
    (case payload_size (p @ bs) of
       Ok len \<Rightarrow> (Ok (hs_state (dused df) (m'\<lparr>expected_len := len\<rparr>)),
         df\<lparr>dbuf := buf, joining_hs := Some (m'\<lparr>expected_len := len\<rparr>)\<rparr>)
     | Err x \<Rightarrow> (Err x, df\<lparr>dbuf := buf, joining_hs := Some m'\<rparr>)
     | Panic \<Rightarrow> (Panic, df\<lparr>dbuf := buf, joining_hs := Some m'\<rparr>))"
    using c j by (simp add: append_joined_def m'_def [symmetric] Let_def split: outcome.splits)
  have h: "hs_state (dused df) (m'\<lparr>expected_len := len\<rparr>) = after_append (dused df - fin) (p @ bs)"
    if "payload_size (p @ bs) = Ok len" for len
    using hs_state_eq [of "p @ bs" "m'\<lparr>expected_len := len\<rparr>" "dused df"] that lp r
    by (simp add: m'_def payload_len_def)
  show "fst (append_joined bs fin m df) =
    (case payload_size (p @ bs) of
       Err e \<Rightarrow> Err e | Ok len \<Rightarrow> Ok (after_append (dused df - fin) (p @ bs)) | Panic \<Rightarrow> Panic)"
    unfolding a using h by (simp split: outcome.splits)
  assume "payload_size (p @ bs) = Ok len"
  then show "popped (Some (hm_version m, p @ bs)) (slice fin (dused df) (dbuf df)) (snd (append_joined bs fin m df))"
    unfolding a using s q lb r fin
    by (simp add: popped_def df_ok_def df_ranges_def joined_payload_def pending_bytes_def pop_start_def m'_def)
qed

lemma append_hs_sim:
  assumes ok: "df_ok df" and fin: "pop_start df + length (pm_payload m) \<le> fin" "fin \<le> dused df"
    and j: "spec_join (joined_payload df) m = (v, p)"
  shows "append_hs (pm_version m) (pm_payload m) fin False df = (res, df') \<Longrightarrow>
    (case payload_size p of
       Err e \<Rightarrow> res = Err e
     | Ok len \<Rightarrow> res = Ok (after_append (dused df - fin) p) \<and> popped (Some (v, p)) (slice fin (dused df) (dbuf df)) df'
     | Panic \<Rightarrow> False)"
proof -
  assume a: "append_hs (pm_version m) (pm_payload m) fin False df = (res, df')"
  show ?thesis
  proof (cases "joining_hs df")
    case None
    then have vp: "v = pm_version m" "p = pm_payload m" using j by (simp_all add: spec_join_def joined_payload_def)
    have a': "append_first v p fin False df = (res, df')" using a None vp by (simp add: append_hs_def)
    have f: "length p \<le> fin" using fin(1) vp by simp
    note sim = append_first_sim [OF ok None f fin(2), where v = v]
    show ?thesis using sim(1) sim(2) a' payload_size_no_panic [of p] by (auto split: outcome.splits)
  next
    case (Some mt)
    define q where "q = slice (payload_start mt) (payload_end mt) (dbuf df)"
    have vp: "v = hm_version mt" "p = q @ pm_payload m"
      using j Some by (simp_all add: spec_join_def joined_payload_def q_def)
    have a': "append_joined (pm_payload m) fin mt df = (res, df')" using a Some by (simp add: append_hs_def)
    have f: "message_end mt + length (pm_payload m) \<le> fin" using fin(1) Some by (simp add: pop_start_def)
    note sim = append_joined_sim [OF ok Some f fin(2) q_def]
    show ?thesis using sim(1) sim(2) a' payload_size_no_panic [of p] unfolding vp by (auto split: outcome.splits)
  qed
qed

lemma discard_popped:
  assumes "df_ok df" "joining_hs df = None" "fin \<le> dused df"
  shows "popped None (slice fin (dused df) (dbuf df)) (discard fin df)"
proof -
  have "slice 0 (dused df - fin) (slice fin (dused df) (dbuf df) @ drop (dused df - fin) (dbuf df)) = slice fin (dused df) (dbuf df)"
    if "fin < dused df" using assms(1) that by (auto simp: slice_def df_ok_def df_ranges_def min_def)
  then show ?thesis using assms discard_ranges [of df fin]
    by (auto simp: popped_def df_ok_def joined_payload_def pending_bytes_def pop_start_def discard_def slice_def)
qed

text \<open>The concrete result is the specified one; after an error the buffer is no longer used.\<close>

definition agrees ::
    "(tls_error, deframed option) outcome \<times> message_deframer \<times> record_layer \<Rightarrow>
     (tls_error, deframed option) outcome \<times> joined \<times> bytes \<times> record_layer \<Rightarrow> bool" where
  "agrees c a =
     (case c of (res, df, rl) \<Rightarrow> case a of (sres, hs, raw, srl) \<Rightarrow>
        res = sres \<and> rl = srl \<and> ((\<exists>e. res = Err e) \<or> popped hs raw df))"

definition complete_in :: "nat \<Rightarrow> message_deframer \<Rightarrow> bool" where
  "complete_in len df \<longleftrightarrow> (\<exists>v p. joined_payload df = Some (v, p) \<and> complete_len p = Some len)"

abbreviation spec_from ::
    "aead \<Rightarrow> protocol_version option \<Rightarrow> message_deframer \<Rightarrow> record_layer \<Rightarrow>
     (tls_error, deframed option) outcome \<times> joined \<times> bytes \<times> record_layer" where
  "spec_from ae nv df rl \<equiv> spec_pop ae nv (joined_payload df) (pending_bytes df) rl"

definition flow_agrees ::
    "aead \<Rightarrow> protocol_version option \<Rightarrow> pop_flow \<times> message_deframer \<times> record_layer \<Rightarrow>
     (tls_error, deframed option) outcome \<times> joined \<times> bytes \<times> record_layer \<Rightarrow> bool" where
  "flow_agrees ae nv c a =
     (case c of (fl, df, rl) \<Rightarrow>
        case fl of
          Return res \<Rightarrow> agrees (res, df, rl) a
        | Go_on \<Rightarrow> df_ok df \<and> a = spec_from ae nv df rl
        | Break_with len \<Rightarrow> df_ok df \<and> complete_in len df \<and> a = spec_from ae nv df rl)"

definition spec_result ::
    "aead \<Rightarrow> protocol_version option \<Rightarrow> spec_flow \<times> record_layer \<Rightarrow>
     (tls_error, deframed option) outcome \<times> joined \<times> bytes \<times> record_layer" where
  "spec_result ae nv x =
     (case x of (Answer res hs raw, rl) \<Rightarrow> (res, hs, raw, rl) | (Again hs raw, rl) \<Rightarrow> spec_pop ae nv hs raw rl)"

lemma spec_pop_iter: "spec_pop ae nv hs raw rl = spec_result ae nv (spec_iter ae nv hs raw rl)"
  by (subst spec_pop.simps) (simp add: spec_result_def)

lemma om_read_empty: "om_read (reader_init []) = Err TooShortForHeader"
  by (simp add: om_read_def enum8_short)

lemma spec_pop_blocked:
  "complete_len p = None \<Longrightarrow> spec_pop ae nv (Some (v, p)) [] rl = (Ok None, Some (v, p), [], rl)"
  by (simp add: spec_pop_iter spec_result_def spec_iter_def spec_parse_def om_read_empty)

lemma pop_plain_sim:
  assumes ok: "df_ok df" and fin: "pop_start df + length (pm_payload m) \<le> fin" "fin \<le> dused df"
    and pp: "pop_plain m fin df = (fl, df')"
  shows "flow_agrees ae nv (fl, df', rl)
    (spec_result ae nv (spec_plain (joined_payload df) (slice fin (dused df) (dbuf df)) m, rl))"
proof (cases "pm_typ m = CT_Handshake")
  case False
  have j: "joined_payload df = None \<longleftrightarrow> joining_hs df = None" by (simp add: joined_payload_def)
  show ?thesis using False pp j discard_popped [OF ok _ fin(2)]
    by (auto simp: pop_plain_def spec_plain_def flow_agrees_def agrees_def spec_result_def split: if_splits)
next
  case True
  define raw where "raw = slice fin (dused df) (dbuf df)"
  obtain v p where vp: "spec_join (joined_payload df) m = (v, p)" by fastforce
  obtain res df1 where a: "append_hs (pm_version m) (pm_payload m) fin False df = (res, df1)" by fastforce
  note sim = append_hs_sim [OF ok fin vp a]
  have raw: "raw = [] \<longleftrightarrow> dused df - fin = 0" using ok by (auto simp: raw_def slice_def df_ok_def df_ranges_def)
  show ?thesis
  proof (cases "payload_size p")
    case (Err e)
    then show ?thesis using True sim a vp pp
      by (auto simp: pop_plain_def spec_plain_def flow_agrees_def agrees_def spec_result_def)
  next
    case (Ok len)
    then have r: "res = Ok (after_append (dused df - fin) p)" and pd: "popped (Some (v, p)) raw df1"
      using sim by (simp_all add: raw_def)
    have sp: "spec_result ae nv (spec_plain (joined_payload df) raw m, rl) = spec_pop ae nv (Some (v, p)) raw rl"
      using True Ok vp by (simp add: spec_plain_def spec_result_def)
    have d: "df_ok df1" "joined_payload df1 = Some (v, p)" "pending_bytes df1 = raw" using pd by (auto simp: popped_def)
    show ?thesis
      unfolding raw_def [symmetric] sp
      using True pp a r d pd raw spec_pop_blocked [of p ae nv v rl]
      by (auto simp: pop_plain_def flow_agrees_def agrees_def after_append_def complete_in_def split: option.splits if_splits)
  qed (use sim in simp)
qed

lemma joining_hs_None: "joining_hs df = None \<longleftrightarrow> joined_payload df = None"
  by (simp add: joined_payload_def)

lemma pop_record_sim:
  assumes ae: "aead_ok ae" and ok: "df_ok df"
    and fin: "pop_start df + length (om_payload m) \<le> fin" "fin \<le> dused df"
    and pr: "pop_record ae nv m fin df rl = c"
  shows "flow_agrees ae nv c
    (spec_result ae nv (spec_record ae nv (joined_payload df) (slice fin (dused df) (dbuf df)) rl m))"
proof (cases "joining_hs df = None \<and> allowed_plaintext nv rl m")
  case True
  then show ?thesis using pr discard_popped [OF ok _ fin(2)]
    by (auto simp: pop_record_def spec_record_def flow_agrees_def agrees_def spec_result_def joining_hs_None)
next
  case False
  obtain res rl1 where d: "decrypt_incoming ae m rl = (res, rl1)" by fastforce
  note dok = decrypt_incoming_ok [OF ae d]
  show ?thesis
  proof (cases "\<exists>x. res = Ok (Some x)")
    case True
    then obtain x where x: "res = Ok (Some x)" by blast
    obtain fl1 df1 where p: "pop_plain (plaintext x) fin df = (fl1, df1)" by fastforce
    have l: "pop_start df + length (pm_payload (plaintext x)) \<le> fin" using dok(2) [OF x] fin(1) by simp
    have c: "c = (fl1, df1, rl1)" using pr False d x p by (auto simp: pop_record_def)
    have sr: "spec_record ae nv (joined_payload df) (slice fin (dused df) (dbuf df)) rl m
      = (spec_plain (joined_payload df) (slice fin (dused df) (dbuf df)) (plaintext x), rl1)"
      using False d x by (auto simp: spec_record_def joining_hs_None)
    show ?thesis unfolding c sr by (rule pop_plain_sim [OF ok l fin(2) p])
  next
    case nx: False
    have dp: "joining_hs df = None \<Longrightarrow> popped None (slice fin (dused df) (dbuf df)) (discard fin df)"
      by (rule discard_popped [OF ok _ fin(2)])
    show ?thesis using pr False d dok(1) nx dp
      by (cases res; cases "joined_payload df") (auto simp: pop_record_def spec_record_def flow_agrees_def agrees_def spec_result_def popped_def joining_hs_None
          split: option.splits if_splits)
  qed
qed

lemma pop_head_eq:
  assumes "df_ok df"
  shows "pop_head df = (case joined_payload df of Some (v, p) \<Rightarrow> map_option Break_with (complete_len p) | None \<Rightarrow> None)"
proof (cases "joining_hs df")
  case (Some m)
  have "payload_size (slice (payload_start m) (payload_end m) (dbuf df)) = Ok (expected_len m)" "\<not> quic m"
    "length (slice (payload_start m) (payload_end m) (dbuf df)) = payload_len m"
    using assms Some by (auto simp: df_ok_def df_ranges_def payload_len_def)
  then show ?thesis using Some by (auto simp: pop_head_def joined_payload_def complete_len_def split: option.splits)
qed (simp add: pop_head_def joined_payload_def)

lemma pop_iter_sim:
  assumes ae: "aead_ok ae" and ok: "df_ok df" and pi: "pop_iter ae nv df rl = c"
  shows "flow_agrees ae nv c (spec_from ae nv df rl)"
proof (cases "pop_head df")
  case (Some fl)
  then obtain len where "fl = Break_with len" "complete_in len df"
    by (auto simp: pop_head_eq [OF ok] complete_in_def split: option.splits)
  then show ?thesis using Some pi ok by (auto simp: pop_iter_def flow_agrees_def)
next
  case None
  have r: "pop_start df \<le> dused df" "dused df \<le> length (dbuf df)"
    using ok by (auto simp: df_ok_def df_ranges_def pop_start_def split: option.splits)
  have sub: "sub (dbuf df) (pop_start df) (dused df) = (Ok (pending_bytes df) :: (tls_error, bytes) outcome)"
    using r by (simp add: pending_bytes_def)
  have l: "length (pending_bytes df) = dused df - pop_start df" using r by (simp add: pending_bytes_def)
  have si: "spec_iter ae nv (joined_payload df) (pending_bytes df) rl = spec_parse ae nv (joined_payload df) (pending_bytes df) rl"
    using None by (auto simp: pop_head_eq [OF ok] spec_iter_def split: option.splits)
  show ?thesis
  proof (cases "om_read (reader_init (pending_bytes df))")
    case (Ok mr)
    obtain m rd where mr: "mr = (m, rd)" by (cases mr)
    note u = om_read_used [OF Ok [unfolded mr]]
    define fin where "fin = pop_start df + r_used rd"
    have fin: "pop_start df + length (om_payload m) \<le> fin" "fin \<le> dused df" using u l r by (simp_all add: fin_def)
    have raw: "drop (r_used rd) (pending_bytes df) = slice fin (dused df) (dbuf df)"
      by (simp add: pending_bytes_def fin_def drop_slice)
    have c: "pop_record ae nv m fin df rl = c" using pi None sub Ok mr by (simp add: pop_iter_def fin_def)
    show ?thesis using pop_record_sim [OF ae ok fin c] Ok mr raw
      by (simp add: spec_pop_iter si spec_parse_def)
  next
    case (Err e)
    then show ?thesis using pi None sub ok si
      by (auto simp: pop_iter_def flow_agrees_def agrees_def popped_def spec_pop_iter spec_parse_def spec_result_def
          split: option.splits)
  next
    case Panic
    then show ?thesis using gives_no_panic [OF om_read_gives, of "reader_init (pending_bytes df)"] by simp
  qed
qed

lemma pop_loop_sim:
  "aead_ok ae \<Longrightarrow> df_ok df \<Longrightarrow> pop_loop ae nv df rl = (r, df', rl') \<Longrightarrow>
     (case r of
        Inl res \<Rightarrow> agrees (res, df', rl') (spec_from ae nv df rl)
      | Inr len \<Rightarrow> df_ok df' \<and> complete_in len df' \<and> spec_from ae nv df rl = spec_from ae nv df' rl')"
proof (induction ae nv df rl rule: pop_loop.induct)
  case (1 ae nv df rl)
  obtain fl df1 rl1 where i: "pop_iter ae nv df rl = (fl, df1, rl1)" by (metis surj_pair)
  note sim = pop_iter_sim [OF "1.prems"(1,2) i]
  show ?case
  proof (cases fl)
    case Go_on
    have s: "df_ok df1" "spec_from ae nv df rl = spec_from ae nv df1 rl1"
      using sim Go_on by (simp_all add: flow_agrees_def)
    have "pop_loop ae nv df1 rl1 = (r, df', rl')" using "1.prems"(3) i Go_on by (subst (asm) pop_loop.simps) simp
    from "1.IH" [OF i [symmetric] Go_on refl "1.prems"(1) s(1) this] show ?thesis unfolding s(2) .
  qed (use "1.prems"(3) i sim in \<open>subst (asm) pop_loop.simps, auto simp: flow_agrees_def\<close>)+
qed

lemma pop_joined_sim:
  assumes ok: "df_ok df" and j: "joined_payload df = Some (v, p)" and len: "complete_len p = Some len"
    and y: "spec_yield v p len = (sres, hs')" and pj: "pop_joined len df = (res, df')"
  shows "res = sres \<and> ((\<exists>e. res = Err e) \<or> popped hs' (pending_bytes df) df')"
proof -
  obtain m where m: "joining_hs df = Some m" "v = hm_version m" "p = slice (payload_start m) (payload_end m) (dbuf df)"
    using j by (auto simp: joined_payload_def)
  have r: "payload_start m \<le> payload_end m" "payload_end m \<le> message_end m" "message_end m \<le> dused df"
    "dused df \<le> length (dbuf df)" "length (dbuf df) \<le> 65535" "\<not> quic m" "last_error df = None"
    using ok m by (auto simp: df_ok_def df_ranges_def)
  have lp: "length p = payload_len m" and le: "len \<le> payload_len m"
    using len m r by (auto simp: complete_len_def payload_len_def split: outcome.splits option.splits if_splits)
  have b: "payload_start m + len \<le> payload_end m" using le r by (simp add: payload_len_def)
  have t: "take len p = slice (payload_start m) (payload_start m + len) (dbuf df)"
    using slice_slice [OF b, of "payload_start m"] m by simp
  have d: "drop len p = slice (payload_start m + len) (payload_end m) (dbuf df)" using m by (simp add: drop_slice)
  show ?thesis
  proof (cases "payload_len m > len")
    case True
    then show ?thesis using pj y m(1,2) r b t d lp
      by (auto simp: pop_joined_def spec_yield_def handshake_part_def popped_def df_ok_def df_ranges_def
          joined_payload_def pending_bytes_def pop_start_def payload_len_def payload_size_no_panic Let_def split: outcome.splits)
  next
    case False
    have k: "df_ok (df\<lparr>joining_hs := None\<rparr>)" using ok by (simp add: df_ok_def df_ranges_def)
    have "popped None (pending_bytes df) (discard (message_end m) (df\<lparr>joining_hs := None\<rparr>))"
      using discard_popped [OF k, of "message_end m"] r m(1) by (simp add: pending_bytes_def pop_start_def)
    then show ?thesis using False pj y m(1,2) r b t lp
      by (auto simp: pop_joined_def spec_yield_def handshake_part_def Let_def)
  qed
qed

lemma deframer_pop_refines:
  assumes ae: "aead_ok ae" and ok: "df_ok df"
  shows "agrees (deframer_pop ae nv df rl) (spec_from ae nv df rl)"
proof (cases "dused df = 0")
  case True
  have "pending_bytes df = []" using True by (simp add: pending_bytes_def slice_def)
  moreover have "complete_len p = None" if "joined_payload df = Some (v, p)" for v p
  proof -
    have "p = []" using that True ok by (auto simp: joined_payload_def df_ok_def df_ranges_def slice_def)
    then show ?thesis by (simp add: complete_len_def payload_size_def HANDSHAKE_HEADER_SIZE_def)
  qed
  ultimately show ?thesis using True ok
    by (cases "joined_payload df") (auto simp: deframer_pop_def agrees_def popped_def df_ok_def spec_pop_iter spec_result_def spec_iter_def
        spec_parse_def om_read_empty split: option.splits)
next
  case False
  have e: "last_error df = None" using ok by (simp add: df_ok_def)
  obtain r df1 rl1 where l: "pop_loop ae nv df rl = (r, df1, rl1)" by (metis surj_pair)
  note sim = pop_loop_sim [OF ae ok l]
  show ?thesis
  proof (cases r)
    case (Inl res)
    then show ?thesis using sim l e False by (simp add: deframer_pop_def)
  next
    case (Inr len)
    then obtain v p where s: "df_ok df1" "joined_payload df1 = Some (v, p)" "complete_len p = Some len"
      "spec_from ae nv df rl = spec_from ae nv df1 rl1" using sim by (auto simp: complete_in_def)
    obtain sres hs' where y: "spec_yield v p len = (sres, hs')" by fastforce
    obtain res df2 where pj: "pop_joined len df1 = (res, df2)" by fastforce
    note pj' = pop_joined_sim [OF s(1-3) y pj]
    have "spec_from ae nv df1 rl1 = (sres, hs', pending_bytes df1, rl1)"
      using s y by (simp add: spec_pop_iter spec_result_def spec_iter_def)
    then show ?thesis using pj' pj l e False s(4) Inr by (auto simp: deframer_pop_def agrees_def)
  qed
qed

section \<open>Independence of the segmentation\<close>

lemma om_read_5:
  "om_read (reader_init (a # b # c # d # e # rest)) =
     (let typ = content_type_from a; ver = protocol_version_from (from_be16 b c); len = from_be16 d e
      in if unknown_content typ then Err ContentTypeInvalid
         else if \<not> acceptable_version ver then Err ProtocolVersionUnknown
         else if typ \<noteq> CT_ApplicationData \<and> len = 0 then Err EmptyPayload
         else if len \<ge> MAX_PAYLOAD then Err PayloadTooLarge
         else if length rest < unat len then Err TooShortForLength
         else Ok (\<lparr>om_typ = typ, om_version = ver, om_payload = take (unat len) rest\<rparr>,
           \<lparr>rbuf = a # b # c # d # e # rest, cursor = 5 + unat len\<rparr>))"
  by (simp add: om_read_def om_read_body_def enum8_read_def enum16_read_def u8_read_def u16_read_def r_take_def r_left_def
      reader_init_def slice_def r_sub_def r_rest_def Let_def)

lemma om_read_short:
  "om_read (reader_init [a]) = (if unknown_content (content_type_from a) then Err ContentTypeInvalid else Err TooShortForHeader)"
  "om_read (reader_init [a, b]) = (if unknown_content (content_type_from a) then Err ContentTypeInvalid else Err TooShortForHeader)"
  "om_read (reader_init [a, b, c]) = (if unknown_content (content_type_from a) then Err ContentTypeInvalid
     else if \<not> acceptable_version (protocol_version_from (from_be16 b c)) then Err ProtocolVersionUnknown else Err TooShortForHeader)"
  "om_read (reader_init [a, b, c, d]) = (if unknown_content (content_type_from a) then Err ContentTypeInvalid
     else if \<not> acceptable_version (protocol_version_from (from_be16 b c)) then Err ProtocolVersionUnknown else Err TooShortForHeader)"
  by (simp_all add: om_read_def om_read_body_def enum8_read_def enum16_read_def u8_read_def u16_read_def r_take_def r_left_def
      reader_init_def slice_def r_sub_def r_rest_def Let_def)

lemma om_read_bad_type:
  "unknown_content (content_type_from a) \<Longrightarrow> om_read (reader_init (a # t)) = Err ContentTypeInvalid"
  by (simp add: om_read_def enum8_read_def u8_read_def r_take_def r_left_def reader_init_def slice_def)

lemma om_read_bad_version:
  "\<not> unknown_content (content_type_from a) \<Longrightarrow> \<not> acceptable_version (protocol_version_from (from_be16 b c)) \<Longrightarrow>
     om_read (reader_init (a # b # c # t)) = Err ProtocolVersionUnknown"
  by (simp add: om_read_def enum8_read_def enum16_read_def u8_read_def u16_read_def r_take_def r_left_def reader_init_def slice_def)

lemma om_read_error_stable:
  assumes "om_read (reader_init bs) = Err e" "record_error e = Some k"
  shows "om_read (reader_init (bs @ t)) = Err e"
proof -
  consider "bs = []" | a where "bs = [a]" | a b where "bs = [a, b]" | a b c where "bs = [a, b, c]"
    | a b c d where "bs = [a, b, c, d]" | a b c d x r where "bs = a # b # c # d # x # r"
    by (metis list.exhaust)
  then show ?thesis
    by cases (use assms in \<open>auto simp: om_read_empty om_read_short om_read_5 om_read_bad_type om_read_bad_version Let_def
        split: if_splits\<close>)
qed

lemma om_read_Ok_stable:
  assumes "om_read (reader_init bs) = Ok (m, rd)"
  shows "\<exists>rd'. om_read (reader_init (bs @ t)) = Ok (m, rd') \<and> r_used rd' = r_used rd \<and> r_used rd \<le> length bs"
  using assms by (auto simp: om_read_init r_used_def)

definition extended :: "bytes \<Rightarrow> spec_flow \<times> record_layer \<Rightarrow> spec_flow \<times> record_layer" where
  "extended t x =
     (case x of (Answer res hs raw, rl) \<Rightarrow> (Answer res hs (raw @ t), rl) | (Again hs raw, rl) \<Rightarrow> (Again hs (raw @ t), rl))"

lemma spec_record_extended: "spec_record ae nv hs (raw @ t) rl m = extended t (spec_record ae nv hs raw rl m)"
  by (auto simp: spec_record_def spec_plain_def extended_def split: prod.splits outcome.splits option.splits)

lemma spec_iter_extended:
  assumes "\<not> (\<exists>hs' raw' rl'. spec_iter ae nv hs raw rl = (Answer (Ok None) hs' raw', rl'))"
  shows "spec_iter ae nv hs (raw @ t) rl = extended t (spec_iter ae nv hs raw rl)"
proof -
  have parse: "spec_parse ae nv hs (raw @ t) rl = extended t (spec_parse ae nv hs raw rl)"
    if np: "\<not> (\<exists>hs' raw' rl'. spec_parse ae nv hs raw rl = (Answer (Ok None) hs' raw', rl'))"
  proof (cases "om_read (reader_init raw)")
    case (Ok mr)
    then obtain m rd where mr: "om_read (reader_init raw) = Ok (m, rd)" by (cases mr) simp
    from om_read_Ok_stable [OF mr, of t] obtain rd' where
      "om_read (reader_init (raw @ t)) = Ok (m, rd')" "r_used rd' = r_used rd" "r_used rd \<le> length raw" by blast
    then show ?thesis using mr by (simp add: spec_parse_def spec_record_extended)
  next
    case (Err e)
    then obtain k where "record_error e = Some k" using np by (cases "record_error e") (auto simp: spec_parse_def)
    then show ?thesis using Err om_read_error_stable [OF Err, of k t] by (simp add: spec_parse_def extended_def)
  next
    case Panic
    then show ?thesis using gives_no_panic [OF om_read_gives, of "reader_init raw"] by simp
  qed
  show ?thesis
  proof (cases "\<exists>v p len. hs = Some (v, p) \<and> complete_len p = Some len")
    case True
    then show ?thesis by (auto simp: spec_iter_def extended_def split: prod.splits)
  next
    case False
    then have "spec_iter ae nv hs r rl = spec_parse ae nv hs r rl" for r
      by (auto simp: spec_iter_def split: option.splits prod.splits)
    then show ?thesis using parse assms by simp
  qed
qed

lemma spec_iter_None:
  assumes "spec_iter ae nv hs raw rl = (Answer (Ok None) hs' raw', rl')"
  shows "hs' = hs \<and> raw' = raw \<and> rl' = rl"
  using assms by (auto simp: spec_iter_def spec_parse_def spec_record_def spec_plain_def spec_yield_def
      split: option.splits prod.splits outcome.splits if_splits)

text \<open>More bytes do not change a result, and \<open>Ok(None)\<close> means that the parser stopped in between.\<close>

lemma spec_pop_extended:
  "spec_pop ae nv hs raw rl = (res, hs', raw', rl') \<Longrightarrow>
     spec_pop ae nv hs (raw @ t) rl =
       (if res = Ok None then spec_pop ae nv hs' (raw' @ t) rl' else (res, hs', raw' @ t, rl'))"
proof (induction ae nv hs raw rl rule: spec_pop.induct)
  case (1 ae nv hs raw rl)
  obtain fl rl1 where i: "spec_iter ae nv hs raw rl = (fl, rl1)" by fastforce
  show ?case
  proof (cases fl)
    case (Answer r h w)
    then have eq: "r = res" "h = hs'" "w = raw'" "rl1 = rl'" using "1.prems" i by (simp_all add: spec_pop_iter spec_result_def)
    show ?thesis
    proof (cases "res = Ok None")
      case True
      then show ?thesis using spec_iter_None [of ae nv hs raw rl hs' raw' rl'] i Answer eq by simp
    next
      case False
      then have "spec_iter ae nv hs (raw @ t) rl = extended t (fl, rl1)"
        using spec_iter_extended [of ae nv hs raw rl t] i Answer eq by simp
      then show ?thesis using False Answer eq by (simp add: spec_pop_iter [of ae nv hs "raw @ t"] spec_result_def extended_def)
    qed
  next
    case (Again h w)
    then have s: "spec_pop ae nv h w rl1 = (res, hs', raw', rl')" using "1.prems" i
      by (simp add: spec_pop_iter [of ae nv hs raw] spec_result_def)
    have "spec_iter ae nv hs (raw @ t) rl = (Again h (w @ t), rl1)"
      using spec_iter_extended [of ae nv hs raw rl t] i Again by (simp add: extended_def)
    then have "spec_pop ae nv hs (raw @ t) rl = spec_pop ae nv h (w @ t) rl1"
      by (simp add: spec_pop_iter [of ae nv hs "raw @ t"] spec_result_def)
    with "1.IH" [OF i [symmetric] Again s] show ?thesis by simp
  qed
qed

section \<open>Records that were sent\<close>

text \<open>Decrypt records in sequence; None when one of them is not accepted.\<close>

fun open_all :: "aead \<Rightarrow> opaque_message list \<Rightarrow> record_layer \<Rightarrow> (plain_message list \<times> record_layer) option" where
  "open_all ae [] rl = Some ([], rl)"
| "open_all ae (c # cs) rl =
     (case decrypt_incoming ae c rl of
        (Ok (Some d), rl') \<Rightarrow> map_option (\<lambda>(ms, r). (plaintext d # ms, r)) (open_all ae cs rl')
      | _ \<Rightarrow> None)"

definition wire :: "opaque_message list \<Rightarrow> bytes" where
  "wire cs = concat (map om_encode cs)"

lemma wire_simps [simp]: "wire [] = []" "wire (c # cs) = om_encode c @ wire cs"
  by (simp_all add: wire_def)

definition carrier :: "opaque_message \<Rightarrow> bool" where
  "carrier c \<longleftrightarrow> om_wf c \<and> om_typ c \<in> {CT_Handshake, CT_ApplicationData}"

lemma carrier_not_plain: "carrier c \<Longrightarrow> \<not> allowed_plaintext nv rl c"
  by (auto simp: carrier_def allowed_plaintext_def)

lemma spec_parse_record:
  assumes "carrier c" "decrypt_incoming ae c rl = (Ok (Some d), rl')"
  shows "spec_parse ae nv hs (om_encode c @ t) rl = (spec_plain hs t (plaintext d), rl')"
proof -
  have "om_read (reader_init (om_encode c @ t)) = Ok (c, \<lparr>rbuf = om_encode c @ t, cursor = length (om_encode c)\<rparr>)"
    using assms(1) by (simp only: om_read_init) (auto simp: carrier_def)
  then show ?thesis
    using assms carrier_not_plain [OF assms(1), of nv rl] by (simp add: spec_parse_def spec_record_def r_used_def)
qed

lemma spec_pop_single:
  assumes "carrier c" "decrypt_incoming ae c rl = (Ok (Some d), rl')" "pm_typ (plaintext d) \<noteq> CT_Handshake"
  shows "spec_pop ae nv None (om_encode c @ t) rl = (Ok (Some (single (plaintext d))), None, t, rl')"
  using assms spec_parse_record [OF assms(1,2), of nv None t]
  by (simp add: spec_pop_iter spec_result_def spec_iter_def spec_plain_def)

lemma spec_pop_prefix:
  assumes "carrier c" "raw @ s = om_encode c" "s \<noteq> []"
  shows "spec_pop ae nv None raw rl = (Ok None, None, raw, rl)"
  using om_read_prefix [of c raw s] assms
  by (auto simp: carrier_def spec_pop_iter spec_result_def spec_iter_def spec_parse_def)

text \<open>A handshake message is a header with the length and a body.\<close>

definition handshake_bytes :: "bytes \<Rightarrow> bool" where
  "handshake_bytes p \<longleftrightarrow> payload_size p = Ok (Some (length p))"

lemma payload_size_prefix:
  assumes "handshake_bytes (q @ r)" "r \<noteq> []"
  shows "complete_len q = None" "\<exists>x. payload_size q = Ok x"
proof -
  show "\<exists>x. payload_size q = Ok x"
  proof (cases "length q < 4")
    case False
    then have "slice 1 HANDSHAKE_HEADER_SIZE (q @ r) = slice 1 HANDSHAKE_HEADER_SIZE q"
      by (simp add: slice_def HANDSHAKE_HEADER_SIZE_def)
    then have "payload_size q = payload_size (q @ r)"
      using False by (simp add: payload_size_def HANDSHAKE_HEADER_SIZE_def)
    then show ?thesis using assms(1) by (simp add: handshake_bytes_def)
  qed (simp add: payload_size_def HANDSHAKE_HEADER_SIZE_def)
  then show "complete_len q = None"
    using assms payload_size_append [of q _ r]
    by (auto simp: complete_len_def handshake_bytes_def split: option.splits)
qed

lemma spec_pop_joined:
  assumes "handshake_bytes p"
  shows "spec_pop ae nv (Some (v, p)) raw rl = (Ok (Some (handshake_part v p True)), None, raw, rl)"
  using assms by (simp add: spec_pop_iter spec_result_def spec_iter_def complete_len_def handshake_bytes_def spec_yield_def)

lemma spec_pop_fragments:
  "open_all ae cs rl = Some (ms, rl') \<Longrightarrow> list_all carrier cs \<Longrightarrow> cs \<noteq> [] \<Longrightarrow>
   list_all (\<lambda>m. pm_typ m = CT_Handshake \<and> pm_version m = v \<and> pm_payload m \<noteq> []) ms \<Longrightarrow>
   (case hs of None \<Rightarrow> q = [] | Some (w, p) \<Rightarrow> w = v \<and> p = q) \<Longrightarrow>
   handshake_bytes (q @ concat (map pm_payload ms)) \<Longrightarrow>
   spec_pop ae nv hs (wire cs @ t) rl =
     (Ok (Some (handshake_part v (q @ concat (map pm_payload ms)) True)), None, t, rl')"
proof (induction cs arbitrary: rl ms hs q)
  case (Cons c cs)
  obtain d rl1 ms1 where d: "decrypt_incoming ae c rl = (Ok (Some d), rl1)"
    and o: "open_all ae cs rl1 = Some (ms1, rl')" and ms: "ms = plaintext d # ms1"
    using Cons.prems(1) by (auto split: prod.splits outcome.splits option.splits)
  have m: "pm_typ (plaintext d) = CT_Handshake" "pm_version (plaintext d) = v" "pm_payload (plaintext d) \<noteq> []"
    and ms1: "list_all (\<lambda>m. pm_typ m = CT_Handshake \<and> pm_version m = v \<and> pm_payload m \<noteq> []) ms1"
    and c: "carrier c" "list_all carrier cs" using Cons.prems(2,4) ms by simp_all
  have full: "q @ concat (map pm_payload ms) = (q @ pm_payload (plaintext d)) @ concat (map pm_payload ms1)"
    by (simp add: ms)
  have hs: "spec_join hs (plaintext d) = (v, q @ pm_payload (plaintext d))"
    using Cons.prems(5) m by (auto simp: spec_join_def split: option.splits)
  have nc: "spec_iter ae nv hs raw rl = spec_parse ae nv hs raw rl" for raw
  proof (cases hs)
    case (Some wp)
    then have "complete_len q = None" using Cons.prems(5,6) payload_size_prefix(1) m(3) ms by (cases wp) auto
    then show ?thesis using Some Cons.prems(5) by (auto simp: spec_iter_def split: prod.splits)
  qed (simp add: spec_iter_def)
  have ps: "\<exists>x. payload_size (q @ pm_payload (plaintext d)) = Ok x"
  proof (cases "concat (map pm_payload ms1) = []")
    case True
    then show ?thesis using Cons.prems(6) unfolding full True handshake_bytes_def by auto
  next
    case False
    from payload_size_prefix(2) [OF Cons.prems(6) [unfolded full] False] show ?thesis .
  qed
  have step: "spec_pop ae nv hs (wire (c # cs) @ t) rl =
    spec_pop ae nv (Some (v, q @ pm_payload (plaintext d))) (wire cs @ t) rl1"
    using spec_parse_record [OF c(1) d, of nv hs "wire cs @ t"] nc m hs ps
    by (auto simp: spec_pop_iter [of ae nv hs] spec_result_def spec_plain_def)
  show ?case
  proof (cases "cs = []")
    case True
    then have "ms1 = []" "rl1 = rl'" using o by simp_all
    then show ?thesis using step True Cons.prems(6) full by (simp add: spec_pop_joined)
  next
    case False
    show ?thesis unfolding step full
      by (rule Cons.IH [OF o c(2) False ms1]) (use Cons.prems(6) full in simp_all)
  qed
qed simp

end
