(* ===== verification/Rustls_Vecbuf.thy ===== *)
theory Rustls_Vecbuf
  imports Prelude
begin

text \<open>
  \<open>orcax/rustls-fork/rustls/src/vecbuf.rs\<close>: the buffer behind the plaintext and ciphertext queues
  of a connection, a queue of byte vectors with an optional limit.

  The interface \<open>byte_queue\<close> says what a connection relies on: bytes come out in the order they
  went in. \<open>ChunkVecBuffer\<close> implements it as long as it stores no empty chunk, which \<open>append\<close>
  ensures.
\<close>

section \<open>ChunkVecBuffer\<close>

record chunk_vec_buffer =
  cv_chunks :: "bytes list"
  cv_limit :: "nat option"

definition cv_new :: "nat option \<Rightarrow> chunk_vec_buffer" where
  "cv_new limit = \<lparr>cv_chunks = [], cv_limit = limit\<rparr>"

definition cv_set_limit :: "nat option \<Rightarrow> chunk_vec_buffer \<Rightarrow> chunk_vec_buffer" where
  "cv_set_limit new_limit b = b\<lparr>cv_limit := new_limit\<rparr>"

definition cv_is_empty :: "chunk_vec_buffer \<Rightarrow> bool" where
  "cv_is_empty b \<longleftrightarrow> cv_chunks b = []"

definition cv_len :: "chunk_vec_buffer \<Rightarrow> nat" where
  "cv_len b = foldl (\<lambda>len ch. len + length ch) 0 (cv_chunks b)"

definition cv_is_full :: "chunk_vec_buffer \<Rightarrow> bool" where
  "cv_is_full b = (case cv_limit b of Some limit \<Rightarrow> cv_len b > limit | None \<Rightarrow> False)"

definition cv_apply_limit :: "chunk_vec_buffer \<Rightarrow> nat \<Rightarrow> nat" where
  "cv_apply_limit b len =
     (case cv_limit b of Some limit \<Rightarrow> min len (limit - cv_len b) | None \<Rightarrow> len)"

definition cv_append :: "bytes \<Rightarrow> chunk_vec_buffer \<Rightarrow> nat \<times> chunk_vec_buffer" where
  "cv_append bs b = (length bs, if bs = [] then b else b\<lparr>cv_chunks := cv_chunks b @ [bs]\<rparr>)"

definition cv_append_limited_copy :: "bytes \<Rightarrow> chunk_vec_buffer \<Rightarrow> nat \<times> chunk_vec_buffer" where
  "cv_append_limited_copy bs b =
     (let n = cv_apply_limit b (length bs) in (n, snd (cv_append (take n bs) b)))"

definition cv_pop :: "chunk_vec_buffer \<Rightarrow> bytes option \<times> chunk_vec_buffer" where
  "cv_pop b = (case cv_chunks b of [] \<Rightarrow> (None, b) | c # cs \<Rightarrow> (Some c, b\<lparr>cv_chunks := cs\<rparr>))"

text \<open>The loop of \<open>consume\<close>, on the chunks.\<close>

fun consume_chunks :: "nat \<Rightarrow> bytes list \<Rightarrow> bytes list" where
  "consume_chunks used [] = []"
| "consume_chunks used (b # bs) =
     (if used < length b then drop used b # bs else consume_chunks (used - length b) bs)"

definition cv_consume :: "nat \<Rightarrow> chunk_vec_buffer \<Rightarrow> chunk_vec_buffer" where
  "cv_consume used b = b\<lparr>cv_chunks := consume_chunks used (cv_chunks b)\<rparr>"

lemma consume_chunks_length: "length (consume_chunks used cs) \<le> length cs"
  by (induction used cs rule: consume_chunks.induct) (auto intro: le_SucI)

text \<open>
  The loop of \<open>read\<close> into a buffer of \<open>n\<close> bytes, of which the bytes \<open>out\<close> are filled. Reading
  from the first chunk copies as much as fits.
\<close>

function read_chunks :: "nat \<Rightarrow> bytes \<Rightarrow> bytes list \<Rightarrow> bytes \<times> bytes list" where
  "read_chunks n out cs =
     (if length out < n \<and> cs \<noteq> [] then
        let used = min (length (hd cs)) (n - length out)
        in read_chunks n (out @ take used (hd cs)) (consume_chunks used cs)
      else (out, cs))"
  by pat_completeness auto
termination
proof (relation "measure (\<lambda>(n, out, cs). n - length out + length cs)", simp, unfold in_measure)
  fix n used :: nat and out :: bytes and cs :: "bytes list"
  assume g: "length out < n \<and> cs \<noteq> []" and u: "used = min (length (hd cs)) (n - length out)"
  show "(case (n, out @ take used (hd cs), consume_chunks used cs) of (n, out, cs) \<Rightarrow> n - length out + length cs)
      < (case (n, out, cs) of (n, out, cs) \<Rightarrow> n - length out + length cs)"
  proof (cases "hd cs = []")
    case True
    with g obtain cs' where "cs = [] # cs'" by (cases cs) auto
    with u show ?thesis using consume_chunks_length [of 0 cs'] by (simp add: less_Suc_eq_le)
  next
    case False
    then have "0 < used" using g u by simp
    moreover have "used \<le> n - length out" "used \<le> length (hd cs)" using u by simp_all
    ultimately show ?thesis using consume_chunks_length [of used cs] g by simp
  qed
qed

declare read_chunks.simps [simp del]

definition cv_read :: "nat \<Rightarrow> chunk_vec_buffer \<Rightarrow> bytes \<times> chunk_vec_buffer" where
  "cv_read n b = (case read_chunks n [] (cv_chunks b) of (out, cs) \<Rightarrow> (out, b\<lparr>cv_chunks := cs\<rparr>))"

text \<open>
  \<open>write_to\<close> hands at most 64 chunks to the writer's \<open>write_vectored\<close>, which answers how many
  bytes it took or fails; the answer of the writer is a parameter.
\<close>

definition cv_write_to ::
    "(bytes list \<Rightarrow> ('e, nat) outcome) \<Rightarrow> chunk_vec_buffer \<Rightarrow> ('e, nat \<times> chunk_vec_buffer) outcome" where
  "cv_write_to wr b =
     (if cv_is_empty b then Ok (0, b)
      else outcome_bind (wr (take 64 (cv_chunks b))) (\<lambda>used. Ok (used, cv_consume used b)))"

section \<open>The contract of a byte queue\<close>

locale byte_queue =
  fixes contents :: "'q \<Rightarrow> bytes" and inv :: "'q \<Rightarrow> bool"
    and empty :: 'q and put :: "bytes \<Rightarrow> 'q \<Rightarrow> 'q" and get :: "nat \<Rightarrow> 'q \<Rightarrow> bytes \<times> 'q"
    and isempty :: "'q \<Rightarrow> bool"
  assumes empty: "inv empty" "contents empty = []"
    and put: "inv q \<Longrightarrow> inv (put bs q)" "inv q \<Longrightarrow> contents (put bs q) = contents q @ bs"
    and get: "inv q \<Longrightarrow> inv (snd (get n q))" "inv q \<Longrightarrow> fst (get n q) = take n (contents q)"
      "inv q \<Longrightarrow> contents (snd (get n q)) = drop n (contents q)"
    and isempty: "inv q \<Longrightarrow> isempty q \<longleftrightarrow> contents q = []"
begin

text \<open>Any sequence of writes (\<open>Inl\<close>) and reads (\<open>Inr\<close>): what was read, then the queue left.\<close>

fun run :: "(bytes + nat) list \<Rightarrow> 'q \<Rightarrow> bytes \<times> 'q" where
  "run [] q = ([], q)"
| "run (Inl bs # ops) q = run ops (put bs q)"
| "run (Inr n # ops) q = (case get n q of (x, q') \<Rightarrow> case run ops q' of (y, q'') \<Rightarrow> (x @ y, q''))"

fun written :: "(bytes + nat) list \<Rightarrow> bytes" where
  "written [] = []"
| "written (Inl bs # ops) = bs @ written ops"
| "written (Inr n # ops) = written ops"

lemma run_fifo:
  "inv q \<Longrightarrow> inv (snd (run ops q)) \<and> fst (run ops q) @ contents (snd (run ops q)) = contents q @ written ops"
proof (induction ops q rule: run.induct)
  case (2 bs ops q)
  then show ?case using put by simp
next
  case (3 n ops q)
  obtain x q' where g: "get n q = (x, q')" by fastforce
  with get [of q n] 3(2) have q': "inv q'" "x @ contents q' = contents q" by simp_all
  with 3(1) [OF g [symmetric] q'(1)] g show ?case by (auto split: prod.split)
qed simp

lemma drain: "inv q \<Longrightarrow> length (contents q) \<le> n \<Longrightarrow> fst (get n q) = contents q \<and> isempty (snd (get n q))"
  using get isempty by simp

end

section \<open>ChunkVecBuffer is a byte queue\<close>

definition cv_contents :: "chunk_vec_buffer \<Rightarrow> bytes" where
  "cv_contents b = concat (cv_chunks b)"

definition cv_inv :: "chunk_vec_buffer \<Rightarrow> bool" where
  "cv_inv b \<longleftrightarrow> [] \<notin> set (cv_chunks b)"

lemma cv_len_contents: "cv_len b = length (cv_contents b)"
proof -
  have "foldl (\<lambda>len ch. len + length ch) k cs = k + length (concat cs)" for k and cs :: "bytes list"
    by (induction cs arbitrary: k) simp_all
  then show ?thesis by (simp add: cv_len_def cv_contents_def)
qed

lemma consume_chunks_concat: "concat (consume_chunks used cs) = drop used (concat cs)"
  by (induction used cs rule: consume_chunks.induct) auto

lemma consume_chunks_nonempty: "[] \<notin> set cs \<Longrightarrow> [] \<notin> set (consume_chunks used cs)"
  by (induction used cs rule: consume_chunks.induct) auto

lemma read_chunks_spec:
  "[] \<notin> set cs \<Longrightarrow> length out \<le> n \<Longrightarrow>
     (case read_chunks n out cs of (res, cs') \<Rightarrow>
        res = out @ take (n - length out) (concat cs) \<and> concat cs' = drop (n - length out) (concat cs)
        \<and> [] \<notin> set cs')"
proof (induction n out cs rule: read_chunks.induct)
  case (1 n out cs)
  show ?case
  proof (cases "length out < n \<and> cs \<noteq> []")
    case False
    then show ?thesis using "1.prems" by (auto simp: read_chunks.simps [of n out cs])
  next
    case True
    define used where "used = min (length (hd cs)) (n - length out)"
    obtain c cs' where cs: "cs = c # cs'" using True by (cases cs) auto
    have used: "used \<le> length c" "used \<le> n - length out" using cs by (simp_all add: used_def)
    have step: "read_chunks n out cs = read_chunks n (out @ take used (hd cs)) (consume_chunks used cs)"
      using True by (simp add: read_chunks.simps [of n out cs] used_def Let_def)
    have "take used c @ take (n - length out - used) (drop used (concat cs)) = take (n - length out) (concat cs)"
    proof -
      have "take used c = take used (concat cs)" using used cs by simp
      then show ?thesis using used(2) by (metis le_add_diff_inverse take_add)
    qed
    moreover have len: "length (out @ take used (hd cs)) \<le> n" using used cs True by simp
    moreover have ol: "length (out @ take used (hd cs)) = length out + used" using used(1) cs by simp
    ultimately show ?thesis
      using "1.IH" [OF True used_def consume_chunks_nonempty [OF "1.prems"(1)] len] cs used(2)
      unfolding step consume_chunks_concat by (auto simp: ol split: prod.splits)
  qed
qed

lemma cv_read_spec:
  assumes "cv_inv b"
  shows "fst (cv_read n b) = take n (cv_contents b)" "cv_contents (snd (cv_read n b)) = drop n (cv_contents b)"
    "cv_inv (snd (cv_read n b))"
  using read_chunks_spec [of "cv_chunks b" "[]" n] assms
  by (auto simp: cv_read_def cv_contents_def cv_inv_def split: prod.splits)

interpretation cv: byte_queue cv_contents cv_inv "cv_new limit" "\<lambda>bs b. snd (cv_append bs b)" cv_read cv_is_empty
  for limit
proof
  show "cv_is_empty q \<longleftrightarrow> cv_contents q = []" if "cv_inv q" for q
    using that by (cases "cv_chunks q") (auto simp: cv_is_empty_def cv_contents_def cv_inv_def)
qed (simp_all add: cv_read_spec, simp_all add: cv_new_def cv_append_def cv_contents_def cv_inv_def)

lemma cv_consume_spec:
  "cv_contents (cv_consume n b) = drop n (cv_contents b)" "cv_inv b \<Longrightarrow> cv_inv (cv_consume n b)"
  by (simp_all add: cv_consume_def cv_contents_def cv_inv_def consume_chunks_concat consume_chunks_nonempty)

lemma cv_pop_spec:
  "cv_pop b = (Some c, b') \<Longrightarrow> cv_contents b = c @ cv_contents b' \<and> (cv_inv b \<longrightarrow> cv_inv b' \<and> c \<noteq> [])"
  "cv_pop b = (None, b') \<Longrightarrow> b' = b \<and> cv_contents b = []"
  by (auto simp: cv_pop_def cv_contents_def cv_inv_def split: list.splits)

lemma cv_append_limited_spec:
  assumes "cv_append_limited_copy bs b = (n, b')"
  shows "cv_contents b' = cv_contents b @ take n bs" "n \<le> length bs"
    "cv_limit b = None \<Longrightarrow> n = length bs"
    "cv_limit b = Some l \<Longrightarrow> n = min (length bs) (l - length (cv_contents b))"
  using assms
  by (auto simp: cv_append_limited_copy_def cv_append_def cv_apply_limit_def cv_len_contents cv_contents_def Let_def
      split: if_splits option.splits)

lemma cv_append_spec:
  "cv_contents (snd (cv_append bs b)) = cv_contents b @ bs" "fst (cv_append bs b) = length bs"
  "cv_inv b \<Longrightarrow> cv_inv (snd (cv_append bs b))" "cv_limit (snd (cv_append bs b)) = cv_limit b"
  by (simp_all add: cv_append_def cv_contents_def cv_inv_def)

end
