(* ===== verification/Rustls_Common.thy ===== *)
theory Rustls_Common
  imports Rustls_Handshake_Message Rustls_Deframer_Spec Rustls_Vecbuf
begin

text \<open>
  \<open>MessagePayload\<close> and \<open>Message\<close> of \<open>orcax/rustls-fork/rustls/src/msgs/message.rs\<close>, the errors of
  \<open>check.rs\<close>, and \<open>CommonState\<close> of \<open>common_state.rs\<close>: the state that client and server connections
  share, and how messages, alerts and application data are fragmented, encrypted and queued.

  Sending a fragment may call itself through \<open>send_close_notify\<close>. The functions that send are
  therefore in the option monad: \<open>None\<close> is a call that never returns. \<open>Panic\<close> is the \<open>unwrap\<close> of a
  failed encryption. The assertions of debug builds and the log are not part of the model.
\<close>

section \<open>Messages\<close>

datatype message_payload =
    MP_Alert alert_message_payload
  | MP_Handshake handshake_message_payload bytes
  | MP_ChangeCipherSpec
  | MP_ApplicationData bytes

primrec message_payload_encode :: "message_payload \<Rightarrow> bytes \<Rightarrow> bytes" where
  "message_payload_encode (MP_Alert x) out = alert_encode x out"
| "message_payload_encode (MP_Handshake parsed encoded) out = out @ encoded"
| "message_payload_encode MP_ChangeCipherSpec out = ccs_encode () out"
| "message_payload_encode (MP_ApplicationData x) out = payload_encode x out"

definition message_payload_handshake :: "handshake_message_payload \<Rightarrow> message_payload" where
  "message_payload_handshake parsed = MP_Handshake parsed (handshake_message_encode parsed [])"

definition message_payload_new ::
    "(bytes \<Rightarrow> bool) \<Rightarrow> content_type \<Rightarrow> protocol_version \<Rightarrow> bytes \<Rightarrow> (invalid_message, message_payload) outcome" where
  "message_payload_new dns typ vers payload =
     (let r = reader_init payload
      in case typ of
           CT_ApplicationData \<Rightarrow> Ok (MP_ApplicationData payload)
         | CT_Alert \<Rightarrow> outcome_bind (alert_read r) (\<lambda>(a, _). Ok (MP_Alert a))
         | CT_Handshake \<Rightarrow> outcome_bind (read_version dns vers r) (\<lambda>(parsed, _). Ok (MP_Handshake parsed payload))
         | CT_ChangeCipherSpec \<Rightarrow> outcome_bind (ccs_read r) (\<lambda>_. Ok MP_ChangeCipherSpec)
         | _ \<Rightarrow> Err InvalidContentType)"

primrec mp_content_type :: "message_payload \<Rightarrow> content_type" where
  "mp_content_type (MP_Alert _) = CT_Alert"
| "mp_content_type (MP_Handshake _ _) = CT_Handshake"
| "mp_content_type MP_ChangeCipherSpec = CT_ChangeCipherSpec"
| "mp_content_type (MP_ApplicationData _) = CT_ApplicationData"

record message =
  m_version :: protocol_version
  m_payload :: message_payload

definition plain_of :: "message \<Rightarrow> plain_message" where
  "plain_of m =
     \<lparr>pm_typ = mp_content_type (m_payload m), pm_version = m_version m,
      pm_payload = (case m_payload m of
          MP_ApplicationData payload \<Rightarrow> payload
        | p \<Rightarrow> message_payload_encode p [])\<rparr>"

definition is_handshake_type :: "message \<Rightarrow> handshake_type \<Rightarrow> bool" where
  "is_handshake_type m hstyp =
     (case m_payload m of MP_Handshake parsed _ \<Rightarrow> hmp_typ parsed = hstyp | _ \<Rightarrow> False)"

definition build_alert :: "alert_level \<Rightarrow> alert_description \<Rightarrow> message" where
  "build_alert l desc = \<lparr>m_version = PV_TLSv1_2, m_payload = MP_Alert \<lparr>level = l, description = desc\<rparr>\<rparr>"

definition key_update_notify :: message where
  "key_update_notify =
     \<lparr>m_version = PV_TLSv1_3, m_payload = message_payload_handshake build_key_update_notify\<rparr>"

definition message_try_from :: "(bytes \<Rightarrow> bool) \<Rightarrow> plain_message \<Rightarrow> (tls_error, message) outcome" where
  "message_try_from dns plain =
     outcome_bind (map_err InvalidMessage (message_payload_new dns (pm_typ plain) (pm_version plain) (pm_payload plain)))
       (\<lambda>payload. Ok \<lparr>m_version = pm_version plain, m_payload = payload\<rparr>)"

definition inappropriate_message :: "message_payload \<Rightarrow> content_type list \<Rightarrow> tls_error" where
  "inappropriate_message payload content_types = InappropriateMessage content_types (mp_content_type payload)"

definition inappropriate_handshake_message ::
    "message_payload \<Rightarrow> content_type list \<Rightarrow> handshake_type list \<Rightarrow> tls_error" where
  "inappropriate_handshake_message payload content_types handshake_types =
     (case payload of
        MP_Handshake parsed _ \<Rightarrow> InappropriateHandshakeMessage handshake_types (hmp_typ parsed)
      | _ \<Rightarrow> inappropriate_message payload content_types)"

section \<open>State\<close>

datatype side = Client | Server

primrec peer :: "side \<Rightarrow> side" where
  "peer Client = Server"
| "peer Server = Client"

datatype protocol = Tcp | Quic

text \<open>
  The fields that no modelled operation touches are left out: the cipher suite, the flag that
  allows to extract secrets, and the secrets and version of a QUIC connection.
\<close>

record common_state =
  negotiated_version :: "protocol_version option"
  cs_side :: side
  cs_rl :: record_layer
  alpn_protocol :: "bytes option"
  aligned_handshake :: bool
  may_send_application_data :: bool
  may_receive_application_data :: bool
  early_traffic :: bool
  sent_fatal_alert :: bool
  has_received_close_notify :: bool
  has_seen_eof :: bool
  received_middlebox_ccs :: u8
  peer_certificates :: "bytes list option"
  cs_fragmenter :: message_fragmenter
  received_plaintext :: chunk_vec_buffer
  sendable_plaintext :: chunk_vec_buffer
  sendable_tls :: chunk_vec_buffer
  queued_key_update_message :: "bytes option"
  cs_protocol :: protocol
  quic_alert :: "alert_description option"
  hs_queue :: "(bool \<times> bytes) list"
  quic_params :: "bytes option"

definition DEFAULT_RECEIVED_PLAINTEXT_LIMIT :: nat where "DEFAULT_RECEIVED_PLAINTEXT_LIMIT = 16 * 1024"

definition DEFAULT_BUFFER_LIMIT :: nat where "DEFAULT_BUFFER_LIMIT = 64 * 1024"

definition common_new :: "side \<Rightarrow> common_state" where
  "common_new sd = \<lparr>negotiated_version = None, cs_side = sd, cs_rl = rl_new, alpn_protocol = None,
     aligned_handshake = True, may_send_application_data = False, may_receive_application_data = False,
     early_traffic = False, sent_fatal_alert = False, has_received_close_notify = False, has_seen_eof = False,
     received_middlebox_ccs = 0, peer_certificates = None, cs_fragmenter = fragmenter_default,
     received_plaintext = cv_new (Some DEFAULT_RECEIVED_PLAINTEXT_LIMIT),
     sendable_plaintext = cv_new (Some DEFAULT_BUFFER_LIMIT), sendable_tls = cv_new (Some DEFAULT_BUFFER_LIMIT),
     queued_key_update_message = None, cs_protocol = Tcp, quic_alert = None, hs_queue = [], quic_params = None\<rparr>"

definition wants_write :: "common_state \<Rightarrow> bool" where
  "wants_write s \<longleftrightarrow> \<not> cv_is_empty (sendable_tls s)"

definition is_handshaking :: "common_state \<Rightarrow> bool" where
  "is_handshaking s \<longleftrightarrow> \<not> (may_send_application_data s \<and> may_receive_application_data s)"

definition is_tls13 :: "common_state \<Rightarrow> bool" where
  "is_tls13 s \<longleftrightarrow> negotiated_version s = Some PV_TLSv1_3"

definition wants_read :: "common_state \<Rightarrow> bool" where
  "wants_read s \<longleftrightarrow>
     cv_is_empty (received_plaintext s)
     \<and> \<not> has_received_close_notify s
     \<and> (may_send_application_data s \<or> cv_is_empty (sendable_tls s))"

record io_state =
  tls_bytes_to_write :: nat
  plaintext_bytes_to_read :: nat
  peer_has_closed :: bool

definition current_io_state :: "common_state \<Rightarrow> io_state" where
  "current_io_state s =
     \<lparr>tls_bytes_to_write = cv_len (sendable_tls s), plaintext_bytes_to_read = cv_len (received_plaintext s),
      peer_has_closed = has_received_close_notify s\<rparr>"

definition set_buffer_limit :: "nat option \<Rightarrow> common_state \<Rightarrow> common_state" where
  "set_buffer_limit limit s =
     s\<lparr>sendable_plaintext := cv_set_limit limit (sendable_plaintext s),
       sendable_tls := cv_set_limit limit (sendable_tls s)\<rparr>"

definition cs_set_max_fragment_size :: "nat option \<Rightarrow> common_state \<Rightarrow> (tls_error, common_state) outcome" where
  "cs_set_max_fragment_size new s =
     outcome_bind (set_max_fragment_size (cs_fragmenter s) new) (\<lambda>fr. Ok (s\<lparr>cs_fragmenter := fr\<rparr>))"

section \<open>Sending\<close>

type_synonym sent = "(tls_error, common_state) outcome option"

definition queue_tls_message :: "opaque_message \<Rightarrow> common_state \<Rightarrow> common_state" where
  "queue_tls_message m s = s\<lparr>sendable_tls := snd (cv_append (om_encode m) (sendable_tls s))\<rparr>"

text \<open>What \<open>send_single_fragment\<close> does after the check of the soft limit.\<close>

definition encrypt_fragment :: "aead \<Rightarrow> plain_message \<Rightarrow> common_state \<Rightarrow> (tls_error, common_state) outcome" where
  "encrypt_fragment ae m s =
     (if encrypt_exhausted (cs_rl s) then Ok s
      else outcome_bind (encrypt_outgoing ae m (cs_rl s)) (\<lambda>(em, rl).
        Ok (queue_tls_message em (s\<lparr>cs_rl := rl\<rparr>))))"

definition queue_plain :: "plain_message \<Rightarrow> common_state \<Rightarrow> common_state" where
  "queue_plain m s = fold (\<lambda>f. queue_tls_message (into_unencrypted_opaque f)) (fragment_message (cs_fragmenter s) m) s"

definition close_notify :: message where
  "close_notify = build_alert AL_Warning AD_CloseNotify"

text \<open>
  The loop over fragments with \<open>send_single_fragment\<close> for each. At the soft limit a close_notify
  goes out first, in a fragment of its own, that is by the same function.
\<close>

partial_function (option) send_fragments :: "aead \<Rightarrow> plain_message list \<Rightarrow> common_state \<Rightarrow> sent" where
  "send_fragments ae ms s =
     (case ms of
        [] \<Rightarrow> Some (Ok s)
      | m # rest \<Rightarrow>
          Option.bind
            (if wants_close_before_encrypt (cs_rl s) then
               if cs_protocol s = Quic then Some (Ok (s\<lparr>quic_alert := Some AD_CloseNotify\<rparr>))
               else if is_encrypting (cs_rl s)
               then send_fragments ae (fragment_message (cs_fragmenter s) (plain_of close_notify)) s
               else Some (Ok (queue_plain (plain_of close_notify) s))
             else Some (Ok s))
            (\<lambda>o1. case o1 of
                Ok s1 \<Rightarrow> (case encrypt_fragment ae m s1 of
                    Ok s2 \<Rightarrow> send_fragments ae rest s2
                  | Err e \<Rightarrow> Some (Err e)
                  | Panic \<Rightarrow> Some Panic)
              | Err e \<Rightarrow> Some (Err e)
              | Panic \<Rightarrow> Some Panic))"

definition send_msg_encrypt :: "aead \<Rightarrow> plain_message \<Rightarrow> common_state \<Rightarrow> sent" where
  "send_msg_encrypt ae m s = send_fragments ae (fragment_message (cs_fragmenter s) m) s"

definition send_msg :: "aead \<Rightarrow> message \<Rightarrow> bool \<Rightarrow> common_state \<Rightarrow> sent" where
  "send_msg ae m must_encrypt s =
     (if cs_protocol s = Quic then
        Some (Ok (case m_payload m of
            MP_Alert alert \<Rightarrow> s\<lparr>quic_alert := Some (description alert)\<rparr>
          | p \<Rightarrow> s\<lparr>hs_queue := hs_queue s @ [(must_encrypt, message_payload_encode p [])]\<rparr>))
      else if \<not> must_encrypt then Some (Ok (queue_plain (plain_of m) s))
      else send_msg_encrypt ae (plain_of m) s)"

definition send_warning_alert :: "aead \<Rightarrow> alert_description \<Rightarrow> common_state \<Rightarrow> sent" where
  "send_warning_alert ae desc s = send_msg ae (build_alert AL_Warning desc) (is_encrypting (cs_rl s)) s"

definition send_close_notify :: "aead \<Rightarrow> common_state \<Rightarrow> sent" where
  "send_close_notify ae s = send_warning_alert ae AD_CloseNotify s"

definition send_fatal_alert :: "aead \<Rightarrow> alert_description \<Rightarrow> common_state \<Rightarrow> sent" where
  "send_fatal_alert ae desc s =
     Option.bind (send_msg ae (build_alert AL_Fatal desc) (is_encrypting (cs_rl s)) s) (\<lambda>o1.
     Some (outcome_bind o1 (\<lambda>s. Ok (s\<lparr>sent_fatal_alert := True\<rparr>))))"

datatype limit = Limited | Unlimited

text \<open>The functions that accept application data return how much of it they accepted.\<close>

definition send_appdata_encrypt :: "aead \<Rightarrow> bytes \<Rightarrow> limit \<Rightarrow> common_state \<Rightarrow> (tls_error, nat \<times> common_state) outcome option" where
  "send_appdata_encrypt ae payload lim s =
     (let len = (case lim of
            Limited \<Rightarrow> cv_apply_limit (sendable_tls s) (length payload)
          | Unlimited \<Rightarrow> length payload)
      in Option.bind
           (send_fragments ae (fragment_slice (cs_fragmenter s) CT_ApplicationData PV_TLSv1_2 (take len payload)) s)
           (\<lambda>o1. Some (outcome_bind o1 (\<lambda>s. Ok (len, s)))))"

definition send_plain :: "aead \<Rightarrow> bytes \<Rightarrow> limit \<Rightarrow> common_state \<Rightarrow> (tls_error, nat \<times> common_state) outcome option" where
  "send_plain ae data lim s =
     (if \<not> may_send_application_data s then
        Some (Ok (case (case lim of
              Limited \<Rightarrow> cv_append_limited_copy data (sendable_plaintext s)
            | Unlimited \<Rightarrow> cv_append data (sendable_plaintext s)) of
          (len, b) \<Rightarrow> (len, s\<lparr>sendable_plaintext := b\<rparr>)))
      else if data = [] then Some (Ok (0, s))
      else send_appdata_encrypt ae data lim s)"

definition perhaps_write_key_update :: "common_state \<Rightarrow> common_state" where
  "perhaps_write_key_update s =
     (case queued_key_update_message s of
        Some message \<Rightarrow>
          s\<lparr>queued_key_update_message := None, sendable_tls := snd (cv_append message (sendable_tls s))\<rparr>
      | None \<Rightarrow> s)"

definition send_some_plaintext :: "aead \<Rightarrow> bytes \<Rightarrow> common_state \<Rightarrow> (tls_error, nat \<times> common_state) outcome option" where
  "send_some_plaintext ae data s = send_plain ae data Limited (perhaps_write_key_update s)"

definition send_early_plaintext :: "aead \<Rightarrow> bytes \<Rightarrow> common_state \<Rightarrow> (tls_error, nat \<times> common_state) outcome option" where
  "send_early_plaintext ae data s =
     (if data = [] then Some (Ok (0, s)) else send_appdata_encrypt ae data Limited s)"

partial_function (option) flush_loop :: "aead \<Rightarrow> common_state \<Rightarrow> sent" where
  "flush_loop ae s =
     (case cv_pop (sendable_plaintext s) of
        (None, b) \<Rightarrow> Some (Ok s)
      | (Some buf, b) \<Rightarrow>
          Option.bind (send_plain ae buf Unlimited (s\<lparr>sendable_plaintext := b\<rparr>)) (\<lambda>o1.
            case o1 of
              Ok r \<Rightarrow> flush_loop ae (snd r)
            | Err e \<Rightarrow> Some (Err e)
            | Panic \<Rightarrow> Some Panic))"

definition flush_plaintext :: "aead \<Rightarrow> common_state \<Rightarrow> sent" where
  "flush_plaintext ae s = (if \<not> may_send_application_data s then Some (Ok s) else flush_loop ae s)"

definition start_outgoing_traffic :: "aead \<Rightarrow> common_state \<Rightarrow> sent" where
  "start_outgoing_traffic ae s = flush_plaintext ae (s\<lparr>may_send_application_data := True\<rparr>)"

definition start_traffic :: "aead \<Rightarrow> common_state \<Rightarrow> sent" where
  "start_traffic ae s = start_outgoing_traffic ae (s\<lparr>may_receive_application_data := True\<rparr>)"

definition take_received_plaintext :: "bytes \<Rightarrow> common_state \<Rightarrow> common_state" where
  "take_received_plaintext bs s = s\<lparr>received_plaintext := snd (cv_append bs (received_plaintext s))\<rparr>"

section \<open>Failing\<close>

text \<open>An operation that may fail leaves a state behind as well.\<close>

type_synonym 'a step = "((tls_error, 'a) outcome \<times> common_state) option"

definition fail_with :: "aead \<Rightarrow> alert_description \<Rightarrow> tls_error \<Rightarrow> common_state \<Rightarrow> 'a step" where
  "fail_with ae desc err s =
     Option.bind (send_fatal_alert ae desc s) (\<lambda>o1.
       Some (case o1 of Ok s' \<Rightarrow> (Err err, s') | Err e \<Rightarrow> (Err e, s) | Panic \<Rightarrow> (Panic, s)))"

definition check_aligned_handshake :: "aead \<Rightarrow> common_state \<Rightarrow> unit step" where
  "check_aligned_handshake ae s =
     (if \<not> aligned_handshake s
      then fail_with ae AD_UnexpectedMessage (PeerMisbehaved KeyEpochWithPendingFragment) s
      else Some (Ok (), s))"

definition process_alert :: "aead \<Rightarrow> alert_message_payload \<Rightarrow> common_state \<Rightarrow> unit step" where
  "process_alert ae alert s =
     (case level alert of
        AL_Unknown _ \<Rightarrow> fail_with ae AD_IllegalParameter (AlertReceived (description alert)) s
      | l \<Rightarrow>
          if description alert = AD_CloseNotify then Some (Ok (), s\<lparr>has_received_close_notify := True\<rparr>)
          else if l = AL_Warning then
            if is_tls13 s \<and> description alert \<noteq> AD_UserCanceled
            then fail_with ae AD_DecodeError (AlertReceived (description alert)) s
            else Some (Ok (), s)
          else Some (Err (AlertReceived (description alert)), s))"

definition should_update_key :: "aead \<Rightarrow> key_update_request \<Rightarrow> common_state \<Rightarrow> bool step" where
  "should_update_key ae req s =
     (case req of
        KUR_UpdateNotRequested \<Rightarrow> Some (Ok False, s)
      | KUR_UpdateRequested \<Rightarrow> Some (Ok (queued_key_update_message s = None), s)
      | _ \<Rightarrow> fail_with ae AD_IllegalParameter (InvalidMessage InvalidKeyUpdate) s)"

definition enqueue_key_update_notification :: "aead \<Rightarrow> common_state \<Rightarrow> (tls_error, common_state) outcome" where
  "enqueue_key_update_notification ae s =
     outcome_bind (encrypt_outgoing ae (plain_of key_update_notify) (cs_rl s)) (\<lambda>(em, rl).
     Ok (s\<lparr>cs_rl := rl, queued_key_update_message := Some (om_encode em)\<rparr>))"

text \<open>
  A handler is the method \<open>handle\<close> of a protocol state: with the common state, the data of the
  connection and a message it gives the next state or an error.
\<close>

type_synonym ('st, 'd) handler =
  "'st \<Rightarrow> common_state \<Rightarrow> 'd \<Rightarrow> message \<Rightarrow> ((tls_error, 'st) outcome \<times> common_state \<times> 'd) option"

definition process_main_protocol ::
    "aead \<Rightarrow> ('st, 'd) handler \<Rightarrow> message \<Rightarrow> 'st \<Rightarrow> common_state \<Rightarrow> 'd \<Rightarrow>
     ((tls_error, 'st) outcome \<times> common_state \<times> 'd) option" where
  "process_main_protocol ae handle msg st s d =
     (if may_receive_application_data s \<and> \<not> is_tls13 s
         \<and> is_handshake_type msg (case cs_side s of Client \<Rightarrow> HT_HelloRequest | Server \<Rightarrow> HT_ClientHello) then
        Option.bind (send_warning_alert ae AD_NoRenegotiation s) (\<lambda>o1.
          Some (case o1 of Ok s' \<Rightarrow> (Ok st, s', d) | Err e \<Rightarrow> (Err e, s, d) | Panic \<Rightarrow> (Panic, s, d)))
      else Option.bind (handle st s d msg) (\<lambda>(o1, s, d).
        case o1 of
          Err (InappropriateMessage a b) \<Rightarrow>
            Option.bind (fail_with ae AD_UnexpectedMessage (InappropriateMessage a b) s) (\<lambda>(o2, s). Some (o2, s, d))
        | Err (InappropriateHandshakeMessage a b) \<Rightarrow>
            Option.bind (fail_with ae AD_UnexpectedMessage (InappropriateHandshakeMessage a b) s) (\<lambda>(o2, s). Some (o2, s, d))
        | _ \<Rightarrow> Some (o1, s, d)))"

section \<open>What is queued\<close>

text \<open>The records into which fragments are encrypted.\<close>

fun seal_all :: "aead \<Rightarrow> plain_message list \<Rightarrow> record_layer \<Rightarrow> (opaque_message list \<times> record_layer) option" where
  "seal_all ae [] rl = Some ([], rl)"
| "seal_all ae (m # ms) rl =
     (case (encrypt_outgoing ae m rl :: (tls_error, _) outcome) of
        Ok (c, rl') \<Rightarrow> map_option (\<lambda>(cs, r). (c # cs, r)) (seal_all ae ms rl')
      | _ \<Rightarrow> None)"

text \<open>The next \<open>n\<close> records stay clear of the soft limit of the sequence numbers.\<close>

definition room :: "nat \<Rightarrow> record_layer \<Rightarrow> bool" where
  "room n rl \<longleftrightarrow>
     unat (write_seq rl) + n \<le> unat SEQ_SOFT_LIMIT
     \<or> SEQ_SOFT_LIMIT < write_seq rl \<and> unat (write_seq rl) + n \<le> unat SEQ_HARD_LIMIT"

lemma limits_unat: "unat SEQ_SOFT_LIMIT = 0xffffffffffff0000" "unat SEQ_HARD_LIMIT = 0xfffffffffffffffe"
  by (simp_all add: SEQ_SOFT_LIMIT_def SEQ_HARD_LIMIT_def)

lemma room_Suc:
  assumes "room (Suc n) rl"
  shows "\<not> wants_close_before_encrypt rl" "\<not> encrypt_exhausted rl"
    "rl' = rl\<lparr>write_seq := write_seq rl + 1\<rparr> \<Longrightarrow> room n rl'"
proof -
  have l: "unat (write_seq rl) < unat SEQ_HARD_LIMIT" using assms by (auto simp: room_def limits_unat)
  show "\<not> wants_close_before_encrypt rl" using assms by (auto simp: room_def wants_close_before_encrypt_def)
  show "\<not> encrypt_exhausted rl" using l by (simp add: encrypt_exhausted_def word_le_nat_alt)
  have "unat (write_seq rl + 1) = unat (write_seq rl) + 1"
    using l by (simp add: limits_unat unat_word_ariths)
  then show "room n rl'" if "rl' = rl\<lparr>write_seq := write_seq rl + 1\<rparr>"
    using assms that by (auto simp: room_def word_less_nat_alt)
qed

text \<open>
  Two record layers in step: what one seals the other opens, in order, and they stay in step.
\<close>

lemma in_step_all:
  assumes "aead_ok ae"
  shows "in_step s r \<Longrightarrow> list_all pm_ok ms \<Longrightarrow> room (length ms) s \<Longrightarrow>
    \<exists>cs s' r'. seal_all ae ms s = Some (cs, s')
      \<and> open_all ae cs r = Some (map (received_as (rl_encrypter s)) ms, r') \<and> in_step s' r'
      \<and> list_all om_wf cs \<and> rl_encrypter s' = rl_encrypter s \<and> encrypt_state s' = encrypt_state s
      \<and> unat (write_seq s') = unat (write_seq s) + length ms \<and> has_decrypted r' = (has_decrypted r \<or> ms \<noteq> [])"
proof (induction ms arbitrary: s r)
  case (Cons m ms)
  note room = room_Suc [OF Cons.prems(3) [unfolded list.size(4) add_Suc_right add_0_right]]
  obtain c s1 r1 d where c: "encrypt_outgoing ae m s = (Ok (c, s1) :: (tls_error, _) outcome)" "om_wf c"
    "decrypt_incoming ae c r = (Ok (Some d), r1)" "plaintext d = received_as (rl_encrypter s) m" "in_step s1 r1"
    "write_seq s1 = write_seq s + 1" "rl_encrypter s1 = rl_encrypter s" "has_decrypted r1"
    using in_step_message [OF assms _ Cons.prems(1) room(2), of m] Cons.prems(2) by auto
  note e = encrypt_outgoing_Ok [OF c(1)]
  have "unat (write_seq s + 1) = unat (write_seq s) + 1"
    using e(2) by (simp add: word_less_nat_alt limits_unat unat_word_ariths)
  moreover obtain cs s' r' where "seal_all ae ms s1 = Some (cs, s')"
    "open_all ae cs r1 = Some (map (received_as (rl_encrypter s1)) ms, r')" "in_step s' r'" "list_all om_wf cs"
    "rl_encrypter s' = rl_encrypter s1" "encrypt_state s' = encrypt_state s1"
    "unat (write_seq s') = unat (write_seq s1) + length ms" "has_decrypted r' = (has_decrypted r1 \<or> ms \<noteq> [])"
    using Cons.IH [OF c(5)] Cons.prems(2) room(3) [OF e(1)] by auto
  ultimately show ?case using c e(1) by auto
qed auto

lemma encrypt_fragment_Ok:
  "\<not> encrypt_exhausted (cs_rl s) \<Longrightarrow> encrypt_outgoing ae m (cs_rl s) = (Ok (c, rl) :: (tls_error, _) outcome) \<Longrightarrow>
     encrypt_fragment ae m s = Ok (queue_tls_message c (s\<lparr>cs_rl := rl\<rparr>))"
  by (simp add: encrypt_fragment_def)

lemma send_fragments_sealed:
  "seal_all ae ms (cs_rl s) = Some (cs, rl) \<Longrightarrow> room (length ms) (cs_rl s) \<Longrightarrow>
   \<exists>b. send_fragments ae ms s = Some (Ok (s\<lparr>cs_rl := rl, sendable_tls := b\<rparr>))
     \<and> cv_contents b = cv_contents (sendable_tls s) @ wire cs \<and> cv_limit b = cv_limit (sendable_tls s)
     \<and> (cv_inv (sendable_tls s) \<longrightarrow> cv_inv b)"
proof (induction ms arbitrary: s cs)
  case Nil
  then show ?case by (intro exI [of _ "sendable_tls s"]) (simp add: send_fragments.simps)
next
  case (Cons m ms)
  obtain c rl1 cs1 where c: "encrypt_outgoing ae m (cs_rl s) = (Ok (c, rl1) :: (tls_error, _) outcome)"
    and cs: "seal_all ae ms rl1 = Some (cs1, rl)" "cs = c # cs1"
    using Cons.prems(1) by (auto split: outcome.splits)
  note room = room_Suc [OF Cons.prems(2) [unfolded list.size(4) add_Suc_right add_0_right]]
  define s1 where "s1 = queue_tls_message c (s\<lparr>cs_rl := rl1\<rparr>)"
  have e: "encrypt_fragment ae m s = Ok s1" unfolding s1_def by (rule encrypt_fragment_Ok [OF room(2) c])
  have r: "cs_rl s1 = rl1" by (simp add: s1_def queue_tls_message_def)
  have t: "sendable_tls s1 = snd (cv_append (om_encode c) (sendable_tls s))" by (simp add: s1_def queue_tls_message_def)
  have "room (length ms) rl1" by (rule room(3)) (rule encrypt_outgoing_Ok(1) [OF c])
  then obtain b where b: "send_fragments ae ms s1 = Some (Ok (s1\<lparr>cs_rl := rl, sendable_tls := b\<rparr>))"
    "cv_contents b = cv_contents (sendable_tls s1) @ wire cs1" "cv_limit b = cv_limit (sendable_tls s1)"
    "cv_inv (sendable_tls s1) \<longrightarrow> cv_inv b"
    using Cons.IH [of s1 cs1] cs(1) r by auto
  have "send_fragments ae (m # ms) s = Some (Ok (s\<lparr>cs_rl := rl, sendable_tls := b\<rparr>))"
    using b(1) e room(1) by (subst send_fragments.simps) (simp add: s1_def queue_tls_message_def)
  then show ?case using b(2-4) cs(2) by (auto simp: t cv_append_spec)
qed

section \<open>The soft limit\<close>

text \<open>
  At the soft limit the fragment of the close_notify is at the soft limit as well, and so on: no
  record can be sent any more, and no call returns.
\<close>

lemma close_notify_fragments:
  assumes "fragmenter_wf fr"
  shows "fragment_message fr (plain_of close_notify) \<noteq> []"
proof -
  have "pm_payload (plain_of close_notify) \<noteq> []"
    by (simp add: plain_of_def close_notify_def build_alert_def alert_encode_def enum8_encode_def u8_encode_def)
  with assms show ?thesis
    by (simp add: fragment_message_def fragment_slice_def chunks.simps fragmenter_wf_def)
qed

lemma send_fragments_stuck:
  assumes "wants_close_before_encrypt (cs_rl s)" "is_encrypting (cs_rl s)" "cs_protocol s = Tcp"
    "fragmenter_wf (cs_fragmenter s)"
  shows "send_fragments ae (m # ms) s = None"
proof (rule ccontr)
  assume "send_fragments ae (m # ms) s \<noteq> None"
  then obtain y where y: "send_fragments ae (m # ms) s = Some y" by blast
  have "ms \<noteq> [] \<longrightarrow> wants_close_before_encrypt (cs_rl s) \<longrightarrow> is_encrypting (cs_rl s) \<longrightarrow> cs_protocol s = Tcp
    \<longrightarrow> fragmenter_wf (cs_fragmenter s) \<longrightarrow> False" if "send_fragments ae ms s = Some y" for ms s y
    using that
  proof (rule send_fragments.raw_induct [rotated], goal_cases)
    case (1 f ae ms s y)
    then show ?case
      using close_notify_fragments [of "cs_fragmenter s"]
      by (cases ms) (auto simp: bind_eq_Some_conv split: if_splits)
  qed
  with y assms show False by blast
qed

end
