(* ===== verification/Rustls_Keys.thy ===== *)
theory Rustls_Keys
  imports Rustls_Common
begin

text \<open>
  \<open>orcax/rustls-fork/rustls/src/crypto/tls13.rs\<close> and \<open>tls13/key_schedule.rs\<close>: HKDF, the labels of
  TLS 1.3, and the key schedule from the key exchange to the traffic keys and their updates.

  An HKDF provider is a parameter of the schedule, a record of functions; \<open>hkdf_ok\<close> is what its
  trait documents. \<open>hkdf_using_hmac\<close> is the provider of the source, over a keyed hash that is a
  parameter in turn. The key log is not modelled, nor are the secrets handed to QUIC.
\<close>

section \<open>HKDF\<close>

text \<open>An expander is its pseudo-random key; \<open>None\<close> is \<open>OutputLengthError\<close>.\<close>

record hkdf =
  extract_from_zero_ikm :: "bytes option \<Rightarrow> bytes"
  extract_from_secret :: "bytes option \<Rightarrow> bytes \<Rightarrow> bytes"
  expand_slice :: "bytes \<Rightarrow> bytes \<Rightarrow> nat \<Rightarrow> bytes option"
  hmac_sign :: "bytes \<Rightarrow> bytes \<Rightarrow> bytes"
  hash_len :: nat

definition hkdf_ok :: "hkdf \<Rightarrow> bool" where
  "hkdf_ok hk \<longleftrightarrow> 0 < hash_len hk \<and> hash_len hk \<le> 64
     \<and> (\<forall>prk info n. n \<le> 255 * hash_len hk \<longrightarrow> (\<exists>okm. expand_slice hk prk info n = Some okm \<and> length okm = n))"

text \<open>\<open>HkdfUsingHmac\<close>, for a keyed hash \<open>mac\<close> with tags of \<open>len\<close> bytes.\<close>

function expand_loop :: "(bytes \<Rightarrow> bytes \<Rightarrow> bytes) \<Rightarrow> nat \<Rightarrow> bytes \<Rightarrow> bytes \<Rightarrow> bytes \<Rightarrow> nat \<Rightarrow> nat \<Rightarrow> bytes" where
  "expand_loop mac len key info tm n rest =
     (if rest = 0 \<or> len = 0 then []
      else let tm = mac key (tm @ info @ [of_nat (n + 1)]); k = min len rest
           in take k tm @ expand_loop mac len key info tm (n + 1) (rest - k))"
  by pat_completeness auto
termination
  by (relation "measure (\<lambda>(mac, len, key, info, tm, n, rest). rest)") auto

declare expand_loop.simps [simp del]

definition expand_unchecked :: "(bytes \<Rightarrow> bytes \<Rightarrow> bytes) \<Rightarrow> nat \<Rightarrow> bytes \<Rightarrow> bytes \<Rightarrow> nat \<Rightarrow> bytes" where
  "expand_unchecked mac len key info n = expand_loop mac len key info [] 0 n"

definition hkdf_using_hmac :: "(bytes \<Rightarrow> bytes \<Rightarrow> bytes) \<Rightarrow> nat \<Rightarrow> hkdf" where
  "hkdf_using_hmac mac len =
     \<lparr>extract_from_zero_ikm = (\<lambda>salt.
        mac (case salt of Some s \<Rightarrow> s | None \<Rightarrow> replicate len 0) (replicate len 0)),
      extract_from_secret = (\<lambda>salt secret.
        mac (case salt of Some s \<Rightarrow> s | None \<Rightarrow> replicate len 0) secret),
      expand_slice = (\<lambda>prk info n. if n > 255 * len then None else Some (expand_unchecked mac len prk info n)),
      hmac_sign = mac,
      hash_len = len\<rparr>"

lemma length_expand_loop:
  "(\<And>k m. length (mac k m) = len) \<Longrightarrow> 0 < len \<Longrightarrow> length (expand_loop mac len key info tm n rest) = rest"
proof (induction mac len key info tm n rest rule: expand_loop.induct)
  case (1 mac len key info tm n rest)
  then show ?case by (subst expand_loop.simps) (auto simp: Let_def)
qed

lemma hkdf_using_hmac_ok:
  assumes "\<And>k m. length (mac k m) = len" "0 < len" "len \<le> 64"
  shows "hkdf_ok (hkdf_using_hmac mac len)"
  using assms length_expand_loop [OF assms(1,2)] by (simp add: hkdf_ok_def hkdf_using_hmac_def expand_unchecked_def)

text \<open>The output for a shorter length is a prefix: a key may be cut from a longer expansion.\<close>

lemma expand_loop_prefix:
  "(\<And>k m. length (mac k m) = len) \<Longrightarrow> m \<le> rest \<Longrightarrow>
     take m (expand_loop mac len key info tm n rest) = expand_loop mac len key info tm n m"
proof (induction mac len key info tm n rest arbitrary: m rule: expand_loop.induct)
  case (1 mac len key info tm n rest)
  show ?case
  proof (cases "m = 0 \<or> len = 0")
    case True
    then show ?thesis by (subst (1 2) expand_loop.simps) auto
  next
    case False
    define t where "t = mac key (tm @ info @ [of_nat (n + 1)])"
    have l: "length t = len" using 1(2) by (simp add: t_def)
    have r: "\<not> (rest = 0 \<or> len = 0)" using False 1(3) by auto
    have "take (m - min len rest) (expand_loop mac len key info t (n + 1) (rest - min len rest))
      = expand_loop mac len key info t (n + 1) (m - min len rest)"
      using 1(1) [OF r t_def refl] 1(2,3) by (simp add: t_def)
    moreover have "take m (take (min len rest) t) = take (min len m) t"
      using 1(3) by (simp add: min_def)
    moreover have "m - min len rest = m - min len m" using 1(3) by (simp add: min_def)
    moreover have u: "expand_loop mac len key info tm n q =
        take (min len q) t @ expand_loop mac len key info t (n + 1) (q - min len q)" if "q \<noteq> 0" for q
      using that r by (subst expand_loop.simps) (simp add: Let_def t_def)
    ultimately show ?thesis
      using False r l 1(3) by (simp add: u)
  qed
qed

section \<open>Labels\<close>

text \<open>ASCII text, as in the byte string literals of the source.\<close>

definition LABEL_PREFIX :: bytes where "LABEL_PREFIX = str ''tls13 ''"

definition hkdf_info :: "bytes \<Rightarrow> bytes \<Rightarrow> nat \<Rightarrow> bytes" where
  "hkdf_info label ctx n =
     be16 (of_nat n) @ [of_nat (length LABEL_PREFIX + length label)] @ LABEL_PREFIX @ label
       @ [of_nat (length ctx)] @ ctx"

text \<open>\<open>expect\<close> on an expansion that is too long is a panic.\<close>

definition expand_exact :: "hkdf \<Rightarrow> bytes \<Rightarrow> bytes \<Rightarrow> nat \<Rightarrow> (tls_error, bytes) outcome" where
  "expand_exact hk prk info n = (case expand_slice hk prk info n of Some okm \<Rightarrow> Ok okm | None \<Rightarrow> Panic)"

definition hkdf_expand_label :: "hkdf \<Rightarrow> bytes \<Rightarrow> bytes \<Rightarrow> bytes \<Rightarrow> nat \<Rightarrow> (tls_error, bytes) outcome" where
  "hkdf_expand_label hk prk label ctx n = expand_exact hk prk (hkdf_info label ctx n) n"

definition hkdf_expand_label_block :: "hkdf \<Rightarrow> bytes \<Rightarrow> bytes \<Rightarrow> bytes \<Rightarrow> (tls_error, bytes) outcome" where
  "hkdf_expand_label_block hk prk label ctx = expand_exact hk prk (hkdf_info label ctx (hash_len hk)) (hash_len hk)"

definition AEAD_KEY_MAX_LEN :: nat where "AEAD_KEY_MAX_LEN = 32"

text \<open>The label has the length of the key, but 32 bytes are expanded and cut.\<close>

definition hkdf_expand_label_aead_key :: "hkdf \<Rightarrow> bytes \<Rightarrow> nat \<Rightarrow> bytes \<Rightarrow> bytes \<Rightarrow> (tls_error, bytes) outcome" where
  "hkdf_expand_label_aead_key hk prk key_len label ctx =
     outcome_bind (expand_exact hk prk (hkdf_info label ctx key_len) AEAD_KEY_MAX_LEN) (\<lambda>key.
     if key_len \<le> AEAD_KEY_MAX_LEN then Ok (take key_len key) else Panic)"

definition hkdf_expand_label_slice :: "hkdf \<Rightarrow> bytes \<Rightarrow> bytes \<Rightarrow> bytes \<Rightarrow> nat \<Rightarrow> bytes option" where
  "hkdf_expand_label_slice hk prk label ctx n = expand_slice hk prk (hkdf_info label ctx n) n"

definition IV_LEN :: nat where "IV_LEN = 12"

definition derive_traffic_key :: "hkdf \<Rightarrow> bytes \<Rightarrow> nat \<Rightarrow> (tls_error, bytes) outcome" where
  "derive_traffic_key hk prk key_len = hkdf_expand_label_aead_key hk prk key_len (str ''key'') []"

definition derive_traffic_iv :: "hkdf \<Rightarrow> bytes \<Rightarrow> (tls_error, bytes) outcome" where
  "derive_traffic_iv hk prk = hkdf_expand_label hk prk (str ''iv'') [] IV_LEN"

datatype secret_kind =
    ResumptionPskBinderKey
  | ClientEarlyTrafficSecret
  | ClientHandshakeTrafficSecret
  | ServerHandshakeTrafficSecret
  | ClientApplicationTrafficSecret
  | ServerApplicationTrafficSecret
  | ExporterMasterSecret
  | ResumptionMasterSecret
  | DerivedSecret

primrec to_bytes :: "secret_kind \<Rightarrow> bytes" where
  "to_bytes ResumptionPskBinderKey = str ''res binder''"
| "to_bytes ClientEarlyTrafficSecret = str ''c e traffic''"
| "to_bytes ClientHandshakeTrafficSecret = str ''c hs traffic''"
| "to_bytes ServerHandshakeTrafficSecret = str ''s hs traffic''"
| "to_bytes ClientApplicationTrafficSecret = str ''c ap traffic''"
| "to_bytes ServerApplicationTrafficSecret = str ''s ap traffic''"
| "to_bytes ExporterMasterSecret = str ''exp master''"
| "to_bytes ResumptionMasterSecret = str ''res master''"
| "to_bytes DerivedSecret = str ''derived''"

definition log_label :: "secret_kind \<Rightarrow> string option" where
  "log_label kind =
     (case kind of
        ClientEarlyTrafficSecret \<Rightarrow> Some ''CLIENT_EARLY_TRAFFIC_SECRET''
      | ClientHandshakeTrafficSecret \<Rightarrow> Some ''CLIENT_HANDSHAKE_TRAFFIC_SECRET''
      | ServerHandshakeTrafficSecret \<Rightarrow> Some ''SERVER_HANDSHAKE_TRAFFIC_SECRET''
      | ClientApplicationTrafficSecret \<Rightarrow> Some ''CLIENT_TRAFFIC_SECRET_0''
      | ServerApplicationTrafficSecret \<Rightarrow> Some ''SERVER_TRAFFIC_SECRET_0''
      | ExporterMasterSecret \<Rightarrow> Some ''EXPORTER_SECRET''
      | _ \<Rightarrow> None)"

text \<open>
  No two uses of a secret share an input of the expansion: the label, the context and the length
  can be read back from the info.
\<close>

lemma length_LABEL_PREFIX: "length LABEL_PREFIX = 6"
  by (simp add: LABEL_PREFIX_def)

lemma hkdf_info_inj:
  assumes "hkdf_info l c n = hkdf_info l' c' n'" "length l < 250" "length l' < 250" "length c < 256" "length c' < 256"
    "n < 65536" "n' < 65536"
  shows "l = l' \<and> c = c' \<and> n = n'"
proof -
  have "be16 (of_nat n) = be16 (of_nat n' :: u16)"
    using arg_cong [OF assms(1), of "take 2"] by (simp add: hkdf_info_def)
  then have n: "n = n'" using assms(6,7) by (metis be16_def from_be16_be16 list.inject unat_of_nat_u16)
  have "(of_nat (6 + length l) :: u8) = of_nat (6 + length l')"
    using arg_cong [OF assms(1), of "\<lambda>x. x ! 2"] by (simp add: hkdf_info_def nth_append length_LABEL_PREFIX)
  then have "6 + length l = 6 + length l'" using assms(2,3) unat_of_nat_u8 [of "6 + length l"] unat_of_nat_u8 [of "6 + length l'"]
    by auto
  then have "l = l' \<and> c = c'" using assms(1) n by (simp add: hkdf_info_def)
  with n show ?thesis by simp
qed

lemma to_bytes_inj: "to_bytes a = to_bytes b \<Longrightarrow> a = b"
  by (cases a; cases b; simp)

section \<open>The schedule\<close>

text \<open>
  A suite has a hash, an HKDF provider over it and an AEAD algorithm. \<open>encrypter\<close> and \<open>decrypter\<close> of
  the algorithm \<open>unwrap\<close> the construction of a key, which fails for a wrong length; the length here
  is always the one the algorithm asks for.
\<close>

record tls13_suite =
  su_hash :: "bytes \<Rightarrow> bytes"
  su_hkdf :: hkdf
  su_aead :: aead_alg
  su_key_len :: nat

definition suite_ok :: "tls13_suite \<Rightarrow> bool" where
  "suite_ok su \<longleftrightarrow> hkdf_ok (su_hkdf su) \<and> su_key_len su \<le> AEAD_KEY_MAX_LEN"

record key_schedule =
  current :: bytes
  ks_suite :: tls13_suite

definition ks_derive :: "key_schedule \<Rightarrow> secret_kind \<Rightarrow> bytes \<Rightarrow> (tls_error, bytes) outcome" where
  "ks_derive ks kind hs_hash = hkdf_expand_label_block (su_hkdf (ks_suite ks)) (current ks) (to_bytes kind) hs_hash"

definition derive_logged_secret :: "key_schedule \<Rightarrow> secret_kind \<Rightarrow> bytes \<Rightarrow> (tls_error, bytes) outcome" where
  "derive_logged_secret ks kind hs_hash =
     outcome_bind (ks_derive ks kind hs_hash) (\<lambda>output.
     case log_label kind of None \<Rightarrow> Panic | Some _ \<Rightarrow> Ok output)"

definition derive_for_empty_hash :: "key_schedule \<Rightarrow> secret_kind \<Rightarrow> (tls_error, bytes) outcome" where
  "derive_for_empty_hash ks kind = ks_derive ks kind (su_hash (ks_suite ks) [])"

definition ks_new :: "tls13_suite \<Rightarrow> bytes \<Rightarrow> key_schedule" where
  "ks_new su secret = \<lparr>current = extract_from_secret (su_hkdf su) None secret, ks_suite = su\<rparr>"

definition new_with_empty_secret :: "tls13_suite \<Rightarrow> key_schedule" where
  "new_with_empty_secret su = \<lparr>current = extract_from_zero_ikm (su_hkdf su) None, ks_suite = su\<rparr>"

definition input_empty :: "key_schedule \<Rightarrow> (tls_error, key_schedule) outcome" where
  "input_empty ks =
     outcome_bind (derive_for_empty_hash ks DerivedSecret) (\<lambda>salt.
     Ok (ks\<lparr>current := extract_from_zero_ikm (su_hkdf (ks_suite ks)) (Some salt)\<rparr>))"

text \<open>The key exchange of the provider is a parameter: \<open>shared\<close> is what \<open>complete\<close> returns.\<close>

definition input_from_key_exchange :: "key_schedule \<Rightarrow> (tls_error, bytes) outcome \<Rightarrow> (tls_error, key_schedule) outcome" where
  "input_from_key_exchange ks shared =
     outcome_bind (derive_for_empty_hash ks DerivedSecret) (\<lambda>salt.
     outcome_bind shared (\<lambda>secret.
     Ok (ks\<lparr>current := extract_from_secret (su_hkdf (ks_suite ks)) (Some salt) secret\<rparr>)))"

definition derive_key_iv :: "key_schedule \<Rightarrow> bytes \<Rightarrow> (tls_error, bytes \<times> bytes) outcome" where
  "derive_key_iv ks secret =
     outcome_bind (derive_traffic_key (su_hkdf (ks_suite ks)) secret (su_key_len (ks_suite ks))) (\<lambda>key.
     outcome_bind (derive_traffic_iv (su_hkdf (ks_suite ks)) secret) (\<lambda>iv. Ok (key, iv)))"

definition set_encrypter :: "key_schedule \<Rightarrow> bytes \<Rightarrow> common_state \<Rightarrow> (tls_error, common_state) outcome" where
  "set_encrypter ks secret s =
     outcome_bind (derive_key_iv ks secret) (\<lambda>(key, iv).
     Ok (s\<lparr>cs_rl := set_message_encrypter (Tls13MessageEncrypter (su_aead (ks_suite ks)) key iv) (cs_rl s)\<rparr>))"

definition derive_decrypter :: "key_schedule \<Rightarrow> bytes \<Rightarrow> (tls_error, message_decrypter) outcome" where
  "derive_decrypter ks secret =
     outcome_bind (derive_key_iv ks secret) (\<lambda>(key, iv). Ok (Tls13MessageDecrypter (su_aead (ks_suite ks)) key iv))"

definition set_decrypter :: "key_schedule \<Rightarrow> bytes \<Rightarrow> common_state \<Rightarrow> (tls_error, common_state) outcome" where
  "set_decrypter ks secret s =
     outcome_bind (derive_decrypter ks secret) (\<lambda>dec. Ok (s\<lparr>cs_rl := set_message_decrypter dec (cs_rl s)\<rparr>))"

definition sign_verify_data :: "key_schedule \<Rightarrow> bytes \<Rightarrow> bytes \<Rightarrow> (tls_error, bytes) outcome" where
  "sign_verify_data ks base_key hs_hash =
     outcome_bind (hkdf_expand_label_block (su_hkdf (ks_suite ks)) base_key (str ''finished'') []) (\<lambda>hmac_key.
     Ok (hmac_sign (su_hkdf (ks_suite ks)) hmac_key hs_hash))"

definition derive_next :: "key_schedule \<Rightarrow> bytes \<Rightarrow> (tls_error, bytes) outcome" where
  "derive_next ks base_key = hkdf_expand_label_block (su_hkdf (ks_suite ks)) base_key (str ''traffic upd'') []"

definition derive_ticket_psk :: "key_schedule \<Rightarrow> bytes \<Rightarrow> bytes \<Rightarrow> (tls_error, bytes) outcome" where
  "derive_ticket_psk ks rms nonce = hkdf_expand_label_block (su_hkdf (ks_suite ks)) rms (str ''resumption'') nonce"

definition ks_export_keying_material ::
    "key_schedule \<Rightarrow> bytes \<Rightarrow> nat \<Rightarrow> bytes \<Rightarrow> bytes option \<Rightarrow> (tls_error, bytes) outcome" where
  "ks_export_keying_material ks exporter out_len label ctx =
     outcome_bind (hkdf_expand_label_block (su_hkdf (ks_suite ks)) exporter label (su_hash (ks_suite ks) [])) (\<lambda>secret.
     let h_context = su_hash (ks_suite ks) (case ctx of Some c \<Rightarrow> c | None \<Rightarrow> [])
     in ok_or (General ''exporting too much'')
          (hkdf_expand_label_slice (su_hkdf (ks_suite ks)) secret (str ''exporter'') h_context out_len))"

subsection \<open>Before the handshake\<close>

definition client_early_traffic_secret :: "key_schedule \<Rightarrow> bytes \<Rightarrow> common_state \<Rightarrow> (tls_error, common_state) outcome" where
  "client_early_traffic_secret ks hs_hash s =
     outcome_bind (derive_logged_secret ks ClientEarlyTrafficSecret hs_hash) (\<lambda>secret.
     case cs_side s of
       Client \<Rightarrow> set_encrypter ks secret s
     | Server \<Rightarrow> set_decrypter ks secret s)"

definition resumption_psk_binder_key_and_sign_verify_data :: "key_schedule \<Rightarrow> bytes \<Rightarrow> (tls_error, bytes) outcome" where
  "resumption_psk_binder_key_and_sign_verify_data ks hs_hash =
     outcome_bind (derive_for_empty_hash ks ResumptionPskBinderKey) (\<lambda>key. sign_verify_data ks key hs_hash)"

subsection \<open>Handshake keys\<close>

record key_schedule_handshake =
  hs_ks :: key_schedule
  client_handshake_traffic_secret :: bytes
  server_handshake_traffic_secret :: bytes

definition into_handshake :: "key_schedule \<Rightarrow> bytes \<Rightarrow> (tls_error, key_schedule_handshake) outcome" where
  "into_handshake ks hs_hash =
     outcome_bind (derive_logged_secret ks ClientHandshakeTrafficSecret hs_hash) (\<lambda>c.
     outcome_bind (derive_logged_secret ks ServerHandshakeTrafficSecret hs_hash) (\<lambda>sv.
     Ok \<lparr>hs_ks = ks, client_handshake_traffic_secret = c, server_handshake_traffic_secret = sv\<rparr>))"

definition derive_client_handshake_secrets ::
    "bool \<Rightarrow> bytes \<Rightarrow> tls13_suite \<Rightarrow> key_schedule \<Rightarrow> common_state \<Rightarrow> (tls_error, key_schedule_handshake \<times> common_state) outcome" where
  "derive_client_handshake_secrets early_data_enabled hs_hash su ks s =
     outcome_bind (into_handshake (ks\<lparr>ks_suite := su\<rparr>) hs_hash) (\<lambda>new.
     outcome_bind (set_decrypter (hs_ks new) (server_handshake_traffic_secret new) s) (\<lambda>s.
     if \<not> early_data_enabled then
       outcome_bind (set_encrypter (hs_ks new) (client_handshake_traffic_secret new) s) (\<lambda>s. Ok (new, s))
     else Ok (new, s)))"

definition derive_server_handshake_secrets ::
    "bytes \<Rightarrow> key_schedule \<Rightarrow> common_state \<Rightarrow> (tls_error, key_schedule_handshake \<times> common_state) outcome" where
  "derive_server_handshake_secrets hs_hash ks s =
     outcome_bind (into_handshake ks hs_hash) (\<lambda>new.
     outcome_bind (set_encrypter (hs_ks new) (server_handshake_traffic_secret new) s) (\<lambda>s. Ok (new, s)))"

definition sign_server_finish :: "key_schedule_handshake \<Rightarrow> bytes \<Rightarrow> (tls_error, bytes) outcome" where
  "sign_server_finish kh hs_hash = sign_verify_data (hs_ks kh) (server_handshake_traffic_secret kh) hs_hash"

definition set_handshake_encrypter :: "key_schedule_handshake \<Rightarrow> common_state \<Rightarrow> (tls_error, common_state) outcome" where
  "set_handshake_encrypter kh s = set_encrypter (hs_ks kh) (client_handshake_traffic_secret kh) s"

definition set_handshake_decrypter ::
    "nat option \<Rightarrow> key_schedule_handshake \<Rightarrow> common_state \<Rightarrow> (tls_error, common_state) outcome" where
  "set_handshake_decrypter skip_requested kh s =
     (case skip_requested of
        None \<Rightarrow> set_decrypter (hs_ks kh) (client_handshake_traffic_secret kh) s
      | Some max_early_data_size \<Rightarrow>
          outcome_bind (derive_decrypter (hs_ks kh) (client_handshake_traffic_secret kh)) (\<lambda>dec.
          Ok (s\<lparr>cs_rl := set_message_decrypter_with_trial_decryption dec max_early_data_size (cs_rl s)\<rparr>)))"

subsection \<open>Traffic keys\<close>

record key_schedule_traffic =
  tr_ks :: key_schedule
  current_client_traffic_secret :: bytes
  current_server_traffic_secret :: bytes
  current_exporter_secret :: bytes

definition traffic_new :: "key_schedule \<Rightarrow> bytes \<Rightarrow> (tls_error, key_schedule_traffic) outcome" where
  "traffic_new ks hs_hash =
     outcome_bind (input_empty ks) (\<lambda>ks.
     outcome_bind (derive_logged_secret ks ClientApplicationTrafficSecret hs_hash) (\<lambda>c.
     outcome_bind (derive_logged_secret ks ServerApplicationTrafficSecret hs_hash) (\<lambda>sv.
     outcome_bind (derive_logged_secret ks ExporterMasterSecret hs_hash) (\<lambda>e.
     Ok \<lparr>tr_ks = ks, current_client_traffic_secret = c, current_server_traffic_secret = sv, current_exporter_secret = e\<rparr>))))"

record key_schedule_client_finished_pending =
  handshake_client_traffic_secret :: bytes
  pending_traffic :: key_schedule_traffic

definition into_traffic_with_client_finished_pending ::
    "bytes \<Rightarrow> key_schedule_handshake \<Rightarrow> common_state \<Rightarrow>
     (tls_error, key_schedule_client_finished_pending \<times> common_state) outcome" where
  "into_traffic_with_client_finished_pending hs_hash kh s =
     outcome_bind (traffic_new (hs_ks kh) hs_hash) (\<lambda>tr.
     outcome_bind (set_encrypter (tr_ks tr) (current_server_traffic_secret tr) s) (\<lambda>s.
     Ok (\<lparr>handshake_client_traffic_secret = client_handshake_traffic_secret kh, pending_traffic = tr\<rparr>, s)))"

definition into_pre_finished_client_traffic ::
    "bytes \<Rightarrow> bytes \<Rightarrow> key_schedule_handshake \<Rightarrow> (tls_error, key_schedule_traffic \<times> bytes) outcome" where
  "into_pre_finished_client_traffic pre_finished_hash handshake_hash kh =
     outcome_bind (traffic_new (hs_ks kh) pre_finished_hash) (\<lambda>tr.
     outcome_bind (sign_verify_data (tr_ks tr) (client_handshake_traffic_secret kh) handshake_hash) (\<lambda>tag. Ok (tr, tag)))"

definition into_traffic :: "key_schedule_traffic \<Rightarrow> common_state \<Rightarrow> (tls_error, common_state) outcome" where
  "into_traffic tr s =
     outcome_bind (set_decrypter (tr_ks tr) (current_server_traffic_secret tr) s) (\<lambda>s.
     set_encrypter (tr_ks tr) (current_client_traffic_secret tr) s)"

definition pending_update_decrypter ::
    "key_schedule_client_finished_pending \<Rightarrow> common_state \<Rightarrow> (tls_error, common_state) outcome" where
  "pending_update_decrypter p s = set_decrypter (tr_ks (pending_traffic p)) (handshake_client_traffic_secret p) s"

definition sign_client_finish ::
    "bytes \<Rightarrow> key_schedule_client_finished_pending \<Rightarrow> common_state \<Rightarrow>
     (tls_error, key_schedule_traffic \<times> bytes \<times> common_state) outcome" where
  "sign_client_finish hs_hash p s =
     outcome_bind (sign_verify_data (tr_ks (pending_traffic p)) (handshake_client_traffic_secret p) hs_hash) (\<lambda>tag.
     outcome_bind (set_decrypter (tr_ks (pending_traffic p)) (current_client_traffic_secret (pending_traffic p)) s) (\<lambda>s.
     Ok (pending_traffic p, tag, s)))"

primrec traffic_secret :: "side \<Rightarrow> key_schedule_traffic \<Rightarrow> bytes" where
  "traffic_secret Client tr = current_client_traffic_secret tr"
| "traffic_secret Server tr = current_server_traffic_secret tr"

definition next_application_traffic_secret ::
    "side \<Rightarrow> key_schedule_traffic \<Rightarrow> (tls_error, bytes \<times> key_schedule_traffic) outcome" where
  "next_application_traffic_secret sd tr =
     outcome_bind (derive_next (tr_ks tr) (traffic_secret sd tr)) (\<lambda>secret.
     Ok (secret, case sd of
         Client \<Rightarrow> tr\<lparr>current_client_traffic_secret := secret\<rparr>
       | Server \<Rightarrow> tr\<lparr>current_server_traffic_secret := secret\<rparr>))"

definition update_encrypter_and_notify ::
    "aead \<Rightarrow> key_schedule_traffic \<Rightarrow> common_state \<Rightarrow> (tls_error, key_schedule_traffic \<times> common_state) outcome" where
  "update_encrypter_and_notify ae tr s =
     outcome_bind (next_application_traffic_secret (cs_side s) tr) (\<lambda>(secret, tr).
     outcome_bind (enqueue_key_update_notification ae s) (\<lambda>s.
     outcome_bind (set_encrypter (tr_ks tr) secret s) (\<lambda>s. Ok (tr, s))))"

definition update_decrypter ::
    "key_schedule_traffic \<Rightarrow> common_state \<Rightarrow> (tls_error, key_schedule_traffic \<times> common_state) outcome" where
  "update_decrypter tr s =
     outcome_bind (next_application_traffic_secret (peer (cs_side s)) tr) (\<lambda>(secret, tr).
     outcome_bind (set_decrypter (tr_ks tr) secret s) (\<lambda>s. Ok (tr, s)))"

definition resumption_master_secret_and_derive_ticket_psk ::
    "bytes \<Rightarrow> bytes \<Rightarrow> key_schedule_traffic \<Rightarrow> (tls_error, bytes) outcome" where
  "resumption_master_secret_and_derive_ticket_psk hs_hash nonce tr =
     outcome_bind (ks_derive (tr_ks tr) ResumptionMasterSecret hs_hash) (\<lambda>rms. derive_ticket_psk (tr_ks tr) rms nonce)"

definition export_keying_material :: "nat \<Rightarrow> bytes \<Rightarrow> bytes option \<Rightarrow> key_schedule_traffic \<Rightarrow> (tls_error, bytes) outcome" where
  "export_keying_material out_len label ctx tr =
     ks_export_keying_material (tr_ks tr) (current_exporter_secret tr) out_len label ctx"

text \<open>\<open>extract_keys\<close> tags the key with its algorithm; the pair is for sending and receiving.\<close>

definition extract_secrets ::
    "side \<Rightarrow> key_schedule_traffic \<Rightarrow> (tls_error, (aead_alg \<times> bytes \<times> bytes) \<times> (aead_alg \<times> bytes \<times> bytes)) outcome" where
  "extract_secrets sd tr =
     outcome_bind (derive_key_iv (tr_ks tr) (current_client_traffic_secret tr)) (\<lambda>ckey.
     outcome_bind (derive_key_iv (tr_ks tr) (current_server_traffic_secret tr)) (\<lambda>skey.
     let al = su_aead (ks_suite (tr_ks tr))
     in Ok (case sd of
          Client \<Rightarrow> ((al, ckey), (al, skey))
        | Server \<Rightarrow> ((al, skey), (al, ckey)))))"

section \<open>Derivations succeed\<close>

text \<open>\<open>suite_ok\<close> rules out the panics: every length asked for is one HKDF can give.\<close>

lemma expand_exact_total:
  assumes "hkdf_ok hk" "n \<le> 255"
  shows "\<exists>okm. expand_exact hk prk info n = Ok okm \<and> length okm = n"
proof -
  have "n \<le> 255 * hash_len hk" using assms by (cases "hash_len hk") (simp_all add: hkdf_ok_def)
  then obtain okm where "expand_slice hk prk info n = Some okm" "length okm = n"
    using assms(1) unfolding hkdf_ok_def by blast
  then show ?thesis by (simp add: expand_exact_def)
qed

lemma expand_label_block_total:
  "hkdf_ok hk \<Longrightarrow> \<exists>okm. hkdf_expand_label_block hk prk label ctx = Ok okm \<and> length okm = hash_len hk"
  unfolding hkdf_expand_label_block_def by (rule expand_exact_total) (auto simp: hkdf_ok_def)

lemma ks_derive_total: "suite_ok (ks_suite ks) \<Longrightarrow> \<exists>okm. ks_derive ks kind h = Ok okm"
  using expand_label_block_total by (fastforce simp: ks_derive_def suite_ok_def)

lemma derive_logged_total:
  "suite_ok (ks_suite ks) \<Longrightarrow> log_label kind \<noteq> None \<Longrightarrow> \<exists>okm. derive_logged_secret ks kind h = Ok okm"
  using ks_derive_total [of ks kind h] by (auto simp: derive_logged_secret_def)

lemma derive_key_iv_total:
  assumes "suite_ok (ks_suite ks)"
  shows "\<exists>key iv. derive_key_iv ks secret = Ok (key, iv) \<and> length key = su_key_len (ks_suite ks) \<and> length iv = IV_LEN"
proof -
  note t = expand_exact_total [of "su_hkdf (ks_suite ks)"]
  obtain key iv where
    "expand_exact (su_hkdf (ks_suite ks)) secret (hkdf_info (str ''key'') [] (su_key_len (ks_suite ks))) AEAD_KEY_MAX_LEN
       = Ok key" "length key = AEAD_KEY_MAX_LEN"
    "expand_exact (su_hkdf (ks_suite ks)) secret (hkdf_info (str ''iv'') [] IV_LEN) IV_LEN = Ok iv" "length iv = IV_LEN"
    using t [of AEAD_KEY_MAX_LEN secret "hkdf_info (str ''key'') [] (su_key_len (ks_suite ks))"]
      t [of IV_LEN secret "hkdf_info (str ''iv'') [] IV_LEN"] assms
    by (auto simp: suite_ok_def AEAD_KEY_MAX_LEN_def IV_LEN_def simp del: str_simps)
  with assms show ?thesis
    by (auto simp: derive_key_iv_def derive_traffic_key_def derive_traffic_iv_def hkdf_expand_label_aead_key_def
        hkdf_expand_label_def suite_ok_def)
qed

text \<open>The key the source cuts from 32 bytes is the one of the standard, with the length of the key.\<close>

lemma derive_traffic_key_direct:
  assumes "\<And>k m. length (mac k m) = len" "0 < len" "key_len \<le> AEAD_KEY_MAX_LEN"
  shows "derive_traffic_key (hkdf_using_hmac mac len) prk key_len
    = Ok (expand_unchecked mac len prk (hkdf_info (str ''key'') [] key_len) key_len)"
proof -
  have "AEAD_KEY_MAX_LEN \<le> 255 * len" using assms(2) by (cases len) (simp_all add: AEAD_KEY_MAX_LEN_def)
  then show ?thesis
    using assms(3) expand_loop_prefix [where rest = AEAD_KEY_MAX_LEN and m = key_len, OF assms(1)]
    by (simp add: derive_traffic_key_def hkdf_expand_label_aead_key_def expand_exact_def hkdf_using_hmac_def
        expand_unchecked_def)
qed

section \<open>Both ends have the same keys\<close>

text \<open>\<open>keyed_tx\<close>, \<open>keyed_rx\<close>: a fresh direction under a secret. The other direction is not touched.\<close>

definition keyed_tx :: "key_schedule \<Rightarrow> bytes \<Rightarrow> record_layer \<Rightarrow> bool" where
  "keyed_tx ks secret rl \<longleftrightarrow> (\<exists>key iv. derive_key_iv ks secret = Ok (key, iv)
     \<and> rl_encrypter rl = Tls13MessageEncrypter (su_aead (ks_suite ks)) key iv \<and> write_seq rl = 0 \<and> encrypt_state rl = Active)"

definition keyed_rx :: "key_schedule \<Rightarrow> bytes \<Rightarrow> record_layer \<Rightarrow> bool" where
  "keyed_rx ks secret rl \<longleftrightarrow> (\<exists>key iv. derive_key_iv ks secret = Ok (key, iv)
     \<and> rl_decrypter rl = Tls13MessageDecrypter (su_aead (ks_suite ks)) key iv \<and> read_seq rl = 0 \<and> decrypt_state rl = Active)"

lemma keyed_in_step: "keyed_tx ks secret a \<Longrightarrow> keyed_rx ks secret b \<Longrightarrow> in_step a b"
  by (auto simp: keyed_tx_def keyed_rx_def in_step_def matching_def)

text \<open>
  The secrets depend on the hash functions of the suite only, so that a schedule agrees with
  another on the keys as soon as the secret and the suite are the same.
\<close>

lemma keyed_suite:
  "ks_suite ks = ks_suite ks' \<Longrightarrow> keyed_tx ks = keyed_tx ks'"
  "ks_suite ks = ks_suite ks' \<Longrightarrow> keyed_rx ks = keyed_rx ks'"
  by (simp_all add: keyed_tx_def keyed_rx_def derive_key_iv_def fun_eq_iff)

lemma set_encrypter_total:
  assumes "suite_ok (ks_suite ks)"
  shows "\<exists>rl. set_encrypter ks secret s = Ok (s\<lparr>cs_rl := rl\<rparr>)
    \<and> keyed_tx ks secret rl \<and> rl_decrypter rl = rl_decrypter (cs_rl s) \<and> read_seq rl = read_seq (cs_rl s)
    \<and> decrypt_state rl = decrypt_state (cs_rl s)"
proof -
  obtain key iv where "derive_key_iv ks secret = Ok (key, iv)"
    using derive_key_iv_total [OF assms] by blast
  then show ?thesis
    by (intro exI [of _ "set_message_encrypter (Tls13MessageEncrypter (su_aead (ks_suite ks)) key iv) (cs_rl s)"])
      (simp add: set_encrypter_def keyed_tx_def set_message_encrypter_def prepare_message_encrypter_def start_encrypting_def)
qed

lemma set_decrypter_total:
  assumes "suite_ok (ks_suite ks)"
  shows "\<exists>rl. set_decrypter ks secret s = Ok (s\<lparr>cs_rl := rl\<rparr>)
    \<and> keyed_rx ks secret rl \<and> rl_encrypter rl = rl_encrypter (cs_rl s) \<and> write_seq rl = write_seq (cs_rl s)
    \<and> encrypt_state rl = encrypt_state (cs_rl s)"
proof -
  obtain key iv where "derive_key_iv ks secret = Ok (key, iv)"
    using derive_key_iv_total [OF assms] by blast
  then show ?thesis
    by (intro exI [of _ "set_message_decrypter (Tls13MessageDecrypter (su_aead (ks_suite ks)) key iv) (cs_rl s)"])
      (simp add: set_decrypter_def derive_decrypter_def keyed_rx_def set_message_decrypter_def
        prepare_message_decrypter_def start_decrypting_def)
qed

lemma keyed_kept:
  "keyed_tx ks secret rl \<Longrightarrow> rl_encrypter rl' = rl_encrypter rl \<Longrightarrow> write_seq rl' = write_seq rl \<Longrightarrow>
     encrypt_state rl' = encrypt_state rl \<Longrightarrow> keyed_tx ks secret rl'"
  "keyed_rx ks secret rl \<Longrightarrow> rl_decrypter rl' = rl_decrypter rl \<Longrightarrow> read_seq rl' = read_seq rl \<Longrightarrow>
     decrypt_state rl' = decrypt_state rl \<Longrightarrow> keyed_rx ks secret rl'"
  by (simp_all add: keyed_tx_def keyed_rx_def)

text \<open>Both directions set, in either order.\<close>

lemma set_both:
  assumes "suite_ok (ks_suite ks)"
  shows "\<exists>s1 rl. set_encrypter ks a s = Ok s1 \<and> set_decrypter ks b s1 = Ok (s\<lparr>cs_rl := rl\<rparr>)
      \<and> keyed_tx ks a rl \<and> keyed_rx ks b rl"
    "\<exists>s1 rl. set_decrypter ks b s = Ok s1 \<and> set_encrypter ks a s1 = Ok (s\<lparr>cs_rl := rl\<rparr>)
      \<and> keyed_tx ks a rl \<and> keyed_rx ks b rl"
proof -
  obtain r1 where r1: "set_encrypter ks a s = Ok (s\<lparr>cs_rl := r1\<rparr>)" "keyed_tx ks a r1"
    using set_encrypter_total [OF assms, of a s] by auto
  obtain r2 where "set_decrypter ks b (s\<lparr>cs_rl := r1\<rparr>) = Ok (s\<lparr>cs_rl := r2\<rparr>)" "keyed_rx ks b r2"
    "rl_encrypter r2 = rl_encrypter r1" "write_seq r2 = write_seq r1" "encrypt_state r2 = encrypt_state r1"
    using set_decrypter_total [OF assms, of b "s\<lparr>cs_rl := r1\<rparr>"] by auto
  with r1 show "\<exists>s1 rl. set_encrypter ks a s = Ok s1 \<and> set_decrypter ks b s1 = Ok (s\<lparr>cs_rl := rl\<rparr>)
      \<and> keyed_tx ks a rl \<and> keyed_rx ks b rl"
    by (intro exI [of _ "s\<lparr>cs_rl := r1\<rparr>"] exI [of _ r2]) (simp add: keyed_kept(1) [of ks a r1])
  obtain r1 where r1: "set_decrypter ks b s = Ok (s\<lparr>cs_rl := r1\<rparr>)" "keyed_rx ks b r1"
    using set_decrypter_total [OF assms, of b s] by auto
  obtain r2 where "set_encrypter ks a (s\<lparr>cs_rl := r1\<rparr>) = Ok (s\<lparr>cs_rl := r2\<rparr>)" "keyed_tx ks a r2"
    "rl_decrypter r2 = rl_decrypter r1" "read_seq r2 = read_seq r1" "decrypt_state r2 = decrypt_state r1"
    using set_encrypter_total [OF assms, of a "s\<lparr>cs_rl := r1\<rparr>"] by auto
  with r1 show "\<exists>s1 rl. set_decrypter ks b s = Ok s1 \<and> set_encrypter ks a s1 = Ok (s\<lparr>cs_rl := rl\<rparr>)
      \<and> keyed_tx ks a rl \<and> keyed_rx ks b rl"
    by (intro exI [of _ "s\<lparr>cs_rl := r1\<rparr>"] exI [of _ r2]) (simp add: keyed_kept(2) [of ks b r1])
qed

lemma into_handshake_total:
  assumes "suite_ok (ks_suite ks)"
  shows "\<exists>kh. into_handshake ks h = Ok kh \<and> hs_ks kh = ks"
  using derive_logged_total [OF assms, of ClientHandshakeTrafficSecret h]
    derive_logged_total [OF assms, of ServerHandshakeTrafficSecret h]
  by (auto simp: into_handshake_def log_label_def)

lemma handshake_keys_agree:
  assumes "suite_ok su" "ks_suite ks = su"
  shows "\<exists>kh c1 s1 s2. derive_client_handshake_secrets False h su ks c = Ok (kh, c1)
    \<and> derive_server_handshake_secrets h ks s = Ok (kh, s1)
    \<and> set_handshake_decrypter None kh s1 = Ok s2
    \<and> hs_ks kh = ks \<and> in_step (cs_rl c1) (cs_rl s2) \<and> in_step (cs_rl s2) (cs_rl c1)"
proof -
  have ks: "ks\<lparr>ks_suite := su\<rparr> = ks" using assms(2) by auto
  have ok: "suite_ok (ks_suite ks)" using assms by simp
  obtain kh where kh: "into_handshake ks h = Ok kh" "hs_ks kh = ks"
    using into_handshake_total [OF ok] by blast
  obtain c1 r1 where r1: "set_decrypter ks (server_handshake_traffic_secret kh) c = Ok c1"
    "set_encrypter ks (client_handshake_traffic_secret kh) c1 = Ok (c\<lparr>cs_rl := r1\<rparr>)"
    "keyed_tx ks (client_handshake_traffic_secret kh) r1" "keyed_rx ks (server_handshake_traffic_secret kh) r1"
    using set_both(2) [OF ok] by blast
  obtain s1 r2 where r2: "set_encrypter ks (server_handshake_traffic_secret kh) s = Ok s1"
    "set_decrypter ks (client_handshake_traffic_secret kh) s1 = Ok (s\<lparr>cs_rl := r2\<rparr>)"
    "keyed_tx ks (server_handshake_traffic_secret kh) r2" "keyed_rx ks (client_handshake_traffic_secret kh) r2"
    using set_both(1) [OF ok] by blast
  have "in_step r1 r2" "in_step r2 r1" using keyed_in_step r1 r2 by blast+
  then show ?thesis using r1(1,2) r2(1,2) kh
    by (intro exI [of _ kh] exI [of _ "c\<lparr>cs_rl := r1\<rparr>"] exI [of _ s1] exI [of _ "s\<lparr>cs_rl := r2\<rparr>"])
      (simp add: derive_client_handshake_secrets_def derive_server_handshake_secrets_def set_handshake_decrypter_def ks)
qed

lemma traffic_new_total:
  assumes "suite_ok (ks_suite ks)"
  shows "\<exists>tr. traffic_new ks h = Ok tr \<and> ks_suite (tr_ks tr) = ks_suite ks"
proof -
  obtain ks1 where ks1: "input_empty ks = Ok ks1" "ks_suite ks1 = ks_suite ks"
    using ks_derive_total [OF assms, of DerivedSecret "su_hash (ks_suite ks) []"]
    by (auto simp: input_empty_def derive_for_empty_hash_def)
  then have ok: "suite_ok (ks_suite ks1)" using assms by simp
  show ?thesis
    using ks1 derive_logged_total [OF ok, of ClientApplicationTrafficSecret h]
      derive_logged_total [OF ok, of ServerApplicationTrafficSecret h] derive_logged_total [OF ok, of ExporterMasterSecret h]
    by (auto simp: traffic_new_def log_label_def)
qed

lemma sign_verify_data_total:
  assumes "suite_ok (ks_suite ks)"
  shows "\<exists>tag. sign_verify_data ks base h = Ok tag"
  using assms expand_label_block_total [of "su_hkdf (ks_suite ks)" base "str ''finished''" "[]"]
  by (auto simp: sign_verify_data_def suite_ok_def simp del: str_simps)

text \<open>
  From the handshake keys to the traffic keys: the client computes the tag of its Finished message
  and installs the keys, the server computes the tag to compare with.
\<close>

lemma traffic_keys_agree:
  assumes "suite_ok (ks_suite (hs_ks kh))"
  shows "\<exists>p s1 tr tag c2 s2. into_traffic_with_client_finished_pending h kh s = Ok (p, s1)
    \<and> into_pre_finished_client_traffic h hf kh = Ok (tr, tag) \<and> into_traffic tr c = Ok c2
    \<and> sign_client_finish hf p s1 = Ok (tr, tag, s2)
    \<and> ks_suite (tr_ks tr) = ks_suite (hs_ks kh) \<and> in_step (cs_rl c2) (cs_rl s2) \<and> in_step (cs_rl s2) (cs_rl c2)"
proof -
  obtain tr where tr: "traffic_new (hs_ks kh) h = Ok tr" "ks_suite (tr_ks tr) = ks_suite (hs_ks kh)"
    using traffic_new_total [OF assms] by blast
  have ok: "suite_ok (ks_suite (tr_ks tr))" using assms tr by simp
  obtain tag where tag: "sign_verify_data (tr_ks tr) (client_handshake_traffic_secret kh) hf = Ok tag"
    using sign_verify_data_total [OF ok] by blast
  obtain c1 r1 where r1: "set_decrypter (tr_ks tr) (current_server_traffic_secret tr) c = Ok c1"
    "set_encrypter (tr_ks tr) (current_client_traffic_secret tr) c1 = Ok (c\<lparr>cs_rl := r1\<rparr>)"
    "keyed_tx (tr_ks tr) (current_client_traffic_secret tr) r1" "keyed_rx (tr_ks tr) (current_server_traffic_secret tr) r1"
    using set_both(2) [OF ok] by blast
  obtain s1 r2 where r2: "set_encrypter (tr_ks tr) (current_server_traffic_secret tr) s = Ok s1"
    "set_decrypter (tr_ks tr) (current_client_traffic_secret tr) s1 = Ok (s\<lparr>cs_rl := r2\<rparr>)"
    "keyed_tx (tr_ks tr) (current_server_traffic_secret tr) r2" "keyed_rx (tr_ks tr) (current_client_traffic_secret tr) r2"
    using set_both(1) [OF ok] by blast
  have "in_step r1 r2" "in_step r2 r1" using keyed_in_step r1 r2 by blast+
  then show ?thesis using tr tag r1(1,2) r2(1,2)
    by (intro exI [of _ "\<lparr>handshake_client_traffic_secret = client_handshake_traffic_secret kh, pending_traffic = tr\<rparr>"]
        exI [of _ s1] exI [of _ tr] exI [of _ tag] exI [of _ "c\<lparr>cs_rl := r1\<rparr>"] exI [of _ "s\<lparr>cs_rl := r2\<rparr>"])
      (simp add: into_traffic_with_client_finished_pending_def into_pre_finished_client_traffic_def into_traffic_def
        sign_client_finish_def)
qed

section \<open>Key updates\<close>

text \<open>The two ends have the same secret for the direction from \<open>sd\<close>.\<close>

definition same_secret :: "side \<Rightarrow> key_schedule_traffic \<Rightarrow> key_schedule_traffic \<Rightarrow> bool" where
  "same_secret sd tr tr' \<longleftrightarrow> ks_suite (tr_ks tr) = ks_suite (tr_ks tr') \<and> traffic_secret sd tr = traffic_secret sd tr'"

lemma next_secret_total:
  assumes "suite_ok (ks_suite (tr_ks tr))" "same_secret sd tr tr'"
  shows "\<exists>secret t t'. next_application_traffic_secret sd tr = Ok (secret, t)
    \<and> next_application_traffic_secret sd tr' = Ok (secret, t') \<and> tr_ks t = tr_ks tr \<and> tr_ks t' = tr_ks tr'
    \<and> same_secret sd t t' \<and> traffic_secret (peer sd) t = traffic_secret (peer sd) tr
    \<and> traffic_secret (peer sd) t' = traffic_secret (peer sd) tr'"
proof -
  obtain secret where "derive_next (tr_ks tr) (traffic_secret sd tr) = Ok secret"
    using expand_label_block_total [of "su_hkdf (ks_suite (tr_ks tr))"] assms(1)
    by (force simp: derive_next_def suite_ok_def simp del: str_simps)
  moreover from this have "derive_next (tr_ks tr') (traffic_secret sd tr') = Ok secret"
    using assms(2) by (simp add: derive_next_def same_secret_def)
  ultimately show ?thesis using assms(2)
    by (cases sd) (simp_all add: next_application_traffic_secret_def same_secret_def)
qed

lemma key_update_ok: "pm_ok (plain_of key_update_notify)"
  by (simp add: pm_ok_def plain_of_def key_update_notify_def message_payload_handshake_def build_key_update_notify_def
      unknown_content_def acceptable_version_def known_def handshake_message_encode_def wire_type_def enum8_encode_def
      u8_encode_def protocol_version_from_def nested_def lpb_new_def lpb_drop_def be32_def enum8_encode_def MAX_FRAGMENT_LEN_def)

lemma key_update_in_step:
  assumes "aead_ok ae" "suite_ok (ks_suite (tr_ks tr))" "in_step (cs_rl s) (cs_rl r)" "\<not> encrypt_exhausted (cs_rl s)"
    "cs_side r = peer (cs_side s)" "same_secret (cs_side s) tr tr'"
  shows "\<exists>t s1 c d rl t' r1. update_encrypter_and_notify ae tr s = Ok (t, s1)
    \<and> queued_key_update_message s1 = Some (om_encode c) \<and> om_wf c
    \<and> decrypt_incoming ae c (cs_rl r) = (Ok (Some d), rl)
    \<and> plaintext d = received_as (rl_encrypter (cs_rl s)) (plain_of key_update_notify)
    \<and> update_decrypter tr' (r\<lparr>cs_rl := rl\<rparr>) = Ok (t', r1)
    \<and> in_step (cs_rl s1) (cs_rl r1) \<and> same_secret (cs_side s) t t'"
proof -
  obtain c rl' rl d where c: "encrypt_outgoing ae (plain_of key_update_notify) (cs_rl s) = (Ok (c, rl') :: (tls_error, _) outcome)"
    "om_wf c" "decrypt_incoming ae c (cs_rl r) = (Ok (Some d), rl)"
    "plaintext d = received_as (rl_encrypter (cs_rl s)) (plain_of key_update_notify)"
    using in_step_message [OF assms(1) key_update_ok assms(3,4)] by blast
  obtain secret t t' where t: "next_application_traffic_secret (cs_side s) tr = Ok (secret, t)"
    "next_application_traffic_secret (cs_side s) tr' = Ok (secret, t')" "tr_ks t = tr_ks tr" "tr_ks t' = tr_ks tr'"
    "same_secret (cs_side s) t t'"
    using next_secret_total [OF assms(2,6)] by blast
  have su: "ks_suite (tr_ks tr') = ks_suite (tr_ks tr)" using assms(6) by (simp add: same_secret_def)
  define s0 where "s0 = s\<lparr>cs_rl := rl', queued_key_update_message := Some (om_encode c)\<rparr>"
  obtain r1 where r1: "set_encrypter (tr_ks tr) secret s0 = Ok (s0\<lparr>cs_rl := r1\<rparr>)" "keyed_tx (tr_ks tr) secret r1"
    using set_encrypter_total [OF assms(2), of secret s0] by auto
  obtain r2 where r2: "set_decrypter (tr_ks tr') secret (r\<lparr>cs_rl := rl\<rparr>) = Ok (r\<lparr>cs_rl := r2\<rparr>)"
    "keyed_rx (tr_ks tr) secret r2"
    using set_decrypter_total [of "tr_ks tr'" secret "r\<lparr>cs_rl := rl\<rparr>"] assms(2) su keyed_suite(2) [OF su] by auto
  have "in_step r1 r2" using keyed_in_step r1(2) r2(2) by blast
  moreover have "peer (peer sd) = sd" for sd by (cases sd) simp_all
  ultimately show ?thesis using c t r1(1) r2(1) assms(5)
    by (intro exI [of _ t] exI [of _ "s0\<lparr>cs_rl := r1\<rparr>"] exI [of _ c] exI [of _ d] exI [of _ rl] exI [of _ t']
        exI [of _ "r\<lparr>cs_rl := r2\<rparr>"])
      (simp add: update_encrypter_and_notify_def update_decrypter_def enqueue_key_update_notification_def
        s0_def [symmetric], simp add: s0_def)
qed

end
