(* ===== verification/Rustls_Session.thy ===== *)
theory Rustls_Session
  imports Rustls_Keys
begin

text \<open>
  What a connection leaves behind for the next one: \<open>limited_cache.rs\<close>, the session stores of
  \<open>client/handy.rs\<close> and \<open>server/handy.rs\<close>, the session values of \<open>msgs/persist.rs\<close>, and the ticketers
  of \<open>ticketer.rs\<close> and \<open>crypto/ring/ticketer.rs\<close> in \<open>orcax/rustls-fork/rustls/src\<close>.

  A store is shared behind a mutex; each operation runs with the lock held and is one function
  here. The interface \<open>bounded_store\<close> is what the stores promise, and \<open>LimitedCache\<close> implements it.
\<close>

section \<open>LimitedCache\<close>

text \<open>\<open>lc_cap\<close> is the capacity of the queue of keys; a full queue doubles, from at least 4.\<close>

record ('k, 'v) limited_cache =
  lc_map :: "'k \<rightharpoonup> 'v"
  oldest :: "'k list"
  lc_cap :: nat

definition lc_new :: "nat \<Rightarrow> ('k, 'v) limited_cache" where
  "lc_new capacity_order_of_magnitude =
     \<lparr>lc_map = Map.empty, oldest = [], lc_cap = capacity_order_of_magnitude\<rparr>"

definition lc_push_key :: "'k \<Rightarrow> ('k, 'v) limited_cache \<Rightarrow> ('k, 'v) limited_cache" where
  "lc_push_key k c =
     c\<lparr>oldest := oldest c @ [k],
       lc_cap := if length (oldest c) = lc_cap c then max 4 (2 * lc_cap c) else lc_cap c\<rparr>"

definition lc_evict :: "('k, 'v) limited_cache \<Rightarrow> ('k, 'v) limited_cache" where
  "lc_evict c =
     (if lc_cap c = length (oldest c) then
        (case oldest c of
           [] \<Rightarrow> c
         | oldest_key # rest \<Rightarrow> c\<lparr>oldest := rest, lc_map := (lc_map c)(oldest_key := None)\<rparr>)
      else c)"

definition get_or_insert_default_and_edit ::
    "'v \<Rightarrow> 'k \<Rightarrow> ('v \<Rightarrow> 'v) \<Rightarrow> ('k, 'v) limited_cache \<Rightarrow> ('k, 'v) limited_cache" where
  "get_or_insert_default_and_edit dflt k edit c =
     (case lc_map c k of
        Some value \<Rightarrow> c\<lparr>lc_map := (lc_map c)(k \<mapsto> edit value)\<rparr>
      | None \<Rightarrow> lc_evict ((lc_push_key k c)\<lparr>lc_map := (lc_map c)(k \<mapsto> edit dflt)\<rparr>))"

definition lc_insert :: "'k \<Rightarrow> 'v \<Rightarrow> ('k, 'v) limited_cache \<Rightarrow> ('k, 'v) limited_cache" where
  "lc_insert k v c =
     (case lc_map c k of
        Some old \<Rightarrow> c\<lparr>lc_map := (lc_map c)(k \<mapsto> v)\<rparr>
      | None \<Rightarrow> lc_evict ((lc_push_key k c)\<lparr>lc_map := (lc_map c)(k \<mapsto> v)\<rparr>))"

definition lc_get :: "('k, 'v) limited_cache \<Rightarrow> 'k \<Rightarrow> 'v option" where
  "lc_get c k = lc_map c k"

text \<open>\<open>get_mut\<close> and what the caller does with the reference: a result and the new value.\<close>

definition lc_get_mut :: "'k \<Rightarrow> ('v \<Rightarrow> 'a option \<times> 'v) \<Rightarrow> ('k, 'v) limited_cache \<Rightarrow> 'a option \<times> ('k, 'v) limited_cache" where
  "lc_get_mut k f c =
     (case lc_map c k of
        None \<Rightarrow> (None, c)
      | Some v \<Rightarrow> (case f v of (res, v') \<Rightarrow> (res, c\<lparr>lc_map := (lc_map c)(k \<mapsto> v')\<rparr>)))"

definition lc_remove :: "'k \<Rightarrow> ('k, 'v) limited_cache \<Rightarrow> 'v option \<times> ('k, 'v) limited_cache" where
  "lc_remove k c =
     (case lc_map c k of
        None \<Rightarrow> (None, c)
      | Some value \<Rightarrow> (Some value, c\<lparr>lc_map := (lc_map c)(k := None), oldest := remove1 k (oldest c)\<rparr>))"

subsection \<open>Its contract\<close>

text \<open>
  A store with room for \<open>cap\<close> keys: it never holds more, a new key is found until \<open>cap\<close> others were
  inserted after it, and no operation invents a value.
\<close>

locale bounded_store =
  fixes look :: "'s \<Rightarrow> 'k \<Rightarrow> 'v option" and ins :: "'k \<Rightarrow> 'v \<Rightarrow> 's \<Rightarrow> 's" and rem :: "'k \<Rightarrow> 's \<Rightarrow> 's"
    and age :: "'s \<Rightarrow> 'k list" and cap :: "'s \<Rightarrow> nat" and invar :: "'s \<Rightarrow> bool"
  assumes keys: "invar s \<Longrightarrow> distinct (age s) \<and> set (age s) = dom (look s) \<and> length (age s) \<le> cap s"
    and ins_inv: "invar s \<Longrightarrow> invar (ins k v s) \<and> cap (ins k v s) = cap s"
    and rem_inv: "invar s \<Longrightarrow> invar (rem k s) \<and> cap (rem k s) = cap s"
    and ins_old: "invar s \<Longrightarrow> look s k \<noteq> None \<Longrightarrow> look (ins k v s) = (look s)(k \<mapsto> v) \<and> age (ins k v s) = age s"
    and ins_new: "invar s \<Longrightarrow> look s k = None \<Longrightarrow>
      age (ins k v s) = (if length (age s) < cap s then age s @ [k] else drop 1 (age s @ [k]))
      \<and> look (ins k v s) = (look s)(k \<mapsto> v) |` set (age (ins k v s))"
    and rem: "invar s \<Longrightarrow> look (rem k s) = (look s)(k := None) \<and> age (rem k s) = remove1 k (age s)"
begin

lemma bound: "invar s \<Longrightarrow> card (dom (look s)) \<le> cap s"
  by (metis distinct_card keys)

lemma found: "invar s \<Longrightarrow> 0 < cap s \<Longrightarrow> look (ins k v s) k = Some v"
proof (cases "look s k")
  case None
  assume s: "invar s" "0 < cap s"
  then have "k \<in> set (age (ins k v s))" using ins_new [OF s(1) None, of v] by (cases "age s") auto
  then show ?thesis using ins_new [OF s(1) None, of v] by simp
qed (simp add: ins_old)

lemma kept:
  assumes "invar s" "k' \<noteq> k" "look s k = None \<longrightarrow> cap s = length (age s) \<longrightarrow> k' \<noteq> hd (age s)"
  shows "look (ins k v s) k' = look s k'"
proof (cases "look s k")
  case None
  have n: "age (ins k v s) = (if length (age s) < cap s then age s @ [k] else drop 1 (age s @ [k]))"
    "look (ins k v s) = (look s)(k \<mapsto> v) |` set (age (ins k v s))"
    using ins_new [OF assms(1) None, of v] by blast+
  have a: "set (age s) = dom (look s)" "length (age s) \<le> cap s" using keys [OF assms(1)] by blast+
  show ?thesis
  proof (cases "look s k'")
    case None
    then show ?thesis unfolding n(2) using assms(2) by (simp add: restrict_map_def)
  next
    case (Some x)
    then have "k' \<in> set (age s)" using a(1) by auto
    moreover have "length (age s) < cap s \<or> k' \<noteq> hd (age s)" using None assms(3) a(2) by linarith
    ultimately have "k' \<in> set (age (ins k v s))" unfolding n(1) by (cases "age s") auto
    then show ?thesis unfolding n(2) using assms(2) by (simp add: restrict_map_def)
  qed
qed (use ins_old [OF assms(1), of k v] assms(2) in simp)

text \<open>The values: whatever is found was there before or is the one inserted.\<close>

lemma genuine:
  assumes "invar s" "look (ins k v s) k' = Some x"
  shows "k' = k \<and> x = v \<or> look s k' = Some x"
proof (cases "look s k")
  case None
  have "((look s)(k \<mapsto> v) |` set (age (ins k v s))) k' = Some x"
    using ins_new [OF assms(1) None, of v] assms(2) by metis
  then show ?thesis by (auto simp: restrict_map_def split: if_splits)
qed (use ins_old [OF assms(1), of k v] assms(2) in \<open>auto split: if_splits\<close>)

end

definition lc_inv :: "('k, 'v) limited_cache \<Rightarrow> bool" where
  "lc_inv c \<longleftrightarrow> distinct (oldest c) \<and> set (oldest c) = dom (lc_map c) \<and> length (oldest c) < lc_cap c"

lemma lc_evict_push:
  assumes "lc_inv c" "lc_map c k = None"
  shows "lc_evict ((lc_push_key k c)\<lparr>lc_map := (lc_map c)(k \<mapsto> v)\<rparr>) =
    c\<lparr>oldest := (if length (oldest c) < lc_cap c - 1 then oldest c @ [k] else drop 1 (oldest c @ [k])),
      lc_map := (if length (oldest c) < lc_cap c - 1 then (lc_map c)(k \<mapsto> v)
                 else ((lc_map c)(k \<mapsto> v))(hd (oldest c @ [k]) := None))\<rparr>"
  using assms by (cases "oldest c") (auto simp: lc_evict_def lc_push_key_def lc_inv_def Let_def)

interpretation lc: bounded_store lc_get lc_insert "\<lambda>k c. snd (lc_remove k c)" oldest "\<lambda>c. lc_cap c - 1" lc_inv
proof
  fix c :: "('a, 'b) limited_cache" and k v
  assume c: "lc_inv c"
  then show "distinct (oldest c) \<and> set (oldest c) = dom (lc_get c) \<and> length (oldest c) \<le> lc_cap c - 1"
    by (auto simp: lc_inv_def lc_get_def dom_def)
  have d: "distinct (oldest c)" "set (oldest c) = dom (lc_map c)" "length (oldest c) < lc_cap c"
    using c by (simp_all add: lc_inv_def)
  show "lc_inv (lc_insert k v c) \<and> lc_cap (lc_insert k v c) - 1 = lc_cap c - 1"
  proof (cases "lc_map c k")
    case None
    then have k: "k \<notin> set (oldest c)" using d by auto
    then show ?thesis using lc_evict_push [OF c None, of v] d None
      by (cases "oldest c") (auto simp: lc_insert_def lc_inv_def)
  qed (use d in \<open>auto simp: lc_insert_def lc_inv_def\<close>)
  show "lc_inv (snd (lc_remove k c)) \<and> lc_cap (snd (lc_remove k c)) - 1 = lc_cap c - 1"
    using d by (cases "lc_map c k") (auto simp: lc_remove_def lc_inv_def length_remove1)
  show "lc_get (lc_insert k v c) = (lc_get c)(k \<mapsto> v) \<and> oldest (lc_insert k v c) = oldest c" if "lc_get c k \<noteq> None"
    using that by (auto simp: lc_insert_def lc_get_def fun_eq_iff)
  show "oldest (lc_insert k v c) = (if length (oldest c) < lc_cap c - 1 then oldest c @ [k] else drop 1 (oldest c @ [k]))
      \<and> lc_get (lc_insert k v c) = (lc_get c)(k \<mapsto> v) |` set (oldest (lc_insert k v c))" if n: "lc_get c k = None"
  proof -
    have k: "lc_map c k = None" "k \<notin> set (oldest c)" using n d by (auto simp: lc_get_def)
    show ?thesis using lc_evict_push [OF c k(1), of v] k d
      by (cases "oldest c") (auto simp: lc_insert_def lc_get_def fun_eq_iff restrict_map_def)
  qed
  show "lc_get (snd (lc_remove k c)) = (lc_get c)(k := None) \<and> oldest (snd (lc_remove k c)) = remove1 k (oldest c)"
  proof (cases "lc_map c k")
    case None
    then have "k \<notin> set (oldest c)" using d by auto
    then show ?thesis using None by (auto simp: lc_remove_def lc_get_def fun_eq_iff remove1_idem)
  qed (auto simp: lc_remove_def lc_get_def fun_eq_iff)
qed

text \<open>The editing insertion is the insertion of the edited value, old or default.\<close>

lemma get_or_insert_default_and_edit_eq:
  "get_or_insert_default_and_edit dflt k edit c =
     lc_insert k (edit (case lc_map c k of Some v \<Rightarrow> v | None \<Rightarrow> dflt)) c"
  by (simp add: get_or_insert_default_and_edit_def lc_insert_def split: option.split)

section \<open>Session values\<close>

definition MAX_TICKET_LIFETIME :: u32 where "MAX_TICKET_LIFETIME = 7 * 24 * 60 * 60"

definition MAX_FRESHNESS_SKEW_MS :: u32 where "MAX_FRESHNESS_SKEW_MS = 60 * 1000"

record client_session_common =
  csc_ticket :: bytes
  csc_secret :: bytes
  epoch :: u64
  lifetime_secs :: u32
  server_cert_chain :: "bytes list"

definition client_session_common_new :: "bytes \<Rightarrow> bytes \<Rightarrow> u64 \<Rightarrow> u32 \<Rightarrow> bytes list \<Rightarrow> client_session_common" where
  "client_session_common_new ticket secret time_now lifetime chain =
     \<lparr>csc_ticket = ticket, csc_secret = secret, epoch = time_now,
      lifetime_secs = min lifetime MAX_TICKET_LIFETIME, server_cert_chain = chain\<rparr>"

record tls13_client_session_value =
  v13_suite :: tls13_suite
  v13_age_add :: u32
  v13_max_early_data_size :: u32
  v13_common :: client_session_common
  v13_quic_params :: bytes

definition tls13_client_session_value_new ::
    "tls13_suite \<Rightarrow> bytes \<Rightarrow> bytes \<Rightarrow> bytes list \<Rightarrow> u64 \<Rightarrow> u32 \<Rightarrow> u32 \<Rightarrow> u32 \<Rightarrow> tls13_client_session_value" where
  "tls13_client_session_value_new suite ticket secret chain time_now lifetime age_add max_early_data_size =
     \<lparr>v13_suite = suite, v13_age_add = age_add, v13_max_early_data_size = max_early_data_size,
      v13_common = client_session_common_new ticket secret time_now lifetime chain, v13_quic_params = []\<rparr>"

definition set_quic_params :: "bytes \<Rightarrow> tls13_client_session_value \<Rightarrow> tls13_client_session_value" where
  "set_quic_params params v = v\<lparr>v13_quic_params := params\<rparr>"

text \<open>The suite of TLS 1.2 is the one part of a session value that stays abstract.\<close>

record 's tls12_client_session_value =
  v12_suite :: 's
  v12_session_id :: bytes
  v12_extended_ms :: bool
  v12_common :: client_session_common

definition take_ticket :: "'s tls12_client_session_value \<Rightarrow> bytes \<times> 's tls12_client_session_value" where
  "take_ticket v = (csc_ticket (v12_common v), v\<lparr>v12_common := (v12_common v)\<lparr>csc_ticket := []\<rparr>\<rparr>)"

record 'a retrieved =
  rt_value :: 'a
  retrieved_at :: u64

definition saturating_sub64 :: "u64 \<Rightarrow> u64 \<Rightarrow> u64" where
  "saturating_sub64 a b = (if b \<le> a then a - b else 0)"

definition saturating_add64 :: "u64 \<Rightarrow> u64 \<Rightarrow> u64" where
  "saturating_add64 a b = (if a \<le> a + b then a + b else - 1)"

text \<open>The cast to 32 bits and the product wrap around, as in a release build.\<close>

definition obfuscated_ticket_age :: "tls13_client_session_value retrieved \<Rightarrow> u32" where
  "obfuscated_ticket_age r =
     (let age_secs = saturating_sub64 (retrieved_at r) (epoch (v13_common (rt_value r)));
          age_millis = ucast age_secs * 1000
      in age_millis + v13_age_add (rt_value r))"

definition has_expired :: "client_session_common \<Rightarrow> u64 \<Rightarrow> bool" where
  "has_expired c at_secs \<longleftrightarrow>
     lifetime_secs c \<noteq> 0 \<and> saturating_add64 (epoch c) (ucast (lifetime_secs c)) < at_secs"

subsection \<open>The value a server stores\<close>

record server_session_value =
  ssv_sni :: "bytes option"
  ssv_version :: protocol_version
  ssv_cipher_suite :: u16
  master_secret :: bytes
  extended_ms :: bool
  client_cert_chain :: "bytes list option"
  ssv_alpn :: "bytes option"
  application_data :: bytes
  creation_time_sec :: u64
  age_obfuscation_offset :: u32
  freshness :: "bool option"

definition server_session_value_new ::
    "bytes option \<Rightarrow> protocol_version \<Rightarrow> u16 \<Rightarrow> bytes \<Rightarrow> bytes list option \<Rightarrow> bytes option \<Rightarrow> bytes \<Rightarrow> u64 \<Rightarrow> u32 \<Rightarrow>
     server_session_value" where
  "server_session_value_new sni v cs ms chain al app creation_time offset =
     \<lparr>ssv_sni = sni, ssv_version = v, ssv_cipher_suite = cs, master_secret = ms, extended_ms = False,
      client_cert_chain = chain, ssv_alpn = al, application_data = app, creation_time_sec = creation_time,
      age_obfuscation_offset = offset, freshness = None\<rparr>"

definition set_freshness :: "u32 \<Rightarrow> u64 \<Rightarrow> server_session_value \<Rightarrow> server_session_value" where
  "set_freshness obfuscated_client_age_ms time_now v =
     (let client_age_ms = obfuscated_client_age_ms - age_obfuscation_offset v;
          server_age_secs = (ucast (saturating_sub64 time_now (creation_time_sec v)) :: u32);
          server_age_ms = (if unat server_age_secs * 1000 < 2 ^ 32 then server_age_secs * 1000 else - 1);
          age_difference = (if client_age_ms < server_age_ms then server_age_ms - client_age_ms
                            else client_age_ms - server_age_ms)
      in v\<lparr>freshness := Some (age_difference \<le> MAX_FRESHNESS_SKEW_MS)\<rparr>)"

definition is_fresh :: "server_session_value \<Rightarrow> bool" where
  "is_fresh v = (case freshness v of Some b \<Rightarrow> b | None \<Rightarrow> False)"

text \<open>An optional field: a byte that is 1 when the value follows.\<close>

definition flagged_encode :: "('a \<Rightarrow> bytes \<Rightarrow> bytes) \<Rightarrow> 'a option \<Rightarrow> bytes \<Rightarrow> bytes" where
  "flagged_encode enc x out = (case x of Some v \<Rightarrow> enc v (u8_encode 1 out) | None \<Rightarrow> u8_encode 0 out)"

definition flagged_read :: "'a rd \<Rightarrow> 'a option rd" where
  "flagged_read p r =
     outcome_bind (u8_read r) (\<lambda>(flag, r). if flag = 1 then wrap Some p r else Ok (None, r))"

definition server_session_value_encode :: "server_session_value \<Rightarrow> bytes \<Rightarrow> bytes" where
  "server_session_value_encode v out =
     (let out = flagged_encode payload_u8_encode (ssv_sni v) out;
          out = protocol_version_encode (ssv_version v) out;
          out = cipher_suite_encode (ssv_cipher_suite v) out;
          out = payload_u8_encode (master_secret v) out;
          out = u8_encode (of_bool (extended_ms v)) out;
          out = flagged_encode (vec_encode CERT_LIST certificate_der_encode) (client_cert_chain v) out;
          out = flagged_encode payload_u8_encode (ssv_alpn v) out;
          out = payload_u16_encode (application_data v) out;
          out = u64_encode (creation_time_sec v) out
      in u32_encode (age_obfuscation_offset v) out)"

definition server_session_value_read :: "(bytes \<Rightarrow> bool) \<Rightarrow> server_session_value rd" where
  "server_session_value_read dns r =
     outcome_bind (flagged_read (require dns InvalidServerName payload_u8_read) r) (\<lambda>(sni, r).
     outcome_bind (protocol_version_read r) (\<lambda>(v, r).
     outcome_bind (cipher_suite_read r) (\<lambda>(cs, r).
     outcome_bind (payload_u8_read r) (\<lambda>(ms, r).
     outcome_bind (u8_read r) (\<lambda>(ems, r).
     outcome_bind (flagged_read (vec_read CERT_LIST certificate_der_read) r) (\<lambda>(ccert, r).
     outcome_bind (flagged_read payload_u8_read r) (\<lambda>(al, r).
     outcome_bind (payload_u16_read r) (\<lambda>(app, r).
     outcome_bind (u64_read r) (\<lambda>(creation_time, r).
     outcome_bind (u32_read r) (\<lambda>(offset, r).
     Ok (\<lparr>ssv_sni = sni, ssv_version = v, ssv_cipher_suite = cs, master_secret = ms, extended_ms = (ems = 1),
          client_cert_chain = ccert, ssv_alpn = al, application_data = app, creation_time_sec = creation_time,
          age_obfuscation_offset = offset, freshness = None\<rparr>, r)))))))))))"

subsection \<open>Its codec\<close>

lemma codec_flagged:
  assumes "codec enc p ok"
  shows "codec (flagged_encode enc) (flagged_read p) (\<lambda>x. \<forall>v. x = Some v \<longrightarrow> ok v)"
proof (rule codecI)
  note app = whole_codec.enc_app [OF codec.axioms(1) [OF assms]] and rd = codec.rd_enc [OF assms]
    and wf = whole_codec.rd_wf [OF codec.axioms(1) [OF assms]]
  show "flagged_encode enc x out = out @ flagged_encode enc x []" for x out
    by (cases x) (simp_all add: flagged_encode_def u8_encode_def app [of _ "out @ [1]"] app [of _ "[1]"])
  show "reads w (flagged_read p) (flagged_encode enc x []) x" if "\<forall>v. x = Some v \<longrightarrow> ok v" for x w
  proof (cases x)
    case None
    have "reads w (flagged_read p) (u8_encode 0 [] @ []) None"
      unfolding flagged_read_def by (rule reads_bind [OF u8.rd_enc]) (simp_all add: reads_Ok)
    then show ?thesis using None by (simp add: flagged_encode_def)
  next
    case (Some v)
    have "reads w (flagged_read p) (u8_encode 1 [] @ enc v []) (Some v)"
      unfolding flagged_read_def by (rule reads_bind [OF u8.rd_enc]) (use Some that in \<open>simp_all add: reads_wrap rd\<close>)
    then show ?thesis using Some by (simp add: flagged_encode_def app [of v "u8_encode 1 []"])
  qed
  show "gives (\<lambda>x bs. (\<forall>v. x = Some v \<longrightarrow> ok v) \<and> length (flagged_encode enc x []) \<le> length bs) (flagged_read p)"
    unfolding flagged_read_def [abs_def]
    by (rule gives_bind [OF u8_gives], intro gives_if gives_Ok, rule gives_wrap [OF wf])
      (auto simp: flagged_encode_def u8_encode_def app [of _ "[1]"])
  show "flagged_encode enc x [] \<noteq> []" for x
    by (cases x) (simp_all add: flagged_encode_def u8_encode_def app [of _ "[1]"])
qed

lemma codec_flag: "codec (\<lambda>b. u8_encode (of_bool b)) (wrap (\<lambda>x. x = 1) u8_read) (\<lambda>_. True)"
proof (rule codecI)
  show "reads w (wrap (\<lambda>x. x = 1) u8_read) (u8_encode (of_bool b) []) b" for b w
    by (rule reads_wrap_eq [OF u8.rd_enc]) simp_all
  show "gives (\<lambda>b bs. True \<and> length (u8_encode (of_bool b) []) \<le> length bs) (wrap (\<lambda>x. x = 1) u8_read)"
    by (rule gives_wrap [OF u8_gives]) (simp add: u8_encode_def)
qed (simp_all add: u8_encode_def)

definition server_session_value_wf :: "(bytes \<Rightarrow> bool) \<Rightarrow> server_session_value \<Rightarrow> bool" where
  "server_session_value_wf dns v \<longleftrightarrow>
     (\<forall>n. ssv_sni v = Some n \<longrightarrow> sized 256 n \<and> dns n)
     \<and> known protocol_version_get protocol_version_from (ssv_version v)
     \<and> sized 256 (master_secret v)
     \<and> (\<forall>ch. client_cert_chain v = Some ch \<longrightarrow> vec_wf CERT_LIST certificate_der_encode (sized (2 ^ 24)) ch)
     \<and> (\<forall>p. ssv_alpn v = Some p \<longrightarrow> sized 256 p)
     \<and> sized 65536 (application_data v) \<and> freshness v = None"

lemma codec_two:
  assumes "codec ea ra oa" "codec eb rb ob"
  shows "codec (\<lambda>(a, b) out. eb b (ea a out))
    (\<lambda>r. outcome_bind (ra r) (\<lambda>(a, r). outcome_bind (rb r) (\<lambda>(b, r). Ok ((a, b), r)))) (\<lambda>(a, b). oa a \<and> ob b)"
  by (rule codec_pair [OF assms, of _ snd fst _ Pair]) auto

interpretation server_session_value: codec server_session_value_encode "server_session_value_read dns"
  "server_session_value_wf dns" for dns
  by (rule codec_sub [OF codec_quint [OF
          codec_flagged [OF codec_require [OF payload_u8.codec_axioms, of dns InvalidServerName]]
          protocol_version.codec_axioms cipher_suite.codec_axioms payload_u8.codec_axioms
          codec_quint [OF codec_flag codec_flagged [OF certificate_chain.codec_axioms]
            codec_flagged [OF payload_u8.codec_axioms] payload_u16.codec_axioms
            codec_two [OF u64.codec_axioms u32.codec_axioms]]],
        of "\<lambda>v. (ssv_sni v, ssv_version v, ssv_cipher_suite v, master_secret v, extended_ms v, client_cert_chain v,
            ssv_alpn v, application_data v, creation_time_sec v, age_obfuscation_offset v)"
          "\<lambda>(sni, v, cs, ms, ems, ccert, al, app, t, off). \<lparr>ssv_sni = sni, ssv_version = v, ssv_cipher_suite = cs,
            master_secret = ms, extended_ms = ems, client_cert_chain = ccert, ssv_alpn = al, application_data = app,
            creation_time_sec = t, age_obfuscation_offset = off, freshness = None\<rparr>"])
    (auto simp: server_session_value_encode_def server_session_value_read_def server_session_value_wf_def Let_def fun_eq_iff
      wrap_def split_def outcome_bind_assoc known_def dest: arg_cong [of _ _ freshness])

subsection \<open>Ages\<close>

text \<open>
  A client and a server that measured the same age, up to a minute, agree that a ticket is fresh;
  the obfuscation cancels out. The ages are below 49 days, where milliseconds fit in 32 bits.
\<close>

lemma saturating_sub64_nat: "unat (saturating_sub64 a b) = unat a - unat b"
  by (simp add: saturating_sub64_def unat_sub_if_size word_le_nat_alt)

lemma unat_millis:
  assumes "unat a \<le> 4294967"
  shows "unat ((ucast (a :: u64) :: u32)) = unat a" "unat (ucast a * 1000 :: u32) = unat a * 1000"
proof -
  show u: "unat ((ucast a :: u32)) = unat a" using assms by (simp add: unsigned_ucast_eq take_bit_nat_eq_self)
  show "unat (ucast a * 1000 :: u32) = unat a * 1000" using assms by (simp add: unat_word_ariths u)
qed

lemma freshness_agrees:
  assumes "v13_age_add (rt_value r) = age_obfuscation_offset v"
    and c: "unat (retrieved_at r) - unat (epoch (v13_common (rt_value r))) = ca" "ca \<le> 4294967"
    and s: "unat now - unat (creation_time_sec v) = sa" "sa \<le> 4294967"
  shows "is_fresh (set_freshness (obfuscated_ticket_age r) now v) \<longleftrightarrow> ca \<le> sa + 60 \<and> sa \<le> ca + 60"
proof -
  define x y where "x = saturating_sub64 (retrieved_at r) (epoch (v13_common (rt_value r)))"
    and "y = saturating_sub64 now (creation_time_sec v)"
  have xy: "unat x = ca" "unat y = sa" using c s by (simp_all add: x_def y_def saturating_sub64_nat)
  have m: "unat (ucast x * 1000 :: u32) = ca * 1000" "unat (ucast y * 1000 :: u32) = sa * 1000" "unat (ucast y :: u32) = sa"
    using unat_millis [of x] unat_millis [of y] xy c s by simp_all
  have "sa * 1000 < 2 ^ 32" using s by simp
  then show ?thesis
    by (simp add: is_fresh_def set_freshness_def obfuscated_ticket_age_def Let_def assms(1) x_def [symmetric] y_def [symmetric]
        MAX_FRESHNESS_SKEW_MS_def word_less_nat_alt word_le_nat_alt unat_sub_if_size m)
      (auto simp: unat_sub_if_size m)
qed

section \<open>Session stores\<close>

subsection \<open>Of a server\<close>

type_synonym server_session_memory_cache = "(bytes, bytes) limited_cache"

definition server_cache_put :: "bytes \<Rightarrow> bytes \<Rightarrow> server_session_memory_cache \<Rightarrow> bool \<times> server_session_memory_cache" where
  "server_cache_put key value c = (True, lc_insert key value c)"

definition server_cache_get :: "bytes \<Rightarrow> server_session_memory_cache \<Rightarrow> bytes option" where
  "server_cache_get key c = lc_get c key"

definition server_cache_take :: "bytes \<Rightarrow> server_session_memory_cache \<Rightarrow> bytes option \<times> server_session_memory_cache" where
  "server_cache_take key c = lc_remove key c"

subsection \<open>Of a client\<close>

definition MAX_TLS13_TICKETS_PER_SERVER :: nat where "MAX_TLS13_TICKETS_PER_SERVER = 8"

record 's server_data =
  sd_kx_hint :: "named_group option"
  sd_tls12 :: "'s tls12_client_session_value option"
  sd_tls13 :: "tls13_client_session_value list"

definition server_data_default :: "'s server_data" where
  "server_data_default = \<lparr>sd_kx_hint = None, sd_tls12 = None, sd_tls13 = []\<rparr>"

type_synonym 's client_session_memory_cache = "(bytes, 's server_data) limited_cache"

definition client_cache_new :: "nat \<Rightarrow> 's client_session_memory_cache" where
  "client_cache_new size0 =
     lc_new (min (size0 + (MAX_TLS13_TICKETS_PER_SERVER - 1)) (2 ^ 64 - 1) div MAX_TLS13_TICKETS_PER_SERVER)"

definition set_kx_hint :: "bytes \<Rightarrow> named_group \<Rightarrow> 's client_session_memory_cache \<Rightarrow> 's client_session_memory_cache" where
  "set_kx_hint server_name g c =
     get_or_insert_default_and_edit server_data_default server_name (\<lambda>data. data\<lparr>sd_kx_hint := Some g\<rparr>) c"

definition client_kx_hint :: "bytes \<Rightarrow> 's client_session_memory_cache \<Rightarrow> named_group option" where
  "client_kx_hint server_name c = Option.bind (lc_get c server_name) sd_kx_hint"

definition set_tls12_session ::
    "bytes \<Rightarrow> 's tls12_client_session_value \<Rightarrow> 's client_session_memory_cache \<Rightarrow> 's client_session_memory_cache" where
  "set_tls12_session server_name value c =
     get_or_insert_default_and_edit server_data_default server_name (\<lambda>data. data\<lparr>sd_tls12 := Some value\<rparr>) c"

definition tls12_session :: "bytes \<Rightarrow> 's client_session_memory_cache \<Rightarrow> 's tls12_client_session_value option" where
  "tls12_session server_name c = Option.bind (lc_get c server_name) sd_tls12"

definition remove_tls12_session :: "bytes \<Rightarrow> 's client_session_memory_cache \<Rightarrow> 's client_session_memory_cache" where
  "remove_tls12_session server_name c =
     snd (lc_get_mut server_name (\<lambda>data. (sd_tls12 data, data\<lparr>sd_tls12 := None\<rparr>)) c)"

text \<open>The queue of tickets is created with its capacity, and never grows past it.\<close>

definition push_ticket :: "tls13_client_session_value \<Rightarrow> 's server_data \<Rightarrow> 's server_data" where
  "push_ticket value data =
     data\<lparr>sd_tls13 := (if length (sd_tls13 data) = MAX_TLS13_TICKETS_PER_SERVER then drop 1 (sd_tls13 data)
                        else sd_tls13 data) @ [value]\<rparr>"

definition insert_tls13_ticket ::
    "bytes \<Rightarrow> tls13_client_session_value \<Rightarrow> 's client_session_memory_cache \<Rightarrow> 's client_session_memory_cache" where
  "insert_tls13_ticket server_name value c =
     get_or_insert_default_and_edit server_data_default server_name (push_ticket value) c"

definition take_tls13_ticket ::
    "bytes \<Rightarrow> 's client_session_memory_cache \<Rightarrow> tls13_client_session_value option \<times> 's client_session_memory_cache" where
  "take_tls13_ticket server_name c =
     lc_get_mut server_name (\<lambda>data.
       if sd_tls13 data = [] then (None, data)
       else (Some (last (sd_tls13 data)), data\<lparr>sd_tls13 := butlast (sd_tls13 data)\<rparr>)) c"

definition client_cache_inv :: "'s client_session_memory_cache \<Rightarrow> bool" where
  "client_cache_inv c \<longleftrightarrow> lc_inv c
     \<and> (\<forall>n data. lc_map c n = Some data \<longrightarrow> length (sd_tls13 data) \<le> MAX_TLS13_TICKETS_PER_SERVER)"

lemma lc_insert_map:
  assumes "lc_inv c" "lc_map (lc_insert k v c) n = Some x"
  shows "n = k \<and> x = v \<or> lc_map c n = Some x"
  using lc.genuine [OF assms(1), unfolded lc_get_def, OF assms(2)] .

lemma client_cache_edit_inv:
  assumes "client_cache_inv c" "\<And>d. length (sd_tls13 d) \<le> MAX_TLS13_TICKETS_PER_SERVER \<Longrightarrow>
    length (sd_tls13 (f d)) \<le> MAX_TLS13_TICKETS_PER_SERVER"
  shows "client_cache_inv (get_or_insert_default_and_edit server_data_default n f c)"
proof -
  define v where "v = f (case lc_map c n of Some v \<Rightarrow> v | None \<Rightarrow> server_data_default)"
  have "length (sd_tls13 v) \<le> MAX_TLS13_TICKETS_PER_SERVER"
    using assms by (auto simp: v_def client_cache_inv_def server_data_default_def split: option.split)
  then show ?thesis
    using assms(1) lc.ins_inv [of c n v] lc_insert_map [of c n v]
    by (auto simp: get_or_insert_default_and_edit_eq v_def [symmetric] client_cache_inv_def)
qed

lemma take_ticket_newest:
  assumes "client_cache_inv c" "2 \<le> lc_cap c"
  shows "fst (take_tls13_ticket n (insert_tls13_ticket n v c)) = Some v"
proof -
  have "lc_get (insert_tls13_ticket n v c) n
      = Some (push_ticket v (case lc_map c n of Some d \<Rightarrow> d | None \<Rightarrow> server_data_default))"
    unfolding insert_tls13_ticket_def get_or_insert_default_and_edit_eq
    by (rule lc.found) (use assms in \<open>auto simp: client_cache_inv_def\<close>)
  then show ?thesis by (simp add: take_tls13_ticket_def lc_get_mut_def lc_get_def push_ticket_def split: option.split)
qed

section \<open>Ticketers\<close>

text \<open>
  A sub-ticketer encrypts under a key; \<open>AeadTicketer\<close> prefixes a random nonce, which is an argument
  here.
\<close>

definition aead_ticketer_encrypt :: "aead \<Rightarrow> bytes \<Rightarrow> bytes \<Rightarrow> bytes \<Rightarrow> bytes option" where
  "aead_ticketer_encrypt ae key nonce_buf message =
     map_option (\<lambda>c. nonce_buf @ c) (aead_seal ae CHACHA20_POLY1305 key nonce_buf [] message)"

definition aead_ticketer_decrypt :: "aead \<Rightarrow> bytes \<Rightarrow> bytes \<Rightarrow> bytes option" where
  "aead_ticketer_decrypt ae key ciphertext =
     (if length ciphertext < NONCE_LEN then None
      else aead_open ae CHACHA20_POLY1305 key (take NONCE_LEN ciphertext) [] (drop NONCE_LEN ciphertext))"

record 'tk ticket_switcher_state =
  ts_next :: "'tk option"
  ts_current :: 'tk
  ts_previous :: "'tk option"
  next_switch_time :: u64

text \<open>
  \<open>maybe_roll\<close> takes the lock twice, and other threads may run in between. \<open>roll_check\<close> is the first
  section: \<open>None\<close> when no switch is due, otherwise whether it has to recover. \<open>roll_place\<close> and
  \<open>roll_recover\<close> are the second section of the two cases.
\<close>

definition roll_check :: "u32 \<Rightarrow> u64 \<Rightarrow> 'tk ticket_switcher_state \<Rightarrow> bool option \<times> 'tk ticket_switcher_state" where
  "roll_check lifetime now st =
     (if now \<le> next_switch_time st then (None, st)
      else case ts_next st of
        Some next0 \<Rightarrow>
          (Some False, st\<lparr>ts_next := None, ts_previous := Some (ts_current st), ts_current := next0,
             next_switch_time := saturating_add64 now (ucast lifetime)\<rparr>)
      | None \<Rightarrow> (Some True, st))"

definition roll_place :: "'tk \<Rightarrow> 'tk ticket_switcher_state \<Rightarrow> 'tk ticket_switcher_state" where
  "roll_place next0 st = st\<lparr>ts_next := Some next0\<rparr>"

definition roll_recover :: "u32 \<Rightarrow> u64 \<Rightarrow> 'tk \<Rightarrow> 'tk \<Rightarrow> 'tk ticket_switcher_state \<Rightarrow> 'tk ticket_switcher_state" where
  "roll_recover lifetime now next0 new_current st =
     (let st = st\<lparr>ts_next := Some next0\<rparr>
      in if now > next_switch_time st then
           st\<lparr>ts_previous := Some (ts_current st), ts_current := new_current,
             next_switch_time := saturating_add64 now (ucast lifetime)\<rparr>
         else st)"

text \<open>
  One thread: the generator is a parameter with a state of its own; the first component is False
  when it failed and no guard is returned.
\<close>

definition maybe_roll ::
    "('g \<Rightarrow> 'tk option \<times> 'g) \<Rightarrow> u32 \<Rightarrow> u64 \<Rightarrow> 'tk ticket_switcher_state \<Rightarrow> 'g \<Rightarrow> bool \<times> 'tk ticket_switcher_state \<times> 'g" where
  "maybe_roll gen lifetime now st g =
     (case roll_check lifetime now st of
        (None, st) \<Rightarrow> (True, st, g)
      | (Some are_recovering, st) \<Rightarrow>
          (case gen g of
             (None, g) \<Rightarrow> (False, st, g)
           | (Some next0, g) \<Rightarrow>
               if \<not> are_recovering then (True, roll_place next0 st, g)
               else (case gen g of
                  (None, g) \<Rightarrow> (False, st, g)
                | (Some new_current, g) \<Rightarrow> (True, roll_recover lifetime now next0 new_current st, g))))"

definition ts_encrypt :: "('tk \<Rightarrow> bytes \<Rightarrow> bytes option) \<Rightarrow> bytes \<Rightarrow> 'tk ticket_switcher_state \<Rightarrow> bytes option" where
  "ts_encrypt enc message st = enc (ts_current st) message"

definition ts_decrypt :: "('tk \<Rightarrow> bytes \<Rightarrow> bytes option) \<Rightarrow> bytes \<Rightarrow> 'tk ticket_switcher_state \<Rightarrow> bytes option" where
  "ts_decrypt dec ciphertext st =
     (case dec (ts_current st) ciphertext of
        Some m \<Rightarrow> Some m
      | None \<Rightarrow> (case ts_previous st of Some previous \<Rightarrow> dec previous ciphertext | None \<Rightarrow> None))"

subsection \<open>How long a ticket is accepted\<close>

text \<open>
  The sections of all threads, in the order in which they take the lock: any number of them, at
  times from the issue of a ticket on until a lifetime later.
\<close>

inductive ts_steps ::
    "u32 \<Rightarrow> u64 \<Rightarrow> 'tk ticket_switcher_state \<Rightarrow> 'tk ticket_switcher_state \<Rightarrow> bool" for lifetime issued where
  start: "ts_steps lifetime issued st st"
| check: "ts_steps lifetime issued st0 st \<Longrightarrow> issued \<le> now \<Longrightarrow> now \<le> saturating_add64 issued (ucast lifetime) \<Longrightarrow>
    ts_steps lifetime issued st0 (snd (roll_check lifetime now st))"
| place: "ts_steps lifetime issued st0 st \<Longrightarrow> ts_steps lifetime issued st0 (roll_place n st)"
| recover: "ts_steps lifetime issued st0 st \<Longrightarrow> issued \<le> now \<Longrightarrow> now \<le> saturating_add64 issued (ucast lifetime) \<Longrightarrow>
    ts_steps lifetime issued st0 (roll_recover lifetime now n c st)"

definition ts_keeps :: "u64 \<Rightarrow> 'tk \<Rightarrow> 'tk ticket_switcher_state \<Rightarrow> bool" where
  "ts_keeps deadline t st \<longleftrightarrow>
     ts_current st = t \<or> ts_previous st = Some t \<and> deadline \<le> next_switch_time st"

lemma saturating_add64_mono: "a \<le> b \<Longrightarrow> saturating_add64 a c \<le> saturating_add64 b c"
proof (cases "b \<le> b + c")
  case True
  assume "a \<le> b"
  moreover have "unat b + unat c < 2 ^ 64" using True by (simp add: no_olen_add_nat)
  ultimately show ?thesis
    by (simp add: saturating_add64_def True word_le_nat_alt unat_word_ariths)
qed (simp add: saturating_add64_def)

lemma ts_steps_keeps:
  assumes "ts_steps lifetime issued st0 st" "ts_current st0 = t"
  shows "ts_keeps (saturating_add64 issued (ucast lifetime)) t st"
  using assms
proof (induction rule: ts_steps.induct)
  case (check st0 st now)
  note m = saturating_add64_mono [OF check.hyps(2), of "ucast lifetime"]
  have k: "ts_current st = t \<or> ts_previous st = Some t \<and> now \<le> next_switch_time st"
    "ts_keeps (saturating_add64 issued (ucast lifetime)) t st"
    using check order.trans [OF check.hyps(3)] by (auto simp: ts_keeps_def)
  show ?case
  proof (cases "now \<le> next_switch_time st")
    case False
    then show ?thesis using k m by (cases "ts_next st") (simp_all add: ts_keeps_def roll_check_def)
  qed (use k in \<open>simp add: roll_check_def\<close>)
next
  case (recover st0 st now n c)
  note m = saturating_add64_mono [OF recover.hyps(2), of "ucast lifetime"]
  have k: "ts_current st = t \<or> ts_previous st = Some t \<and> now \<le> next_switch_time st"
    "ts_keeps (saturating_add64 issued (ucast lifetime)) t st"
    using recover order.trans [OF recover.hyps(3)] by (auto simp: ts_keeps_def)
  show ?case
  proof (cases "now \<le> next_switch_time st")
    case False
    then show ?thesis using k m by (simp add: ts_keeps_def roll_recover_def Let_def)
  qed (use k in \<open>simp add: ts_keeps_def roll_recover_def Let_def not_less [symmetric]\<close>)
qed (simp_all add: ts_keeps_def roll_place_def)

text \<open>The rolling of one thread is made of these sections.\<close>

lemma maybe_roll_steps:
  assumes "maybe_roll gen lifetime now st g = (ok, st', g')" "ts_steps lifetime issued st0 st"
    "issued \<le> now" "now \<le> saturating_add64 issued (ucast lifetime)"
  shows "ts_steps lifetime issued st0 st'"
proof -
  obtain r s where r: "roll_check lifetime now st = (r, s)" by fastforce
  have s: "ts_steps lifetime issued st0 s" using check [OF assms(2-4)] r by simp
  show ?thesis using assms(1) r s place [OF s] recover [OF s assms(3,4)]
    by (auto simp: maybe_roll_def split: option.splits prod.splits if_splits)
qed

lemma ticket_accepted:
  assumes rt: "\<And>k m c. enc k m = Some c \<Longrightarrow> dec k c = Some m"
    and sep: "\<And>k k' m c x. enc k m = Some c \<Longrightarrow> dec k' c = Some x \<Longrightarrow> x = m"
    and e: "ts_encrypt enc m st0 = Some c" and st: "ts_steps lifetime issued st0 st"
  shows "ts_decrypt dec c st = Some m"
proof -
  have e': "enc (ts_current st0) m = Some c" using e by (simp add: ts_encrypt_def)
  have d: "dec (ts_current st0) c = Some m" by (rule rt [OF e'])
  have x: "x = m" if "dec k c = Some x" for k x by (rule sep [OF e' that])
  have "ts_current st = ts_current st0 \<or> ts_previous st = Some (ts_current st0)"
    using ts_steps_keeps [OF st refl] by (auto simp: ts_keeps_def)
  then show ?thesis using d x [of "ts_current st"] by (cases "dec (ts_current st) c") (auto simp: ts_decrypt_def)
qed

lemma aead_ticketer_roundtrip:
  "aead_ok ae \<Longrightarrow> length nonce = NONCE_LEN \<Longrightarrow> aead_ticketer_encrypt ae key nonce m = Some c \<Longrightarrow>
     aead_ticketer_decrypt ae key c = Some m"
  unfolding aead_ok_def by (auto simp: aead_ticketer_encrypt_def aead_ticketer_decrypt_def)

text \<open>
  There is no bound in the other direction: the first call after the deadline only demotes the
  current ticketer, however late it is.
\<close>

lemma late_ticket_accepted:
  assumes "ts_next st = Some n" "next_switch_time st < now" "dec n c = None" "dec (ts_current st) c = Some m" "gen g = (Some n', g')"
  shows "\<exists>st' g'. maybe_roll gen lifetime now st g = (True, st', g') \<and> ts_decrypt dec c st' = Some m"
  using assms by (simp add: maybe_roll_def roll_check_def roll_place_def ts_decrypt_def not_le [symmetric])

end
