(* ===== verification/Rustls_Conn.thy ===== *)
theory Rustls_Conn
  imports Rustls_Session
begin

text \<open>
  \<open>orcax/rustls-fork/rustls/src/conn.rs\<close> and the states \<open>ExpectTraffic\<close> of \<open>client/tls13.rs\<close>,
  \<open>server/tls13.rs\<close>, \<open>client/tls12.rs\<close> and \<open>server/tls12.rs\<close>: a connection, the loop over received
  records, and what a connection does with them once the handshake is over.

  The handler of the current state is an argument of the loop. The contract \<open>total_handler\<close> says
  that it returns; the loop returns under it. The contract \<open>data_handler\<close> says that application data
  is handed over; the bytes of a sender then arrive, in order, for every segmentation.
\<close>

section \<open>The connection\<close>

text \<open>\<open>cc_state\<close> is the field \<open>state\<close>, a \<open>Result\<close>.\<close>

record ('st, 'd) connection_core =
  cc_state :: "(tls_error, 'st) outcome"
  cc_data :: 'd
  cc_common :: common_state
  cc_deframer :: message_deframer

definition core_new :: "'st \<Rightarrow> 'd \<Rightarrow> common_state \<Rightarrow> ('st, 'd) connection_core" where
  "core_new state data common =
     \<lparr>cc_state = Ok state, cc_data = data, cc_common = common, cc_deframer = deframer_default\<rparr>"

type_synonym ('a, 'st, 'd) conn_step = "((tls_error, 'a) outcome \<times> ('st, 'd) connection_core) option"

text \<open>An operation on the common state, and an error it reports.\<close>

definition in_common :: "'a step \<Rightarrow> ('st, 'd) connection_core \<Rightarrow> ('a, 'st, 'd) conn_step" where
  "in_common x c = map_option (\<lambda>(res, s). (res, c\<lparr>cc_common := s\<rparr>)) x"

definition deframed_ok :: "aead \<Rightarrow> deframed \<Rightarrow> common_state \<Rightarrow> plain_message option step" where
  "deframed_ok ae d s =
     Option.bind (if df_want_close_before_decrypt d then send_close_notify ae s else Some (Ok s)) (\<lambda>o1.
     Some (case o1 of
         Ok s \<Rightarrow>
           (let s = (if trial_decryption_finished d then s\<lparr>cs_rl := finish_trial_decryption (cs_rl s)\<rparr> else s)
            in (Ok (Some (df_message d)), s\<lparr>aligned_handshake := aligned d\<rparr>))
       | Err e \<Rightarrow> (Err e, s)
       | Panic \<Rightarrow> (Panic, s)))"

definition deframe_err :: "aead \<Rightarrow> tls_error \<Rightarrow> common_state \<Rightarrow> plain_message option step" where
  "deframe_err ae err s =
     (case err of
        InvalidMessage _ \<Rightarrow>
          if cs_protocol s = Quic then Some (Err err, s\<lparr>quic_alert := Some AD_DecodeError\<rparr>)
          else fail_with ae AD_DecodeError err s
      | PeerSentOversizedRecord \<Rightarrow> fail_with ae AD_RecordOverflow err s
      | DecryptError \<Rightarrow> fail_with ae AD_BadRecordMac err s
      | _ \<Rightarrow> Some (Err err, s))"

definition deframe :: "aead \<Rightarrow> ('st, 'd) connection_core \<Rightarrow> (plain_message option, 'st, 'd) conn_step" where
  "deframe ae c =
     (case deframer_pop ae (negotiated_version (cc_common c)) (cc_deframer c) (cs_rl (cc_common c)) of
        (res, df, rl) \<Rightarrow>
          (let s = (cc_common c)\<lparr>cs_rl := rl\<rparr>
           in in_common (case res of
                  Ok (Some d) \<Rightarrow> deframed_ok ae d s
                | Ok None \<Rightarrow> Some (Ok None, s)
                | Err err \<Rightarrow> deframe_err ae err s
                | Panic \<Rightarrow> Some (Panic, s)) (c\<lparr>cc_deframer := df\<rparr>)))"

definition TLS13_MAX_DROPPED_CCS :: u8 where "TLS13_MAX_DROPPED_CCS = 2"

definition is_valid_ccs :: "plain_message \<Rightarrow> bool" where
  "is_valid_ccs msg \<longleftrightarrow> pm_typ msg = CT_ChangeCipherSpec \<and> pm_payload msg = [0x01]"

definition process_msg ::
    "aead \<Rightarrow> (bytes \<Rightarrow> bool) \<Rightarrow> ('st, 'd) handler \<Rightarrow> plain_message \<Rightarrow> 'st \<Rightarrow> ('st, 'd) connection_core \<Rightarrow>
     ('st, 'st, 'd) conn_step" where
  "process_msg ae dns handle msg state c =
     (let s = cc_common c in
      if pm_typ msg = CT_ChangeCipherSpec \<and> \<not> may_receive_application_data s \<and> is_tls13 s then
        if \<not> is_valid_ccs msg \<or> received_middlebox_ccs s > TLS13_MAX_DROPPED_CCS
        then in_common (fail_with ae AD_UnexpectedMessage (PeerMisbehaved IllegalMiddleboxChangeCipherSpec) s) c
        else Some (Ok state, c\<lparr>cc_common := s\<lparr>received_middlebox_ccs := received_middlebox_ccs s + 1\<rparr>\<rparr>)
      else case message_try_from dns msg of
        Err err \<Rightarrow> in_common (fail_with ae AD_DecodeError err s) c
      | Panic \<Rightarrow> Some (Panic, c)
      | Ok msg \<Rightarrow>
          (case m_payload msg of
             MP_Alert alert \<Rightarrow>
               map_option (\<lambda>(res, c). (outcome_bind res (\<lambda>_. Ok state), c)) (in_common (process_alert ae alert s) c)
           | _ \<Rightarrow>
               map_option (\<lambda>(res, s, d). (res, c\<lparr>cc_common := s, cc_data := d\<rparr>))
                 (process_main_protocol ae handle msg state s (cc_data c))))"

text \<open>
  The loop of \<open>process_new_packets\<close>. A failing \<open>deframe\<close> leaves the function by \<open>?\<close>, with the
  placeholder in the field \<open>state\<close>.
\<close>

partial_function (option) packets ::
    "aead \<Rightarrow> (bytes \<Rightarrow> bool) \<Rightarrow> ('st, 'd) handler \<Rightarrow> 'st \<Rightarrow> ('st, 'd) connection_core \<Rightarrow> (io_state, 'st, 'd) conn_step" where
  "packets ae dns handle state c =
     Option.bind (deframe ae c) (\<lambda>(res, c).
       case res of
         Ok (Some msg) \<Rightarrow>
           Option.bind (process_msg ae dns handle msg state c) (\<lambda>(res, c).
             case res of
               Ok new \<Rightarrow> packets ae dns handle new c
             | Err e \<Rightarrow> Some (Err e, c\<lparr>cc_state := Err e\<rparr>)
             | Panic \<Rightarrow> Some (Panic, c))
       | Ok None \<Rightarrow> Some (Ok (current_io_state (cc_common c)), c\<lparr>cc_state := Ok state\<rparr>)
       | Err e \<Rightarrow> Some (Err e, c)
       | Panic \<Rightarrow> Some (Panic, c))"

definition process_new_packets ::
    "aead \<Rightarrow> (bytes \<Rightarrow> bool) \<Rightarrow> ('st, 'd) handler \<Rightarrow> ('st, 'd) connection_core \<Rightarrow> (io_state, 'st, 'd) conn_step" where
  "process_new_packets ae dns handle c =
     (case cc_state c of
        Ok state \<Rightarrow> packets ae dns handle state (c\<lparr>cc_state := Err HandshakeNotComplete\<rparr>)
      | Err e \<Rightarrow> Some (Err e, c)
      | Panic \<Rightarrow> Some (Panic, c))"

definition first_handshake_message ::
    "aead \<Rightarrow> (bytes \<Rightarrow> bool) \<Rightarrow> ('st, 'd) connection_core \<Rightarrow> (message option, 'st, 'd) conn_step" where
  "first_handshake_message ae dns c =
     Option.bind (deframe ae c) (\<lambda>(res, c).
       case res of
         Ok (Some plain) \<Rightarrow>
           (case message_try_from dns plain of
              Ok msg \<Rightarrow> Some (Ok (Some msg), c)
            | Err err \<Rightarrow> in_common (fail_with ae AD_DecodeError err (cc_common c)) c
            | Panic \<Rightarrow> Some (Panic, c))
       | Ok None \<Rightarrow> Some (Ok None, c)
       | Err e \<Rightarrow> Some (Err e, c)
       | Panic \<Rightarrow> Some (Panic, c))"

definition conn_export_keying_material ::
    "('st \<Rightarrow> nat \<Rightarrow> bytes \<Rightarrow> bytes option \<Rightarrow> (tls_error, bytes) outcome) \<Rightarrow> nat \<Rightarrow> bytes \<Rightarrow> bytes option \<Rightarrow>
     ('st, 'd) connection_core \<Rightarrow> (tls_error, bytes) outcome" where
  "conn_export_keying_material export out_len label ctx c =
     (if out_len = 0 then Err (General ''export_keying_material with zero-length output'')
      else outcome_bind (cc_state c) (\<lambda>st. export st out_len label ctx))"

section \<open>Reading and writing\<close>

datatype conn_io_error = UnexpectedEof | WouldBlock | PlaintextBufferFull | MessageBufferFull

definition conn_read_tls ::
    "segs \<Rightarrow> ('st, 'd) connection_core \<Rightarrow> (conn_io_error, nat \<times> ('st, 'd) connection_core \<times> segs) outcome" where
  "conn_read_tls rd c =
     (if cv_is_full (received_plaintext (cc_common c)) then Err PlaintextBufferFull
      else case deframer_read rd (cc_deframer c) of
        None \<Rightarrow> Err MessageBufferFull
      | Some (n, df, rd') \<Rightarrow>
          (let c = c\<lparr>cc_deframer := df\<rparr>
           in Ok (n, if n = 0 then c\<lparr>cc_common := (cc_common c)\<lparr>has_seen_eof := True\<rparr>\<rparr> else c, rd')))"

definition conn_write_tls ::
    "(bytes list \<Rightarrow> ('e, nat) outcome) \<Rightarrow> ('st, 'd) connection_core \<Rightarrow> ('e, nat \<times> ('st, 'd) connection_core) outcome" where
  "conn_write_tls wr c =
     outcome_bind (cv_write_to wr (sendable_tls (cc_common c))) (\<lambda>(n, b).
     Ok (n, c\<lparr>cc_common := (cc_common c)\<lparr>sendable_tls := b\<rparr>\<rparr>))"

text \<open>\<open>reader().read(buf)\<close> for a buffer of \<open>n\<close> bytes.\<close>

definition conn_read ::
    "nat \<Rightarrow> ('st, 'd) connection_core \<Rightarrow> (conn_io_error, bytes) outcome \<times> ('st, 'd) connection_core" where
  "conn_read n c =
     (let s = cc_common c;
          peer_cleanly_closed = (has_received_close_notify s \<and> \<not> has_pending (cc_deframer c))
      in case cv_read n (received_plaintext s) of
           (out, b) \<Rightarrow>
             (if out = [] \<and> n \<noteq> 0 then
                if peer_cleanly_closed then Ok []
                else if has_seen_eof s then Err UnexpectedEof
                else Err WouldBlock
              else Ok out,
              c\<lparr>cc_common := s\<lparr>received_plaintext := b\<rparr>\<rparr>))"

definition conn_write ::
    "aead \<Rightarrow> bytes \<Rightarrow> ('st, 'd) connection_core \<Rightarrow> (tls_error, nat \<times> ('st, 'd) connection_core) outcome option" where
  "conn_write ae buf c =
     map_option (\<lambda>o1. outcome_bind o1 (\<lambda>(n, s). Ok (n, c\<lparr>cc_common := s\<rparr>))) (send_some_plaintext ae buf (cc_common c))"

fun conn_write_vectored ::
    "aead \<Rightarrow> bytes list \<Rightarrow> ('st, 'd) connection_core \<Rightarrow> (tls_error, nat \<times> ('st, 'd) connection_core) outcome option" where
  "conn_write_vectored ae [] c = Some (Ok (0, c))"
| "conn_write_vectored ae (buf # bufs) c =
     Option.bind (conn_write ae buf c) (\<lambda>o1.
       case o1 of
         Ok (n, c) \<Rightarrow>
           map_option (\<lambda>o2. outcome_bind o2 (\<lambda>(sz, c). Ok (n + sz, c))) (conn_write_vectored ae bufs c)
       | Err e \<Rightarrow> Some (Err e)
       | Panic \<Rightarrow> Some Panic)"

definition dangerous_extract_secrets ::
    "('st \<Rightarrow> (tls_error, 'x \<times> 'x) outcome) \<Rightarrow> bool \<Rightarrow> ('st, 'd) connection_core \<Rightarrow>
     (tls_error, (u64 \<times> 'x) \<times> (u64 \<times> 'x)) outcome" where
  "dangerous_extract_secrets extract enable_secret_extraction c =
     (if \<not> enable_secret_extraction then Err (General ''Secret extraction is disabled'')
      else outcome_bind (cc_state c) (\<lambda>st. outcome_bind (extract st) (\<lambda>(tx, rx).
        Ok ((write_seq (cs_rl (cc_common c)), tx), (read_seq (cs_rl (cc_common c)), rx)))))"

section \<open>Traffic states\<close>

text \<open>What \<open>handle_key_update\<close> of a client and of a server do, which is the same.\<close>

definition handle_key_update ::
    "aead \<Rightarrow> key_update_request \<Rightarrow> key_schedule_traffic \<Rightarrow> common_state \<Rightarrow> key_schedule_traffic step" where
  "handle_key_update ae req tr s =
     (if cs_protocol s = Quic
      then fail_with ae AD_UnexpectedMessage (PeerMisbehaved KeyUpdateReceivedInQuicConnection) s
      else Option.bind (check_aligned_handshake ae s) (\<lambda>(o1, s).
        case o1 of
          Err e \<Rightarrow> Some (Err e, s)
        | Panic \<Rightarrow> Some (Panic, s)
        | Ok _ \<Rightarrow>
            Option.bind (should_update_key ae req s) (\<lambda>(o2, s).
              case o2 of
                Err e \<Rightarrow> Some (Err e, s)
              | Panic \<Rightarrow> Some (Panic, s)
              | Ok update \<Rightarrow>
                  Some (case outcome_bind (if update then update_encrypter_and_notify ae tr s else Ok (tr, s))
                          (\<lambda>(tr, s). update_decrypter tr s) of
                      Ok (tr, s) \<Rightarrow> (Ok tr, s)
                    | Err e \<Rightarrow> (Err e, s)
                    | Panic \<Rightarrow> (Panic, s)))))"

text \<open>\<open>ExpectTraffic\<close> of a server, TLS 1.3: its state is the key schedule.\<close>

definition server13_handle :: "aead \<Rightarrow> (key_schedule_traffic, 'd) handler" where
  "server13_handle ae tr s d m =
     (case m_payload m of
        MP_ApplicationData payload \<Rightarrow> Some (Ok tr, take_received_plaintext payload s, d)
      | MP_Handshake parsed enc \<Rightarrow>
          (case hmp_payload parsed of
             HP_KeyUpdate req \<Rightarrow> map_option (\<lambda>(o1, s). (o1, s, d)) (handle_key_update ae req tr s)
           | _ \<Rightarrow> Some (Err (inappropriate_handshake_message (m_payload m) [CT_ApplicationData, CT_Handshake] [HT_KeyUpdate]), s, d))
      | _ \<Rightarrow> Some (Err (inappropriate_handshake_message (m_payload m) [CT_ApplicationData, CT_Handshake] [HT_KeyUpdate]), s, d))"

text \<open>
  \<open>ExpectTraffic\<close> of a client. The transcript is complete, so that its hash is fixed; the session
  store is the list of insertions. The time of a ticket is an argument.
\<close>

record expect_traffic =
  et_suite :: tls13_suite
  et_server_name :: bytes
  et_hash :: bytes
  et_ks :: key_schedule_traffic
  et_store :: "(bytes \<times> tls13_client_session_value) list"

definition handle_new_ticket_tls13 ::
    "aead \<Rightarrow> u64 \<Rightarrow> new_session_ticket_tls13 \<Rightarrow> expect_traffic \<Rightarrow> common_state \<Rightarrow> expect_traffic step" where
  "handle_new_ticket_tls13 ae now nst st s =
     (if t13_has_duplicate_extension nst
      then fail_with ae AD_IllegalParameter (PeerMisbehaved DuplicateNewSessionTicketExtensions) s
      else Some (case resumption_master_secret_and_derive_ticket_psk (et_hash st) (t13_nonce nst) (et_ks st) of
          Err e \<Rightarrow> (Err e, s)
        | Panic \<Rightarrow> (Panic, s)
        | Ok secret \<Rightarrow>
            (let early = get_max_early_data_size nst;
                 value = tls13_client_session_value_new (et_suite st) (t13_ticket nst) secret
                   (case peer_certificates s of Some certs \<Rightarrow> certs | None \<Rightarrow> []) now (t13_lifetime nst) (t13_age_add nst)
                   (case early of Some sz \<Rightarrow> sz | None \<Rightarrow> 0)
             in if cs_protocol s = Quic \<and> (\<exists>sz\<in>set_option early. sz \<noteq> 0 \<and> sz \<noteq> 0xffffffff)
                then (Err (PeerMisbehaved InvalidMaxEarlyDataSize), s)
                else let value = (case quic_params s of
                         Some params \<Rightarrow> if cs_protocol s = Quic then set_quic_params params value else value
                       | None \<Rightarrow> value)
                     in (Ok (st\<lparr>et_store := et_store st @ [(et_server_name st, value)]\<rparr>), s))))"

definition client13_handle :: "aead \<Rightarrow> u64 \<Rightarrow> (expect_traffic, 'd) handler" where
  "client13_handle ae now st s d m =
     (let inappropriate = inappropriate_handshake_message (m_payload m) [CT_ApplicationData, CT_Handshake]
            [HT_NewSessionTicket, HT_KeyUpdate]
      in case m_payload m of
        MP_ApplicationData payload \<Rightarrow> Some (Ok st, take_received_plaintext payload s, d)
      | MP_Handshake parsed enc \<Rightarrow>
          (case hmp_payload parsed of
             HP_NewSessionTicketTls13 nst \<Rightarrow> map_option (\<lambda>(o1, s). (o1, s, d)) (handle_new_ticket_tls13 ae now nst st s)
           | HP_KeyUpdate req \<Rightarrow>
               map_option (\<lambda>(o1, s). (outcome_bind o1 (\<lambda>tr. Ok (st\<lparr>et_ks := tr\<rparr>)), s, d)) (handle_key_update ae req (et_ks st) s)
           | _ \<Rightarrow> Some (Err inappropriate, s, d))
      | _ \<Rightarrow> Some (Err inappropriate, s, d))"

text \<open>\<open>ExpectTraffic\<close> of TLS 1.2, the same for both sides; the secrets do not change any more.\<close>

definition tls12_handle :: "('st, 'd) handler" where
  "tls12_handle st s d m =
     (case m_payload m of
        MP_ApplicationData payload \<Rightarrow> Some (Ok st, take_received_plaintext payload s, d)
      | _ \<Rightarrow> Some (Err (inappropriate_message (m_payload m) [CT_ApplicationData]), s, d))"

section \<open>Alerts go out\<close>

text \<open>
  \<open>ready n s\<close>: sending works, and \<open>n\<close> more records stay below the soft limit of the sequence
  numbers.
\<close>

definition keyed :: "record_layer \<Rightarrow> bool" where
  "keyed rl \<longleftrightarrow>
     (case rl_encrypter rl of
        InvalidMessageEncrypter \<Rightarrow> False
      | GcmMessageEncrypter al k iv \<Rightarrow> length iv = 12
      | _ \<Rightarrow> True)"

definition ready :: "nat \<Rightarrow> common_state \<Rightarrow> bool" where
  "ready n s \<longleftrightarrow> fragmenter_wf (cs_fragmenter s) \<and> keyed (cs_rl s) \<and> unat (write_seq (cs_rl s)) + n \<le> unat SEQ_SOFT_LIMIT"

lemma keyed_matching: "keyed rl \<Longrightarrow> \<exists>dec. matching (rl_encrypter rl) dec"
proof (cases "rl_encrypter rl")
  case (GcmMessageEncrypter al k iv)
  assume "keyed rl"
  then show ?thesis using GcmMessageEncrypter
    by (intro exI [of _ "GcmMessageDecrypter al k (take 4 iv)"]) (simp add: keyed_def matching_def)
next
  case (Tls13MessageEncrypter al k iv)
  then show ?thesis by (intro exI [of _ "Tls13MessageDecrypter al k iv"]) (simp add: matching_def)
next
  case (ChaCha20Poly1305MessageEncrypter k iv)
  then show ?thesis by (intro exI [of _ "ChaCha20Poly1305MessageDecrypter k iv"]) (simp add: matching_def)
qed (simp add: keyed_def)

lemma ready_room: "ready n s \<Longrightarrow> room n (cs_rl s)"
  by (simp add: ready_def room_def)

lemma ready_encrypt:
  assumes "aead_ok ae" "pm_ok m" "ready (Suc n) s"
  shows "\<exists>c. encrypt_outgoing ae m (cs_rl s) = (Ok (c, (cs_rl s)\<lparr>write_seq := write_seq (cs_rl s) + 1\<rparr>) :: (tls_error, _) outcome)
    \<and> om_wf c"
    "ready n (s\<lparr>cs_rl := (cs_rl s)\<lparr>write_seq := write_seq (cs_rl s) + 1\<rparr>\<rparr>)"
proof -
  obtain dec where "matching (rl_encrypter (cs_rl s)) dec" using keyed_matching assms(3) by (auto simp: ready_def)
  then obtain c where "encrypt ae (rl_encrypter (cs_rl s)) m (write_seq (cs_rl s)) = Ok c" "om_wf c"
    using matching_decrypt [OF assms(1,2)] by blast
  then show "\<exists>c. encrypt_outgoing ae m (cs_rl s) = (Ok (c, (cs_rl s)\<lparr>write_seq := write_seq (cs_rl s) + 1\<rparr>) :: (tls_error, _) outcome)
    \<and> om_wf c"
    using room_Suc(2) [OF ready_room [OF assms(3)]] by (simp add: encrypt_outgoing_def)
  have "unat (write_seq (cs_rl s) + 1) = unat (write_seq (cs_rl s)) + 1"
    using assms(3) by (simp add: ready_def limits_unat unat_word_ariths)
  then show "ready n (s\<lparr>cs_rl := (cs_rl s)\<lparr>write_seq := write_seq (cs_rl s) + 1\<rparr>\<rparr>)"
    using assms(3) by (simp add: ready_def keyed_def)
qed

lemma alert_fragment:
  assumes "fragmenter_wf fr"
  shows "fragment_message fr (plain_of (build_alert l desc)) = [plain_of (build_alert l desc)]"
    "pm_ok (plain_of (build_alert l desc))"
proof -
  have "pm_payload (plain_of (build_alert l desc)) = alert_encode \<lparr>level = l, description = desc\<rparr> []"
    by (simp add: plain_of_def build_alert_def)
  moreover have "length (alert_encode a []) = 2" "alert_encode a [] \<noteq> []" for a
    by (simp_all add: alert_encode_def enum8_encode_def u8_encode_def)
  ultimately show "fragment_message fr (plain_of (build_alert l desc)) = [plain_of (build_alert l desc)]"
    "pm_ok (plain_of (build_alert l desc))"
    using assms known_versions
    by (simp_all add: fragment_message_def fragment_slice_def fragmenter_wf_def chunks_single pm_ok_def plain_of_def
        build_alert_def unknown_content_def MAX_FRAGMENT_LEN_def)
qed

lemma queue_plain_eq: "\<exists>b. queue_plain m s = s\<lparr>sendable_tls := b\<rparr>"
proof -
  have "\<exists>b. fold (\<lambda>f. queue_tls_message (into_unencrypted_opaque f)) fs s = s\<lparr>sendable_tls := b\<rparr>" for fs
  proof (induction fs arbitrary: s)
    case Nil
    show ?case by (intro exI [of _ "sendable_tls s"]) simp
  next
    case (Cons f fs)
    show ?case using Cons [of "queue_tls_message (into_unencrypted_opaque f) s"] by (auto simp: queue_tls_message_def)
  qed
  then show ?thesis by (simp add: queue_plain_def)
qed

lemma send_alert_returns:
  assumes "aead_ok ae" "ready (Suc n) s"
  shows "\<exists>s'. send_msg ae (build_alert l desc) (is_encrypting (cs_rl s)) s = Some (Ok s') \<and> ready n s'"
proof -
  have fr: "fragmenter_wf (cs_fragmenter s)" using assms(2) by (simp add: ready_def)
  have less: "ready n s" using assms(2) by (simp add: ready_def)
  consider "cs_protocol s = Quic" | "cs_protocol s = Tcp" "\<not> is_encrypting (cs_rl s)" | "cs_protocol s = Tcp" "is_encrypting (cs_rl s)"
    by (cases "cs_protocol s") auto
  then show ?thesis
  proof cases
    case 1
    then show ?thesis using less by (simp add: send_msg_def build_alert_def ready_def)
  next
    case 2
    obtain b where "queue_plain (plain_of (build_alert l desc)) s = s\<lparr>sendable_tls := b\<rparr>" using queue_plain_eq by blast
    then show ?thesis using 2 less by (simp add: send_msg_def ready_def)
  next
    case 3
    note f = alert_fragment [OF fr, of l desc] and r = room_Suc [OF ready_room [OF assms(2)]]
    define rl where "rl = (cs_rl s)\<lparr>write_seq := write_seq (cs_rl s) + 1\<rparr>"
    obtain c where "encrypt_outgoing ae (plain_of (build_alert l desc)) (cs_rl s) = (Ok (c, rl) :: (tls_error, _) outcome)"
      using ready_encrypt(1) [OF assms(1) f(2) assms(2)] by (auto simp: rl_def)
    then have "seal_all ae [plain_of (build_alert l desc)] (cs_rl s) = Some ([c], rl)" by simp
    moreover have "room (length [plain_of (build_alert l desc)]) (cs_rl s)" using assms(2) by (simp add: ready_def room_def)
    ultimately obtain b where "send_fragments ae [plain_of (build_alert l desc)] s = Some (Ok (s\<lparr>cs_rl := rl, sendable_tls := b\<rparr>))"
      using send_fragments_sealed by blast
    then show ?thesis using 3 f(1) ready_encrypt(2) [OF assms(1) f(2) assms(2)]
      by (simp add: send_msg_def send_msg_encrypt_def ready_def rl_def [symmetric])
  qed
qed

lemma fail_with_returns:
  assumes "aead_ok ae" "ready (Suc n) s"
  shows "\<exists>s'. fail_with ae desc err s = Some (Err err, s') \<and> ready n s'"
proof -
  obtain s' where "send_msg ae (build_alert AL_Fatal desc) (is_encrypting (cs_rl s)) s = Some (Ok s')" "ready n s'"
    using send_alert_returns [OF assms] by blast
  then show ?thesis by (auto simp: fail_with_def send_fatal_alert_def ready_def)
qed

section \<open>The loop returns\<close>

subsection \<open>Deframing makes progress\<close>

definition load :: "joined \<Rightarrow> bytes \<Rightarrow> nat" where
  "load hs raw = length raw + (case hs of None \<Rightarrow> 0 | Some (v, p) \<Rightarrow> length p)"

definition write_side :: "record_layer \<Rightarrow> message_encrypter \<times> u64 \<times> direction_state" where
  "write_side rl = (rl_encrypter rl, write_seq rl, encrypt_state rl)"

lemma decrypt_incoming_write_side: "decrypt_incoming ae c rl = (res, rl') \<Longrightarrow> write_side rl' = write_side rl"
  by (auto simp: decrypt_incoming_def doing_trial_decryption_def write_side_def Let_def
      split: if_splits outcome.splits tls_error.splits option.splits prod.splits bool.splits)

lemma complete_len_pos: "complete_len p = Some len \<Longrightarrow> 4 \<le> len \<and> len \<le> length p"
  by (auto simp: complete_len_def payload_size_def HANDSHAKE_HEADER_SIZE_def
      split: outcome.splits option.splits if_splits u24.splits)

text \<open>What one round of the parser leaves behind, unless it reports an error or needs more bytes.\<close>

definition progress :: "joined \<Rightarrow> bytes \<Rightarrow> spec_flow \<Rightarrow> bool" where
  "progress hs raw fl =
     (case fl of
        Answer (Ok (Some d)) hs' raw' \<Rightarrow> load hs' raw' < load hs raw \<and> \<not> df_want_close_before_decrypt d
      | Answer (Ok None) _ _ \<Rightarrow> True
      | Answer (Err _) _ _ \<Rightarrow> True
      | Answer Panic _ _ \<Rightarrow> False
      | Again hs' raw' \<Rightarrow> load hs' raw' < load hs raw)"

lemma spec_plain_progress:
  assumes "length (pm_payload m) < n" "length raw' + n \<le> length raw"
  shows "progress hs raw (spec_plain hs raw' m)"
  using assms payload_size_no_panic
  by (auto simp: progress_def spec_plain_def load_def spec_join_def single_def split: option.splits outcome.splits)

lemma spec_record_progress:
  assumes "aead_ok ae" "length raw' + length (om_payload m) < length raw"
  shows "progress hs raw (fst (spec_record ae nv hs raw' rl m))" "write_side (snd (spec_record ae nv hs raw' rl m)) = write_side rl"
proof -
  obtain res rl' where d: "decrypt_incoming ae m rl = (res, rl')" by fastforce
  note ok = decrypt_incoming_ok [OF assms(1) d] and ws = decrypt_incoming_write_side [OF d]
  show "progress hs raw (fst (spec_record ae nv hs raw' rl m))"
  proof (cases "hs = None \<and> allowed_plaintext nv rl m")
    case True
    then show ?thesis using assms(2) by (simp add: spec_record_def progress_def load_def single_def)
  next
    case False
    show ?thesis
    proof (cases res)
      case (Ok x)
      show ?thesis
      proof (cases x)
        case None
        then show ?thesis using False Ok d assms(2) by (auto simp: spec_record_def progress_def load_def)
      next
        case (Some y)
        have "length (pm_payload (plaintext y)) < length (om_payload m) + 1" using ok(2) [of y] Ok Some by simp
        then have "progress hs raw (spec_plain hs raw' (plaintext y))"
          by (rule spec_plain_progress) (use assms(2) in simp)
        then show ?thesis using False Ok Some d by (auto simp: spec_record_def)
      qed
    qed (use False d ok in \<open>auto simp: spec_record_def progress_def\<close>)
  qed
  show "write_side (snd (spec_record ae nv hs raw' rl m)) = write_side rl"
    using ws d by (auto simp: spec_record_def split: outcome.splits option.splits)
qed

lemma spec_parse_progress:
  assumes "aead_ok ae"
  shows "progress hs raw (fst (spec_parse ae nv hs raw rl))" "write_side (snd (spec_parse ae nv hs raw rl)) = write_side rl"
proof -
  have "progress hs raw (fst (spec_parse ae nv hs raw rl)) \<and> write_side (snd (spec_parse ae nv hs raw rl)) = write_side rl"
  proof (cases "om_read (reader_init raw)")
    case (Ok x)
    obtain m rd where x: "x = (m, rd)" by fastforce
    with Ok obtain t where t: "raw = om_encode m @ t" "rd = \<lparr>rbuf = raw, cursor = length (om_encode m)\<rparr>"
      by (auto simp: om_read_init)
    then have "length (drop (r_used rd) raw) + length (om_payload m) < length raw"
      by (simp add: r_used_def om_encode_eq)
    then show ?thesis using spec_record_progress [OF assms, of "drop (r_used rd) raw" m raw] Ok x
      by (simp add: spec_parse_def)
  next
    case (Err e)
    then show ?thesis by (cases "record_error e") (simp_all add: spec_parse_def progress_def)
  next
    case Panic
    then show ?thesis using gives_no_panic [OF om_read_gives, of "reader_init raw"] by simp
  qed
  then show "progress hs raw (fst (spec_parse ae nv hs raw rl))" "write_side (snd (spec_parse ae nv hs raw rl)) = write_side rl"
    by blast+
qed

lemma spec_iter_progress:
  assumes "aead_ok ae"
  shows "progress hs raw (fst (spec_iter ae nv hs raw rl))" "write_side (snd (spec_iter ae nv hs raw rl)) = write_side rl"
proof -
  note p = spec_parse_progress [OF assms]
  have y: "progress (Some (v, q)) raw (Answer (fst (spec_yield v q len)) (snd (spec_yield v q len)) raw)"
    if "complete_len q = Some len" for v q len
    using complete_len_pos [OF that] payload_size_no_panic
    by (auto simp: spec_yield_def progress_def load_def handshake_part_def split: outcome.splits)
  show "progress hs raw (fst (spec_iter ae nv hs raw rl))" "write_side (snd (spec_iter ae nv hs raw rl)) = write_side rl"
    using p y by (auto simp: spec_iter_def split_def split: option.splits)
qed

lemma spec_pop_progress:
  "aead_ok ae \<Longrightarrow> spec_pop ae nv hs raw rl = (res, hs', raw', rl') \<Longrightarrow>
    progress hs raw (Answer res hs' raw') \<and> write_side rl' = write_side rl"
proof (induction ae nv hs raw rl rule: spec_pop.induct)
  case (1 ae nv hs raw rl)
  obtain fl rl1 where i: "spec_iter ae nv hs raw rl = (fl, rl1)" by fastforce
  have p: "progress hs raw fl" "write_side rl1 = write_side rl"
    using spec_iter_progress [OF "1.prems"(1), where nv = nv and hs = hs and raw = raw and rl = rl] i by simp_all
  show ?case
  proof (cases fl)
    case (Answer r h w)
    then show ?thesis using "1.prems"(2) i p by (simp add: spec_pop_iter spec_result_def)
  next
    case (Again h w)
    then have "spec_pop ae nv h w rl1 = (res, hs', raw', rl')"
      using "1.prems"(2) i by (simp add: spec_pop_iter [of ae nv hs raw] spec_result_def)
    from "1.IH" [OF i [symmetric] Again "1.prems"(1) this] p Again show ?thesis
      by (auto simp: progress_def split: outcome.splits option.splits)
  qed
qed

definition df_load :: "message_deframer \<Rightarrow> nat" where
  "df_load df = load (joined_payload df) (pending_bytes df)"

lemma df_load_bound: "df_ok df \<Longrightarrow> df_load df \<le> 65535"
  by (cases "joining_hs df")
    (auto simp: df_load_def load_def joined_payload_def pending_bytes_def pop_start_def slice_def df_ok_def df_ranges_def)

lemma ready_write_side:
  "ready n s \<Longrightarrow> write_side rl = write_side (cs_rl s) \<Longrightarrow> ready n (s\<lparr>cs_rl := rl\<rparr>)"
  by (simp add: ready_def write_side_def keyed_def)

lemma ready_less: "ready n s \<Longrightarrow> m \<le> n \<Longrightarrow> ready m s"
  by (simp add: ready_def)

lemma deframe_err_returns:
  assumes "aead_ok ae" "ready (Suc n) s"
  shows "\<exists>s'. deframe_err ae err s = Some (Err err, s')"
proof -
  have f: "\<exists>s'. fail_with ae desc e s = Some (Err e, s')" for desc e using fail_with_returns [OF assms] by blast
  show ?thesis by (cases err) (simp_all add: deframe_err_def f)
qed

lemma deframe_returns:
  assumes "aead_ok ae" "df_ok (cc_deframer c)" "ready (Suc n) (cc_common c)"
  shows "\<exists>res c'. deframe ae c = Some (res, c') \<and>
    (case res of
       Ok (Some m) \<Rightarrow> ready (Suc n) (cc_common c') \<and> df_ok (cc_deframer c') \<and> df_load (cc_deframer c') < df_load (cc_deframer c)
     | Ok None \<Rightarrow> True
     | Err e \<Rightarrow> True
     | Panic \<Rightarrow> False)"
proof -
  obtain res df rl where p: "deframer_pop ae (negotiated_version (cc_common c)) (cc_deframer c) (cs_rl (cc_common c)) = (res, df, rl)"
    by (metis surj_pair)
  obtain sres hs raw srl where sp: "spec_from ae (negotiated_version (cc_common c)) (cc_deframer c) (cs_rl (cc_common c)) = (sres, hs, raw, srl)"
    by (metis surj_pair)
  have a: "res = sres" "rl = srl" "(\<exists>e. res = Err e) \<or> popped hs raw df"
    using deframer_pop_refines [OF assms(1,2), of "negotiated_version (cc_common c)" "cs_rl (cc_common c)"] p sp
    by (auto simp: agrees_def)
  note pr = spec_pop_progress [OF assms(1) sp]
  define s where "s = (cc_common c)\<lparr>cs_rl := rl\<rparr>"
  have r: "ready (Suc n) s" using ready_write_side [OF assms(3)] pr a(2) by (simp add: s_def)
  have d: "deframe ae c = in_common (case res of
        Ok (Some d) \<Rightarrow> deframed_ok ae d s | Ok None \<Rightarrow> Some (Ok None, s)
      | Err err \<Rightarrow> deframe_err ae err s | Panic \<Rightarrow> Some (Panic, s)) (c\<lparr>cc_deframer := df\<rparr>)"
    unfolding deframe_def p s_def Let_def by simp
  show ?thesis
  proof (cases res)
    case (Ok x)
    show ?thesis
    proof (cases x)
      case (Some y)
      then have y: "\<not> df_want_close_before_decrypt y" "load hs raw < df_load (cc_deframer c)"
        using pr a(1) Ok by (auto simp: progress_def df_load_def)
      have "df_ok df" "df_load df = load hs raw" using a(3) Ok by (auto simp: popped_def df_load_def)
      then show ?thesis using y r Ok Some
        by (auto simp: d in_common_def deframed_ok_def ready_def keyed_def finish_trial_decryption_def Let_def)
    qed (simp add: d in_common_def Ok)
  next
    case (Err e)
    then show ?thesis using deframe_err_returns [OF assms(1) r, of e] by (auto simp: d in_common_def)
  next
    case Panic
    then show ?thesis using pr a(1) by (simp add: progress_def)
  qed
qed

lemma message_try_from_no_panic: "message_try_from dns m \<noteq> Panic"
proof -
  note np = gives_no_panic [OF alert.rd_wf, of "reader_init (pm_payload m)"] gives_no_panic [OF ccs.rd_wf, of "reader_init (pm_payload m)"]
    gives_no_panic [OF handshake_message.rd_wf [of dns "pm_version m"], of "reader_init (pm_payload m)"]
  show ?thesis using np
    by (auto simp: message_try_from_def message_payload_new_def outcome_bind_Panic_iff Let_def split: content_type.splits)
qed

lemma process_alert_returns:
  assumes "aead_ok ae" "ready (Suc n) s"
  shows "\<exists>res s'. process_alert ae al s = Some (res, s') \<and> res \<noteq> Panic \<and> (res = Ok () \<longrightarrow> ready (Suc n) s')"
proof (cases "level al")
  case (AL_Unknown x)
  then show ?thesis using fail_with_returns [OF assms, of AD_IllegalParameter "AlertReceived (description al)"]
    by (auto simp: process_alert_def)
qed (use assms(2) fail_with_returns [OF assms, of AD_DecodeError "AlertReceived (description al)"] in
    \<open>auto simp: process_alert_def ready_def\<close>)

subsection \<open>The contract of a handler\<close>

text \<open>
  A handler that returns: it uses at most one record, and when it reports an inappropriate message
  it has not sent anything, so that the alert for it can still go out.
\<close>

definition inappropriate :: "tls_error \<Rightarrow> bool" where
  "inappropriate e = (case e of InappropriateMessage _ _ \<Rightarrow> True | InappropriateHandshakeMessage _ _ \<Rightarrow> True | _ \<Rightarrow> False)"

definition handled :: "('st \<Rightarrow> bool) \<Rightarrow> nat \<Rightarrow> ((tls_error, 'st) outcome \<times> common_state \<times> 'd) option \<Rightarrow> bool" where
  "handled ok n x =
     (case x of
        None \<Rightarrow> False
      | Some (Ok st, s, d) \<Rightarrow> ok st \<and> ready n s
      | Some (Err e, s, d) \<Rightarrow> inappropriate e \<longrightarrow> ready (Suc n) s
      | Some (Panic, s, d) \<Rightarrow> False)"

locale total_handler =
  fixes ae :: aead and handle :: "('st, 'd) handler" and ok :: "'st \<Rightarrow> bool"
  assumes returns: "aead_ok ae \<Longrightarrow> ok st \<Longrightarrow> ready (Suc n) s \<Longrightarrow> n \<le> 65536 \<Longrightarrow> handled ok n (handle st s d m)"
begin

lemma main_protocol_returns:
  assumes ae: "aead_ok ae" and "ok st" "ready (Suc n) s" "n \<le> 65536"
  shows "\<exists>res s' d'. process_main_protocol ae handle m st s d = Some (res, s', d') \<and> res \<noteq> Panic
    \<and> (\<forall>st'. res = Ok st' \<longrightarrow> ok st' \<and> ready n s')"
proof -
  obtain s1 where s1: "send_warning_alert ae AD_NoRenegotiation s = Some (Ok s1)" "ready n s1"
    using send_alert_returns [OF ae assms(3)] unfolding send_warning_alert_def by blast
  obtain res s2 d2 where h: "handle st s d m = Some (res, s2, d2)"
    "case res of Ok st' \<Rightarrow> ok st' \<and> ready n s2 | Err e \<Rightarrow> inappropriate e \<longrightarrow> ready (Suc n) s2 | Panic \<Rightarrow> False"
    using returns [OF assms, of d m] by (auto simp: handled_def split: option.splits outcome.splits)
  show ?thesis
  proof (cases res)
    case (Err e)
    show ?thesis
    proof (cases "inappropriate e")
      case True
      then have "\<exists>s'. (fail_with ae AD_UnexpectedMessage e s2 :: 'st step) = Some (Err e, s')"
        using fail_with_returns [OF ae] h(2) Err by fastforce
      then show ?thesis using assms(2) s1 h(1) Err True
        by (auto simp: process_main_protocol_def inappropriate_def split: tls_error.splits)
    next
      case False
      then show ?thesis using assms(2) s1 h(1) Err
        by (auto simp: process_main_protocol_def inappropriate_def split: tls_error.splits)
    qed
  qed (use assms(2) s1 h in \<open>auto simp: process_main_protocol_def\<close>)
qed

lemma msg_returns:
  assumes ae: "aead_ok ae" and "ok st" "ready (Suc n) (cc_common c)" "n \<le> 65536"
  shows "\<exists>res c'. process_msg ae dns handle m st c = Some (res, c') \<and> res \<noteq> Panic \<and> cc_deframer c' = cc_deframer c
    \<and> (\<forall>st'. res = Ok st' \<longrightarrow> ok st' \<and> ready n (cc_common c'))"
proof -
  have f: "\<exists>s'. (fail_with ae desc e (cc_common c) :: 'st step) = Some (Err e, s')" for desc and e
    using fail_with_returns [OF ae assms(3)] by blast
  have l: "ready n (cc_common c)" using assms(3) by (simp add: ready_def)
  show ?thesis
  proof (cases "pm_typ m = CT_ChangeCipherSpec \<and> \<not> may_receive_application_data (cc_common c) \<and> is_tls13 (cc_common c)")
    case True
    then show ?thesis using f [of AD_UnexpectedMessage "PeerMisbehaved IllegalMiddleboxChangeCipherSpec"] l assms(2)
      by (auto simp: process_msg_def in_common_def ready_def Let_def)
  next
    case False
    show ?thesis
    proof (cases "message_try_from dns m")
      case (Ok msg)
      show ?thesis
      proof (cases "\<exists>al. m_payload msg = MP_Alert al")
        case True
        then obtain al where al: "m_payload msg = MP_Alert al" by blast
        obtain res s' where "process_alert ae al (cc_common c) = Some (res, s')" "res \<noteq> Panic" "res = Ok () \<longrightarrow> ready (Suc n) s'"
          using process_alert_returns [OF ae assms(3)] by blast
        then show ?thesis using False Ok al assms(2) ready_less [of "Suc n" s' n]
          by (cases res) (auto simp: process_msg_def in_common_def Let_def)
      next
        case na: False
        obtain res s' d' where p: "process_main_protocol ae handle msg st (cc_common c) (cc_data c) = Some (res, s', d')" "res \<noteq> Panic"
          "\<forall>st'. res = Ok st' \<longrightarrow> ok st' \<and> ready n s'"
          using main_protocol_returns [OF assms] by blast
        have "process_msg ae dns handle m st c = Some (res, c\<lparr>cc_common := s', cc_data := d'\<rparr>)"
          using False Ok na p(1) by (cases "m_payload msg") (auto simp: process_msg_def Let_def)
        then show ?thesis using p by simp
      qed
    next
      case (Err e)
      then show ?thesis using False f [of AD_DecodeError e] by (auto simp: process_msg_def in_common_def Let_def)
    next
      case Panic
      then show ?thesis using message_try_from_no_panic by blast
    qed
  qed
qed

lemma packets_return:
  assumes ae: "aead_ok ae" and "ok st" "df_ok (cc_deframer c)" "ready (Suc (df_load (cc_deframer c))) (cc_common c)"
  shows "\<exists>res c'. packets ae dns handle st c = Some (res, c') \<and> res \<noteq> Panic"
  using assms(2-4)
proof (induction "df_load (cc_deframer c)" arbitrary: st c rule: less_induct)
  case less
  have n: "df_load (cc_deframer c) \<le> 65536" using df_load_bound [OF less.prems(2)] by simp
  obtain res c1 where d: "deframe ae c = Some (res, c1)"
    and c1: "case res of Ok (Some m) \<Rightarrow> ready (Suc (df_load (cc_deframer c))) (cc_common c1) \<and> df_ok (cc_deframer c1)
        \<and> df_load (cc_deframer c1) < df_load (cc_deframer c) | Ok None \<Rightarrow> True | Err e \<Rightarrow> True | Panic \<Rightarrow> False"
    using deframe_returns [OF ae less.prems(2,3)] by blast
  show ?case
  proof (cases "\<exists>m. res = Ok (Some m)")
    case True
    then obtain m where m: "res = Ok (Some m)" by blast
    obtain r2 c2 where p: "process_msg ae dns handle m st c1 = Some (r2, c2)" "r2 \<noteq> Panic" "cc_deframer c2 = cc_deframer c1"
      "\<forall>st'. r2 = Ok st' \<longrightarrow> ok st' \<and> ready (df_load (cc_deframer c)) (cc_common c2)"
      using msg_returns [OF ae less.prems(1) _ n] c1 m by fastforce
    show ?thesis
    proof (cases r2)
      case (Ok st')
      have "ready (Suc (df_load (cc_deframer c2))) (cc_common c2)"
        by (rule ready_less [of "df_load (cc_deframer c)"]) (use p Ok c1 m in auto)
      then have "\<exists>res c'. packets ae dns handle st' c2 = Some (res, c') \<and> res \<noteq> Panic"
        using less.hyps [of c2 st'] c1 m p Ok by simp
      then show ?thesis using d m p Ok by (subst packets.simps) simp
    qed (use d m p in \<open>auto simp: packets.simps [of ae dns handle st c]\<close>)
  next
    case False
    then show ?thesis using d c1 by (subst packets.simps) (auto split: outcome.splits option.splits)
  qed
qed

lemma process_new_packets_returns:
  assumes "aead_ok ae" "cc_state c = Ok st" "ok st" "df_ok (cc_deframer c)" "ready 65536 (cc_common c)"
  shows "\<exists>res c'. process_new_packets ae dns handle c = Some (res, c') \<and> res \<noteq> Panic"
proof -
  have "ready (Suc (df_load (cc_deframer c))) (cc_common c)"
    by (rule ready_less [OF assms(5)]) (use df_load_bound [OF assms(4)] in simp)
  then show ?thesis
    using packets_return [OF assms(1), of st "c\<lparr>cc_state := Err HandshakeNotComplete\<rparr>" dns] assms by (simp add: process_new_packets_def)
qed

end

subsection \<open>The traffic states meet it\<close>

lemma update_encrypter_returns:
  assumes "aead_ok ae" "suite_ok (ks_suite (tr_ks tr))" "ready (Suc n) s" "n \<le> 65536"
  shows "\<exists>tr' s'. update_encrypter_and_notify ae tr s = Ok (tr', s') \<and> ks_suite (tr_ks tr') = ks_suite (tr_ks tr) \<and> ready n s'"
proof -
  obtain secret t where t: "next_application_traffic_secret (cs_side s) tr = Ok (secret, t)" "tr_ks t = tr_ks tr"
    using next_secret_total [OF assms(2), of "cs_side s" tr] by (auto simp: same_secret_def)
  obtain c rl where c: "encrypt_outgoing ae (plain_of key_update_notify) (cs_rl s) = (Ok (c, rl) :: (tls_error, _) outcome)"
    using ready_encrypt(1) [OF assms(1) key_update_ok assms(3)] by blast
  define s0 where "s0 = s\<lparr>cs_rl := rl, queued_key_update_message := Some (om_encode c)\<rparr>"
  obtain rl' where r: "set_encrypter (tr_ks tr) secret s0 = Ok (s0\<lparr>cs_rl := rl'\<rparr>)" "keyed_tx (tr_ks tr) secret rl'"
    using set_encrypter_total [OF assms(2), of secret s0] by auto
  have "ready n (s0\<lparr>cs_rl := rl'\<rparr>)"
    using r(2) assms(3,4) by (auto simp: ready_def keyed_tx_def keyed_def limits_unat s0_def)
  then show ?thesis using t c r(1)
    by (simp add: update_encrypter_and_notify_def enqueue_key_update_notification_def s0_def [symmetric])
qed

lemma update_decrypter_returns:
  assumes "suite_ok (ks_suite (tr_ks tr))" "ready n s"
  shows "\<exists>tr' s'. update_decrypter tr s = Ok (tr', s') \<and> ks_suite (tr_ks tr') = ks_suite (tr_ks tr) \<and> ready n s'"
proof -
  obtain secret t where t: "next_application_traffic_secret (peer (cs_side s)) tr = Ok (secret, t)" "tr_ks t = tr_ks tr"
    using next_secret_total [OF assms(1), of "peer (cs_side s)" tr] by (auto simp: same_secret_def)
  obtain rl where r: "set_decrypter (tr_ks tr) secret s = Ok (s\<lparr>cs_rl := rl\<rparr>)" "rl_encrypter rl = rl_encrypter (cs_rl s)"
    "write_seq rl = write_seq (cs_rl s)" "encrypt_state rl = encrypt_state (cs_rl s)"
    using set_decrypter_total [OF assms(1), of secret s] by auto
  have "ready n (s\<lparr>cs_rl := rl\<rparr>)" by (rule ready_write_side [OF assms(2)]) (simp add: write_side_def r)
  then show ?thesis using t r(1) by (simp add: update_decrypter_def)
qed

lemma key_update_returns:
  assumes "aead_ok ae" "suite_ok (ks_suite (tr_ks tr))" "ready (Suc n) s" "n \<le> 65536"
  shows "\<exists>res s'. handle_key_update ae req tr s = Some (res, s') \<and>
    (case res of
       Ok tr' \<Rightarrow> ks_suite (tr_ks tr') = ks_suite (tr_ks tr) \<and> ready n s'
     | Err e \<Rightarrow> \<not> inappropriate e
     | Panic \<Rightarrow> False)"
proof -
  have less: "ready n s" using assms(3) by (simp add: ready_def)
  obtain t1 s1 where u: "update_encrypter_and_notify ae tr s = Ok (t1, s1)" "ks_suite (tr_ks t1) = ks_suite (tr_ks tr)" "ready n s1"
    using update_encrypter_returns [OF assms] by blast
  obtain t2 s2 t3 s3 where d: "update_decrypter tr s = Ok (t2, s2)" "ks_suite (tr_ks t2) = ks_suite (tr_ks tr)" "ready n s2"
    "update_decrypter t1 s1 = Ok (t3, s3)" "ks_suite (tr_ks t3) = ks_suite (tr_ks tr)" "ready n s3"
    using update_decrypter_returns [OF assms(2) less] update_decrypter_returns [of t1 n s1] assms(2) u by auto
  obtain s4 where f1:
    "(fail_with ae AD_UnexpectedMessage (PeerMisbehaved KeyUpdateReceivedInQuicConnection) s :: key_schedule_traffic step)
       = Some (Err (PeerMisbehaved KeyUpdateReceivedInQuicConnection), s4)"
    using fail_with_returns [OF assms(1,3)] by blast
  obtain s5 where f2: "(fail_with ae AD_UnexpectedMessage (PeerMisbehaved KeyEpochWithPendingFragment) s :: unit step)
       = Some (Err (PeerMisbehaved KeyEpochWithPendingFragment), s5)"
    using fail_with_returns [OF assms(1,3)] by blast
  obtain s6 where f3: "(fail_with ae AD_IllegalParameter (InvalidMessage InvalidKeyUpdate) s :: bool step)
       = Some (Err (InvalidMessage InvalidKeyUpdate), s6)"
    using fail_with_returns [OF assms(1,3)] by blast
  from f1 f2 f3 show ?thesis using u d
    by (cases req) (auto simp: handle_key_update_def check_aligned_handshake_def should_update_key_def inappropriate_def)
qed

interpretation server13: total_handler ae "server13_handle ae" "\<lambda>tr. suite_ok (ks_suite (tr_ks tr))" for ae
proof
  fix st :: key_schedule_traffic and n s and d :: 'a and m :: message
  assume a: "aead_ok ae" "suite_ok (ks_suite (tr_ks st))" "ready (Suc n) s" "n \<le> 65536"
  note k = key_update_returns [OF a]
  show "handled (\<lambda>tr. suite_ok (ks_suite (tr_ks tr))) n (server13_handle ae st s d m)"
  proof (cases "\<exists>parsed enc req. m_payload m = MP_Handshake parsed enc \<and> hmp_payload parsed = HP_KeyUpdate req")
    case True
    then obtain parsed enc req where m: "m_payload m = MP_Handshake parsed enc" "hmp_payload parsed = HP_KeyUpdate req" by blast
    obtain res s' where "handle_key_update ae req st s = Some (res, s')"
      "case res of Ok tr' \<Rightarrow> ks_suite (tr_ks tr') = ks_suite (tr_ks st) \<and> ready n s' | Err e \<Rightarrow> \<not> inappropriate e | Panic \<Rightarrow> False"
      using k by blast
    then show ?thesis using m a(2) by (cases res) (simp_all add: server13_handle_def handled_def)
  next
    case False
    then show ?thesis using a(2,3)
      by (auto simp: server13_handle_def handled_def take_received_plaintext_def ready_def
          split: message_payload.splits handshake_payload.splits)
  qed
qed

interpretation tls12: total_handler ae tls12_handle "\<lambda>_. True" for ae
  by unfold_locales
    (auto simp: tls12_handle_def handled_def take_received_plaintext_def ready_def split: message_payload.splits)

definition et_ok :: "expect_traffic \<Rightarrow> bool" where
  "et_ok st \<longleftrightarrow> suite_ok (ks_suite (tr_ks (et_ks st)))"

lemma new_ticket_returns:
  assumes "aead_ok ae" "et_ok st" "ready (Suc n) s"
  shows "\<exists>res s'. handle_new_ticket_tls13 ae now nst st s = Some (res, s') \<and>
    (case res of Ok st' \<Rightarrow> et_ok st' \<and> ready n s' | Err e \<Rightarrow> \<not> inappropriate e | Panic \<Rightarrow> False)"
proof -
  obtain s1 where f: "(fail_with ae AD_IllegalParameter (PeerMisbehaved DuplicateNewSessionTicketExtensions) s :: expect_traffic step)
      = Some (Err (PeerMisbehaved DuplicateNewSessionTicketExtensions), s1)"
    using fail_with_returns [OF assms(1,3)] by blast
  obtain rms where "ks_derive (tr_ks (et_ks st)) ResumptionMasterSecret (et_hash st) = Ok rms"
    using ks_derive_total [of "tr_ks (et_ks st)"] assms(2) unfolding et_ok_def by blast
  moreover obtain psk where "derive_ticket_psk (tr_ks (et_ks st)) rms (t13_nonce nst) = Ok psk"
    using expand_label_block_total [of "su_hkdf (ks_suite (tr_ks (et_ks st)))"] assms(2)
    unfolding et_ok_def suite_ok_def derive_ticket_psk_def by blast
  ultimately have "resumption_master_secret_and_derive_ticket_psk (et_hash st) (t13_nonce nst) (et_ks st) = Ok psk"
    by (simp add: resumption_master_secret_and_derive_ticket_psk_def)
  then show ?thesis using f assms(2,3)
    by (auto simp: handle_new_ticket_tls13_def et_ok_def ready_def inappropriate_def Let_def)
qed

interpretation client13: total_handler ae "client13_handle ae now" et_ok for ae now
proof
  fix st n s and d :: 'a and m :: message
  assume a: "aead_ok ae" "et_ok st" "ready (Suc n) s" "n \<le> 65536"
  consider parsed enc req where "m_payload m = MP_Handshake parsed enc" "hmp_payload parsed = HP_KeyUpdate req"
    | parsed enc nst where "m_payload m = MP_Handshake parsed enc" "hmp_payload parsed = HP_NewSessionTicketTls13 nst"
    | "\<forall>parsed enc req nst. m_payload m = MP_Handshake parsed enc \<longrightarrow> hmp_payload parsed \<noteq> HP_KeyUpdate req
        \<and> hmp_payload parsed \<noteq> HP_NewSessionTicketTls13 nst" by blast
  then show "handled et_ok n (client13_handle ae now st s d m)"
  proof cases
    case (1 parsed enc req)
    obtain res s' where "handle_key_update ae req (et_ks st) s = Some (res, s')"
      "case res of Ok tr' \<Rightarrow> ks_suite (tr_ks tr') = ks_suite (tr_ks (et_ks st)) \<and> ready n s' | Err e \<Rightarrow> \<not> inappropriate e | Panic \<Rightarrow> False"
      using key_update_returns [OF a(1) _ a(3,4)] a(2) unfolding et_ok_def by blast
    then show ?thesis using 1 a(2) by (cases res) (simp_all add: client13_handle_def handled_def et_ok_def Let_def)
  next
    case (2 parsed enc nst)
    obtain res s' where "handle_new_ticket_tls13 ae now nst st s = Some (res, s')"
      "case res of Ok st' \<Rightarrow> et_ok st' \<and> ready n s' | Err e \<Rightarrow> \<not> inappropriate e | Panic \<Rightarrow> False"
      using new_ticket_returns [OF a(1-3)] by blast
    then show ?thesis using 2 by (cases res) (simp_all add: client13_handle_def handled_def Let_def)
  next
    case 3
    then show ?thesis using a(2,3)
      by (auto simp: client13_handle_def handled_def take_received_plaintext_def ready_def Let_def
          split: message_payload.splits handshake_payload.splits)
  qed
qed

end
