(* ===== verification/Rustls_Transfer.thy ===== *)
theory Rustls_Transfer
  imports Rustls_Conn
begin

text \<open>
  Two connections of \<open>orcax/rustls-fork/rustls\<close> at work: what one writes with \<open>Writer::write\<close>
  (\<open>conn.rs\<close>) the other reads with \<open>Reader::read\<close>, in order and without loss, however the network
  cuts the bytes and however the calls of the receiver interleave.
\<close>

section \<open>Records in flight\<close>

text \<open>Application data as the fragmenter cuts it.\<close>

definition data_msg :: "plain_message \<Rightarrow> bool" where
  "data_msg m \<longleftrightarrow> pm_ok m \<and> pm_typ m = CT_ApplicationData"

text \<open>\<open>in_flight ae rl ms cs\<close>: a sender in step with \<open>rl\<close> seals the messages \<open>ms\<close> into the records \<open>cs\<close>.\<close>

definition in_flight :: "aead \<Rightarrow> record_layer \<Rightarrow> plain_message list \<Rightarrow> opaque_message list \<Rightarrow> bool" where
  "in_flight ae rl ms cs \<longleftrightarrow> list_all data_msg ms
     \<and> (\<exists>sl sl'. in_step sl rl \<and> seal_all ae ms sl = Some (cs, sl'))"

lemma encrypt_data_typ:
  assumes "encrypt ae enc m seq = Ok c" "pm_typ m = CT_ApplicationData"
  shows "om_typ c = CT_ApplicationData"
  using assms by (cases enc)
    (auto simp: tls13_encrypt_def gcm_encrypt_def chacha_encrypt_def ok_or_def Let_def split: option.splits if_splits)

lemma in_flight_Nil: "in_flight ae rl [] cs \<Longrightarrow> cs = []"
  by (auto simp: in_flight_def)

lemma in_flight_Cons:
  assumes "aead_ok ae" "in_flight ae rl (m # ms) cs"
  shows "\<exists>c cs' d rl'. cs = c # cs' \<and> carrier c \<and> decrypt_incoming ae c rl = (Ok (Some d), rl')
    \<and> pm_typ (plaintext d) = CT_ApplicationData \<and> pm_payload (plaintext d) = pm_payload m \<and> in_flight ae rl' ms cs'"
proof -
  obtain sl sl' where s: "in_step sl rl" "seal_all ae (m # ms) sl = Some (cs, sl')" and m: "pm_ok m" "pm_typ m = CT_ApplicationData"
    "list_all data_msg ms" using assms(2) by (auto simp: in_flight_def data_msg_def)
  obtain c sl1 cs' where e: "encrypt_outgoing ae m sl = (Ok (c, sl1) :: (tls_error, _) outcome)"
    "seal_all ae ms sl1 = Some (cs', sl')" "cs = c # cs'"
    using s(2) by (auto split: outcome.splits)
  have x: "\<not> encrypt_exhausted sl" using e(1) by (auto simp: encrypt_outgoing_def)
  obtain c2 sl2 d rl' where "encrypt_outgoing ae m sl = (Ok (c2, sl2) :: (tls_error, _) outcome)" "om_wf c2"
    "decrypt_incoming ae c2 rl = (Ok (Some d), rl')" "plaintext d = received_as (rl_encrypter sl) m" "in_step sl2 rl'"
    using in_step_message [OF assms(1) m(1) s(1) x] by blast
  with e(1) have d: "om_wf c" "decrypt_incoming ae c rl = (Ok (Some d), rl')" "plaintext d = received_as (rl_encrypter sl) m"
    "in_step sl1 rl'" by simp_all
  have "om_typ c = CT_ApplicationData"
    using e(1) encrypt_data_typ [OF _ m(2)] x by (auto simp: encrypt_outgoing_def split: outcome.splits)
  then have "carrier c" using d(1) by (simp add: carrier_def)
  moreover have "pm_typ (received_as enc m) = pm_typ m" "pm_payload (received_as enc m) = pm_payload m" for enc
    by (simp_all add: received_as_def split: message_encrypter.splits)
  ultimately show ?thesis using e d m by (auto simp: in_flight_def)
qed

lemma in_flight_read_side:
  assumes "in_flight ae rl ms cs" "rl_decrypter rl' = rl_decrypter rl" "decrypt_state rl' = decrypt_state rl" "read_seq rl' = read_seq rl"
  shows "in_flight ae rl' ms cs"
  using assms unfolding in_flight_def in_step_def by auto

section \<open>The receiver\<close>

text \<open>A handler that hands application data over and does nothing else with it.\<close>

locale data_handler =
  fixes handle :: "('st, 'd) handler"
  assumes data: "m_payload m = MP_ApplicationData p \<Longrightarrow> handle st s d m = Some (Ok st, take_received_plaintext p s, d)"
begin

lemma process_data:
  assumes "pm_typ m = CT_ApplicationData"
  shows "process_msg ae dns handle m st c = Some (Ok st, c\<lparr>cc_common := take_received_plaintext (pm_payload m) (cc_common c)\<rparr>)"
  using assms data [of "\<lparr>m_version = pm_version m, m_payload = MP_ApplicationData (pm_payload m)\<rparr>"]
  by (simp add: process_msg_def message_try_from_def message_payload_new_def process_main_protocol_def is_handshake_type_def Let_def)

end

interpretation server13_data: data_handler "server13_handle ae" for ae
  by unfold_locales (simp add: server13_handle_def)

interpretation client13_data: data_handler "client13_handle ae now" for ae now
  by unfold_locales (simp add: client13_handle_def Let_def)

interpretation tls12_data: data_handler tls12_handle
  by unfold_locales (simp add: tls12_handle_def)

text \<open>
  \<open>receiving ae c unread ms\<close>: the bytes that were not parsed yet, in the deframer or unread in the
  socket, are the records of \<open>ms\<close>, and the receiver can open them.
\<close>

definition receiving :: "aead \<Rightarrow> ('st, 'd) connection_core \<Rightarrow> bytes \<Rightarrow> plain_message list \<Rightarrow> bool" where
  "receiving ae c unread ms \<longleftrightarrow> df_ok (cc_deframer c) \<and> joining_hs (cc_deframer c) = None \<and> cv_inv (received_plaintext (cc_common c))
     \<and> (\<exists>cs. in_flight ae (cs_rl (cc_common c)) ms cs \<and> pending_bytes (cc_deframer c) @ unread = wire cs)"

abbreviation received :: "('st, 'd) connection_core \<Rightarrow> bytes" where
  "received c \<equiv> cv_contents (received_plaintext (cc_common c))"

lemma joined_None: "joining_hs df = None \<longleftrightarrow> joined_payload df = None"
  by (simp add: joined_payload_def)

lemma deframe_spec:
  assumes "aead_ok ae" "df_ok (cc_deframer c)" "joining_hs (cc_deframer c) = None"
    and "spec_pop ae (negotiated_version (cc_common c)) None (pending_bytes (cc_deframer c)) (cs_rl (cc_common c)) = (Ok res, None, raw, rl)"
    and "\<forall>d. res = Some d \<longrightarrow> (\<exists>m. d = single m)"
  shows "\<exists>df. deframe ae c = Some (Ok (map_option df_message res),
      c\<lparr>cc_deframer := df, cc_common := (cc_common c)\<lparr>cs_rl := rl, aligned_handshake := (res \<noteq> None \<or> aligned_handshake (cc_common c))\<rparr>\<rparr>)
    \<and> df_ok df \<and> joining_hs df = None \<and> pending_bytes df = raw"
proof -
  define nv rl0 where "nv = negotiated_version (cc_common c)" and "rl0 = cs_rl (cc_common c)"
  obtain r df rl1 where p: "deframer_pop ae nv (cc_deframer c) rl0 = (r, df, rl1)" by (metis surj_pair)
  have a: "r = Ok res" "rl1 = rl" "popped None raw df"
    using deframer_pop_refines [OF assms(1,2), of nv rl0] p assms(3,4) joined_None [of "cc_deframer c"]
    by (auto simp: agrees_def nv_def rl0_def)
  then have df: "df_ok df" "joining_hs df = None" "pending_bytes df = raw" by (simp_all add: popped_def joined_None)
  show ?thesis
  proof (cases res)
    case None
    then show ?thesis using p a(1,2) df
      by (intro exI [of _ df]) (simp add: deframe_def in_common_def nv_def rl0_def Let_def)
  next
    case (Some d)
    then obtain m where "d = single m" using assms(5) by blast
    then show ?thesis using p a(1,2) df Some
      by (intro exI [of _ df]) (simp add: deframe_def in_common_def deframed_ok_def single_def nv_def rl0_def Let_def)
  qed
qed

lemma deframe_data:
  assumes ae: "aead_ok ae" and r: "receiving ae c unread (m # ms)"
  shows "(\<exists>c' p. deframe ae c = Some (Ok (Some p), c') \<and> pm_typ p = CT_ApplicationData \<and> pm_payload p = pm_payload m
      \<and> receiving ae c' unread ms \<and> received c' = received c)
    \<or> (\<exists>c'. deframe ae c = Some (Ok None, c') \<and> unread \<noteq> [] \<and> receiving ae c' unread (m # ms) \<and> received c' = received c)"
proof -
  define nv rl where "nv = negotiated_version (cc_common c)" and "rl = cs_rl (cc_common c)"
  define raw where "raw = pending_bytes (cc_deframer c)"
  have c: "df_ok (cc_deframer c)" "joining_hs (cc_deframer c) = None" "cv_inv (received_plaintext (cc_common c))"
    using r by (auto simp: receiving_def)
  from r obtain cs where cs: "in_flight ae rl (m # ms) cs" "raw @ unread = wire cs"
    by (auto simp: receiving_def rl_def raw_def)
  from in_flight_Cons [OF ae cs(1)] obtain e cs' d rl' where e: "cs = e # cs'" "carrier e"
    "decrypt_incoming ae e rl = (Ok (Some d), rl')" "pm_typ (plaintext d) = CT_ApplicationData"
    "pm_payload (plaintext d) = pm_payload m" "in_flight ae rl' ms cs'" by blast
  from cs(2) e(1) have "raw @ unread = om_encode e @ wire cs'" by simp
  then consider t where "raw = om_encode e @ t" "t @ unread = wire cs'"
    | sx where "raw @ sx = om_encode e" "unread = sx @ wire cs'" "sx \<noteq> []"
  proof -
    assume *: "raw @ unread = om_encode e @ wire cs'"
    obtain us where "raw @ us = om_encode e \<and> unread = us @ wire cs' \<or> raw = om_encode e @ us \<and> us @ unread = wire cs'"
      using * by (auto simp: append_eq_append_conv2)
    then show thesis using that(1) [of us] that(1) [of "[]"] that(2) [of us] by (cases "us = []") auto
  qed
  then show ?thesis
  proof cases
    case (1 t)
    have "spec_pop ae nv None raw rl = (Ok (Some (single (plaintext d))), None, t, rl')"
      unfolding 1(1) by (rule spec_pop_single [OF e(2,3)]) (simp add: e(4))
    from deframe_spec [OF ae c(1,2) this [unfolded nv_def rl_def raw_def]] obtain df where
      df: "deframe ae c = Some (Ok (Some (plaintext d)),
        c\<lparr>cc_deframer := df, cc_common := (cc_common c)\<lparr>cs_rl := rl', aligned_handshake := True\<rparr>\<rparr>)"
      "df_ok df" "joining_hs df = None" "pending_bytes df = t" by (auto simp: single_def)
    then show ?thesis using e 1(2) c(3) by (auto simp: receiving_def)
  next
    case (2 sx)
    have "spec_pop ae nv None raw rl = (Ok None, None, raw, rl)" by (rule spec_pop_prefix [OF e(2) 2(1,3)])
    from deframe_spec [OF ae c(1,2) this [unfolded nv_def rl_def raw_def]] obtain df where
      df: "deframe ae c = Some (Ok None, c\<lparr>cc_deframer := df,
        cc_common := (cc_common c)\<lparr>cs_rl := rl, aligned_handshake := aligned_handshake (cc_common c)\<rparr>\<rparr>)"
      "df_ok df" "joining_hs df = None" "pending_bytes df = raw" by (auto simp: rl_def raw_def)
    then show ?thesis using cs 2(2,3) c(3) by (auto simp: receiving_def)
  qed
qed

lemma deframe_nothing:
  assumes ae: "aead_ok ae" and r: "receiving ae c unread []"
  shows "\<exists>c'. deframe ae c = Some (Ok None, c') \<and> receiving ae c' unread [] \<and> received c' = received c"
proof -
  obtain cs where cs: "in_flight ae (cs_rl (cc_common c)) [] cs" "pending_bytes (cc_deframer c) @ unread = wire cs"
    using r by (auto simp: receiving_def)
  with in_flight_Nil [OF cs(1)] have c: "df_ok (cc_deframer c)" "joining_hs (cc_deframer c) = None"
    "cv_inv (received_plaintext (cc_common c))" "pending_bytes (cc_deframer c) = []" "unread = []"
    "in_flight ae (cs_rl (cc_common c)) [] []"
    using r by (auto simp: receiving_def)
  have "spec_pop ae (negotiated_version (cc_common c)) None [] (cs_rl (cc_common c)) = (Ok None, None, [], cs_rl (cc_common c))"
    by (simp add: spec_pop_iter spec_result_def spec_iter_def spec_parse_def om_read_empty)
  from deframe_spec [OF ae c(1,2) this [folded c(4)]] obtain df where
    "deframe ae c = Some (Ok None, c\<lparr>cc_deframer := df,
      cc_common := (cc_common c)\<lparr>cs_rl := cs_rl (cc_common c), aligned_handshake := aligned_handshake (cc_common c)\<rparr>\<rparr>)"
    "df_ok df" "joining_hs df = None" "pending_bytes df = []" by (auto simp: c(4))
  then show ?thesis using c by (auto simp: receiving_def)
qed

lemma receiving_data:
  "receiving ae c unread ms \<Longrightarrow>
     receiving ae (c\<lparr>cc_common := take_received_plaintext p (cc_common c)\<rparr>) unread ms"
  "receiving ae c unread ms \<Longrightarrow> receiving ae (c\<lparr>cc_state := st\<rparr>) unread ms"
  by (auto simp: receiving_def take_received_plaintext_def cv_append_spec)

abbreviation data_of :: "plain_message list \<Rightarrow> bytes" where
  "data_of ms \<equiv> concat (map pm_payload ms)"

context data_handler
begin

text \<open>Processing hands over the data of all records that are complete.\<close>

lemma packets_data:
  assumes "aead_ok ae"
  shows "receiving ae c unread ms \<Longrightarrow>
    \<exists>io c' ms1 ms2. packets ae dns handle st c = Some (Ok io, c') \<and> ms = ms1 @ ms2 \<and> receiving ae c' unread ms2
      \<and> received c' = received c @ data_of ms1 \<and> (unread = [] \<longrightarrow> ms2 = []) \<and> cc_state c' = Ok st"
proof (induction ms arbitrary: c)
  case Nil
  obtain c1 where "deframe ae c = Some (Ok None, c1)" "receiving ae c1 unread []" "received c1 = received c"
    using deframe_nothing [OF assms Nil] by blast
  then show ?case by (subst packets.simps) (simp add: receiving_data)
next
  case (Cons m ms)
  from deframe_data [OF assms Cons.prems] show ?case
  proof (elim disjE exE conjE)
    fix c1 p assume d: "deframe ae c = Some (Ok (Some p), c1)" "pm_typ p = CT_ApplicationData" "pm_payload p = pm_payload m"
      "receiving ae c1 unread ms" "received c1 = received c"
    define c2 where "c2 = c1\<lparr>cc_common := take_received_plaintext (pm_payload m) (cc_common c1)\<rparr>"
    have "receiving ae c2 unread ms" unfolding c2_def by (rule receiving_data(1) [OF d(4)])
    from Cons.IH [OF this] obtain io c' ms1 ms2 where c': "packets ae dns handle st c2 = Some (Ok io, c')" "ms = ms1 @ ms2"
      "receiving ae c' unread ms2" "received c' = received c2 @ data_of ms1" "unread = [] \<longrightarrow> ms2 = []" "cc_state c' = Ok st"
      by blast
    have "packets ae dns handle st c = packets ae dns handle st c2"
      using d(1) process_data [OF d(2), of ae dns st c1] d(3) by (subst packets.simps) (simp add: c2_def)
    moreover have "received c2 = received c @ pm_payload m"
      using d(5) by (simp add: c2_def take_received_plaintext_def cv_append_spec)
    ultimately show ?thesis using c' by (intro exI [of _ io] exI [of _ c'] exI [of _ "m # ms1"] exI [of _ ms2]) simp
  next
    fix c1 assume d: "deframe ae c = Some (Ok None, c1)" "unread \<noteq> []" "receiving ae c1 unread (m # ms)" "received c1 = received c"
    show ?thesis using d
      by (intro exI [of _ "current_io_state (cc_common c1)"] exI [of _ "c1\<lparr>cc_state := Ok st\<rparr>"] exI [of _ "[]"] exI [of _ "m # ms"])
        (simp add: packets.simps [of ae dns handle st c] receiving_data)
  qed
qed

lemma new_packets_data:
  assumes "aead_ok ae" "receiving ae c unread ms" "cc_state c = Ok st"
  shows "\<exists>io c' ms1 ms2. process_new_packets ae dns handle c = Some (Ok io, c') \<and> ms = ms1 @ ms2 \<and> receiving ae c' unread ms2
      \<and> received c' = received c @ data_of ms1 \<and> (unread = [] \<longrightarrow> ms2 = []) \<and> cc_state c' = Ok st"
  using packets_data [OF assms(1) receiving_data(2) [OF assms(2), of "Err HandshakeNotComplete"], of dns st] assms(3)
  by (simp add: process_new_packets_def)

end

section \<open>Runs of a receiver\<close>

text \<open>
  Any sequence of reads from the socket, of processing and of reads by the application. \<open>got\<close> is
  what the application has read.
\<close>

inductive rx_run ::
    "aead \<Rightarrow> (bytes \<Rightarrow> bool) \<Rightarrow> ('st, 'd) handler \<Rightarrow> ('st, 'd) connection_core \<Rightarrow> segs \<Rightarrow>
     ('st, 'd) connection_core \<Rightarrow> segs \<Rightarrow> bytes \<Rightarrow> bool"
  for ae dns handle c0 segs0 where
  start: "rx_run ae dns handle c0 segs0 c0 segs0 []"
| socket: "rx_run ae dns handle c0 segs0 c segs got \<Longrightarrow> conn_read_tls segs c = Ok (n, c', segs') \<Longrightarrow>
    rx_run ae dns handle c0 segs0 c' segs' got"
| packets: "rx_run ae dns handle c0 segs0 c segs got \<Longrightarrow> process_new_packets ae dns handle c = Some (Ok io, c') \<Longrightarrow>
    rx_run ae dns handle c0 segs0 c' segs got"
| app: "rx_run ae dns handle c0 segs0 c segs got \<Longrightarrow> conn_read n c = (Ok out, c') \<Longrightarrow>
    rx_run ae dns handle c0 segs0 c' segs (got @ out)"
| app_blocked: "rx_run ae dns handle c0 segs0 c segs got \<Longrightarrow> conn_read n c = (Err e, c') \<Longrightarrow>
    rx_run ae dns handle c0 segs0 c' segs got"

lemma read_tls_receiving:
  assumes "receiving ae c (concat segs) ms" "conn_read_tls segs c = Ok (n, c', segs')"
  shows "receiving ae c' (concat segs') ms" "received c' = received c" "cc_state c' = cc_state c"
proof -
  have c: "df_ok (cc_deframer c)" "joining_hs (cc_deframer c) = None" using assms(1) by (auto simp: receiving_def)
  obtain df where r: "deframer_read segs (cc_deframer c) = Some (n, df, segs')" and c': "cc_deframer c' = df"
    "cs_rl (cc_common c') = cs_rl (cc_common c)" "received_plaintext (cc_common c') = received_plaintext (cc_common c)"
    and st: "cc_state c' = cc_state c"
    using assms(2) by (auto simp: conn_read_tls_def Let_def split: if_splits option.splits prod.splits)
  have "df_ranges (cc_deframer c)" using c by (simp add: df_ok_def)
  note ok = deframer_read_ok [OF this r]
  obtain bs where bs: "take (dused df) (dbuf df) = take (dused (cc_deframer c)) (dbuf (cc_deframer c)) @ bs" "bs @ concat segs' = concat segs"
    using ok(4) by blast
  have "df_ok df" "joining_hs df = None" using ok(1-3) c by (auto simp: df_ok_def)
  moreover have "pending_bytes df = pending_bytes (cc_deframer c) @ bs"
    using bs(1) ok(2) c(2) by (simp add: pending_bytes_def pop_start_def slice_def)
  ultimately show "receiving ae c' (concat segs') ms" "received c' = received c" "cc_state c' = cc_state c"
    using assms(1) bs(2) c' st by (auto simp: receiving_def)
qed

lemma conn_read_receiving:
  assumes "receiving ae c unread ms" "conn_read n c = (res, c')"
  shows "receiving ae c' unread ms" "cc_state c' = cc_state c"
    "(case res of Ok out \<Rightarrow> out | _ \<Rightarrow> []) @ received c' = received c"
proof -
  have i: "cv_inv (received_plaintext (cc_common c))" using assms(1) by (simp add: receiving_def)
  obtain out b where b: "cv_read n (received_plaintext (cc_common c)) = (out, b)" by fastforce
  note sp = cv_read_spec [OF i, of n, unfolded b fst_conv snd_conv]
  have c': "c' = c\<lparr>cc_common := (cc_common c)\<lparr>received_plaintext := b\<rparr>\<rparr>"
    and r: "res = Ok out \<or> out = []" "res = Ok x \<Longrightarrow> x = out" for x
    using assms(2) b by (auto simp: conn_read_def Let_def split: if_splits)
  show "receiving ae c' unread ms" "cc_state c' = cc_state c" using assms(1) sp by (auto simp: receiving_def c')
  have "out @ cv_contents b = received c" using sp by simp
  then show "(case res of Ok out \<Rightarrow> out | _ \<Rightarrow> []) @ received c' = received c"
    using r by (auto simp: c' split: outcome.splits)
qed

context data_handler
begin

lemma rx_run_data:
  assumes "aead_ok ae" "receiving ae c0 (concat segs0) ms" "cc_state c0 = Ok st" "received c0 = []"
  shows "rx_run ae dns handle c0 segs0 c segs got \<Longrightarrow>
    cc_state c = Ok st \<and> (\<exists>ms1 ms2. ms = ms1 @ ms2 \<and> got @ received c = data_of ms1 \<and> receiving ae c (concat segs) ms2)"
proof (induction rule: rx_run.induct)
  case start
  then show ?case using assms(2-4) by (auto intro: exI [of _ "[]"])
next
  case (socket c segs got n c' segs')
  then show ?case using read_tls_receiving [of ae c segs _ n c' segs'] by fastforce
next
  case (packets c segs got io c')
  then obtain ms1 ms2 where c: "cc_state c = Ok st" "ms = ms1 @ ms2" "got @ received c = data_of ms1"
    "receiving ae c (concat segs) ms2" by blast
  from new_packets_data [OF assms(1) c(4,1), of dns] packets.hyps(2) obtain ns1 ns2 where
    "ms2 = ns1 @ ns2" "receiving ae c' (concat segs) ns2" "received c' = received c @ data_of ns1" "cc_state c' = Ok st" by auto
  then show ?case using c(2,3) by (intro conjI exI [of _ "ms1 @ ns1"] exI [of _ ns2]) (simp_all flip: append_assoc)
next
  case (app c segs got n out c')
  then show ?case using conn_read_receiving [of ae c "concat segs" _ n "Ok out" c'] by fastforce
next
  case (app_blocked c segs got n e c')
  then show ?case using conn_read_receiving [of ae c "concat segs" _ n "Err e" c'] by fastforce
qed

end

section \<open>The sender\<close>

lemma length_le_concat: "[] \<notin> set xs \<Longrightarrow> length xs \<le> length (concat xs)"
proof (induction xs)
  case (Cons x xs)
  then show ?case by (cases x) simp_all
qed simp

lemma fragment_data:
  assumes "fragmenter_wf fr"
  shows "list_all data_msg (fragment_slice fr CT_ApplicationData PV_TLSv1_2 bs)"
    "data_of (fragment_slice fr CT_ApplicationData PV_TLSv1_2 bs) = bs"
    "length (fragment_slice fr CT_ApplicationData PV_TLSv1_2 bs) \<le> length bs"
proof -
  have f: "0 < max_frag fr" "max_frag fr \<le> MAX_FRAGMENT_LEN" using assms by (auto simp: fragmenter_wf_def)
  have "length (chunks (max_frag fr) bs) \<le> length (concat (chunks (max_frag fr) bs))"
    using chunks_sizes [of "[]" "max_frag fr" bs] by (intro length_le_concat) auto
  then show "length (fragment_slice fr CT_ApplicationData PV_TLSv1_2 bs) \<le> length bs"
    by (simp add: fragment_slice_def concat_chunks [OF f(1)])
  show "data_of (fragment_slice fr CT_ApplicationData PV_TLSv1_2 bs) = bs"
    by (simp add: fragment_slice_def comp_def concat_chunks [OF f(1)])
  show "list_all data_msg (fragment_slice fr CT_ApplicationData PV_TLSv1_2 bs)"
    using order_trans [OF _ f(2)] chunks_sizes [of _ "max_frag fr" bs] known_versions
    by (auto simp: fragment_slice_def list_all_iff data_msg_def pm_ok_def unknown_content_def)
qed

text \<open>Writing: what was accepted is in flight to whoever is in step with the sender.\<close>

lemma conn_write_data:
  assumes "aead_ok ae" "ready (length data) (cc_common a)" "may_send_application_data (cc_common a)"
    "queued_key_update_message (cc_common a) = None" "in_step (cs_rl (cc_common a)) rl"
  shows "\<exists>n a' ms cs. conn_write ae data a = Some (Ok (n, a')) \<and> n = cv_apply_limit (sendable_tls (cc_common a)) (length data)
    \<and> data_of ms = take n data \<and> in_flight ae rl ms cs
    \<and> cv_contents (sendable_tls (cc_common a')) = cv_contents (sendable_tls (cc_common a)) @ wire cs"
proof -
  define s where "s = cc_common a"
  define n where "n = cv_apply_limit (sendable_tls s) (length data)"
  define ms where "ms = fragment_slice (cs_fragmenter s) CT_ApplicationData PV_TLSv1_2 (take n data)"
  have fr: "fragmenter_wf (cs_fragmenter s)" using assms(2) by (simp add: s_def ready_def)
  note f = fragment_data [OF fr, of "take n data", folded ms_def]
  have "room (length ms) (cs_rl s)" using ready_room [OF ready_less [OF assms(2)], of "length ms"] f(3) by (simp add: s_def)
  moreover have "list_all pm_ok ms" using f(1) by (auto simp: list_all_iff data_msg_def)
  ultimately obtain cs sl where cs: "seal_all ae ms (cs_rl s) = Some (cs, sl)"
    using in_step_all [OF assms(1,5), of ms] unfolding s_def by blast
  obtain b where b: "send_fragments ae ms s = Some (Ok (s\<lparr>cs_rl := sl, sendable_tls := b\<rparr>))"
    "cv_contents b = cv_contents (sendable_tls s) @ wire cs"
    using send_fragments_sealed [OF cs \<open>room (length ms) (cs_rl s)\<close>] by blast
  have "send_some_plaintext ae data s = Some (Ok (n, s\<lparr>cs_rl := sl, sendable_tls := b\<rparr>))" if "data \<noteq> []"
    using that assms(3,4) b(1)
    by (simp add: send_some_plaintext_def perhaps_write_key_update_def send_plain_def send_appdata_encrypt_def s_def [symmetric]
        n_def [symmetric] ms_def [symmetric] Let_def)
  moreover have "send_some_plaintext ae [] s = Some (Ok (0, s))" using assms(3,4)
    by (simp add: send_some_plaintext_def perhaps_write_key_update_def send_plain_def s_def)
  moreover have "in_flight ae rl ms cs" using f(1) cs assms(5) by (auto simp: in_flight_def s_def)
  moreover have "n = 0 \<and> ms = [] \<and> cs = []" if "data = []"
    using that cs by (auto simp: n_def ms_def cv_apply_limit_def fragment_slice_def split: option.splits)
  ultimately have "\<exists>b'. send_some_plaintext ae data s = Some (Ok (n, b'))
      \<and> cv_contents (sendable_tls b') = cv_contents (sendable_tls s) @ wire cs" "in_flight ae rl ms cs"
    using b(2) by (cases "data = []"; force)+
  then show ?thesis using f(2) unfolding conn_write_def s_def [symmetric] n_def [symmetric] by fastforce
qed

section \<open>From end to end\<close>

text \<open>A receiver that has parsed and delivered everything so far.\<close>

definition idle :: "('st, 'd) connection_core \<Rightarrow> bool" where
  "idle c \<longleftrightarrow> df_ok (cc_deframer c) \<and> joining_hs (cc_deframer c) = None \<and> dused (cc_deframer c) = 0
     \<and> cv_chunks (received_plaintext (cc_common c)) = []"

definition sending :: "aead \<Rightarrow> bytes \<Rightarrow> ('st, 'd) connection_core \<Rightarrow> record_layer \<Rightarrow> bool" where
  "sending ae data a rl \<longleftrightarrow> ready (length data) (cc_common a) \<and> may_send_application_data (cc_common a)
     \<and> queued_key_update_message (cc_common a) = None \<and> cv_chunks (sendable_tls (cc_common a)) = []
     \<and> in_step (cs_rl (cc_common a)) rl"

context data_handler
begin

lemma transfer:
  assumes "aead_ok ae" "sending ae data a (cs_rl (cc_common b))" "idle b" "cc_state b = Ok st"
  shows "\<exists>n a'. conn_write ae data a = Some (Ok (n, a')) \<and> n = cv_apply_limit (sendable_tls (cc_common a)) (length data)
    \<and> (\<forall>segs c segs' got. concat segs = cv_contents (sendable_tls (cc_common a')) \<longrightarrow> rx_run ae dns handle b segs c segs' got \<longrightarrow>
        (\<exists>rest io c'. take n data = got @ received c @ rest
          \<and> process_new_packets ae dns handle c = Some (Ok io, c')
          \<and> (concat segs' = [] \<longrightarrow> got @ received c' = take n data)))"
proof -
  have i: "df_ok (cc_deframer b)" "joining_hs (cc_deframer b) = None" "pending_bytes (cc_deframer b) = []" "received b = []"
    "cv_inv (received_plaintext (cc_common b))"
    using assms(3) by (simp_all add: idle_def pending_bytes_def slice_def cv_contents_def cv_inv_def)
  obtain n a' ms cs where w: "conn_write ae data a = Some (Ok (n, a'))" "n = cv_apply_limit (sendable_tls (cc_common a)) (length data)"
    "data_of ms = take n data" "in_flight ae (cs_rl (cc_common b)) ms cs" "cv_contents (sendable_tls (cc_common a')) = wire cs"
    using conn_write_data [of ae data a "cs_rl (cc_common b)"] assms(1,2) by (auto simp: sending_def cv_contents_def)
  have "\<exists>rest io c'. take n data = got @ received c @ rest \<and> process_new_packets ae dns handle c = Some (Ok io, c')
      \<and> (concat segs' = [] \<longrightarrow> got @ received c' = take n data)"
    if s: "concat segs = cv_contents (sendable_tls (cc_common a'))" and run: "rx_run ae dns handle b segs c segs' got" for segs c segs' got
  proof -
    have "receiving ae b (concat segs) ms" using i w(4,5) s by (auto simp: receiving_def)
    from rx_run_data [OF assms(1) this assms(4) i(4) run] obtain ms1 ms2 where
      c: "cc_state c = Ok st" "ms = ms1 @ ms2" "got @ received c = data_of ms1" "receiving ae c (concat segs') ms2" by blast
    from new_packets_data [OF assms(1) c(4,1), of dns] obtain io c' ns1 ns2 where
      p: "process_new_packets ae dns handle c = Some (Ok io, c')" "ms2 = ns1 @ ns2" "received c' = received c @ data_of ns1"
      "concat segs' = [] \<longrightarrow> ns2 = []" by blast
    have "take n data = got @ received c @ data_of ms2" using w(3) c(2,3) by (simp flip: append_assoc)
    then show ?thesis using p by (intro exI [of _ "data_of ms2"] exI [of _ io] exI [of _ c']) auto
  qed
  then show ?thesis using w(1,2) by blast
qed

end

end
