(* ===== verification/Spec2Isabelle.thy ===== *)
theory Spec2Isabelle
  imports Mux Vless Vision Tls_Record Client_Hello Rustls_Reality Server_Stream
    Socks5 Failover Cdn Tunnel Brutal Rustls_Transfer
begin

text \<open>
  Verification of the Rust core of Fogged VPN, the crates under \<open>src/orcax\<close>.

  \<^bold>\<open>The program.\<close> A client (\<open>orcax/client\<close>) runs a local SOCKS5 proxy. For every connection
  it decides from a whitelist whether the destination is reached directly or through the tunnel,
  and in the second case opens a stream on one of several TLS or QUIC connections to a server,
  or on a WebSocket when neither can be reached. Streams are carried by the frames of
  \<open>orcax/protocol\<close>, which also holds the VLESS request format. \<open>orcax/transport\<close> holds what both
  ends need below that: the authentication handshake, the Reality check that hides the server
  behind an ordinary TLS site, Vision padding, TLS records and the ClientHello parser. The fork
  of rustls (\<open>orcax/rustls-fork\<close>) carries the client side of Reality.

  \<^bold>\<open>Conventions.\<close> Machine integers are words, so wrap-around is what the hardware does; a
  \<open>usize\<close> that only counts bytes in memory is a \<open>nat\<close>. A Rust call that can fail returns
  \<open>Ok v\<close>, \<open>Err e\<close> or \<open>Panic\<close> (\<open>Prelude\<close>); every index, slice and \<open>unwrap\<close> of the source that
  is not guarded is a checked access of the model. Sockets are lists of segments (\<open>Io\<close>), so that
  the theorems quantify over how the bytes arrive. Randomness and the clock are arguments.
  Third-party crates are parameters: the record \<open>crypto\<close> (\<open>Crypto\<close>), the hexadecimal encoder of
  \<open>Vless\<close>, the networks of \<open>Whitelist\<close>, the connection attempts of \<open>Failover\<close>; what the code
  relies on of them is a named hypothesis (\<open>x25519_ok\<close>, \<open>hkdf_ok\<close>, \<open>chacha_ok\<close>, \<open>gcm_ok\<close>,
  \<open>hmac_ok\<close>, \<open>hex_crate\<close>, \<open>ipnet_ok\<close>), and each has a concrete instance on which the witnesses
  run.

  \<^bold>\<open>Library theories.\<close>
  \<^item> \<open>Prelude\<close>: words, outcomes, checked slices, big-endian encodings; the collections
    \<open>wire_simps\<close> and \<open>outcome_simps\<close>.
  \<^item> \<open>Io\<close>: \<open>read\<close> and \<open>read_exact\<close> on segmented sockets and slices. The locale \<open>exact_reader\<close> is
    what the parsers rely on of a source, \<open>wire_format\<close> is an encoder with a decoder that returns
    the rest, \<open>chunk_machine\<close> is a parser that may be fed in pieces.
  \<^item> \<open>Rust_Text\<close>, \<open>Rust_Str\<close>, \<open>Rust_Net\<close>: the parts of \<open>std::str\<close>, \<open>std::fmt\<close> and \<open>std::net\<close>
    the sources call.
  \<^item> \<open>Hash_Map\<close>: the interface of \<open>std::collections::HashMap\<close> and its association list model.
  \<^item> \<open>Crypto\<close>: the primitives as a record, their documented laws and an instance.

  \<^bold>\<open>Protocol crate\<close> (\<open>orcax/protocol/src\<close>).
  \<^item> \<open>Address\<close> (\<open>address.rs\<close>): \<open>parse\<close> accepts exactly the encodings of well-formed addresses.
  \<^item> \<open>Orca\<close> (\<open>orca.rs\<close>): frames survive any segmentation; the padding defect of \<open>decode\<close>; the
    inner TLS 1.3 detection.
  \<^item> \<open>Mux\<close> (\<open>mux.rs\<close>): the stream table as a transition system, its invariant, freshness of ids
    and what happens with a peer that ignores the parity rule.
  \<^item> \<open>Addons\<close> (\<open>addons.rs\<close>) and \<open>Vless\<close> (\<open>vless.rs\<close>): the request parser, its round trip, its
    totality, and the request it wrongly refuses.

  \<^bold>\<open>Transport crate\<close> (\<open>orcax/transport/src\<close>).
  \<^item> \<open>Vision\<close> (\<open>vision.rs\<close>): the chunked reader refines a byte-by-byte machine and terminates on
    every input; encoder and reader are inverse.
  \<^item> \<open>Tls_Record\<close> (\<open>tls_record.rs\<close>), \<open>Client_Hello\<close> (\<open>client_hello.rs\<close>): round trip and safety of
    the parsers.
  \<^item> \<open>Handshake\<close> (\<open>handshake.rs\<close>), \<open>Reality\<close> (\<open>reality.rs\<close>): what the server accepts is exactly
    what opens under the agreed key with a fresh timestamp and an allowed id.
  \<^item> \<open>Server_Stream\<close> (\<open>server.rs\<close>, \<open>reality_cert.rs\<close>): the replaying stream is a byte source; the
    certificate cache is stable.
  \<^item> \<open>Rustls_Reality\<close> (\<open>rustls-fork/rustls/src/reality.rs\<close>): the session id the client seals is
    accepted by the server, and both compute the same ServerHello tag.

  \<^bold>\<open>Client crate\<close> (\<open>orcax/client/src\<close>).
  \<^item> \<open>Whitelist\<close> (\<open>whitelist.rs\<close>), \<open>Socks5\<close> (\<open>main.rs\<close>): no destination outside the whitelist
    leaves the tunnel and no input makes a handler panic.
  \<^item> \<open>Client_Mux\<close> (\<open>main.rs\<close>): the pool and the reader task as labelled runs in which the tasks
    interleave; every run delivers each stream's bytes in order.
  \<^item> \<open>Client_Config\<close>, \<open>Failover\<close>, \<open>Cdn\<close> (\<open>main.rs\<close>): start-up and authentication, the health
    monitor and its reconnect loop, the WebSocket mode.
  \<^item> \<open>Tunnel\<close> (\<open>tunnel.rs\<close>): the library form of the client, which panics on every request.
  \<^item> \<open>Brutal\<close> (\<open>brutal.rs\<close>): the congestion controller, with \<open>f64\<close> as rounded binary fractions.

  \<^bold>\<open>Termination.\<close> Loops over buffers are recursive functions with a measure (the distance to the
  end of the buffer or the bytes still to read). The reconnect loop and the reader task may run
  for ever and are \<open>partial_function (option)\<close>; that they end when the network comes back, or at
  the end of the stream, is proved. No model uses fuel.

  \<^bold>\<open>Not modelled.\<close> The Flutter user interface (\<open>src/lib\<close>), the platform shells (\<open>src/android\<close>,
  \<open>src/ios\<close>, \<open>src/macos\<close>, \<open>src/windows\<close>, \<open>src/linux\<close>) and the scripts only call platform
  interfaces. \<open>generate_cert\<close> of \<open>reality_cert.rs\<close> is one call of the certificate generator. TLS
  and QUIC set-up in \<open>main.rs\<close> are calls of rustls and quinn. The handshake state machines,
  certificate verification and the cryptographic providers of the rustls fork are unchanged
  upstream code.
\<close>

end
